(* ===== verification/Prelude.thy ===== *)
theory Prelude
  imports Main "HOL-Library.AList" "HOL-Library.Option_ord" "HOL-Library.Char_ord" "HOL-Library.Word"
begin

text \<open>
  Shared vocabulary of the development: machine integers, monotonic time, hash maps, the
  sliding-window contract and the least-recently-used eviction loop that several
  components of the code have in the same shape.

  \<^item> \<open>instant\<close> and \<open>duration\<close> stand for \<^verbatim>\<open>std::time::Instant\<close> and \<^verbatim>\<open>Duration\<close>, in
    nanoseconds. \<^verbatim>\<open>Instant::duration_since\<close> saturates at zero, as subtraction on
    \<open>nat\<close> does.
  \<^item> \<open>hmap\<close> stands for \<^verbatim>\<open>std::collections::HashMap\<close>: an association list. Its order is the
    iteration order of the moment, which matters where the code visits the whole map: a sweep, or
    the eviction of the oldest entry, where the first of several equally old entries goes. A theorem
    about one operation holds for every list, hence for every order. In a run from an empty map
    the order is that of insertion, one of the orders the real map may have; a theorem about runs
    that depends on which of equally old entries are evicted says so.
\<close>

section \<open>Integers and time\<close>

type_synonym u8 = "8 word"
type_synonym u16 = "16 word"
type_synonym u32 = "32 word"
type_synonym u64 = "64 word"
type_synonym bytes = "u8 list"

type_synonym instant = nat
type_synonym duration = nat

definition secs :: "nat \<Rightarrow> duration" where
  "secs n = n * 1000000000"

definition millis :: "nat \<Rightarrow> duration" where
  "millis n = n * 1000000"

definition duration_max :: duration where
  "duration_max = (2 ^ 64 - 1) * 1000000000 + 999999999"

definition saturating_mul :: "duration \<Rightarrow> nat \<Rightarrow> duration" where
  "saturating_mul d n = min (d * n) duration_max"

lemma unat_lt: "unat (w :: 'l::len word) < 2 ^ LENGTH('l)"
  by (rule unsigned_less)

lemma unat_u8: "unat (b :: u8) < 256"
  using unat_lt [of b] by simp

lemma unat_u16: "unat (b :: u16) < 65536"
  using unat_lt [of b] by simp

lemma unat_u32: "unat (b :: u32) < 4294967296"
  using unat_lt [of b] by simp

lemma unat_add1:
  fixes a :: "'l::len word"
  shows "Suc (unat a) < 2 ^ LENGTH('l) \<Longrightarrow> unat (a + 1) = Suc (unat a)"
  by (simp add: unat_word_ariths)

lemma unat_add1_below:
  fixes a b :: "'l::len word"
  assumes "Suc (unat a) < unat b \<or> Suc (unat a) = unat b"
  shows "unat (a + 1) = Suc (unat a)"
proof -
  have "unat b < 2 ^ LENGTH('l)" by (rule unsigned_less)
  with assms have "Suc (unat a) < 2 ^ LENGTH('l)" by (auto intro: less_trans)
  then show ?thesis by (rule unat_add1)
qed

named_theorems hm_simps \<open>hash-map facts\<close>
named_theorems inv_intros \<open>preservation of invariants\<close>
named_theorems frame_simps \<open>what an operation leaves unchanged\<close>

section \<open>Lists\<close>

text \<open>\<^verbatim>\<open>slice::chunks(n)\<close>: pieces of length \<open>n\<close>, the last one possibly shorter.\<close>

function chunks :: "nat \<Rightarrow> 'a list \<Rightarrow> 'a list list" where
  "chunks n xs = (if n = 0 \<or> xs = [] then [] else take n xs # chunks n (drop n xs))"
  by pat_completeness auto
termination
  by (relation "measure (\<lambda>(n, xs). length xs)") auto

declare chunks.simps [simp del]

lemma chunks_Nil [simp]: "chunks n [] = []"
  by (simp add: chunks.simps)

lemma concat_chunks [simp]: "0 < n \<Longrightarrow> concat (chunks n xs) = xs"
proof (induction n xs rule: chunks.induct)
  case (1 n xs)
  then show ?case by (subst chunks.simps) auto
qed

lemma chunks_pieces: "0 < n \<Longrightarrow> c \<in> set (chunks n xs) \<Longrightarrow> c \<noteq> [] \<and> length c \<le> n"
proof (induction n xs rule: chunks.induct)
  case (1 n xs)
  then show ?case by (cases "xs = []") (auto simp: chunks.simps [of n xs])
qed

section \<open>Decimal numbers\<close>

fun digits_of :: "nat \<Rightarrow> string" where
  "digits_of n = (if n < 10 then [char_of (48 + n)] else digits_of (n div 10) @ [char_of (48 + n mod 10)])"

declare digits_of.simps [simp del]

section \<open>Constant-time comparison\<close>

text \<open>The loop \<^verbatim>\<open>diff |= a ^ b\<close> over two buffers leaves zero exactly when they agree.\<close>

lemma xor_zero: "xor x y = (0 :: u8) \<longleftrightarrow> x = y"
proof
  assume "xor x y = 0"
  then have "xor x (xor x y) = x" by simp
  then show "x = y" by (simp add: xor.assoc [symmetric])
qed simp

lemma foldl_or_xor:
  "foldl (\<lambda>diff (x, y). or diff (xor x y)) d ps = (0 :: u8) \<longleftrightarrow> d = 0 \<and> list_all (\<lambda>(x, y). x = y) ps"
proof (induction ps arbitrary: d)
  case (Cons p ps)
  obtain x y where p: "p = (x, y)" by (cases p)
  have "or d (xor x y) = 0 \<longleftrightarrow> d = 0 \<and> x = y"
    by (auto simp: or_eq_0_iff xor_zero)
  then show ?case by (simp add: p Cons.IH)
qed simp

lemma xor_fold_eq:
  "length a = length b \<Longrightarrow> foldl (\<lambda>diff (x, y). or diff (xor x y)) (0 :: u8) (zip a b) = 0 \<longleftrightarrow> a = b"
proof -
  have "length a = length b \<Longrightarrow> list_all (\<lambda>(x, y). x = y) (zip a b) \<longleftrightarrow> a = b"
    by (induction rule: list_induct2) auto
  then show "length a = length b \<Longrightarrow> foldl (\<lambda>diff (x, y). or diff (xor x y)) (0 :: u8) (zip a b) = 0 \<longleftrightarrow> a = b"
    by (simp add: foldl_or_xor)
qed

section \<open>Hash maps\<close>

type_synonym ('k, 'v) hmap = "('k \<times> 'v) list"

abbreviation hm_get :: "('k, 'v) hmap \<Rightarrow> 'k \<Rightarrow> 'v option" where
  "hm_get m k \<equiv> map_of m k"

abbreviation hm_put :: "'k \<Rightarrow> 'v \<Rightarrow> ('k, 'v) hmap \<Rightarrow> ('k, 'v) hmap" where
  "hm_put \<equiv> AList.update"

abbreviation hm_del :: "'k \<Rightarrow> ('k, 'v) hmap \<Rightarrow> ('k, 'v) hmap" where
  "hm_del \<equiv> AList.delete"

definition hm_has :: "('k, 'v) hmap \<Rightarrow> 'k \<Rightarrow> bool" where
  "hm_has m k = (map_of m k \<noteq> None)"

definition hm_ok :: "('k, 'v) hmap \<Rightarrow> bool" where
  "hm_ok m = distinct (map fst m)"

definition hm_or_insert :: "'v \<Rightarrow> ('k, 'v) hmap \<Rightarrow> 'k \<Rightarrow> 'v" where
  "hm_or_insert d m k = (case map_of m k of None \<Rightarrow> d | Some v \<Rightarrow> v)"

lemma hm_ok_Nil [simp, inv_intros]: "hm_ok []"
  by (simp add: hm_ok_def)

lemma hm_get_put [simp, hm_simps]: "hm_get (hm_put k v m) k' = (if k' = k then Some v else hm_get m k')"
  by (simp add: update_conv')

lemma hm_get_del [simp, hm_simps]: "hm_get (hm_del k m) k' = (if k' = k then None else hm_get m k')"
  by (simp add: delete_conv')

lemma hm_ok_put [simp, inv_intros]: "hm_ok m \<Longrightarrow> hm_ok (hm_put k v m)"
  by (simp add: hm_ok_def distinct_update)

lemma hm_ok_del [simp, inv_intros]: "hm_ok m \<Longrightarrow> hm_ok (hm_del k m)"
  by (simp add: hm_ok_def distinct_delete)

lemma hm_ok_filter [simp, inv_intros]: "hm_ok m \<Longrightarrow> hm_ok (filter P m)"
  by (simp add: hm_ok_def distinct_map_filter)

lemma set_hm_put: "set (hm_put k v m) \<subseteq> insert (k, v) (set m)"
  by (induction m) auto

lemma set_hm_del: "set (hm_del k m) \<subseteq> set m"
  by (auto simp: AList.delete_eq)

lemma length_hm_put [hm_simps]:
  "length (hm_put k v m) = (if hm_has m k then length m else Suc (length m))"
  by (induction m) (auto simp: hm_has_def)

lemma hm_get_in_set: "hm_get m k = Some v \<Longrightarrow> (k, v) \<in> set m"
  by (rule map_of_SomeD)

lemma hm_get_iff_set: "hm_ok m \<Longrightarrow> hm_get m k = Some v \<longleftrightarrow> (k, v) \<in> set m"
  by (simp add: hm_ok_def map_of_eq_Some_iff)

lemma hm_has_iff [hm_simps]: "hm_has m k \<longleftrightarrow> k \<in> fst ` set m"
  by (simp add: hm_has_def map_of_eq_None_iff)

lemma hm_del_none [hm_simps]: "hm_get m k = None \<Longrightarrow> hm_del k m = m"
  by (simp add: AList.delete_eq filter_id_conv map_of_eq_None_iff image_iff split_def)

lemma length_hm_del_le: "length (hm_del k m) \<le> length m"
  by (simp add: AList.delete_eq)

lemma length_hm_del_less: "k \<in> fst ` set m \<Longrightarrow> length (hm_del k m) < length m"
proof -
  assume "k \<in> fst ` set m"
  then obtain v where "(k, v) \<in> set m" by force
  then show ?thesis
    by (auto simp: AList.delete_eq intro!: length_filter_less)
qed

lemma length_hm_del_Suc:
  "hm_ok m \<Longrightarrow> k \<in> fst ` set m \<Longrightarrow> Suc (length (hm_del k m)) = length m"
proof (induction m)
  case Nil
  then show ?case by simp
next
  case (Cons x m)
  show ?case
  proof (cases "fst x = k")
    case True
    with Cons.prems(1) have "hm_get m k = None" by (simp add: hm_ok_def map_of_eq_None_iff)
    with True show ?thesis by (simp add: hm_del_none)
  next
    case False
    with Cons show ?thesis by (auto simp: hm_ok_def)
  qed
qed

lemma hm_get_filter:
  "hm_ok m \<Longrightarrow> hm_get (filter P m) k =
     (case hm_get m k of None \<Rightarrow> None | Some v \<Rightarrow> if P (k, v) then Some v else None)"
proof (induction m)
  case Nil
  then show ?case by simp
next
  case (Cons x m)
  obtain a b where x: "x = (a, b)" by force
  from Cons.prems x have ok: "hm_ok m" and a: "hm_get m a = None"
    by (auto simp: hm_ok_def map_of_eq_None_iff)
  from Cons.IH [OF ok] a x show ?case by (auto split: option.splits)
qed

lemma hm_keys_le:
  "hm_ok m \<Longrightarrow> fst ` set m \<subseteq> K \<Longrightarrow> finite K \<Longrightarrow> length m \<le> card K"
  by (metis card_mono distinct_card hm_ok_def length_map set_map)

section \<open>The first minimum by a key, and least-recently-used eviction\<close>

text \<open>\<^verbatim>\<open>Iterator::min_by_key\<close>: the first of the minimal elements, \<open>None\<close> on an empty iterator.\<close>

fun min_by_key :: "('a \<Rightarrow> 'b::linorder) \<Rightarrow> 'a list \<Rightarrow> 'a option" where
  "min_by_key f [] = None"
| "min_by_key f (x # xs) =
     (case min_by_key f xs of
        None \<Rightarrow> Some x
      | Some y \<Rightarrow> if f x \<le> f y then Some x else Some y)"

lemma min_by_key_None [simp]: "min_by_key f xs = None \<longleftrightarrow> xs = []"
  by (induction xs) (auto split: option.splits)

lemma min_by_key_mem: "min_by_key f xs = Some x \<Longrightarrow> x \<in> set xs"
  by (induction xs arbitrary: x) (auto split: option.splits if_splits)

lemma min_by_key_le: "min_by_key f xs = Some x \<Longrightarrow> y \<in> set xs \<Longrightarrow> f x \<le> f y"
  by (induction xs arbitrary: x) (auto split: option.splits if_splits intro: order_trans)

text \<open>The loop \<^verbatim>\<open>while map.len() > cap { remove the key with the least age }\<close>.\<close>

function evict_to :: "('v \<Rightarrow> 'b::linorder) \<Rightarrow> nat \<Rightarrow> ('k, 'v) hmap \<Rightarrow> ('k, 'v) hmap" where
  "evict_to age cap m =
     (if cap < length m then
        case min_by_key (\<lambda>(k, v). age v) m of
          None \<Rightarrow> m
        | Some kv \<Rightarrow> evict_to age cap (hm_del (fst kv) m)
      else m)"
  by pat_completeness auto
termination
  by (relation "measure (\<lambda>(age, cap, m). length m)")
     (auto intro!: length_hm_del_less dest!: min_by_key_mem intro: rev_image_eqI)

declare evict_to.simps [simp del]

lemma evict_to_below [simp]: "length m \<le> cap \<Longrightarrow> evict_to age cap m = m"
  by (subst evict_to.simps) simp

lemma evict_to_length: "length (evict_to age cap m) \<le> cap"
proof (induction age cap m rule: evict_to.induct)
  case (1 age cap m)
  show ?case
  proof (cases "min_by_key (\<lambda>(k, v). age v) m")
    case None
    then show ?thesis by (subst evict_to.simps) auto
  next
    case (Some kv)
    with "1.IH" show ?thesis by (subst evict_to.simps) auto
  qed
qed

lemma evict_to_ok [simp, inv_intros]: "hm_ok m \<Longrightarrow> hm_ok (evict_to age cap m)"
proof (induction age cap m rule: evict_to.induct)
  case (1 age cap m)
  then show ?case
    by (subst evict_to.simps) (auto split: option.splits)
qed

lemma set_evict_to: "set (evict_to age cap m) \<subseteq> set m"
proof (induction age cap m rule: evict_to.induct)
  case (1 age cap m)
  then show ?case
    by (subst evict_to.simps) (auto split: option.splits simp: AList.delete_eq)
qed

text \<open>Eviction only ever removes the oldest: whatever survives is at least as recent.\<close>

lemma evict_to_keeps_recent:
  "hm_ok m \<Longrightarrow> (k, v) \<in> set m \<Longrightarrow> (k, v) \<notin> set (evict_to age cap m) \<Longrightarrow>
   (k', v') \<in> set (evict_to age cap m) \<Longrightarrow> age v \<le> age v'"
proof (induction age cap m rule: evict_to.induct)
  case (1 age cap m)
  show ?case
  proof (cases "cap < length m")
    case False
    with "1.prems" show ?thesis by (simp add: evict_to.simps [of age cap m])
  next
    case over: True
    then have "m \<noteq> []" by auto
    then obtain kv where kv: "min_by_key (\<lambda>(k, v). age v) m = Some kv"
      by (cases "min_by_key (\<lambda>(k, v). age v) m") auto
    let ?m = "hm_del (fst kv) m"
    have step: "evict_to age cap m = evict_to age cap ?m"
      using over kv by (simp add: evict_to.simps [of age cap m])
    have in': "(k', v') \<in> set m"
      using "1.prems"(4) set_evict_to by blast
    show ?thesis
    proof (cases "k = fst kv")
      case True
      have "kv = (k, v)"
        using True min_by_key_mem [OF kv] "1.prems"(1,2)
        by (metis hm_get_iff_set option.inject prod.collapse)
      with min_by_key_le [OF kv in'] show ?thesis by simp
    next
      case False
      with "1.prems"(2) have "(k, v) \<in> set ?m" by (simp add: AList.delete_eq)
      with "1.IH" [OF over kv] "1.prems" step show ?thesis by simp
    qed
  qed
qed

text \<open>Changing the values of a map and nothing else: the operations commute with it.\<close>

definition hm_map :: "('v \<Rightarrow> 'w) \<Rightarrow> ('k, 'v) hmap \<Rightarrow> ('k, 'w) hmap" where
  "hm_map h m = map (\<lambda>(k, v). (k, h v)) m"

lemma length_hm_map [simp, hm_simps]: "length (hm_map h m) = length m"
  by (simp add: hm_map_def)

lemma hm_map_Nil [simp]: "hm_map h [] = []"
  by (simp add: hm_map_def)

lemma hm_get_map [simp, hm_simps]: "hm_get (hm_map h m) k = map_option h (hm_get m k)"
  by (induction m) (auto simp: hm_map_def)

lemma hm_map_put [hm_simps]: "hm_map h (hm_put k v m) = hm_put k (h v) (hm_map h m)"
  by (induction m) (auto simp: hm_map_def)

lemma hm_map_del [hm_simps]: "hm_map h (hm_del k m) = hm_del k (hm_map h m)"
  by (induction m) (auto simp: hm_map_def)

lemma hm_map_filter [hm_simps]:
  "hm_map h (filter (\<lambda>(k, v). P k (h v)) m) = filter (\<lambda>(k, v). P k v) (hm_map h m)"
  by (induction m) (auto simp: hm_map_def)

lemma hm_or_insert_map [hm_simps]: "hm_or_insert (h d) (hm_map h m) k = h (hm_or_insert d m k)"
  by (simp add: hm_or_insert_def split: option.splits)

lemma min_by_key_map: "min_by_key f (map g xs) = map_option g (min_by_key (\<lambda>x. f (g x)) xs)"
  by (induction xs) (auto split: option.splits)

lemma evict_to_map [hm_simps]:
  "hm_map h (evict_to (\<lambda>v. age (h v)) cap m) = evict_to age cap (hm_map h m)"
proof (induction "\<lambda>v. age (h v)" cap m rule: evict_to.induct)
  case (1 cap m)
  have min: "min_by_key (\<lambda>(k, v). age v) (hm_map h m) =
      map_option (\<lambda>(k, v). (k, h v)) (min_by_key (\<lambda>(k, v). age (h v)) m)"
    by (simp add: hm_map_def min_by_key_map split_def)
  show ?case
    using 1
    by (auto simp: evict_to.simps [of _ cap m] evict_to.simps [of age cap "hm_map h m"] min hm_map_del
        split: option.splits)
qed

section \<open>Sliding windows\<close>

text \<open>
  Several limiters of the code keep the stamps of what they let through, drop the stale
  ones, and refuse when \<open>limit\<close> stamps are left. \<open>admissions\<close> runs such a gate over a
  sequence of timed events and lists the instants of those it let through.
\<close>

fun admissions :: "(instant \<Rightarrow> 'e \<Rightarrow> 's \<Rightarrow> bool \<times> 's) \<Rightarrow> 's \<Rightarrow> (instant \<times> 'e) list \<Rightarrow> instant list" where
  "admissions gate s [] = []"
| "admissions gate s ((t, e) # es) =
     (case gate t e s of (ok, s') \<Rightarrow> (if ok then [t] else []) @ admissions gate s' es)"

text \<open>
  The contract. \<open>stale now t\<close>: the stamp \<open>t\<close> is outside the window at \<open>now\<close>. On the
  events the client cares for, a gate keeps its own invariant and forgets only a prefix of
  stale stamps; when it lets a request through it appends the current instant and holds at
  most \<open>limit\<close> stamps.
\<close>

locale sliding_window =
  fixes gate :: "instant \<Rightarrow> 'e \<Rightarrow> 's \<Rightarrow> bool \<times> 's"
    and stamps :: "'s \<Rightarrow> instant list"
    and limit :: nat
    and stale :: "instant \<Rightarrow> instant \<Rightarrow> bool"
    and inv :: "'s \<Rightarrow> bool"
    and event_ok :: "'e \<Rightarrow> bool"
  assumes stale_mono: "now \<le> now' \<Longrightarrow> stale now t \<Longrightarrow> stale now' t"
    and gate_inv: "inv s \<Longrightarrow> event_ok e \<Longrightarrow> gate now e s = (ok, s') \<Longrightarrow> inv s'"
    and gate_drop: "inv s \<Longrightarrow> event_ok e \<Longrightarrow> sorted (stamps s) \<Longrightarrow> \<forall>t\<in>set (stamps s). t \<le> now \<Longrightarrow>
      gate now e s = (ok, s') \<Longrightarrow>
      \<exists>k. stamps s' = drop k (stamps s) @ (if ok then [now] else []) \<and>
          (\<forall>t\<in>set (take k (stamps s)). stale now t) \<and> (ok \<longrightarrow> length (stamps s') \<le> limit)"
begin

text \<open>
  The invariant between the stamps held and the history of admissions: the stamps are a
  suffix of the history, and what was forgotten is stale.
\<close>

definition covers :: "instant \<Rightarrow> 's \<Rightarrow> instant list \<Rightarrow> bool" where
  "covers now s hist \<longleftrightarrow>
     inv s \<and> sorted hist \<and> (\<forall>t\<in>set hist. t \<le> now) \<and>
     (\<exists>k. stamps s = drop k hist \<and> (\<forall>t\<in>set (take k hist). stale now t)) \<and>
     (\<forall>i. i + limit < length hist \<longrightarrow> stale (hist ! (i + limit)) (hist ! i))"

lemma covers_later: "covers now s hist \<Longrightarrow> now \<le> now' \<Longrightarrow> covers now' s hist"
  unfolding covers_def by (blast intro: stale_mono order_trans)

lemma covers_step:
  assumes cov: "covers now s hist" and ev: "event_ok e" and g: "gate now e s = (ok, s')"
  shows "covers now s' (hist @ (if ok then [now] else []))"
proof -
  let ?new = "if ok then [now] else []"
  let ?h = "hist @ ?new"
  from cov obtain k where k: "stamps s = drop k hist" and old: "\<forall>t\<in>set (take k hist). stale now t"
    and srt: "sorted hist" and le: "\<forall>t\<in>set hist. t \<le> now"
    and sp: "\<And>i. i + limit < length hist \<Longrightarrow> stale (hist ! (i + limit)) (hist ! i)"
    and inv: "inv s"
    by (auto simp: covers_def)
  have "sorted (stamps s)" "\<forall>t\<in>set (stamps s). t \<le> now"
    using srt le k by (auto dest: in_set_dropD)
  from gate_drop [OF inv ev this g] obtain j where
    j: "stamps s' = drop j (stamps s) @ ?new" "\<forall>t\<in>set (take j (stamps s)). stale now t"
      "ok \<longrightarrow> length (stamps s') \<le> limit" by blast
  define n where "n = min (j + k) (length hist)"
  have n: "n \<le> length hist" "drop n hist = drop (j + k) hist" by (auto simp: n_def min_def)
  have suffix: "stamps s' = drop n ?h"
    using j(1) k n by (simp add: n_def)
  have gone: "\<forall>t\<in>set (take n ?h). stale now t"
  proof
    fix t assume "t \<in> set (take n ?h)"
    then have "t \<in> set (take (k + j) hist)" using n by (auto simp: n_def min_def add.commute split: if_splits)
    then have "t \<in> set (take k hist) \<or> t \<in> set (take j (drop k hist))"
      by (simp add: take_add)
    then show "stale now t" using old j(2) k by auto
  qed
  have spaced: "stale (?h ! (i + limit)) (?h ! i)" if i: "i + limit < length ?h" for i
  proof (cases "i + limit < length hist")
    case True
    with sp show ?thesis by (simp add: nth_append)
  next
    case False
    with i have ok: ok and len: "i + limit = length hist" by (auto split: if_splits)
    have "length (stamps s') = Suc (length hist) - n" using suffix ok by simp
    with j(3) ok len n(1) have "i < n" by simp
    with n(1) have "?h ! i \<in> set (take n ?h)"
      by (metis length_append nth_mem length_take min.absorb2 nth_take trans_le_add1)
    with gone ok len show ?thesis by (simp add: nth_append)
  qed
  have sorted_h: "sorted ?h" and le_h: "\<forall>t\<in>set ?h. t \<le> now"
    using srt le by (auto simp: sorted_append)
  have "\<exists>m. stamps s' = drop m ?h \<and> (\<forall>t\<in>set (take m ?h). stale now t)"
    using suffix gone by blast
  with sorted_h le_h spaced gate_inv [OF inv ev g] show ?thesis unfolding covers_def by blast
qed

lemma admissions_covers:
  "covers now s hist \<Longrightarrow> sorted (now # map fst es) \<Longrightarrow> \<forall>e\<in>snd ` set es. event_ok e \<Longrightarrow>
   i + limit < length (hist @ admissions gate s es) \<Longrightarrow>
   stale ((hist @ admissions gate s es) ! (i + limit)) ((hist @ admissions gate s es) ! i)"
proof (induction es arbitrary: now s hist)
  case Nil
  then show ?case by (simp add: covers_def)
next
  case (Cons te es)
  obtain t e where te: "te = (t, e)" by force
  obtain ok s' where g: "gate t e s = (ok, s')" by (cases "gate t e s")
  have "covers t s' (hist @ (if ok then [t] else []))"
    using covers_step [OF covers_later [OF Cons.prems(1)] _ g] Cons.prems(2,3) te by simp
  from Cons.IH [OF this] Cons.prems(2,3,4) g te show ?case by simp
qed

text \<open>Among any \<open>limit + 1\<close> consecutive admissions the first is outside the window of the last.\<close>

lemma admissions_spaced:
  assumes "sorted (map fst es)" and "\<forall>e\<in>snd ` set es. event_ok e" and "inv s" and "stamps s = []"
    and "i + limit < length (admissions gate s es)"
  shows "stale (admissions gate s es ! (i + limit)) (admissions gate s es ! i)"
proof -
  have "covers 0 s []" using assms(3,4) by (simp add: covers_def)
  from admissions_covers [OF this, of es i] assms show ?thesis by simp
qed

end

text \<open>Stale stamps of a sorted queue are a prefix of it: popping from the front and filtering agree.\<close>

lemma takeWhile_stale: "t \<in> set (takeWhile P xs) \<Longrightarrow> P t"
  by (rule set_takeWhileD [THEN conjunct2])

lemma dropWhile_as_drop:
  "\<exists>k. dropWhile P xs = drop k xs \<and> (\<forall>t\<in>set (take k xs). P t)"
  by (rule exI [of _ "length (takeWhile P xs)"])
     (metis dropWhile_eq_drop takeWhile_eq_take takeWhile_stale)

lemma filter_sorted_as_dropWhile:
  assumes "sorted xs" and mono: "\<And>s t. s \<le> t \<Longrightarrow> P s \<Longrightarrow> P t"
  shows "filter P xs = dropWhile (\<lambda>t. \<not> P t) xs"
  using assms(1)
proof (induction xs)
  case Nil
  then show ?case by simp
next
  case (Cons x xs)
  show ?case
  proof (cases "P x")
    case True
    with Cons.prems mono have "\<forall>y\<in>set xs. P y" by auto
    with True show ?thesis by (simp add: filter_id_conv)
  next
    case False
    with Cons show ?thesis by simp
  qed
qed

end
