(* ===== verification/NetAddr.thy ===== *)
theory NetAddr
  imports Prelude
begin

text \<open>
  Network addresses as \<^verbatim>\<open>std::net\<close> has them: an IPv4 address is four octets, an IPv6
  address eight 16-bit segments, a socket address an IP with a port. \<open>bucket_key\<close> and
  \<open>canonical_ip\<close> are the aggregation functions of \<^verbatim>\<open>relay/src/rate_limit.rs\<close>, used by
  the rate limiter and by the rendezvous server.
\<close>

datatype ip_addr =
    V4 u8 u8 u8 u8
  | V6 u16 u16 u16 u16 u16 u16 u16 u16

datatype socket_addr = SocketAddr (sa_ip: ip_addr) (sa_port: u16)

text \<open>Aggregation (F-10a): IPv4 to its /24, IPv6 to its /64.\<close>

fun bucket_key :: "ip_addr \<Rightarrow> ip_addr" where
  "bucket_key (V4 a b c d) = V4 a b c 0"
| "bucket_key (V6 a b c d e f g h) = V6 a b c d 0 0 0 0"

text \<open>
  \<^verbatim>\<open>Ipv6Addr::to_ipv4_mapped\<close>: the address \<open>::ffff:a.b.c.d\<close> read as IPv4, the two low
  segments split into their big-endian octets.
\<close>

fun to_ipv4_mapped :: "ip_addr \<Rightarrow> ip_addr option" where
  "to_ipv4_mapped (V6 a b c d e f g h) =
     (if a = 0 \<and> b = 0 \<and> c = 0 \<and> d = 0 \<and> e = 0 \<and> f = 0xFFFF
      then Some (V4 (ucast (drop_bit 8 g)) (ucast g) (ucast (drop_bit 8 h)) (ucast h))
      else None)"
| "to_ipv4_mapped (V4 a b c d) = None"

fun canonical_ip :: "ip_addr \<Rightarrow> ip_addr" where
  "canonical_ip (V6 a b c d e f g h) =
     (case to_ipv4_mapped (V6 a b c d e f g h) of
        Some v4 \<Rightarrow> v4
      | None \<Rightarrow> V6 a b c d e f g h)"
| "canonical_ip (V4 a b c d) = V4 a b c d"

lemma bucket_key_idem [simp]: "bucket_key (bucket_key ip) = bucket_key ip"
  by (cases ip) auto

lemma canonical_ip_idem [simp]: "canonical_ip (canonical_ip ip) = canonical_ip ip"
  by (cases ip) auto

text \<open>The IPv4-mapped form of an IPv4 address.\<close>

fun mapped_v6 :: "ip_addr \<Rightarrow> ip_addr" where
  "mapped_v6 (V4 a b c d) =
     V6 0 0 0 0 0 0xFFFF (push_bit 8 (ucast a) + ucast b) (push_bit 8 (ucast c) + ucast d)"
| "mapped_v6 ip = ip"

lemma octets_of_segment:
  fixes a b :: u8
  shows "(ucast (drop_bit 8 (push_bit 8 (ucast a :: u16) + ucast b)) :: u8) = a"
    and "(ucast (push_bit 8 (ucast a :: u16) + ucast b) :: u8) = b"
proof -
  have a: "unat a < 256" and b: "unat b < 256"
    using unsigned_less [of a] unsigned_less [of b] by simp_all
  have ua: "unat (ucast a :: u16) = unat a" and ub: "unat (ucast b :: u16) = unat b"
    using a b by (simp_all add: unsigned_ucast_eq take_bit_eq_mod)
  have pa: "unat (push_bit 8 (ucast a :: u16)) = unat a * 256"
    using a ua by (simp add: push_bit_eq_mult unat_word_ariths)
  have sum: "unat (push_bit 8 (ucast a :: u16) + ucast b) = unat a * 256 + unat b"
    using a b pa ub by (simp add: unat_word_ariths)
  have high: "unat (drop_bit 8 (push_bit 8 (ucast a :: u16) + ucast b)) = unat a"
    by (subst unsigned_drop_bit_eq) (use a b in \<open>simp add: sum take_bit_eq_mod drop_bit_eq_div\<close>)
  show "(ucast (drop_bit 8 (push_bit 8 (ucast a :: u16) + ucast b)) :: u8) = a"
    using a by (simp add: word_unat_eq_iff unsigned_ucast_eq high take_bit_eq_mod)
  show "(ucast (push_bit 8 (ucast a :: u16) + ucast b) :: u8) = b"
    using a b by (simp add: word_unat_eq_iff unsigned_ucast_eq sum take_bit_eq_mod)
qed

text \<open>
  A dual-stack listener shows an IPv4 client in mapped form; canonicalisation gives back the
  client's own IPv4 address, so both forms share one bucket.
\<close>

lemma canonical_mapped: "canonical_ip (mapped_v6 (V4 a b c d)) = V4 a b c d"
  by (simp add: octets_of_segment)

end
