(* ===== verification/Relay_RateLimit.thy ===== *)
theory Relay_RateLimit
  imports NetAddr
begin

text \<open>
  The relay's rate limiter, \<^verbatim>\<open>relay/src/rate_limit.rs\<close>: per aggregated address a sliding
  window of connection attempts, a failure counter that bans the address, and a bounded
  bucket table. Every operation of the code takes \<^verbatim>\<open>Instant::now()\<close>; here the instant is
  the parameter \<open>now\<close>. \<^verbatim>\<open>u32\<close> counters are 32-bit words with the release build's
  wrap-around.
\<close>

section \<open>Configuration and state\<close>

record rl_config =
  max_attempts :: nat
  attempt_window :: duration
  failure_threshold :: u32
  ban_duration :: duration

definition rl_config_default :: rl_config where
  "rl_config_default = \<lparr>max_attempts = 3, attempt_window = secs 30,
     failure_threshold = 5, ban_duration = secs (15 * 60)\<rparr>"

definition tunnel_conn_default :: rl_config where
  "tunnel_conn_default = \<lparr>max_attempts = 10, attempt_window = secs 30,
     failure_threshold = 5, ban_duration = secs (15 * 60)\<rparr>"

definition MAX_BUCKETS :: nat where
  "MAX_BUCKETS = 4096"

datatype decision = Allowed | TooManyAttempts | Banned

record bucket =
  attempts :: "instant list"
  handshake_failures :: u32
  banned_until :: "instant option"
  last_seen :: instant
  ban_count :: u32

definition bucket_new :: "instant \<Rightarrow> bucket" where
  "bucket_new now = \<lparr>attempts = [], handshake_failures = 0, banned_until = None,
     last_seen = now, ban_count = 0\<rparr>"

record limiter =
  rl_cfg :: rl_config
  buckets :: "(ip_addr, bucket) hmap"

definition with_config :: "rl_config \<Rightarrow> limiter" where
  "with_config cfg = \<lparr>rl_cfg = cfg, buckets = []\<rparr>"

lemma cfg_with_config [simp]: "rl_cfg (with_config cfg) = cfg"
  by (simp add: with_config_def)

section \<open>Operations\<close>

definition escalate_ban_duration :: "duration \<Rightarrow> u32 \<Rightarrow> duration" where
  "escalate_ban_duration base count =
     saturating_mul base (unat (push_bit (unat (min count 2)) (1 :: u32)))"

definition sat_add1_u32 :: "u32 \<Rightarrow> u32" where
  "sat_add1_u32 c = (if c = - 1 then c else c + 1)"

text \<open>
  The table maintenance: nothing below the cap; above it first the buckets without any live
  state go, then the least recently seen ones until the cap holds.
\<close>

definition bucket_live :: "rl_config \<Rightarrow> instant \<Rightarrow> bucket \<Rightarrow> bool" where
  "bucket_live cfg now b =
     ((case attempts b of
         [] \<Rightarrow> False
       | _ \<Rightarrow> now - last (attempts b) \<le> attempt_window cfg + ban_duration cfg)
      \<or> 0 < handshake_failures b \<or> banned_until b \<noteq> None)"

definition maybe_prune :: "instant \<Rightarrow> limiter \<Rightarrow> limiter" where
  "maybe_prune now l =
     (if length (buckets l) \<le> MAX_BUCKETS then l
      else l\<lparr>buckets := evict_to last_seen MAX_BUCKETS
               (filter (\<lambda>(k, b). bucket_live (rl_cfg l) now b) (buckets l))\<rparr>)"

text \<open>
  \<open>bucket_check\<close> is the body of \<^verbatim>\<open>check_connect\<close> on the bucket it has looked up: pop the
  stamps outside the window, refuse while banned, lift an expired ban and clear the failures
  with it, refuse a full window, else count the attempt.
\<close>

definition bucket_check :: "rl_config \<Rightarrow> instant \<Rightarrow> bucket \<Rightarrow> decision \<times> bucket" where
  "bucket_check cfg now b0 =
     (let b = b0\<lparr>last_seen := now,
                 attempts := dropWhile (\<lambda>t. attempt_window cfg < now - t) (attempts b0)\<rparr>
      in if (case banned_until b of Some until \<Rightarrow> now < until | None \<Rightarrow> False) then (Banned, b)
         else let b' = (case banned_until b of
                          Some _ \<Rightarrow> b\<lparr>banned_until := None, handshake_failures := 0\<rparr>
                        | None \<Rightarrow> b)
              in if max_attempts cfg \<le> length (attempts b') then (TooManyAttempts, b')
                 else (Allowed, b'\<lparr>attempts := attempts b' @ [now]\<rparr>))"

definition check_connect :: "instant \<Rightarrow> ip_addr \<Rightarrow> limiter \<Rightarrow> decision \<times> limiter" where
  "check_connect now ip l =
     (let key = bucket_key ip;
          (d, b) = bucket_check (rl_cfg l) now (hm_or_insert (bucket_new now) (buckets l) key);
          l' = l\<lparr>buckets := hm_put key b (buckets l)\<rparr>
      in (d, if d = Allowed then maybe_prune now l' else l'))"

definition bucket_fail :: "rl_config \<Rightarrow> instant \<Rightarrow> bucket \<Rightarrow> bucket" where
  "bucket_fail cfg now b0 =
     (let b = b0\<lparr>last_seen := now\<rparr>;
          b = (case banned_until b of
                 Some until \<Rightarrow> if until \<le> now
                   then b\<lparr>banned_until := None, handshake_failures := 0\<rparr> else b
               | None \<Rightarrow> b);
          b = b\<lparr>handshake_failures := handshake_failures b + 1\<rparr>
      in if failure_threshold cfg \<le> handshake_failures b
         then b\<lparr>banned_until := Some (now + escalate_ban_duration (ban_duration cfg) (ban_count b)),
                ban_count := min (sat_add1_u32 (ban_count b)) 3\<rparr>
         else b)"

definition record_handshake_failure :: "instant \<Rightarrow> ip_addr \<Rightarrow> limiter \<Rightarrow> limiter" where
  "record_handshake_failure now ip l =
     (let key = bucket_key ip
      in l\<lparr>buckets := hm_put key
             (bucket_fail (rl_cfg l) now (hm_or_insert (bucket_new now) (buckets l) key)) (buckets l)\<rparr>)"

definition is_banned :: "instant \<Rightarrow> ip_addr \<Rightarrow> limiter \<Rightarrow> bool" where
  "is_banned now ip l =
     (case Option.bind (hm_get (buckets l) (bucket_key ip)) banned_until of
        Some until \<Rightarrow> now < until
      | None \<Rightarrow> False)"

definition reset :: "ip_addr \<Rightarrow> limiter \<Rightarrow> limiter" where
  "reset ip l =
     (case hm_get (buckets l) (bucket_key ip) of
        Some b \<Rightarrow> l\<lparr>buckets := hm_put (bucket_key ip)
                    (b\<lparr>attempts := [], handshake_failures := 0, ban_count := 0\<rparr>) (buckets l)\<rparr>
      | None \<Rightarrow> l)"

section \<open>The bucket table\<close>

text \<open>Well-formedness: one bucket per aggregated key.\<close>

definition limiter_ok :: "limiter \<Rightarrow> bool" where
  "limiter_ok l \<longleftrightarrow> hm_ok (buckets l) \<and> (\<forall>k \<in> fst ` set (buckets l). bucket_key k = k)"

lemma fst_set_hm_put: "fst ` set (hm_put k v m) = insert k (fst ` set m)"
  by (simp add: dom_update)

lemma maybe_prune_ok [inv_intros]: "limiter_ok l \<Longrightarrow> limiter_ok (maybe_prune now l)"
  using set_evict_to [of last_seen MAX_BUCKETS
      "filter (\<lambda>(k, b). bucket_live (rl_cfg l) now b) (buckets l)"]
  by (fastforce simp: limiter_ok_def maybe_prune_def)

lemma maybe_prune_length: "length (buckets (maybe_prune now l)) \<le> MAX_BUCKETS"
  by (simp add: maybe_prune_def evict_to_length)

lemma maybe_prune_small [simp]: "length (buckets l) \<le> MAX_BUCKETS \<Longrightarrow> maybe_prune now l = l"
  by (simp add: maybe_prune_def)

lemma limiter_ok_put [inv_intros]:
  "limiter_ok l \<Longrightarrow> limiter_ok (l\<lparr>buckets := hm_put (bucket_key ip) b (buckets l)\<rparr>)"
  by (auto simp: limiter_ok_def dom_update)

lemma check_connect_ok [inv_intros]: "limiter_ok l \<Longrightarrow> limiter_ok (snd (check_connect now ip l))"
  by (simp add: check_connect_def Let_def split_def limiter_ok_put maybe_prune_ok)

lemma record_failure_ok [inv_intros]: "limiter_ok l \<Longrightarrow> limiter_ok (record_handshake_failure now ip l)"
  by (simp add: record_handshake_failure_def Let_def limiter_ok_put)

lemma reset_ok [inv_intros]: "limiter_ok l \<Longrightarrow> limiter_ok (reset ip l)"
  by (simp add: reset_def limiter_ok_put split: option.splits)

section \<open>The sliding window\<close>

datatype rl_event = Attempt ip_addr | AuthFailure ip_addr

definition rl_event_ip :: "rl_event \<Rightarrow> ip_addr" where
  "rl_event_ip e = (case e of Attempt ip \<Rightarrow> ip | AuthFailure ip \<Rightarrow> ip)"

text \<open>One event of the limiter, seen from the key \<open>k\<close>: true when it admitted an attempt of \<open>k\<close>.\<close>

definition rl_gate :: "ip_addr \<Rightarrow> instant \<Rightarrow> rl_event \<Rightarrow> limiter \<Rightarrow> bool \<times> limiter" where
  "rl_gate k now e l =
     (case e of
        Attempt ip \<Rightarrow> (case check_connect now ip l of
            (d, l') \<Rightarrow> (d = Allowed \<and> bucket_key ip = k, l'))
      | AuthFailure ip \<Rightarrow> (False, record_handshake_failure now ip l))"

definition rl_stamps :: "ip_addr \<Rightarrow> limiter \<Rightarrow> instant list" where
  "rl_stamps k l = (case hm_get (buckets l) k of None \<Rightarrow> [] | Some b \<Rightarrow> attempts b)"

lemma bucket_check_window:
  assumes "bucket_check cfg now b = (d, b')"
  shows "\<exists>k. attempts b' = drop k (attempts b) @ (if d = Allowed then [now] else []) \<and>
           (\<forall>t\<in>set (take k (attempts b)). attempt_window cfg < now - t) \<and>
           (d = Allowed \<longrightarrow> length (attempts b') \<le> max_attempts cfg)"
proof -
  obtain k where k: "dropWhile (\<lambda>t. attempt_window cfg < now - t) (attempts b) = drop k (attempts b)"
    "\<forall>t\<in>set (take k (attempts b)). attempt_window cfg < now - t"
    using dropWhile_as_drop [of "\<lambda>t. attempt_window cfg < now - t" "attempts b"] by metis
  from assms k(1) have "attempts b' = drop k (attempts b) @ (if d = Allowed then [now] else []) \<and>
    (d = Allowed \<longrightarrow> length (attempts b') \<le> max_attempts cfg)"
    by (auto simp: bucket_check_def Let_def split: if_splits option.splits)
  with k(2) show ?thesis by blast
qed

lemma bucket_fail_attempts [frame_simps, simp]: "attempts (bucket_fail cfg now b) = attempts b"
  by (simp add: bucket_fail_def Let_def split: option.splits)

text \<open>
  The limiter under a bounded set \<open>K\<close> of aggregated keys: with at most \<open>MAX_BUCKETS\<close> of them
  the table is never pruned.
\<close>

definition rl_within :: "rl_config \<Rightarrow> ip_addr set \<Rightarrow> limiter \<Rightarrow> bool" where
  "rl_within cfg K l \<longleftrightarrow> limiter_ok l \<and> rl_cfg l = cfg \<and> fst ` set (buckets l) \<subseteq> K"

lemma rl_within_put:
  "rl_within cfg K l \<Longrightarrow> bucket_key ip \<in> K \<Longrightarrow>
   rl_within cfg K (l\<lparr>buckets := hm_put (bucket_key ip) b (buckets l)\<rparr>)"
  by (auto simp: rl_within_def limiter_ok_put dom_update)

lemma check_connect_within:
  assumes w: "rl_within cfg K l" and K: "finite K" "card K \<le> MAX_BUCKETS" "bucket_key ip \<in> K"
  shows "check_connect now ip l =
    (case bucket_check cfg now (hm_or_insert (bucket_new now) (buckets l) (bucket_key ip)) of
       (d, b) \<Rightarrow> (d, l\<lparr>buckets := hm_put (bucket_key ip) b (buckets l)\<rparr>))"
proof -
  have "length (hm_put (bucket_key ip) b (buckets l)) \<le> MAX_BUCKETS" for b
    using hm_keys_le [of "hm_put (bucket_key ip) b (buckets l)" K] rl_within_put [OF w K(3), of b] K
    by (simp add: rl_within_def limiter_ok_def)
  with w show ?thesis
    by (simp add: check_connect_def Let_def split_def rl_within_def)
qed

lemma rl_gate_contract:
  assumes w: "rl_within cfg K l" and K: "finite K" "card K \<le> MAX_BUCKETS"
    and e: "bucket_key (rl_event_ip e) \<in> K" and g: "rl_gate k now e l = (ok, l')"
  shows "rl_within cfg K l'" (is ?inv)
    and "\<exists>j. rl_stamps k l' = drop j (rl_stamps k l) @ (if ok then [now] else []) \<and>
           (\<forall>t\<in>set (take j (rl_stamps k l)). attempt_window cfg < now - t) \<and>
           (ok \<longrightarrow> length (rl_stamps k l') \<le> max_attempts cfg)" (is ?drop)
proof -
  have "?inv \<and> ?drop"
  proof (cases e)
    case (Attempt ip)
    let ?b0 = "hm_or_insert (bucket_new now) (buckets l) (bucket_key ip)"
    obtain d b where b: "bucket_check cfg now ?b0 = (d, b)" by force
    have ip: "bucket_key ip \<in> K" using e Attempt by (simp add: rl_event_ip_def)
    have l': "l' = l\<lparr>buckets := hm_put (bucket_key ip) b (buckets l)\<rparr>"
      and ok: "ok \<longleftrightarrow> d = Allowed \<and> bucket_key ip = k"
      using g Attempt b by (auto simp: rl_gate_def check_connect_within [OF w K ip])
    have s: "attempts ?b0 = rl_stamps (bucket_key ip) l"
      by (simp add: hm_or_insert_def rl_stamps_def bucket_new_def split: option.splits)
    show ?thesis
    proof (cases "bucket_key ip = k")
      case True
      with bucket_check_window [OF b] s ok l' rl_within_put [OF w ip, of b]
      show ?thesis by (simp add: rl_stamps_def)
    next
      case False
      with ok l' rl_within_put [OF w ip, of b] show ?thesis
        by (auto simp: rl_stamps_def intro: exI [of _ 0])
    qed
  next
    case (AuthFailure ip)
    have ip: "bucket_key ip \<in> K" using e AuthFailure by (simp add: rl_event_ip_def)
    have l': "l' = record_handshake_failure now ip l" and ok: "\<not> ok"
      using g AuthFailure by (simp_all add: rl_gate_def)
    have "rl_stamps k l' = rl_stamps k l"
      by (simp add: l' record_handshake_failure_def Let_def rl_stamps_def hm_or_insert_def
          bucket_new_def split: option.splits)
    with ok l' rl_within_put [OF w ip] show ?thesis
      by (auto simp: record_handshake_failure_def Let_def intro: exI [of _ 0])
  qed
  then show ?inv and ?drop by blast+
qed

text \<open>
  The contract holds for the limiter whenever the event addresses fall into a set \<open>K\<close> of keys
  with at most \<open>MAX_BUCKETS\<close> elements; with a larger set the gate is the same function but an
  eviction may forget live stamps, so \<open>K\<close> is part of the interpretation. \<open>rl_cap K\<close> reads an
  oversized \<open>K\<close> as empty, so that the interpretation needs no side condition.
\<close>

definition rl_cap :: "ip_addr set \<Rightarrow> ip_addr set" where
  "rl_cap K = (if finite K \<and> card K \<le> MAX_BUCKETS then K else {})"

lemma rl_cap_bounds: "finite (rl_cap K)" "card (rl_cap K) \<le> MAX_BUCKETS"
  by (simp_all add: rl_cap_def)

interpretation rl_win: sliding_window "rl_gate k" "rl_stamps k" "max_attempts cfg"
  "\<lambda>now t. attempt_window cfg < now - t" "rl_within cfg (rl_cap K)"
  "\<lambda>e. bucket_key (rl_event_ip e) \<in> rl_cap K"
  for k cfg K
proof unfold_locales
  fix now now' t :: nat
  show "now \<le> now' \<Longrightarrow> attempt_window cfg < now - t \<Longrightarrow> attempt_window cfg < now' - t" by simp
next
  fix s e now ok s'
  assume *: "rl_within cfg (rl_cap K) s" "bucket_key (rl_event_ip e) \<in> rl_cap K"
    "rl_gate k now e s = (ok, s')"
  show "rl_within cfg (rl_cap K) s'"
    using rl_gate_contract(1) [OF *(1) rl_cap_bounds *(2,3)] .
next
  fix s e now ok s'
  assume *: "rl_within cfg (rl_cap K) s" "bucket_key (rl_event_ip e) \<in> rl_cap K"
    "rl_gate k now e s = (ok, s')"
  show "\<exists>j. rl_stamps k s' = drop j (rl_stamps k s) @ (if ok then [now] else []) \<and>
          (\<forall>t\<in>set (take j (rl_stamps k s)). attempt_window cfg < now - t) \<and>
          (ok \<longrightarrow> length (rl_stamps k s') \<le> max_attempts cfg)"
    using rl_gate_contract(2) [OF *(1) rl_cap_bounds *(2,3)] .
qed

text \<open>
  The sliding window of the relay's limiter. Start from an empty limiter and run any
  sequence of connection attempts and authentication failures, in order of time, whose
  addresses aggregate to at most \<open>MAX_BUCKETS\<close> subnets. For every subnet, of any
  \<open>max_attempts + 1\<close> consecutive attempts that were allowed, the first lies more than
  \<open>attempt_window\<close> before the last: no window ever lets more than \<open>max_attempts\<close> through.
\<close>
theorem connect_window:
  assumes "sorted (map fst es)"
    and "card (bucket_key ` rl_event_ip ` snd ` set es) \<le> MAX_BUCKETS"
    and "i + max_attempts cfg < length (admissions (rl_gate k) (with_config cfg) es)"
  shows "attempt_window cfg < admissions (rl_gate k) (with_config cfg) es ! (i + max_attempts cfg)
           - admissions (rl_gate k) (with_config cfg) es ! i"
proof -
  let ?K = "bucket_key ` rl_event_ip ` snd ` set es"
  have K: "rl_cap ?K = ?K" using assms(2) by (simp add: rl_cap_def)
  have start: "rl_within cfg (rl_cap ?K) (with_config cfg)" "rl_stamps k (with_config cfg) = []"
    by (simp_all add: rl_within_def with_config_def limiter_ok_def rl_stamps_def)
  have "\<forall>e\<in>snd ` set es. bucket_key (rl_event_ip e) \<in> rl_cap ?K" unfolding K by blast
  from rl_win.admissions_spaced [OF assms(1) this start assms(3)] show ?thesis .
qed

definition demo_cfg :: rl_config where
  "demo_cfg = \<lparr>max_attempts = 3, attempt_window = 30, failure_threshold = 5, ban_duration = 900\<rparr>"

definition demo_attempts :: "(instant \<times> rl_event) list" where
  "demo_attempts =
     [(0, Attempt (V4 10 0 0 1)), (1, Attempt (V4 10 0 0 2)), (2, AuthFailure (V4 10 0 0 2)),
      (3, Attempt (V4 10 0 0 3)), (4, Attempt (V4 10 0 0 4)), (31, Attempt (V4 10 0 0 5))]"

lemma demo_admissions:
  "admissions (rl_gate (V4 10 0 0 0)) (with_config demo_cfg) demo_attempts = [0, 1, 3, 31]"
  by code_simp

theorem connect_window_witness:
  "(30::nat) < 31 - 0 \<and>
   admissions (rl_gate (V4 10 0 0 0)) (with_config demo_cfg) demo_attempts = [0, 1, 3, 31]"
proof -
  have srt: "sorted (map fst demo_attempts)" by (simp add: demo_attempts_def)
  have "bucket_key ` rl_event_ip ` snd ` set demo_attempts = {V4 10 0 0 0}"
    by (simp add: demo_attempts_def rl_event_ip_def)
  then have card: "card (bucket_key ` rl_event_ip ` snd ` set demo_attempts) \<le> MAX_BUCKETS"
    by (simp add: MAX_BUCKETS_def)
  have cfg: "max_attempts demo_cfg = 3" "attempt_window demo_cfg = 30" by (simp_all add: demo_cfg_def)
  have len: "0 + max_attempts demo_cfg
      < length (admissions (rl_gate (V4 10 0 0 0)) (with_config demo_cfg) demo_attempts)"
    unfolding demo_admissions cfg by simp
  from connect_window [OF srt card len] show ?thesis unfolding demo_admissions cfg by simp
qed

section \<open>Bans\<close>

definition record_failures :: "ip_addr \<Rightarrow> instant list \<Rightarrow> limiter \<Rightarrow> limiter" where
  "record_failures ip ts l = fold (\<lambda>t. record_handshake_failure t ip) ts l"

text \<open>The bucket an address has, or would get.\<close>

definition bucket_of :: "instant \<Rightarrow> ip_addr \<Rightarrow> limiter \<Rightarrow> bucket" where
  "bucket_of now ip l = hm_or_insert (bucket_new now) (buckets l) (bucket_key ip)"

lemma bucket_of_failure [simp]:
  "bucket_of t ip (record_handshake_failure now ip l) = bucket_fail (rl_cfg l) now (bucket_of now ip l)"
  by (simp add: bucket_of_def record_handshake_failure_def hm_or_insert_def Let_def)

lemma cfg_failure [frame_simps, simp]: "rl_cfg (record_handshake_failure now ip l) = rl_cfg l"
  by (simp add: record_handshake_failure_def Let_def)

lemma cfg_failures [frame_simps, simp]: "rl_cfg (record_failures ip ts l) = rl_cfg l"
  by (induction ts arbitrary: l) (simp_all add: record_failures_def)

lemma escalate_cases:
  "escalate_ban_duration base c = saturating_mul base (if c = 0 then 1 else if c = 1 then 2 else 4)"
proof -
  have "min c 2 = (if c = 0 then 0 else if c = 1 then 1 else 2)"
  proof -
    have "unat c = 0 \<or> unat c = 1 \<or> 2 \<le> unat c" by arith
    then show ?thesis by (auto simp: min_def word_le_nat_alt word_unat_eq_iff)
  qed
  then show ?thesis by (simp add: escalate_ban_duration_def)
qed

lemma failure_below:
  assumes "banned_until b = None" and "unat (handshake_failures b) + 1 < unat (failure_threshold cfg)"
  shows "bucket_fail cfg now b = b\<lparr>last_seen := now, handshake_failures := handshake_failures b + 1\<rparr>"
proof -
  have "unat (handshake_failures b + 1) = unat (handshake_failures b) + 1"
    using unat_add1_below [of "handshake_failures b" "failure_threshold cfg"] assms(2) by simp
  with assms show ?thesis
    by (simp add: bucket_fail_def Let_def word_le_nat_alt)
qed

lemma failures_below:
  assumes "banned_until (bucket_of t0 ip l) = None" and "handshake_failures (bucket_of t0 ip l) = 0"
    and "ban_count (bucket_of t0 ip l) = c"
    and "length ts < unat (failure_threshold (rl_cfg l))" and "\<And>t. bucket_of t ip l = (bucket_of t0 ip l)\<lparr>last_seen := last_seen (bucket_of t ip l)\<rparr>"
  shows "banned_until (bucket_of t1 ip (record_failures ip ts l)) = None \<and>
         unat (handshake_failures (bucket_of t1 ip (record_failures ip ts l))) = length ts \<and>
         ban_count (bucket_of t1 ip (record_failures ip ts l)) = c"
  using assms(4)
proof (induction ts arbitrary: t1 rule: rev_induct)
  case Nil
  have "banned_until (bucket_of t1 ip l) = None \<and> handshake_failures (bucket_of t1 ip l) = 0 \<and>
    ban_count (bucket_of t1 ip l) = c"
    by (subst (1 2 3) assms(5)) (use assms(1-3) in simp)
  then show ?case by (simp add: record_failures_def)
next
  case (snoc t ts)
  let ?l = "record_failures ip ts l"
  from snoc have IH: "banned_until (bucket_of t ip ?l) = None"
    "unat (handshake_failures (bucket_of t ip ?l)) = length ts" "ban_count (bucket_of t ip ?l) = c" by auto
  have lt: "unat (handshake_failures (bucket_of t ip ?l)) + 1 < unat (failure_threshold (rl_cfg ?l))"
    using snoc.prems IH(2) by simp
  have "unat (handshake_failures (bucket_of t ip ?l) + 1) = Suc (length ts)"
    using unat_add1_below [of _ "failure_threshold (rl_cfg ?l)"] lt IH(2) by simp
  moreover have "record_failures ip (ts @ [t]) l = record_handshake_failure t ip ?l"
    by (simp add: record_failures_def)
  ultimately show ?case using failure_below [OF IH(1) lt] IH by simp
qed

lemma failure_at_threshold:
  assumes "banned_until b = None" and "Suc (unat (handshake_failures b)) = unat (failure_threshold cfg)"
  shows "banned_until (bucket_fail cfg now b)
           = Some (now + escalate_ban_duration (ban_duration cfg) (ban_count b))"
proof -
  have "unat (handshake_failures b + 1) = unat (failure_threshold cfg)"
    using assms(2) unat_add1_below by metis
  with assms(1) show ?thesis
    by (simp add: bucket_fail_def Let_def word_le_nat_alt)
qed

lemma check_connect_decision:
  "fst (check_connect now ip l) = fst (bucket_check (rl_cfg l) now (bucket_of now ip l))"
  by (simp add: check_connect_def bucket_of_def Let_def split_def)

lemma bucket_check_banned:
  "fst (bucket_check cfg now b) = Banned \<longleftrightarrow> (\<exists>until. banned_until b = Some until \<and> now < until)"
  by (auto simp: bucket_check_def Let_def split: option.splits)

lemma bucket_of_present:
  "banned_until (bucket_of t ip l) = Some u \<Longrightarrow> bucket_of t' ip l = bucket_of t ip l"
  by (simp add: bucket_of_def hm_or_insert_def bucket_new_def split: option.splits)

lemma fresh_failures:
  assumes "length ts < unat (failure_threshold cfg)"
  shows "banned_until (bucket_of t ip (record_failures ip ts (with_config cfg))) = None \<and>
    unat (handshake_failures (bucket_of t ip (record_failures ip ts (with_config cfg)))) = length ts \<and>
    ban_count (bucket_of t ip (record_failures ip ts (with_config cfg))) = 0"
proof -
  have "bucket_of t ip (with_config cfg) = bucket_new t" for t
    by (simp add: bucket_of_def with_config_def hm_or_insert_def)
  with assms failures_below [of 0 ip "with_config cfg" 0 ts t] show ?thesis
    by (simp add: bucket_new_def)
qed

lemma fresh_ban_until:
  assumes "Suc (length ts) = unat (failure_threshold cfg)" and "ban_duration cfg \<le> duration_max"
  shows "banned_until (bucket_of now ip (record_failures ip (ts @ [t]) (with_config cfg)))
           = Some (t + ban_duration cfg)"
proof -
  let ?l = "record_failures ip ts (with_config cfg)"
  have last: "record_failures ip (ts @ [t]) (with_config cfg) = record_handshake_failure t ip ?l"
    by (simp add: record_failures_def)
  have "banned_until (bucket_of t ip (record_handshake_failure t ip ?l)) = Some (t + ban_duration cfg)"
    using failure_at_threshold [of "bucket_of t ip ?l" cfg t] fresh_failures [of ts cfg t ip] assms
    by (simp add: escalate_cases saturating_mul_def)
  with bucket_of_present [OF this, of now] show ?thesis by (simp only: last)
qed

text \<open>
  C22. The ban. From a fresh limiter, \<open>n\<close> authentication failures of one address: while
  \<open>n\<close> is below the threshold the address is never answered \<open>Banned\<close>; when the \<open>n\<close>-th
  failure reaches the threshold, every attempt from any address of the same subnet is
  answered \<open>Banned\<close> exactly until the ban time has passed after that failure.
\<close>
theorem failures_ban:
  assumes "0 < unat (failure_threshold cfg)" and "ban_duration cfg \<le> duration_max"
    and "bucket_key ip' = bucket_key ip"
  shows "(length ts < unat (failure_threshold cfg) \<longrightarrow>
           fst (check_connect now ip' (record_failures ip ts (with_config cfg))) \<noteq> Banned) \<and>
         (Suc (length ts) = unat (failure_threshold cfg) \<longrightarrow>
           (fst (check_connect now ip' (record_failures ip (ts @ [t]) (with_config cfg))) = Banned)
             = (now < t + ban_duration cfg))"
proof -
  have same: "bucket_of now ip' l = bucket_of now ip l" for l
    using assms(3) by (simp add: bucket_of_def)
  show ?thesis
    using fresh_failures [of ts cfg now ip] fresh_ban_until [OF _ assms(2), of ts now ip t]
    by (auto simp: check_connect_decision bucket_check_banned same)
qed

theorem failures_ban_witness:
  "fst (check_connect 902 (V4 10 0 0 9) (record_failures (V4 10 0 0 1) [0, 1, 2, 3, 4] (with_config demo_cfg)))
     = Banned \<and>
   fst (check_connect 904 (V4 10 0 0 9) (record_failures (V4 10 0 0 1) [0, 1, 2, 3, 4] (with_config demo_cfg)))
     \<noteq> Banned \<and>
   fst (check_connect 5 (V4 10 0 0 9) (record_failures (V4 10 0 0 1) [0, 1, 2, 3] (with_config demo_cfg)))
     \<noteq> Banned"
proof -
  have h: "0 < unat (failure_threshold demo_cfg)" "ban_duration demo_cfg \<le> duration_max"
    "bucket_key (V4 10 0 0 9) = bucket_key (V4 10 0 0 1)"
    by (simp_all add: demo_cfg_def duration_max_def)
  have n: "length [0, 1, 2, 3 :: nat] < unat (failure_threshold demo_cfg)"
    "Suc (length [0, 1, 2, 3 :: nat]) = unat (failure_threshold demo_cfg)"
    by (simp_all add: demo_cfg_def)
  show ?thesis
    using failures_ban [OF h, of "[0, 1, 2, 3]" 5 4] failures_ban [OF h, of "[0, 1, 2, 3]" 902 4]
      failures_ban [OF h, of "[0, 1, 2, 3]" 904 4] n
    by (simp add: demo_cfg_def)
qed

text \<open>
  The ban ends cleanly (F-10b). Once the ban time is over, an attempt lifts the ban and
  clears the failure count, so with a threshold above one a single further failure does not
  ban again, whatever the count was before.
\<close>
theorem ban_expiry_clears_failures:
  assumes "banned_until (bucket_of now ip l) = Some until" and "until \<le> now" and "now \<le> now'"
    and "1 < unat (failure_threshold (rl_cfg l))"
    and "length (buckets l) \<le> MAX_BUCKETS"
  shows "fst (check_connect now ip l) \<noteq> Banned \<and>
    \<not> is_banned now' ip (record_handshake_failure now' ip (snd (check_connect now ip l)))"
proof

  let ?b = "snd (bucket_check (rl_cfg l) now (bucket_of now ip l))"
  show "fst (check_connect now ip l) \<noteq> Banned"
    using assms(1,2) by (simp add: check_connect_decision bucket_check_banned)
  have has: "hm_has (buckets l) (bucket_key ip)"
    using assms(1) by (auto simp: bucket_of_def hm_or_insert_def bucket_new_def hm_has_def split: option.splits)
  have b: "banned_until ?b = None" "handshake_failures ?b = 0"
    using assms(1,2) by (simp_all add: bucket_check_def Let_def)
  have l': "snd (check_connect now ip l) = l\<lparr>buckets := hm_put (bucket_key ip) ?b (buckets l)\<rparr>"
    using has assms(5)
    by (simp add: check_connect_def bucket_of_def Let_def split_def length_hm_put)
  have "banned_until (bucket_fail (rl_cfg l) now' ?b) = None"
    using failure_below [of ?b "rl_cfg l" now'] b assms(4) by simp
  then show "\<not> is_banned now' ip (record_handshake_failure now' ip (snd (check_connect now ip l)))"
    by (simp add: l' is_banned_def record_handshake_failure_def hm_or_insert_def Let_def)
qed

theorem ban_expiry_clears_failures_witness:
  "let l = record_failures (V4 10 0 0 1) [0, 1, 2, 3, 4] (with_config demo_cfg)
   in fst (check_connect 904 (V4 10 0 0 1) l) \<noteq> Banned \<and>
      \<not> is_banned 905 (V4 10 0 0 1)
           (record_handshake_failure 905 (V4 10 0 0 1) (snd (check_connect 904 (V4 10 0 0 1) l)))"
proof -
  let ?l = "record_failures (V4 10 0 0 1) [0, 1, 2, 3, 4] (with_config demo_cfg)"
  have 1: "banned_until (bucket_of 904 (V4 10 0 0 1) ?l) = Some 904"
    using fresh_ban_until [of "[0, 1, 2, 3]" demo_cfg 904 "V4 10 0 0 1" 4]
    by (simp add: demo_cfg_def duration_max_def)
  have 2: "1 < unat (failure_threshold (rl_cfg ?l))"
    by (simp add: demo_cfg_def)
  have 3: "length (buckets ?l) \<le> MAX_BUCKETS"
    by (simp add: record_failures_def record_handshake_failure_def with_config_def MAX_BUCKETS_def Let_def)
  show ?thesis
    using ban_expiry_clears_failures [OF 1 _ _ 2 3, of 905] unfolding Let_def by fastforce
qed

text \<open>
  The hard cap of the bucket table (F-10c). When an attempt is allowed the table holds at
  most \<open>MAX_BUCKETS\<close> buckets afterwards, still one per key; and the buckets given up for room
  are the idle ones and then the least recently seen: any bucket with live state that was
  dropped was last seen no later than every bucket that stayed.
\<close>
theorem connect_table_cap:
  assumes "limiter_ok l" and "check_connect now ip l = (Allowed, l')"
  shows "length (buckets l') \<le> MAX_BUCKETS \<and> limiter_ok l' \<and>
    (\<forall>k b k' b'. hm_get (buckets l) k = Some b \<longrightarrow> k \<noteq> bucket_key ip \<longrightarrow> bucket_live (rl_cfg l) now b \<longrightarrow>
       hm_get (buckets l') k = None \<longrightarrow> hm_get (buckets l') k' = Some b' \<longrightarrow> last_seen b \<le> last_seen b')"
proof -
  obtain b0 where l': "l' = maybe_prune now (l\<lparr>buckets := hm_put (bucket_key ip) b0 (buckets l)\<rparr>)"
    using assms(2) by (auto simp: check_connect_def Let_def split_def split: if_splits)
  have ok: "limiter_ok l'" using assms check_connect_ok [OF assms(1), of now ip] by simp
  let ?m = "hm_put (bucket_key ip) b0 (buckets l)"
  let ?f = "filter (\<lambda>(k, b). bucket_live (rl_cfg l) now b) ?m"
  have okm: "hm_ok ?f" using assms(1) by (simp add: limiter_ok_def)
  have "last_seen b \<le> last_seen b'"
    if *: "hm_get (buckets l) k = Some b" "k \<noteq> bucket_key ip" "bucket_live (rl_cfg l) now b"
      "hm_get (buckets l') k = None" "hm_get (buckets l') k' = Some b'" for k b k' b'
  proof (cases "length ?m \<le> MAX_BUCKETS")
    case True
    with * l' show ?thesis by simp
  next
    case False
    then have ev: "buckets l' = evict_to last_seen MAX_BUCKETS ?f"
      using l' by (simp add: maybe_prune_def)
    have "(k, b) \<in> set ?m" using * by (auto intro: hm_get_in_set)
    with *(3) have "(k, b) \<in> set ?f" by simp
    moreover have "(k, b) \<notin> set (evict_to last_seen MAX_BUCKETS ?f)"
      using *(4) ev ok by (auto simp: limiter_ok_def hm_get_iff_set [symmetric])
    moreover have "(k', b') \<in> set (evict_to last_seen MAX_BUCKETS ?f)"
      using *(5) ev by (auto intro: hm_get_in_set)
    ultimately show ?thesis using evict_to_keeps_recent [OF okm] by blast
  qed
  with ok l' maybe_prune_length show ?thesis by blast
qed

theorem connect_table_cap_witness:
  "length (buckets (snd (check_connect 7 (V4 10 0 0 1) (with_config demo_cfg)))) \<le> MAX_BUCKETS"
proof -
  have ok: "limiter_ok (with_config demo_cfg)" by (simp add: limiter_ok_def with_config_def)
  have "check_connect 7 (V4 10 0 0 1) (with_config demo_cfg)
      = (Allowed, snd (check_connect 7 (V4 10 0 0 1) (with_config demo_cfg)))" by code_simp
  from connect_table_cap [OF ok this] show ?thesis by blast
qed

end
