(* ===== verification/Core_RateLimit.thy ===== *)
theory Core_RateLimit
  imports Relay_RateLimit
begin

text \<open>
  The core's own rate limiter, \<^verbatim>\<open>core/src/network/rate_limit.rs\<close>, which guards the control
  port of a device. It has two more parameters than the relay's (the table cap and the ban
  escalation). The relay must not depend on the core and repeats the semantics; the
  theorem of this theory is that the two stay in step.
\<close>

section \<open>Configuration and state\<close>

record core_rl_config =
  c_max_attempts :: nat
  c_attempt_window :: duration
  c_failure_threshold :: u32
  c_ban_duration :: duration
  c_max_buckets :: nat
  c_ban_escalation :: bool

definition core_rl_config_default :: core_rl_config where
  "core_rl_config_default = \<lparr>c_max_attempts = 3, c_attempt_window = secs 30,
     c_failure_threshold = 5, c_ban_duration = secs (15 * 60),
     c_max_buckets = 4096, c_ban_escalation = True\<rparr>"

record core_bucket =
  cb_attempts :: "instant list"
  cb_handshake_failures :: u32
  cb_banned_until :: "instant option"
  cb_last_seen :: instant
  cb_ban_count :: u32

datatype core_decision = CAllowed | CTooManyAttempts | CBanned

fun core_bucket_key :: "ip_addr \<Rightarrow> ip_addr" where
  "core_bucket_key (V4 a b c d) = V4 a b c 0"
| "core_bucket_key (V6 a b c d e f g h) = V6 a b c d 0 0 0 0"

definition core_escalate_ban_duration :: "duration \<Rightarrow> u32 \<Rightarrow> duration" where
  "core_escalate_ban_duration base count =
     (let factor = push_bit (unat (min count 2)) (1 :: u32) in saturating_mul base (unat factor))"

definition core_bucket_new :: "instant \<Rightarrow> core_bucket" where
  "core_bucket_new now = \<lparr>cb_attempts = [], cb_handshake_failures = 0, cb_banned_until = None,
     cb_last_seen = now, cb_ban_count = 0\<rparr>"

record core_limiter =
  c_cfg :: core_rl_config
  c_buckets :: "(ip_addr, core_bucket) hmap"

definition core_with_config :: "core_rl_config \<Rightarrow> core_limiter" where
  "core_with_config cfg = \<lparr>c_cfg = cfg, c_buckets = []\<rparr>"

section \<open>Operations\<close>

definition core_bucket_live :: "core_rl_config \<Rightarrow> instant \<Rightarrow> core_bucket \<Rightarrow> bool" where
  "core_bucket_live cfg now b =
     (let idle_limit = c_attempt_window cfg + c_ban_duration cfg;
          idle = (case cb_attempts b of [] \<Rightarrow> False | _ \<Rightarrow> now - last (cb_attempts b) \<le> idle_limit)
      in idle \<or> 0 < cb_handshake_failures b \<or> cb_banned_until b \<noteq> None)"

definition core_maybe_prune :: "instant \<Rightarrow> core_limiter \<Rightarrow> core_limiter" where
  "core_maybe_prune now l =
     (let cap = c_max_buckets (c_cfg l) in
      if length (c_buckets l) \<le> cap then l
      else l\<lparr>c_buckets := evict_to cb_last_seen cap
               (filter (\<lambda>(k, b). core_bucket_live (c_cfg l) now b) (c_buckets l))\<rparr>)"

definition core_check_connect :: "instant \<Rightarrow> ip_addr \<Rightarrow> core_limiter \<Rightarrow> core_decision \<times> core_limiter" where
  "core_check_connect now ip l =
     (let cfg = c_cfg l;
          key = core_bucket_key ip;
          b = (hm_or_insert (core_bucket_new now) (c_buckets l) key)\<lparr>cb_last_seen := now\<rparr>;
          b = b\<lparr>cb_attempts := dropWhile (\<lambda>t. c_attempt_window cfg < now - t) (cb_attempts b)\<rparr>;
          put = (\<lambda>b. l\<lparr>c_buckets := hm_put key b (c_buckets l)\<rparr>)
      in if (case cb_banned_until b of Some until \<Rightarrow> now < until | None \<Rightarrow> False) then (CBanned, put b)
         else let b = (case cb_banned_until b of
                         Some _ \<Rightarrow> b\<lparr>cb_banned_until := None, cb_handshake_failures := 0\<rparr>
                       | None \<Rightarrow> b)
              in if c_max_attempts cfg \<le> length (cb_attempts b) then (CTooManyAttempts, put b)
                 else (CAllowed, core_maybe_prune now (put (b\<lparr>cb_attempts := cb_attempts b @ [now]\<rparr>))))"

definition core_record_handshake_failure :: "instant \<Rightarrow> ip_addr \<Rightarrow> core_limiter \<Rightarrow> core_limiter" where
  "core_record_handshake_failure now ip l =
     (let cfg = c_cfg l;
          key = core_bucket_key ip;
          b = (hm_or_insert (core_bucket_new now) (c_buckets l) key)\<lparr>cb_last_seen := now\<rparr>;
          b = (case cb_banned_until b of
                 Some until \<Rightarrow> if until \<le> now
                   then b\<lparr>cb_banned_until := None, cb_handshake_failures := 0\<rparr> else b
               | None \<Rightarrow> b);
          b = b\<lparr>cb_handshake_failures := cb_handshake_failures b + 1\<rparr>;
          b = (if c_failure_threshold cfg \<le> cb_handshake_failures b
               then let d = (if c_ban_escalation cfg
                             then core_escalate_ban_duration (c_ban_duration cfg) (cb_ban_count b)
                             else c_ban_duration cfg)
                    in b\<lparr>cb_banned_until := Some (now + d),
                         cb_ban_count := min (sat_add1_u32 (cb_ban_count b)) 3\<rparr>
               else b)
      in l\<lparr>c_buckets := hm_put key b (c_buckets l)\<rparr>)"

definition core_is_banned :: "instant \<Rightarrow> ip_addr \<Rightarrow> core_limiter \<Rightarrow> bool" where
  "core_is_banned now ip l =
     (case hm_get (c_buckets l) (core_bucket_key ip) of
        Some b \<Rightarrow> (case cb_banned_until b of Some until \<Rightarrow> now < until | None \<Rightarrow> False)
      | None \<Rightarrow> False)"

definition core_reset :: "ip_addr \<Rightarrow> core_limiter \<Rightarrow> core_limiter" where
  "core_reset ip l =
     (case hm_get (c_buckets l) (core_bucket_key ip) of
        Some b \<Rightarrow> l\<lparr>c_buckets := hm_put (core_bucket_key ip)
                    (b\<lparr>cb_attempts := [], cb_handshake_failures := 0, cb_ban_count := 0\<rparr>) (c_buckets l)\<rparr>
      | None \<Rightarrow> l)"

section \<open>The two limiters in step\<close>

text \<open>
  The relay's state read as a state of the core's limiter, with the constants that the relay
  does not make configurable: the cap \<open>MAX_BUCKETS\<close> and escalation always on.
\<close>

definition core_of_config :: "rl_config \<Rightarrow> core_rl_config" where
  "core_of_config c = \<lparr>c_max_attempts = max_attempts c, c_attempt_window = attempt_window c,
     c_failure_threshold = failure_threshold c, c_ban_duration = ban_duration c,
     c_max_buckets = MAX_BUCKETS, c_ban_escalation = True\<rparr>"

definition core_of_bucket :: "bucket \<Rightarrow> core_bucket" where
  "core_of_bucket b = \<lparr>cb_attempts = attempts b, cb_handshake_failures = handshake_failures b,
     cb_banned_until = banned_until b, cb_last_seen = last_seen b, cb_ban_count = ban_count b\<rparr>"

definition core_of :: "limiter \<Rightarrow> core_limiter" where
  "core_of l = \<lparr>c_cfg = core_of_config (rl_cfg l), c_buckets = hm_map core_of_bucket (buckets l)\<rparr>"

fun core_of_decision :: "decision \<Rightarrow> core_decision" where
  "core_of_decision Allowed = CAllowed"
| "core_of_decision TooManyAttempts = CTooManyAttempts"
| "core_of_decision Banned = CBanned"

lemma core_bucket_key_eq [simp]: "core_bucket_key ip = bucket_key ip"
  by (cases ip) auto

lemma core_of_new: "core_bucket_new now = core_of_bucket (bucket_new now)"
  by (simp add: core_bucket_new_def core_of_bucket_def bucket_new_def)

lemma core_of_live: "core_bucket_live (core_of_config cfg) now (core_of_bucket b) = bucket_live cfg now b"
  by (simp add: core_bucket_live_def bucket_live_def core_of_config_def core_of_bucket_def Let_def
      split: list.split)

lemma core_of_age: "cb_last_seen (core_of_bucket b) = last_seen b"
  by (simp add: core_of_bucket_def)

lemma core_of_escalate: "core_escalate_ban_duration base c = escalate_ban_duration base c"
  by (simp add: core_escalate_ban_duration_def escalate_ban_duration_def)

lemmas core_of_simps = core_of_new hm_or_insert_map hm_map_put core_of_age core_of_escalate

lemma core_of_prune: "core_maybe_prune now (core_of l) = core_of (maybe_prune now l)"
proof -
  have live: "filter (\<lambda>(k, b). core_bucket_live (core_of_config (rl_cfg l)) now b)
      (hm_map core_of_bucket (buckets l))
    = hm_map core_of_bucket (filter (\<lambda>(k, b). bucket_live (rl_cfg l) now b) (buckets l))"
    by (simp add: hm_map_filter [symmetric] core_of_live)
  have "evict_to cb_last_seen MAX_BUCKETS (hm_map core_of_bucket m)
    = hm_map core_of_bucket (evict_to last_seen MAX_BUCKETS m)" for m :: "(ip_addr, bucket) hmap"
    using evict_to_map [of core_of_bucket cb_last_seen MAX_BUCKETS m] by (simp add: core_of_age)
  with live show ?thesis
    by (simp add: core_maybe_prune_def maybe_prune_def core_of_def core_of_config_def Let_def)
qed

lemma core_of_put:
  "(core_of l)\<lparr>c_buckets := hm_put k (core_of_bucket b) (c_buckets (core_of l))\<rparr>
     = core_of (l\<lparr>buckets := hm_put k b (buckets l)\<rparr>)"
  by (simp add: core_of_def hm_map_put)

lemma core_of_lookup:
  "hm_or_insert (core_bucket_new now) (c_buckets (core_of l)) k
     = core_of_bucket (hm_or_insert (bucket_new now) (buckets l) k)"
  by (simp add: core_of_def core_of_new hm_or_insert_map)

lemma core_of_check:
  "core_check_connect now ip (core_of l) =
     (case check_connect now ip l of (d, l') \<Rightarrow> (core_of_decision d, core_of l'))"
proof -
  let ?b = "hm_or_insert (bucket_new now) (buckets l) (bucket_key ip)"
  have cfg: "c_cfg (core_of l) = core_of_config (rl_cfg l)" by (simp add: core_of_def)
  have "core_check_connect now ip (core_of l) =
     (case bucket_check (rl_cfg l) now ?b of (d, b) \<Rightarrow>
        (core_of_decision d,
         (if d = Allowed then core_maybe_prune now else id)
           ((core_of l)\<lparr>c_buckets := hm_put (bucket_key ip) (core_of_bucket b) (c_buckets (core_of l))\<rparr>)))"
    by (auto simp: core_check_connect_def bucket_check_def core_of_lookup cfg Let_def
        core_of_config_def core_of_bucket_def split: option.splits)
  then show ?thesis
    by (simp add: check_connect_def core_of_put core_of_prune Let_def split_def)
qed

lemma core_of_failure:
  "core_record_handshake_failure now ip (core_of l) = core_of (record_handshake_failure now ip l)"
proof -
  let ?b = "hm_or_insert (bucket_new now) (buckets l) (bucket_key ip)"
  have cfg: "c_cfg (core_of l) = core_of_config (rl_cfg l)" by (simp add: core_of_def)
  have "core_record_handshake_failure now ip (core_of l) =
     (core_of l)\<lparr>c_buckets := hm_put (bucket_key ip) (core_of_bucket (bucket_fail (rl_cfg l) now ?b))
        (c_buckets (core_of l))\<rparr>"
    by (auto simp: core_record_handshake_failure_def bucket_fail_def core_of_lookup cfg Let_def
        core_of_escalate core_of_config_def core_of_bucket_def split: option.splits)
  then show ?thesis by (simp only: core_of_put record_handshake_failure_def Let_def)
qed

lemma core_of_reset: "core_reset ip (core_of l) = core_of (reset ip l)"
  by (auto simp: core_reset_def reset_def core_of_def hm_map_put core_of_bucket_def split: option.splits)

lemma core_of_is_banned: "core_is_banned now ip (core_of l) = is_banned now ip l"
  by (auto simp: core_is_banned_def is_banned_def core_of_def core_of_bucket_def split: option.splits)

text \<open>A client's sequence of calls, run on either limiter, with the answers it sees.\<close>

datatype rl_call = CallCheck ip_addr | CallFailure ip_addr | CallReset ip_addr | CallIsBanned ip_addr

datatype rl_answer = AnsDecision core_decision | AnsBanned bool | AnsUnit

fun relay_calls :: "limiter \<Rightarrow> (instant \<times> rl_call) list \<Rightarrow> rl_answer list" where
  "relay_calls l [] = []"
| "relay_calls l ((t, CallCheck ip) # cs) =
     (case check_connect t ip l of (d, l') \<Rightarrow> AnsDecision (core_of_decision d) # relay_calls l' cs)"
| "relay_calls l ((t, CallFailure ip) # cs) = AnsUnit # relay_calls (record_handshake_failure t ip l) cs"
| "relay_calls l ((t, CallReset ip) # cs) = AnsUnit # relay_calls (reset ip l) cs"
| "relay_calls l ((t, CallIsBanned ip) # cs) = AnsBanned (is_banned t ip l) # relay_calls l cs"

fun core_calls :: "core_limiter \<Rightarrow> (instant \<times> rl_call) list \<Rightarrow> rl_answer list" where
  "core_calls l [] = []"
| "core_calls l ((t, CallCheck ip) # cs) =
     (case core_check_connect t ip l of (d, l') \<Rightarrow> AnsDecision d # core_calls l' cs)"
| "core_calls l ((t, CallFailure ip) # cs) = AnsUnit # core_calls (core_record_handshake_failure t ip l) cs"
| "core_calls l ((t, CallReset ip) # cs) = AnsUnit # core_calls (core_reset ip l) cs"
| "core_calls l ((t, CallIsBanned ip) # cs) = AnsBanned (core_is_banned t ip l) # core_calls l cs"

lemma calls_in_step: "core_calls (core_of l) cs = relay_calls l cs"
  by (induction l cs rule: relay_calls.induct)
     (simp_all add: core_of_check core_of_failure core_of_reset core_of_is_banned split: prod.splits)

section \<open>Independent iteration orders\<close>

text \<open>
  The equality above is one of association lists, so it fixes one iteration order for both tables. Each
  program has its own order, and the order matters where the table is over the cap and the eviction
  breaks a tie. Below the cap the limiters only look up and insert, and the order does not matter.
\<close>

fun call_key :: "rl_call \<Rightarrow> ip_addr" where
  "call_key (CallCheck ip) = bucket_key ip"
| "call_key (CallFailure ip) = bucket_key ip"
| "call_key (CallReset ip) = bucket_key ip"
| "call_key (CallIsBanned ip) = bucket_key ip"

definition same_buckets :: "core_limiter \<Rightarrow> core_limiter \<Rightarrow> bool" where
  "same_buckets l m \<longleftrightarrow> c_cfg l = c_cfg m \<and> hm_get (c_buckets l) = hm_get (c_buckets m)"

definition room :: "ip_addr set \<Rightarrow> core_limiter \<Rightarrow> bool" where
  "room K l \<longleftrightarrow> hm_ok (c_buckets l) \<and> fst ` set (c_buckets l) \<subseteq> K \<and> finite K \<and> card K \<le> c_max_buckets (c_cfg l)"

lemma room_put: "room K l \<Longrightarrow> k \<in> K \<Longrightarrow> room K (l\<lparr>c_buckets := hm_put k b (c_buckets l)\<rparr>)"
  using image_mono [OF set_hm_put [of k b "c_buckets l"], of fst] by (auto simp: room_def)

lemma room_prune: "room K l \<Longrightarrow> core_maybe_prune now l = l"
  using hm_keys_le [of "c_buckets l" K] by (simp add: core_maybe_prune_def room_def Let_def)

lemma same_put:
  "same_buckets l m \<Longrightarrow> same_buckets (l\<lparr>c_buckets := hm_put k b (c_buckets l)\<rparr>) (m\<lparr>c_buckets := hm_put k b (c_buckets m)\<rparr>)"
  by (simp add: same_buckets_def fun_eq_iff)

lemma same_lookup: "same_buckets l m \<Longrightarrow> hm_or_insert d (c_buckets l) k = hm_or_insert d (c_buckets m) k"
  by (simp add: same_buckets_def hm_or_insert_def)

text \<open>What each call does to two tables that hold the same buckets.\<close>

definition both_put :: "ip_addr \<Rightarrow> core_limiter \<Rightarrow> core_limiter \<Rightarrow> core_limiter \<Rightarrow> core_limiter \<Rightarrow> bool" where
  "both_put k l m l' m' \<longleftrightarrow> l' = l \<and> m' = m \<or>
     (\<exists>b. l' = l\<lparr>c_buckets := hm_put k b (c_buckets l)\<rparr> \<and> m' = m\<lparr>c_buckets := hm_put k b (c_buckets m)\<rparr>)"

lemma check_same:
  assumes "same_buckets l m" and "room K l" and "room K m" and "bucket_key ip \<in> K"
  shows "\<exists>d l' m'. core_check_connect t ip l = (d, l') \<and> core_check_connect t ip m = (d, m') \<and>
    both_put (bucket_key ip) l m l' m'"
proof -
  have prune: "core_maybe_prune t (n\<lparr>c_buckets := hm_put (bucket_key ip) b (c_buckets n)\<rparr>)
      = n\<lparr>c_buckets := hm_put (bucket_key ip) b (c_buckets n)\<rparr>" if "n = l \<or> n = m" for n b
    using that assms(2-4) by (blast intro: room_prune room_put)
  have cfg: "c_cfg l = c_cfg m" using assms(1) by (simp add: same_buckets_def)
  show ?thesis
    by (auto simp: core_check_connect_def Let_def prune cfg same_lookup [OF assms(1)] both_put_def split: option.splits)
qed

lemma failure_same:
  assumes "same_buckets l m"
  shows "both_put (bucket_key ip) l m (core_record_handshake_failure t ip l) (core_record_handshake_failure t ip m)"
  using assms by (auto simp: core_record_handshake_failure_def Let_def same_lookup [OF assms] both_put_def same_buckets_def)

lemma reset_same:
  "same_buckets l m \<Longrightarrow> both_put (bucket_key ip) l m (core_reset ip l) (core_reset ip m)"
  by (auto simp: core_reset_def both_put_def same_buckets_def split: option.split)

lemma banned_same: "same_buckets l m \<Longrightarrow> core_is_banned t ip l = core_is_banned t ip m"
  by (simp add: core_is_banned_def same_buckets_def)

lemma both_put_keeps:
  assumes "both_put k l m l' m'" and "same_buckets l m" and "room K l" and "room K m" and "k \<in> K"
  shows "same_buckets l' m'" and "room K l'" and "room K m'"
  using assms by (auto simp: both_put_def intro: same_put room_put)

lemma calls_same:
  "same_buckets l m \<Longrightarrow> room K l \<Longrightarrow> room K m \<Longrightarrow> call_key ` snd ` set cs \<subseteq> K \<Longrightarrow> core_calls l cs = core_calls m cs"
proof (induction cs arbitrary: l m)
  case (Cons c cs)
  obtain t call where c: "c = (t, call)" by (cases c)
  have key: "call_key call \<in> K" and rest: "call_key ` snd ` set cs \<subseteq> K" using Cons.prems(4) by (auto simp: c)
  have step: "core_calls l' cs = core_calls m' cs" if "both_put (call_key call) l m l' m'" for l' m'
    using Cons.IH both_put_keeps [OF that Cons.prems(1-3) key] rest by blast
  show ?case
  proof (cases call)
    case (CallCheck ip)
    from check_same [OF Cons.prems(1-3), of ip t] key obtain d l' m' where
      "core_check_connect t ip l = (d, l')" "core_check_connect t ip m = (d, m')" "both_put (bucket_key ip) l m l' m'"
      by (auto simp: CallCheck)
    with step [of l' m'] show ?thesis by (simp add: c CallCheck)
  next
    case (CallFailure ip)
    with step failure_same [OF Cons.prems(1)] show ?thesis by (simp add: c)
  next
    case (CallReset ip)
    with step reset_same [OF Cons.prems(1)] show ?thesis by (simp add: c)
  next
    case (CallIsBanned ip)
    with step [of l m] banned_same [OF Cons.prems(1)] show ?thesis by (simp add: c both_put_def)
  qed
qed simp

text \<open>The two limiters hold the same: each in a table of its own, in an iteration order of its own.\<close>

definition in_step :: "limiter \<Rightarrow> core_limiter \<Rightarrow> bool" where
  "in_step l m \<longleftrightarrow> c_cfg m = core_of_config (rl_cfg l) \<and> hm_ok (buckets l) \<and> hm_ok (c_buckets m) \<and>
     (\<forall>k. hm_get (c_buckets m) k = map_option core_of_bucket (hm_get (buckets l) k))"

lemma hm_ok_map [simp]: "hm_ok (hm_map f m) = hm_ok m"
  by (simp add: hm_ok_def hm_map_def comp_def split_def)

text \<open>
  C23. The relay's limiter and the core's are one semantics, as the relay's header promises. Take two
  limiters that hold the same buckets, each in an iteration order of its own, the core's with the
  relay's configuration, the cap of 4096 buckets and escalation on. Over any sequence of calls, at any
  instants, they give the same answers, as long as those calls and the buckets held at the start are of
  at most 4096 networks. (With more than that the tables evict, and two tables whose orders differ may
  evict different ones of several equally old buckets.)
\<close>
theorem core_relay_aligned:
  assumes "in_step l m" and "card (fst ` set (buckets l) \<union> call_key ` snd ` set cs) \<le> MAX_BUCKETS"
  shows "core_calls m cs = relay_calls l cs"
proof -
  let ?K = "fst ` set (buckets l) \<union> call_key ` snd ` set cs"
  have get: "hm_get (c_buckets m) = hm_get (c_buckets (core_of l))"
    using assms(1) by (auto simp: in_step_def core_of_def)
  then have dom: "fst ` set (c_buckets m) = fst ` set (c_buckets (core_of l))" by (metis dom_map_of_conv_image_fst)
  have keys: "fst ` set (c_buckets (core_of l)) = fst ` set (buckets l)"
    by (force simp: core_of_def hm_map_def image_iff)
  have cfg: "c_cfg m = c_cfg (core_of l)" "c_max_buckets (c_cfg m) = MAX_BUCKETS"
    using assms(1) by (simp_all add: in_step_def core_of_def core_of_config_def)
  have "room ?K m" "room ?K (core_of l)"
    using assms cfg dom keys by (auto simp: room_def in_step_def core_of_def)
  moreover have "same_buckets m (core_of l)" using get cfg(1) by (simp add: same_buckets_def)
  ultimately have "core_calls m cs = core_calls (core_of l) cs" by (intro calls_same) auto
  then show ?thesis by (simp add: calls_in_step)
qed

text \<open>Two networks whose buckets stand in the two tables in opposite orders.\<close>

definition demo_relay_limiter :: limiter where
  "demo_relay_limiter = \<lparr>rl_cfg = rl_config_default,
     buckets = [(V4 10 0 0 0, bucket_new 0), (V4 10 0 1 0, bucket_new 5)]\<rparr>"

definition demo_core_limiter :: core_limiter where
  "demo_core_limiter = \<lparr>c_cfg = core_of_config rl_config_default,
     c_buckets = [(V4 10 0 1 0, core_bucket_new 5), (V4 10 0 0 0, core_bucket_new 0)]\<rparr>"

theorem core_relay_aligned_witness:
  "core_calls demo_core_limiter [(7, CallCheck (V4 10 0 1 9)), (8, CallFailure (V4 10 0 2 1)), (9, CallCheck (V4 10 0 1 3))]
     = relay_calls demo_relay_limiter [(7, CallCheck (V4 10 0 1 9)), (8, CallFailure (V4 10 0 2 1)), (9, CallCheck (V4 10 0 1 3))]"
proof -
  have "in_step demo_relay_limiter demo_core_limiter"
    by (auto simp: in_step_def demo_relay_limiter_def demo_core_limiter_def hm_ok_def core_of_new)
  moreover have "card {V4 10 0 0 0, V4 10 0 1 0, V4 10 0 2 0} \<le> MAX_BUCKETS" by (simp add: MAX_BUCKETS_def)
  ultimately show ?thesis
    by (intro core_relay_aligned) (simp_all add: demo_relay_limiter_def insert_commute)
qed

end
