(* ===== verification/Framing.thy ===== *)
theory Framing
  imports Prelude
begin

text \<open>
  Length-prefixed framing, \<^verbatim>\<open>[type:u8][len:u32 BE][payload]\<close>, which the relay's control
  protocol and the core's multiplexer share: big-endian integers, \<^verbatim>\<open>read_exact\<close> on a byte
  stream, and the contract of a frame codec with its consequence for a stream of frames.

  A byte stream is the list of the bytes that arrive before the peer closes it;
  \<^verbatim>\<open>read_exact\<close> fails with an unexpected end when too few are left.
\<close>

section \<open>Big-endian integers\<close>

definition be32 :: "u32 \<Rightarrow> bytes" where
  "be32 w = [ucast (drop_bit 24 w), ucast (drop_bit 16 w), ucast (drop_bit 8 w), ucast w]"

fun of_be32 :: "u8 \<Rightarrow> u8 \<Rightarrow> u8 \<Rightarrow> u8 \<Rightarrow> u32" where
  "of_be32 a b c d =
     push_bit 24 (ucast a) + push_bit 16 (ucast b) + push_bit 8 (ucast c) + ucast d"

lemma length_be32 [simp]: "length (be32 w) = 4"
  by (simp add: be32_def)

lemma unat_byte: "unat (ucast (w :: u32) :: u8) = unat w mod 256"
  by (simp add: unsigned_ucast_eq take_bit_eq_mod)

lemma unat_drop32: "unat (drop_bit n (w :: u32)) = unat w div 2 ^ n"
proof -
  have "unat w < 2 ^ 32" using unat_u32 [of w] by simp
  then show ?thesis
    by (subst unsigned_drop_bit_eq) (simp add: take_bit_eq_mod drop_bit_eq_div)
qed

lemma unat_of_be32:
  "unat (of_be32 a b c d) = unat a * 16777216 + unat b * 65536 + unat c * 256 + unat d"
proof -
  have bounds: "unat a < 256" "unat b < 256" "unat c < 256" "unat d < 256"
    by (rule unat_u8)+
  have up: "unat (ucast x :: u32) = unat x" for x :: u8
    using unat_u8 [of x] by (simp add: unsigned_ucast_eq take_bit_eq_mod)
  have "unat (push_bit 24 (ucast a :: u32)) = unat a * 16777216"
    "unat (push_bit 16 (ucast b :: u32)) = unat b * 65536"
    "unat (push_bit 8 (ucast c :: u32)) = unat c * 256"
    using bounds by (simp_all add: push_bit_eq_mult unat_word_ariths up)
  with bounds show ?thesis
    by (simp add: unat_word_ariths up)
qed

lemma be32_digits: "(n :: nat) < 4294967296 \<Longrightarrow>
  n div 16777216 mod 256 * 16777216 + n div 65536 mod 256 * 65536 + n div 256 mod 256 * 256 + n mod 256 = n"
proof -
  assume n: "n < 4294967296"
  have "n div 256 div 256 = n div 65536" "n div 65536 div 256 = n div 16777216"
    by (simp_all add: div_mult2_eq [symmetric])
  moreover have "n div 16777216 mod 256 = n div 16777216" using n by simp
  ultimately have "n div 65536 = n div 16777216 mod 256 * 256 + n div 65536 mod 256"
    and "n div 256 = n div 65536 * 256 + n div 256 mod 256"
    using div_mult_mod_eq [of "n div 65536" 256] div_mult_mod_eq [of "n div 256" 256] by simp_all
  moreover have "n = n div 256 * 256 + n mod 256" by simp
  ultimately show ?thesis by linarith
qed

lemma of_be32_be32: "be32 w = [a, b, c, d] \<Longrightarrow> of_be32 a b c d = w"
proof -
  assume h: "be32 w = [a, b, c, d]"
  have "unat w < 4294967296" by (rule unat_u32)
  then have "unat (of_be32 a b c d) = unat w"
    using h be32_digits [of "unat w"]
    by (auto simp: be32_def unat_of_be32 unat_byte unat_drop32 simp del: of_be32.simps)
  then show ?thesis by (simp add: word_unat_eq_iff)
qed

lemma be32_cases: obtains a b c d where "be32 w = [a, b, c, d]" "of_be32 a b c d = w"
  using of_be32_be32 by (metis be32_def)

lemma horner256:
  "(d :: nat) < 256 \<Longrightarrow> (x * 256 + d) div 256 = x" "d < 256 \<Longrightarrow> (x * 256 + d) mod 256 = d"
  by simp_all

lemma be32_of_be32: "be32 (of_be32 a b c d) = [a, b, c, d]"
proof -
  have bounds: "unat a < 256" "unat b < 256" "unat c < 256" "unat d < 256"
    by (rule unat_u8)+
  let ?n = "unat (of_be32 a b c d)"
  have n: "?n = ((unat a * 256 + unat b) * 256 + unat c) * 256 + unat d"
    by (simp add: unat_of_be32 del: of_be32.simps)
  have d1: "?n div 256 = (unat a * 256 + unat b) * 256 + unat c"
    unfolding n by (rule horner256) (rule bounds)
  have "?n div 65536 = ?n div 256 div 256" by (simp add: div_mult2_eq [symmetric])
  then have d2: "?n div 65536 = unat a * 256 + unat b"
    unfolding d1 by (simp only: horner256 bounds)
  have "?n div 16777216 = ?n div 65536 div 256" by (simp add: div_mult2_eq [symmetric])
  then have d3: "?n div 16777216 = unat a"
    unfolding d2 by (simp only: horner256 bounds)
  have m: "?n mod 256 = unat d" unfolding n by (rule horner256) (rule bounds)
  have m1: "?n div 256 mod 256 = unat c" unfolding d1 by (rule horner256) (rule bounds)
  have m2: "?n div 65536 mod 256 = unat b" unfolding d2 by (rule horner256) (rule bounds)
  have m3: "?n div 16777216 mod 256 = unat a" unfolding d3 using bounds by simp
  show ?thesis
    by (simp add: be32_def word_unat_eq_iff unat_byte unat_drop32 m m1 m2 m3 del: of_be32.simps)
qed

lemma length_ge5: "5 \<le> length bs \<Longrightarrow> \<exists>t a b c d rest. bs = t # a # b # c # d # rest"
  by (auto simp: numeral_eq_Suc Suc_le_length_iff)

section \<open>Little-endian integers\<close>

fun le_bytes :: "nat \<Rightarrow> nat \<Rightarrow> bytes" where
  "le_bytes 0 k = []"
| "le_bytes (Suc n) k = word_of_nat (k mod 256) # le_bytes n (k div 256)"

fun of_le_bytes :: "bytes \<Rightarrow> nat" where
  "of_le_bytes [] = 0"
| "of_le_bytes (b # bs) = unat b + 256 * of_le_bytes bs"

lemma length_le_bytes [simp]: "length (le_bytes n k) = n"
  by (induction n arbitrary: k) auto

lemma of_le_bytes_le_bytes: "of_le_bytes (le_bytes n k) = k mod 256 ^ n"
proof (induction n arbitrary: k)
  case (Suc n)
  have "unat (word_of_nat (k mod 256) :: u8) = k mod 256"
    by (simp add: unat_of_nat)
  then have "of_le_bytes (le_bytes (Suc n) k) = k mod 256 + 256 * (k div 256 mod 256 ^ n)"
    using Suc by simp
  also have "\<dots> = k mod (256 * 256 ^ n)"
    by (simp add: mod_mult2_eq)
  finally show ?case by simp
qed simp

definition le_u16 :: "u16 \<Rightarrow> bytes" where "le_u16 w = le_bytes 2 (unat w)"
definition le_u64 :: "u64 \<Rightarrow> bytes" where "le_u64 w = le_bytes 8 (unat w)"
definition of_le_u16 :: "bytes \<Rightarrow> u16" where "of_le_u16 bs = word_of_nat (of_le_bytes bs)"
definition of_le_u64 :: "bytes \<Rightarrow> u64" where "of_le_u64 bs = word_of_nat (of_le_bytes bs)"

lemma le_u_length [simp]: "length (le_u16 w) = 2" "length (le_u64 v) = 8"
  by (simp_all add: le_u16_def le_u64_def)

lemma of_le_u16_le [simp]: "of_le_u16 (le_u16 w) = w"
  using unat_lt [of w] by (simp add: of_le_u16_def le_u16_def of_le_bytes_le_bytes)

lemma of_le_u64_le [simp]: "of_le_u64 (le_u64 w) = w"
  using unat_lt [of w] by (simp add: of_le_u64_def le_u64_def of_le_bytes_le_bytes)

section \<open>Lengths\<close>

text \<open>\<^verbatim>\<open>payload.len() as u32\<close>: the length truncated to 32 bits.\<close>

definition len32 :: "'a list \<Rightarrow> u32" where
  "len32 xs = of_nat (length xs)"

lemma unat_len32: "length xs < 2 ^ 32 \<Longrightarrow> unat (len32 xs) = length xs"
  by (simp add: len32_def unat_of_nat)

section \<open>Streams\<close>

definition read_exact :: "nat \<Rightarrow> bytes \<Rightarrow> (bytes \<times> bytes) option" where
  "read_exact n bs = (if length bs < n then None else Some (take n bs, drop n bs))"

lemma read_exact_append [simp]: "length xs = n \<Longrightarrow> read_exact n (xs @ ys) = Some (xs, ys)"
  by (simp add: read_exact_def)

lemma read_exact_Some: "read_exact n bs = Some (xs, ys) \<Longrightarrow> bs = xs @ ys \<and> length xs = n"
  by (auto simp: read_exact_def split: if_splits)

section \<open>The contract of a frame codec\<close>

text \<open>
  \<open>enc\<close> writes a frame; \<open>dec\<close> reads one frame off a stream and returns it with the rest of
  the stream, or an error, after which the connection is closed. The laws: on frames the
  receiver accepts (\<open>good\<close>), \<open>dec\<close> undoes \<open>enc\<close> whatever follows, every accepted frame is
  the encoding of what was read, and an empty stream has no frame.
\<close>

text \<open>Reading a stream to its end: the frames up to the first error, and that error.\<close>

fun read_frames :: "(bytes \<Rightarrow> 'e + (('t \<times> bytes) \<times> bytes)) \<Rightarrow> nat \<Rightarrow> bytes \<Rightarrow> ('t \<times> bytes) list \<times> 'e option" where
  "read_frames dec 0 bs = ([], None)"
| "read_frames dec (Suc fuel) bs =
     (case dec bs of
        Inl e \<Rightarrow> ([], Some e)
      | Inr (f, rest) \<Rightarrow> (case read_frames dec fuel rest of (fs, e) \<Rightarrow> (f # fs, e)))"

locale frame_codec =
  fixes enc :: "'t \<Rightarrow> bytes \<Rightarrow> bytes"
    and dec :: "bytes \<Rightarrow> 'e + (('t \<times> bytes) \<times> bytes)"
    and good :: "'t \<Rightarrow> bytes \<Rightarrow> bool"
    and eof :: 'e
  assumes dec_enc: "good t p \<Longrightarrow> dec (enc t p @ rest) = Inr ((t, p), rest)"
    and dec_sound: "dec bs = Inr ((t, p), rest) \<Longrightarrow> good t p \<and> bs = enc t p @ rest"
    and enc_nonempty: "enc t p \<noteq> []"
    and dec_empty: "dec [] = Inl eof"
begin

definition encode_all :: "('t \<times> bytes) list \<Rightarrow> bytes" where
  "encode_all fs = concat (map (\<lambda>(t, p). enc t p) fs)"

lemma dec_shorter: "dec bs = Inr (f, rest) \<Longrightarrow> length rest < length bs"
  using dec_sound enc_nonempty by (cases f) fastforce

text \<open>A stream of accepted frames is read back frame by frame, then ends with end-of-file.\<close>

lemma read_encoded:
  "\<forall>(t, p)\<in>set fs. good t p \<Longrightarrow> length fs < fuel \<Longrightarrow>
   read_frames dec fuel (encode_all fs) = (fs, Some eof)"
proof (induction fs arbitrary: fuel)
  case Nil
  then show ?case by (cases fuel) (simp_all add: encode_all_def dec_empty)
next
  case (Cons f fs)
  obtain t p where f: "f = (t, p)" by force
  from Cons.prems obtain fuel' where fuel: "fuel = Suc fuel'" by (cases fuel) auto
  have "dec (enc t p @ encode_all fs) = Inr ((t, p), encode_all fs)"
    using Cons.prems f by (simp add: dec_enc)
  with Cons.IH [of fuel'] Cons.prems f fuel show ?case
    by (simp add: encode_all_def)
qed

text \<open>What is read is a prefix of the stream, and reading ends: the fuel \<open>length bs + 1\<close> is enough.\<close>

lemma read_frames_ends: "length bs < fuel \<Longrightarrow> snd (read_frames dec fuel bs) \<noteq> None"
proof (induction fuel arbitrary: bs)
  case 0
  then show ?case by simp
next
  case (Suc fuel)
  show ?case
  proof (cases "dec bs")
    case (Inl e)
    then show ?thesis by simp
  next
    case (Inr r)
    obtain f rest where r: "r = (f, rest)" by (cases r)
    with Inr dec_shorter have "length rest < length bs" by blast
    with Suc.prems have "length rest < fuel" by simp
    from Suc.IH [OF this] Inr r show ?thesis by (auto split: prod.splits)
  qed
qed

lemma read_frames_prefix:
  "read_frames dec fuel bs = (fs, e) \<Longrightarrow> \<exists>rest. bs = encode_all fs @ rest"
proof (induction fuel arbitrary: bs fs)
  case 0
  then show ?case by (simp add: encode_all_def)
next
  case (Suc fuel)
  show ?case
  proof (cases "dec bs")
    case (Inl e')
    with Suc.prems show ?thesis by (simp add: encode_all_def)
  next
    case (Inr r)
    obtain t p rest where r: "r = ((t, p), rest)" by (metis prod.exhaust)
    obtain gs where g: "read_frames dec fuel rest = (gs, e)" and fs: "fs = (t, p) # gs"
      using Suc.prems Inr r by (auto split: prod.splits)
    from Suc.IH [OF g] obtain tl where "rest = encode_all gs @ tl" by blast
    with dec_sound [of bs t p rest] Inr r fs show ?thesis by (simp add: encode_all_def)
  qed
qed

end

end
