(* ===== verification/Core_Multiplex.thy ===== *)
theory Core_Multiplex
  imports Framing
begin

text \<open>
  The core's channel multiplexer, \<^verbatim>\<open>core/src/connection/multiplex.rs\<close>: four logical channels
  over one byte stream, and the demultiplexer that hands each message to the queue of its
  channel.
\<close>

section \<open>Channels and errors\<close>

datatype multiplex_type = Control | Video | Audio | Input

fun code :: "multiplex_type \<Rightarrow> u8" where
  "code Control = 0x01"
| "code Video = 0x02"
| "code Audio = 0x03"
| "code Input = 0x04"

definition from_code :: "u8 \<Rightarrow> multiplex_type option" where
  "from_code c =
     (if c = 0x01 then Some Control
      else if c = 0x02 then Some Video
      else if c = 0x03 then Some Audio
      else if c = 0x04 then Some Input
      else None)"

fun channel_name :: "multiplex_type \<Rightarrow> string" where
  "channel_name Control = ''Control''"
| "channel_name Video = ''Video''"
| "channel_name Audio = ''Audio''"
| "channel_name Input = ''Input''"

datatype multiplex_error =
    InvalidType u8
  | MuxFrameTooLarge u32 u32
  | MuxUnexpectedEof
  | MuxBrokenPipe
  | NoSink multiplex_type

definition DEFAULT_MAX_FRAME_LEN :: u32 where
  "DEFAULT_MAX_FRAME_LEN = 16 * 1024 * 1024"

section \<open>Frames\<close>

definition encode_frame :: "multiplex_type \<Rightarrow> bytes \<Rightarrow> bytes" where
  "encode_frame kind payload = code kind # be32 (len32 payload) @ payload"

fun decode_header :: "bytes \<Rightarrow> u32 \<Rightarrow> multiplex_error + (multiplex_type \<times> u32)" where
  "decode_header (h # a # b # c # d # more) max_frame_len =
     (case from_code h of
        None \<Rightarrow> Inl (InvalidType h)
      | Some kind \<Rightarrow>
          (let len = of_be32 a b c d
           in if max_frame_len < len then Inl (MuxFrameTooLarge len max_frame_len)
              else Inr (kind, len)))"
| "decode_header _ max_frame_len = Inl MuxUnexpectedEof"

text \<open>
  \<open>send\<close> appends to the bytes written so far; the length check is on the truncated
  32-bit length, as the code has it.
\<close>

definition send :: "u32 \<Rightarrow> multiplex_type \<Rightarrow> bytes \<Rightarrow> bytes \<Rightarrow> multiplex_error + bytes" where
  "send max_frame_len kind payload written =
     (if max_frame_len < len32 payload then Inl (MuxFrameTooLarge (len32 payload) max_frame_len)
      else Inr (written @ encode_frame kind payload))"

definition recv :: "u32 \<Rightarrow> bytes \<Rightarrow> multiplex_error + ((multiplex_type \<times> bytes) \<times> bytes)" where
  "recv max_frame_len stream =
     (case read_exact 5 stream of
        None \<Rightarrow> Inl MuxUnexpectedEof
      | Some (header, rest) \<Rightarrow>
          (case decode_header header max_frame_len of
             Inl e \<Rightarrow> Inl e
           | Inr (kind, len) \<Rightarrow>
               (case read_exact (unat len) rest of
                  None \<Rightarrow> Inl MuxUnexpectedEof
                | Some (payload, rest') \<Rightarrow> Inr ((kind, payload), rest'))))"

section \<open>The demultiplexer\<close>

text \<open>
  A sink is the queue of a channel, with whether its receiver is still alive; sending to a
  dropped receiver fails.
\<close>

record sink_queue =
  sink_open :: bool
  sink_items :: "bytes list"

type_synonym demux = "(multiplex_type, sink_queue) hmap"

definition add_sink :: "multiplex_type \<Rightarrow> sink_queue \<Rightarrow> demux \<Rightarrow> demux" where
  "add_sink kind q d = hm_put kind q d"

definition sink :: "multiplex_type \<Rightarrow> demux \<Rightarrow> sink_queue option" where
  "sink kind d = hm_get d kind"

definition route :: "multiplex_type \<Rightarrow> bytes \<Rightarrow> demux \<Rightarrow> multiplex_error + demux" where
  "route kind payload d =
     (case hm_get d kind of
        Some q \<Rightarrow> if sink_open q
                  then Inr (hm_put kind (q\<lparr>sink_items := sink_items q @ [payload]\<rparr>) d)
                  else Inl MuxBrokenPipe
      | None \<Rightarrow> Inl (NoSink kind))"

lemma recv_shorter: "recv m s = Inr (f, rest) \<Longrightarrow> length rest < length s"
  by (auto simp: recv_def read_exact_def split: option.splits sum.splits prod.splits if_splits)

text \<open>
  The demultiplexing task: receive and route until the first error. Each received message
  consumes at least its header, so on the bytes of a closed stream the loop ends.
\<close>

function demux_loop :: "u32 \<Rightarrow> bytes \<Rightarrow> demux \<Rightarrow> multiplex_error \<times> demux" where
  "demux_loop m stream d =
     (case recv m stream of
        Inl e \<Rightarrow> (e, d)
      | Inr ((kind, payload), rest) \<Rightarrow>
          (case route kind payload d of
             Inl e \<Rightarrow> (e, d)
           | Inr d' \<Rightarrow> demux_loop m rest d'))"
  by pat_completeness auto
termination
  by (relation "measure (\<lambda>(_, s, _). length s)") (auto dest: recv_shorter)

declare demux_loop.simps [simp del]

section \<open>Round trips\<close>

lemma from_code_code [simp]: "from_code (code k) = Some k"
  by (cases k) (simp_all add: from_code_def)

lemma from_code_Some: "from_code c = Some k \<longleftrightarrow> c = code k"
  by (cases k) (auto simp: from_code_def)

definition mux_ok :: "u32 \<Rightarrow> multiplex_type \<Rightarrow> bytes \<Rightarrow> bool" where
  "mux_ok m kind p \<longleftrightarrow> length p \<le> unat m"

lemma recv_cons:
  "recv m (h # a # b # c # d # body) =
     (case from_code h of
        None \<Rightarrow> Inl (InvalidType h)
      | Some kind \<Rightarrow>
          (let len = of_be32 a b c d
           in if m < len then Inl (MuxFrameTooLarge len m)
              else if length body < unat len then Inl MuxUnexpectedEof
              else Inr ((kind, take (unat len) body), drop (unat len) body)))"
  by (simp add: recv_def read_exact_def Let_def split: option.splits del: of_be32.simps)

lemma recv_short: "length s < 5 \<Longrightarrow> recv m s = Inl MuxUnexpectedEof"
  by (simp add: recv_def read_exact_def)

lemma recv_encode:
  assumes "mux_ok m kind p"
  shows "recv m (encode_frame kind p @ rest) = Inr ((kind, p), rest)"
proof -
  obtain a b c d where be: "be32 (len32 p) = [a, b, c, d]" "of_be32 a b c d = len32 p"
    by (rule be32_cases)
  have len: "unat (len32 p) = length p"
    using assms unat_u32 [of m] by (simp add: mux_ok_def unat_len32)
  with assms be show ?thesis
    by (simp add: encode_frame_def recv_cons mux_ok_def Let_def word_less_nat_alt del: of_be32.simps)
qed

lemma recv_sound:
  assumes "recv m s = Inr ((kind, p), rest)"
  shows "mux_ok m kind p \<and> s = encode_frame kind p @ rest"
proof -
  have "5 \<le> length s" using assms recv_short by (metis Inl_Inr_False not_less)
  then obtain h a b c d body where s: "s = h # a # b # c # d # body"
    using length_ge5 by blast
  let ?len = "of_be32 a b c d"
  have r: "\<not> m < ?len" "h = code kind" "\<not> length body < unat ?len"
    "p = take (unat ?len) body" "rest = drop (unat ?len) body"
    using assms by (auto simp: s recv_cons Let_def from_code_Some simp del: of_be32.simps
        split: if_splits option.splits)
  have "len32 p = ?len"
    using r(3,4) by (simp add: len32_def min_absorb2 not_less del: of_be32.simps)
  then show ?thesis
    using r by (simp add: s encode_frame_def be32_of_be32 mux_ok_def word_le_nat_alt not_less
        del: of_be32.simps)
qed

interpretation mux_frames: frame_codec encode_frame "recv m" "mux_ok m" MuxUnexpectedEof for m
proof unfold_locales
  fix t p rest
  show "mux_ok m t p \<Longrightarrow> recv m (encode_frame t p @ rest) = Inr ((t, p), rest)"
    by (rule recv_encode)
next
  fix bs t p rest
  show "recv m bs = Inr ((t, p), rest) \<Longrightarrow> mux_ok m t p \<and> bs = encode_frame t p @ rest"
    by (rule recv_sound)
next
  fix t p
  show "encode_frame t p \<noteq> []" by (simp add: encode_frame_def)
next
  show "recv m [] = Inl MuxUnexpectedEof" by (simp add: recv_short)
qed

section \<open>Routing\<close>

text \<open>What a sequence of sends writes, up to the first refusal.\<close>

fun send_all :: "u32 \<Rightarrow> (multiplex_type \<times> bytes) list \<Rightarrow> bytes \<Rightarrow> multiplex_error + bytes" where
  "send_all m [] written = Inr written"
| "send_all m ((k, p) # fs) written =
     (case send m k p written of Inl e \<Rightarrow> Inl e | Inr w \<Rightarrow> send_all m fs w)"

definition sinks_open :: "demux \<Rightarrow> multiplex_type set \<Rightarrow> bool" where
  "sinks_open d K \<longleftrightarrow> (\<forall>k\<in>K. \<exists>q. hm_get d k = Some q \<and> sink_open q)"

lemma route_open:
  assumes "sinks_open d K" and "kind \<in> K"
  obtains d' where "route kind p d = Inr d'" "sinks_open d' K"
    "\<And>k. hm_get d' k = map_option (\<lambda>q. if k = kind then q\<lparr>sink_items := sink_items q @ [p]\<rparr> else q) (hm_get d k)"
proof -
  from assms obtain q where q: "hm_get d kind = Some q" "sink_open q"
    by (auto simp: sinks_open_def)
  show ?thesis
    by (rule that [of "hm_put kind (q\<lparr>sink_items := sink_items q @ [p]\<rparr>) d"])
       (use assms q in \<open>auto simp: route_def sinks_open_def option.map_ident\<close>)
qed

lemma demux_loop_routes:
  "\<forall>(k, p)\<in>set fs. mux_ok m k p \<Longrightarrow> sinks_open d (fst ` set fs) \<Longrightarrow>
   demux_loop m (mux_frames.encode_all fs) d = (e, d') \<Longrightarrow>
   e = MuxUnexpectedEof \<and>
   (\<forall>k. hm_get d' k = map_option
      (\<lambda>q. q\<lparr>sink_items := sink_items q @ map snd (filter (\<lambda>f. fst f = k) fs)\<rparr>) (hm_get d k))"
proof (induction fs arbitrary: d)
  case Nil
  then show ?case
    by (simp add: demux_loop.simps [of m "[]"] recv_short mux_frames.encode_all_def option.map_ident)
next
  case (Cons f fs)
  obtain kind p where f: "f = (kind, p)" by (cases f)
  have recv: "recv m (mux_frames.encode_all (f # fs)) = Inr ((kind, p), mux_frames.encode_all fs)"
    using Cons.prems(1) f by (simp add: mux_frames.encode_all_def recv_encode)
  from Cons.prems(2) f obtain d1 where d1: "route kind p d = Inr d1" "sinks_open d1 (fst ` set (f # fs))"
    "\<And>k. hm_get d1 k = map_option (\<lambda>q. if k = kind then q\<lparr>sink_items := sink_items q @ [p]\<rparr> else q) (hm_get d k)"
    using route_open [of d "fst ` set (f # fs)" kind p] by auto
  have "demux_loop m (mux_frames.encode_all fs) d1 = (e, d')"
    using Cons.prems(3) recv d1(1) by (simp add: demux_loop.simps [of m "mux_frames.encode_all (f # fs)"])
  from Cons.IH [OF _ _ this] Cons.prems(1) d1(2)
  have IH: "e = MuxUnexpectedEof" "\<And>k. hm_get d' k = map_option
      (\<lambda>q. q\<lparr>sink_items := sink_items q @ map snd (filter (\<lambda>f. fst f = k) fs)\<rparr>) (hm_get d1 k)"
    by (auto simp: sinks_open_def)
  have "hm_get d' k = map_option
      (\<lambda>q. q\<lparr>sink_items := sink_items q @ map snd (filter (\<lambda>f. fst f = k) (f # fs))\<rparr>) (hm_get d k)" for k
    using IH(2) [of k] d1(3) [of k] f by (cases "hm_get d k") auto
  with IH(1) show ?case by blast
qed

lemma send_all_encodes:
  "\<forall>(k, p)\<in>set fs. mux_ok m k p \<Longrightarrow> send_all m fs written = Inr (written @ mux_frames.encode_all fs)"
proof (induction fs arbitrary: written)
  case Nil
  then show ?case by (simp add: mux_frames.encode_all_def)
next
  case (Cons f fs)
  obtain k p where f: "f = (k, p)" by (cases f)
  with Cons.prems have "unat (len32 p) = length p" "mux_ok m k p"
    using unat_u32 [of m] by (auto simp: mux_ok_def unat_len32)
  then have "\<not> m < len32 p" by (simp add: mux_ok_def word_less_nat_alt)
  with Cons f show ?case by (simp add: send_def mux_frames.encode_all_def)
qed

text \<open>
  C20. End to end. A sender that writes any sequence of messages within the frame limit, and a
  receiver with an open queue for every channel used: each queue ends up with exactly the
  messages of its channel, in the order they were sent, no other queue changes, and the task
  ends with the end of the stream.
\<close>
theorem multiplex_end_to_end:
  assumes "\<forall>(k, p)\<in>set fs. length p \<le> unat m" and "sinks_open d (fst ` set fs)"
  shows "\<exists>stream d'. send_all m fs [] = Inr stream \<and> demux_loop m stream d = (MuxUnexpectedEof, d') \<and>
    (\<forall>k. hm_get d' k = map_option
       (\<lambda>q. q\<lparr>sink_items := sink_items q @ map snd (filter (\<lambda>f. fst f = k) fs)\<rparr>) (hm_get d k))"
proof -
  have ok: "\<forall>(k, p)\<in>set fs. mux_ok m k p" using assms(1) by (auto simp: mux_ok_def)
  obtain e d' where r: "demux_loop m (mux_frames.encode_all fs) d = (e, d')" by fastforce
  from demux_loop_routes [OF ok assms(2) r] send_all_encodes [OF ok, of "[]"] r show ?thesis by auto
qed

definition demo_demux :: demux where
  "demo_demux = [(Video, \<lparr>sink_open = True, sink_items = []\<rparr>), (Control, \<lparr>sink_open = True, sink_items = []\<rparr>)]"

theorem multiplex_end_to_end_witness:
  "\<exists>stream d'. send_all 100 [(Video, [1]), (Control, [2, 3]), (Video, [4])] [] = Inr stream \<and>
     demux_loop 100 stream demo_demux = (MuxUnexpectedEof, d') \<and>
     sink Video d' = Some \<lparr>sink_open = True, sink_items = [[1], [4]]\<rparr> \<and>
     sink Control d' = Some \<lparr>sink_open = True, sink_items = [[2, 3]]\<rparr>"
proof -
  have 1: "\<forall>(k, p)\<in>set [(Video, [1]), (Control, [2, 3]), (Video, [4])]. length (p :: bytes) \<le> unat (100 :: u32)"
    by simp
  have 2: "sinks_open demo_demux (fst ` set [(Video, [1]), (Control, [2, 3]), (Video, [4 :: u8])])"
    by (simp add: sinks_open_def demo_demux_def)
  from multiplex_end_to_end [OF 1, of demo_demux] 2 show ?thesis
    by (auto simp: sink_def demo_demux_def)
qed

text \<open>
  The send guard and 32-bit truncation. Below \<open>2 ^ 32\<close> bytes the guard refuses exactly the
  payloads above the limit, without writing. At \<open>2 ^ 32\<close> bytes and above, the guard compares
  the truncated length: a payload of exactly \<open>2 ^ 32\<close> bytes passes every limit, and is framed
  with length zero.
\<close>
theorem send_guard:
  "(length p < 2 ^ 32 \<longrightarrow>
      send m k p w = (if unat m < length p then Inl (MuxFrameTooLarge (len32 p) m) else Inr (w @ encode_frame k p))) \<and>
   (length p = 2 ^ 32 \<longrightarrow> send m k p w = Inr (w @ code k # [0, 0, 0, 0] @ p))"
proof (intro conjI impI)
  assume "length p < 2 ^ 32"
  then have "unat (len32 p) = length p" by (rule unat_len32)
  then show "send m k p w =
      (if unat m < length p then Inl (MuxFrameTooLarge (len32 p) m) else Inr (w @ encode_frame k p))"
    by (simp add: send_def word_less_nat_alt)
next
  assume "length p = 2 ^ 32"
  then have "len32 p = 0" by (simp add: len32_def)
  then show "send m k p w = Inr (w @ code k # [0, 0, 0, 0] @ p)"
    by (simp add: send_def encode_frame_def be32_def)
qed

theorem send_guard_witness:
  "send 2 Video [1, 2, 3] [] = Inl (MuxFrameTooLarge (len32 [1, 2, 3 :: u8]) 2) \<and>
   send 2 Video (replicate (2 ^ 32) 0) [] = Inr ([] @ code Video # [0, 0, 0, 0] @ replicate (2 ^ 32) 0)"
proof
  have "length [1, 2, 3 :: u8] < 2 ^ 32" by simp
  with send_guard [of "[1, 2, 3]" 2 Video "[]"]
  have "send 2 Video [1, 2, 3] [] = (if unat (2 :: u32) < length [1, 2, 3 :: u8]
      then Inl (MuxFrameTooLarge (len32 [1, 2, 3 :: u8]) 2) else Inr ([] @ encode_frame Video [1, 2, 3]))"
    by blast
  then show "send 2 Video [1, 2, 3] [] = Inl (MuxFrameTooLarge (len32 [1, 2, 3 :: u8]) 2)" by simp
  have "length (replicate (2 ^ 32) (0 :: u8)) = 2 ^ 32" by (rule length_replicate)
  with send_guard [of "replicate (2 ^ 32) 0" 2 Video "[]"]
  show "send 2 Video (replicate (2 ^ 32) 0) [] = Inr ([] @ code Video # [0, 0, 0, 0] @ replicate (2 ^ 32) 0)"
    by blast
qed

end
