(* ===== verification/Channels.thy ===== *)
theory Channels
  imports NetAddr
begin

text \<open>
  What the relay's components act on besides their own tables: unbounded message channels
  (\<^verbatim>\<open>tokio::sync::mpsc::UnboundedSender\<close>), shared by several owners and therefore kept in an
  explicit store from channel identifiers to channels, and the audit events of
  \<^verbatim>\<open>relay/src/audit.rs\<close>, which every operation that records one returns.
\<close>

section \<open>Channels\<close>

record channel =
  ch_open :: bool
  ch_queue :: "bytes list"

type_synonym chan_store = "(nat, channel) hmap"

text \<open>\<^verbatim>\<open>tx.send(frame)\<close>: fails when the receiving half has been dropped.\<close>

definition chan_send :: "nat \<Rightarrow> bytes \<Rightarrow> chan_store \<Rightarrow> chan_store option" where
  "chan_send tx frame chans =
     (case hm_get chans tx of
        Some c \<Rightarrow> if ch_open c then Some (hm_put tx (c\<lparr>ch_queue := ch_queue c @ [frame]\<rparr>) chans) else None
      | None \<Rightarrow> None)"

text \<open>\<^verbatim>\<open>let _ = tx.send(frame)\<close>: the failure is ignored.\<close>

definition chan_send_ignore :: "nat \<Rightarrow> bytes \<Rightarrow> chan_store \<Rightarrow> chan_store" where
  "chan_send_ignore tx frame chans =
     (case chan_send tx frame chans of Some chans' \<Rightarrow> chans' | None \<Rightarrow> chans)"

definition chan_queue :: "nat \<Rightarrow> chan_store \<Rightarrow> bytes list" where
  "chan_queue tx chans = (case hm_get chans tx of Some c \<Rightarrow> ch_queue c | None \<Rightarrow> [])"

definition chan_live :: "nat \<Rightarrow> chan_store \<Rightarrow> bool" where
  "chan_live tx chans = (case hm_get chans tx of Some c \<Rightarrow> ch_open c | None \<Rightarrow> False)"

lemma chan_send_ignore_live [simp]: "chan_live t (chan_send_ignore tx f cs) = chan_live t cs"
  by (simp add: chan_send_ignore_def chan_send_def chan_live_def split: option.splits)

lemma chan_send_ignore_queue:
  "chan_queue t (chan_send_ignore tx f cs) =
     (if t = tx \<and> chan_live tx cs then chan_queue t cs @ [f] else chan_queue t cs)"
  by (simp add: chan_send_ignore_def chan_send_def chan_queue_def chan_live_def split: option.splits)

lemma chan_send_None: "chan_send tx f cs = None \<longleftrightarrow> \<not> chan_live tx cs"
  by (simp add: chan_send_def chan_live_def split: option.splits)

lemma chan_send_Some: "chan_send tx f cs = Some cs' \<longleftrightarrow> chan_live tx cs \<and> cs' = chan_send_ignore tx f cs"
  by (auto simp: chan_send_def chan_send_ignore_def chan_live_def split: option.splits if_splits)

section \<open>Audit events\<close>

datatype (plugins only: code) audit_event =
    LoginSuccess socket_addr string
  | LoginFailed socket_addr string
  | ProxyRegistered socket_addr string u16
  | ProxyRemoved socket_addr string
  | WorkConnOpened socket_addr string
  | WorkConnClosed socket_addr string string
  | RateLimited socket_addr string
  | PunchCandidateRegistered socket_addr string
  | PunchForwarded socket_addr string
  | PunchUnknownSession socket_addr string
  | DeviceRegistered socket_addr string
  | DeviceRejected socket_addr string string
  | DeviceOffline socket_addr string
  | DeviceResolveAccepted socket_addr string bool
  | DeviceResolveRejected socket_addr string string
  | TunnelRelayOpened string string u64
  | TunnelRelayClosed string u64 string
  | CandidateRegisterRejected socket_addr string string
  | DirUpserted socket_addr string string string nat nat
  | DirDeleted socket_addr string string
  | DirWriteRejected socket_addr string string string
  | DirQuotaRejected socket_addr string nat nat
  | InterconnectRejected socket_addr string string
  | DirDbCorruptRebuilt string
  | DirFrameDropped socket_addr u8
  | PushOk string string nat u64
  | PushFailed string string string
  | PushRejected string string string
  | PushApplied string nat nat u64
  | PushOutboxEnqueued string
  | PushOutboxPruned string nat string
  | PushSourceExpired string nat
  | DirRowExpired string string
  | PushSkippedNoToken string string
  | DirStartupConfig nat u64 u64 u64 nat
  | DirRefreshThrottled socket_addr
  | DirListAllQueried socket_addr nat
  | DirListThrottled socket_addr
  | DirQuotaKeyMigrated socket_addr string string string

end
