(* ===== verification/Known_Hosts.thy ===== *)
theory Known_Hosts
  imports Prelude
begin

text \<open>
  The two trust stores of \<^verbatim>\<open>utils/src/known_hosts.rs\<close>: the server's known clients (device id
  to public key) and the client's known hosts (device id to key fingerprint). SHA-256 is a
  parameter. Instants of the wall clock are numbers; whether writing the file succeeds is a
  parameter of the operations that save.
\<close>

section \<open>Fingerprints\<close>

definition hex_digit :: "nat \<Rightarrow> char" where
  "hex_digit n = (if n < 10 then char_of (48 + n) else char_of (87 + n))"

definition hex_byte :: "u8 \<Rightarrow> string" where
  "hex_byte b = [hex_digit (unat b div 16), hex_digit (unat b mod 16)]"

fun join :: "string \<Rightarrow> string list \<Rightarrow> string" where
  "join sep [] = []"
| "join sep [s] = s"
| "join sep (s # t # ss) = s @ sep @ join sep (t # ss)"

definition str_bytes :: "string \<Rightarrow> bytes" where
  "str_bytes s = map of_char s"

definition fingerprint :: "(bytes \<Rightarrow> bytes) \<Rightarrow> string \<Rightarrow> string" where
  "fingerprint sha public_key_base64 =
     (let digest = sha (str_bytes public_key_base64);
          hex = concat (map hex_byte digest)
      in join '':'' (chunks 4 hex))"

section \<open>Known clients\<close>

record known_client =
  kc_device_id :: string
  kc_public_key :: string
  kc_fingerprint :: string
  kc_first_seen :: nat
  kc_last_seen :: nat

datatype key_match = KeyMatch | KeyMismatch | KeyUnknown

type_synonym clients_store = "known_client list"

definition kc_lookup :: "clients_store \<Rightarrow> string \<Rightarrow> known_client option" where
  "kc_lookup s device_id = find (\<lambda>c. kc_device_id c = device_id) s"

definition kc_check :: "clients_store \<Rightarrow> string \<Rightarrow> string \<Rightarrow> key_match" where
  "kc_check s device_id claimed_key =
     (case kc_lookup s device_id of
        Some known \<Rightarrow> if kc_public_key known = claimed_key then KeyMatch else KeyMismatch
      | None \<Rightarrow> KeyUnknown)"

text \<open>\<^verbatim>\<open>iter_mut().find(p)\<close> and an assignment to the element: the first match is replaced.\<close>

fun update_first :: "('a \<Rightarrow> bool) \<Rightarrow> ('a \<Rightarrow> 'a) \<Rightarrow> 'a list \<Rightarrow> 'a list" where
  "update_first p f [] = []"
| "update_first p f (x # xs) = (if p x then f x # xs else x # update_first p f xs)"

definition kc_upsert :: "(bytes \<Rightarrow> bytes) \<Rightarrow> nat \<Rightarrow> string \<Rightarrow> string \<Rightarrow> clients_store \<Rightarrow> clients_store" where
  "kc_upsert sha now device_id key s =
     (let fp = fingerprint sha key
      in if kc_lookup s device_id \<noteq> None
         then update_first (\<lambda>c. kc_device_id c = device_id)
                (\<lambda>c. c\<lparr>kc_public_key := key, kc_fingerprint := fp, kc_last_seen := now\<rparr>) s
         else s @ [\<lparr>kc_device_id = device_id, kc_public_key = key, kc_fingerprint = fp,
                    kc_first_seen = now, kc_last_seen = now\<rparr>])"

definition kc_touch :: "nat \<Rightarrow> string \<Rightarrow> clients_store \<Rightarrow> clients_store" where
  "kc_touch now device_id s =
     update_first (\<lambda>c. kc_device_id c = device_id) (\<lambda>c. c\<lparr>kc_last_seen := now\<rparr>) s"

definition kc_remove :: "string \<Rightarrow> clients_store \<Rightarrow> bool \<times> clients_store" where
  "kc_remove device_id s =
     (let s' = filter (\<lambda>c. kc_device_id c \<noteq> device_id) s in (length s' \<noteq> length s, s'))"

section \<open>Known hosts\<close>

record known_host =
  kh_id :: string
  kh_fingerprint :: string
  kh_confirmed_at :: nat

datatype fingerprint_status = FpMatch | FpMismatch | FpUnknown

datatype known_hosts_error = KhIoError | KhParseError | KhSerializeError | KhNoConfigDir

type_synonym hosts_store = "known_host list"

definition fingerprint_of_id :: "hosts_store \<Rightarrow> string \<Rightarrow> string option" where
  "fingerprint_of_id s host_id = map_option kh_fingerprint (find (\<lambda>h. kh_id h = host_id) s)"

definition kh_check :: "(bytes \<Rightarrow> bytes) \<Rightarrow> hosts_store \<Rightarrow> string \<Rightarrow> string \<Rightarrow> fingerprint_status" where
  "kh_check sha s host_id key =
     (case fingerprint_of_id s host_id of
        Some stored \<Rightarrow> if stored = fingerprint sha key then FpMatch else FpMismatch
      | None \<Rightarrow> FpUnknown)"

text \<open>
  \<open>confirm\<close> changes the list in memory first and saves afterwards: when saving fails the
  error is returned and the change in memory stays.
\<close>

definition kh_confirm :: "(bytes \<Rightarrow> bytes) \<Rightarrow> known_hosts_error option \<Rightarrow> nat \<Rightarrow> string \<Rightarrow> string \<Rightarrow>
    hosts_store \<Rightarrow> (known_hosts_error + string) \<times> hosts_store" where
  "kh_confirm sha save_error now host_id key s =
     (let fp = fingerprint sha key;
          entry = \<lparr>kh_id = host_id, kh_fingerprint = fp, kh_confirmed_at = now\<rparr>;
          s' = (if find (\<lambda>h. kh_id h = host_id) s \<noteq> None
                then update_first (\<lambda>h. kh_id h = host_id) (\<lambda>_. entry) s else s @ [entry])
      in (case save_error of Some e \<Rightarrow> Inl e | None \<Rightarrow> Inr fp, s'))"

definition kh_remove :: "known_hosts_error option \<Rightarrow> string \<Rightarrow>
    hosts_store \<Rightarrow> (known_hosts_error + bool) \<times> hosts_store" where
  "kh_remove save_error host_id s =
     (let s' = filter (\<lambda>h. kh_id h \<noteq> host_id) s
      in (if length s' \<noteq> length s then (case save_error of Some e \<Rightarrow> Inl e | None \<Rightarrow> Inr True) else Inr False, s'))"

section \<open>The contract of a trust store\<close>

text \<open>
  Both stores give three answers about a device and a key. \<open>pinned\<close> is what the store holds
  for a device, \<open>ident\<close> what it compares of a key (the key itself, or its fingerprint).
\<close>

locale trust_store =
  fixes pinned :: "'s \<Rightarrow> string \<Rightarrow> 'i option"
    and ident :: "string \<Rightarrow> 'i"
    and check :: "'s \<Rightarrow> string \<Rightarrow> string \<Rightarrow> 'r"
    and accept :: 'r and reject :: 'r and ask :: 'r
    and trust :: "nat \<Rightarrow> string \<Rightarrow> string \<Rightarrow> 's \<Rightarrow> 's"
    and forget :: "string \<Rightarrow> 's \<Rightarrow> 's"
  assumes answers: "distinct [accept, reject, ask]"
    and check_eq: "check s d k = (case pinned s d of None \<Rightarrow> ask | Some i \<Rightarrow> if i = ident k then accept else reject)"
    and pinned_trust: "pinned (trust now d k s) d' = (if d' = d then Some (ident k) else pinned s d')"
    and pinned_forget: "pinned (forget d s) d' = (if d' = d then None else pinned s d')"
begin

lemma check_accept: "check s d k = accept \<longleftrightarrow> pinned s d = Some (ident k)"
  using answers by (auto simp: check_eq split: option.splits)

lemma check_reject: "check s d k = reject \<longleftrightarrow> (\<exists>i. pinned s d = Some i \<and> i \<noteq> ident k)"
  using answers by (auto simp: check_eq split: option.splits)

lemma pinned_trusts:
  "d \<notin> fst ` set others \<Longrightarrow> pinned (fold (\<lambda>(d', k). trust now d' k) others s) d = pinned s d"
  by (induction others arbitrary: s) (auto simp: pinned_trust split: if_splits)

text \<open>Once recorded, whatever is recorded for other devices, the key stays pinned.\<close>

lemma trust_pins:
  assumes "d \<notin> fst ` set others"
  shows "check (fold (\<lambda>(d', k). trust now' d' k) others (trust now d k s)) d k' =
    (if ident k' = ident k then accept else reject)"
  using pinned_trusts [OF assms] by (simp add: check_eq pinned_trust)

lemma forget_asks: "check (forget d s) d k = ask"
  by (simp add: check_eq pinned_forget)

end

lemma find_update_first:
  assumes "\<And>x. p x \<Longrightarrow> p (f x)"
  shows "find p (update_first p f xs) = map_option f (find p xs)"
  by (induction xs) (auto simp: assms)

lemma find_update_first_key:
  assumes "d' \<noteq> d" and "\<And>x. key x = d \<Longrightarrow> key (f x) = d"
  shows "find (\<lambda>x. key x = d') (update_first (\<lambda>x. key x = d) f xs) = find (\<lambda>x. key x = d') xs"
  using assms by (induction xs) auto

lemma find_append: "find p (xs @ ys) = (case find p xs of None \<Rightarrow> find p ys | Some x \<Rightarrow> Some x)"
  by (induction xs) auto

lemma find_filter_key:
  "find (\<lambda>x. key x = d') (filter (\<lambda>x. key x \<noteq> d) xs) =
    (if d' = d then None else find (\<lambda>x. key x = d') xs)"
  by (induction xs) auto

lemma find_prop: "find p xs = Some x \<Longrightarrow> p x"
  by (induction xs) (auto split: if_splits)

interpretation known_clients: trust_store
  "\<lambda>s d. map_option kc_public_key (kc_lookup s d)" "\<lambda>k. k" kc_check KeyMatch KeyMismatch KeyUnknown
  "kc_upsert sha" "\<lambda>d s. snd (kc_remove d s)"
  for sha
proof unfold_locales
  show "distinct [KeyMatch, KeyMismatch, KeyUnknown]" by simp
next
  fix s d k
  show "kc_check s d k = (case map_option kc_public_key (kc_lookup s d) of None \<Rightarrow> KeyUnknown
      | Some i \<Rightarrow> if i = k then KeyMatch else KeyMismatch)"
    by (simp add: kc_check_def split: option.split)
next
  fix now d k s d'
  show "map_option kc_public_key (kc_lookup (kc_upsert sha now d k s) d') =
      (if d' = d then Some k else map_option kc_public_key (kc_lookup s d'))"
    by (auto simp: kc_upsert_def kc_lookup_def Let_def find_append
        find_update_first find_update_first_key split: option.splits)
next
  fix d s d'
  show "map_option kc_public_key (kc_lookup (snd (kc_remove d s)) d') =
      (if d' = d then None else map_option kc_public_key (kc_lookup s d'))"
    by (auto simp: kc_remove_def kc_lookup_def Let_def find_filter_key)
qed

interpretation known_hosts: trust_store
  fingerprint_of_id "fingerprint sha" "kh_check sha" FpMatch FpMismatch FpUnknown
  "\<lambda>now d k s. snd (kh_confirm sha save_error now d k s)" "\<lambda>d s. snd (kh_remove save_error d s)"
  for sha save_error
proof unfold_locales
  show "distinct [FpMatch, FpMismatch, FpUnknown]" by simp
next
  fix s d k
  show "kh_check sha s d k = (case fingerprint_of_id s d of None \<Rightarrow> FpUnknown
      | Some i \<Rightarrow> if i = fingerprint sha k then FpMatch else FpMismatch)"
    by (simp add: kh_check_def)
next
  fix now d k s d'
  show "fingerprint_of_id (snd (kh_confirm sha save_error now d k s)) d' =
      (if d' = d then Some (fingerprint sha k) else fingerprint_of_id s d')"
    by (auto simp: kh_confirm_def fingerprint_of_id_def Let_def find_append
        find_update_first find_update_first_key split: option.splits)
next
  fix d s d'
  show "fingerprint_of_id (snd (kh_remove save_error d s)) d' = (if d' = d then None else fingerprint_of_id s d')"
    by (auto simp: kh_remove_def fingerprint_of_id_def Let_def find_filter_key)
qed

text \<open>
  C25. A pinned key cannot be swapped. After the server has recorded a key for a device, and
  whatever keys it records for other devices, the device's own key is a match and every other
  key is a mismatch (which the handshake refuses), until the device itself is recorded anew or
  removed; removing it makes the store ask again.
\<close>
theorem client_key_pinned:
  assumes "d \<notin> fst ` set others"
  shows "kc_check (fold (\<lambda>(d', k). kc_upsert sha now' d' k) others (kc_upsert sha now d k s)) d k' =
           (if k' = k then KeyMatch else KeyMismatch) \<and>
         kc_check (snd (kc_remove d s)) d k' = KeyUnknown"
  using known_clients.trust_pins [OF assms] known_clients.forget_asks by blast

theorem client_key_pinned_witness:
  "kc_check (fold (\<lambda>(d', k). kc_upsert (\<lambda>b. b) 9 d' k) [(''pc-b'', ''evil'')]
       (kc_upsert (\<lambda>b. b) 7 ''pc-a'' ''key-a'' [])) ''pc-a'' ''evil'' = KeyMismatch"
  using client_key_pinned 
    [where d = "''pc-a''" and others = "[(''pc-b'', ''evil'')]" and sha = "\<lambda>b. b" and now' = 9 and now = 7
      and k = "''key-a''" and s = "[]" and k' = "''evil''"]
  by simp

text \<open>
  Confirming a host. A confirmation pins the key's fingerprint for that host and no
  other: the same key is accepted afterwards and any key with another fingerprint is refused.
  The list in memory changes before the file is written, so a confirmation that returns a
  save error has the same effect on later checks of the running program.
\<close>
theorem confirm_pins_even_unsaved:
  "(case save_error of
      None \<Rightarrow> fst (kh_confirm sha save_error now h k s) = Inr (fingerprint sha k)
    | Some e \<Rightarrow> fst (kh_confirm sha save_error now h k s) = Inl e) \<and>
   kh_check sha (snd (kh_confirm sha save_error now h k s)) h k' =
     (if fingerprint sha k' = fingerprint sha k then FpMatch else FpMismatch) \<and>
   (h' \<noteq> h \<longrightarrow>
     kh_check sha (snd (kh_confirm sha save_error now h k s)) h' k' = kh_check sha s h' k')"
proof (intro conjI impI)
  show "case save_error of
      None \<Rightarrow> fst (kh_confirm sha save_error now h k s) = Inr (fingerprint sha k)
    | Some e \<Rightarrow> fst (kh_confirm sha save_error now h k s) = Inl e"
    by (simp add: kh_confirm_def Let_def split: option.split)
next
  show "kh_check sha (snd (kh_confirm sha save_error now h k s)) h k' =
     (if fingerprint sha k' = fingerprint sha k then FpMatch else FpMismatch)"
    by (simp add: known_hosts.check_eq known_hosts.pinned_trust)
next
  assume "h' \<noteq> h"
  then show "kh_check sha (snd (kh_confirm sha save_error now h k s)) h' k' = kh_check sha s h' k'"
    by (simp add: known_hosts.check_eq known_hosts.pinned_trust)
qed

theorem confirm_pins_even_unsaved_witness:
  "kh_check (\<lambda>b. b) (snd (kh_confirm (\<lambda>b. b) (Some KhIoError) 1 ''h'' ''key'' [])) ''h'' ''key'' = FpMatch \<and>
   kh_check (\<lambda>b. b) (snd (kh_confirm (\<lambda>b. b) (Some KhIoError) 1 ''h'' ''key'' [])) ''g'' ''key'' = FpUnknown"
  using confirm_pins_even_unsaved 
    [where save_error = "Some KhIoError" and sha = "\<lambda>b. b" and now = 1 and h = "''h''" and k = "''key''"
      and s = "[]" and k' = "''key''" and h' = "''g''"]
  by (simp add: kh_check_def fingerprint_of_id_def)

end
