(* ===== verification/Strings.thy ===== *)
theory Strings
  imports Prelude
begin

text \<open>
  What the code uses of Rust's \<^verbatim>\<open>str\<close> and \<^verbatim>\<open>char\<close>. A string is the list of the bytes of its UTF-8 text, each as a
  character. Trimming and letter case are those of ASCII: where the code trims or lowers text, that is all
  the accepted texts contain.
\<close>

section \<open>Characters\<close>

definition is_ascii_digit :: "char \<Rightarrow> bool" where
  "is_ascii_digit c = (CHR ''0'' \<le> c \<and> c \<le> CHR ''9'')"

definition is_lower_hex :: "char \<Rightarrow> bool" where
  "is_lower_hex c = (is_ascii_digit c \<or> (CHR ''a'' \<le> c \<and> c \<le> CHR ''f''))"

definition is_ascii_hexdigit :: "char \<Rightarrow> bool" where
  "is_ascii_hexdigit c = (is_lower_hex c \<or> (CHR ''A'' \<le> c \<and> c \<le> CHR ''F''))"

definition is_ascii_upper :: "char \<Rightarrow> bool" where
  "is_ascii_upper c = (CHR ''A'' \<le> c \<and> c \<le> CHR ''Z'')"

definition is_ascii_alphanumeric :: "char \<Rightarrow> bool" where
  "is_ascii_alphanumeric c =
     (is_ascii_digit c \<or> is_ascii_upper c \<or> (CHR ''a'' \<le> c \<and> c \<le> CHR ''z''))"

definition to_ascii_lower :: "char \<Rightarrow> char" where
  "to_ascii_lower c = (if is_ascii_upper c then char_of (of_char c + 32 :: nat) else c)"

definition is_ascii_alphabetic :: "char \<Rightarrow> bool" where
  "is_ascii_alphabetic c = (is_ascii_upper c \<or> (CHR ''a'' \<le> c \<and> c \<le> CHR ''z''))"

definition is_ascii_lower :: "char \<Rightarrow> bool" where
  "is_ascii_lower c = (CHR ''a'' \<le> c \<and> c \<le> CHR ''z'')"

section \<open>Prefixes, suffixes and white space\<close>

definition starts_with :: "string \<Rightarrow> string \<Rightarrow> bool" where
  "starts_with s p \<longleftrightarrow> take (length p) s = p"

definition ends_with :: "string \<Rightarrow> string \<Rightarrow> bool" where
  "ends_with s p \<longleftrightarrow> length p \<le> length s \<and> drop (length s - length p) s = p"

text \<open>\<^verbatim>\<open>str::trim\<close> on ASCII white space.\<close>

definition is_white :: "char \<Rightarrow> bool" where
  "is_white c \<longleftrightarrow> (of_char c :: nat) \<in> {9, 10, 11, 12, 13, 32}"

definition trim :: "string \<Rightarrow> string" where
  "trim s = rev (dropWhile is_white (rev (dropWhile is_white s)))"

definition strip_prefix :: "string \<Rightarrow> string \<Rightarrow> string option" where
  "strip_prefix p s = (if starts_with s p then Some (drop (length p) s) else None)"

definition quoted :: "string \<Rightarrow> string" where
  "quoted s = [char_of (39 :: nat)] @ s @ [char_of (39 :: nat)]"

text \<open>\<^verbatim>\<open>str::split(c)\<close>: at least one piece.\<close>

fun split_on :: "char \<Rightarrow> string \<Rightarrow> string list" where
  "split_on c [] = [[]]"
| "split_on c (x # xs) =
     (if x = c then [] # split_on c xs
      else case split_on c xs of [] \<Rightarrow> [[x]] | p # ps \<Rightarrow> (x # p) # ps)"

section \<open>Facts\<close>

lemma trim_plain: "list_all (\<lambda>c. \<not> is_white c) s \<Longrightarrow> trim s = s"
proof -
  assume a: "list_all (\<lambda>c. \<not> is_white c) s"
  have "dropWhile is_white s = s" using a by (cases s) auto
  moreover have "dropWhile is_white (rev s) = rev s" using a by (cases s rule: rev_cases) auto
  ultimately show ?thesis by (simp add: trim_def)
qed

lemma alphanumeric_not_white: "is_ascii_alphanumeric c \<Longrightarrow> \<not> is_white c"
  by (auto simp: is_ascii_alphanumeric_def is_ascii_digit_def is_ascii_upper_def is_white_def less_eq_char_def)

lemma hexdigit_alphanumeric: "is_ascii_hexdigit c \<Longrightarrow> is_ascii_alphanumeric c"
  by (auto simp: is_ascii_hexdigit_def is_lower_hex_def is_ascii_alphanumeric_def is_ascii_digit_def is_ascii_upper_def
      less_eq_char_def)

lemma trim_idem [simp]: "trim (trim s) = trim s"
proof -
  define u where "u = dropWhile is_white s"
  define v where "v = rev (dropWhile is_white (rev u))"
  have "v = [] \<or> \<not> is_white (hd v)"
  proof (cases "v = []")
    case False
    then have u: "u \<noteq> []" by (auto simp: v_def)
    have "rev u = takeWhile is_white (rev u) @ rev v" by (simp add: v_def)
    then have "u = v @ rev (takeWhile is_white (rev u))" by (metis rev_append rev_rev_ident)
    then have "hd u = hd v" using False by (metis hd_append2)
    moreover have "\<not> is_white (hd u)" using u hd_dropWhile [of is_white s] by (simp add: u_def)
    ultimately show ?thesis by simp
  qed simp
  then have 1: "dropWhile is_white v = v" by (cases v) auto
  have "dropWhile is_white (rev v) = rev v"
    unfolding v_def by (simp add: dropWhile_idem)
  with 1 have "trim v = v" by (simp add: trim_def)
  moreover have "trim s = v" by (simp add: trim_def u_def v_def)
  ultimately show ?thesis by simp
qed

lemma to_ascii_lower_idem [simp]: "to_ascii_lower (to_ascii_lower c) = to_ascii_lower c"
proof (cases "is_ascii_upper c")
  case True
  define n where "n = (of_char c :: nat)"
  have n: "65 \<le> n" "n \<le> 90" using True by (simp_all add: is_ascii_upper_def less_eq_char_def n_def)
  have l: "to_ascii_lower c = char_of (n + 32)" using True by (simp add: to_ascii_lower_def n_def)
  have "\<not> is_ascii_upper (char_of (n + 32))"
    using n by (simp add: is_ascii_upper_def less_eq_char_def)
  then show ?thesis by (simp add: l) (simp add: to_ascii_lower_def)
qed (simp add: to_ascii_lower_def)

lemma lower_hexdigit: "is_ascii_hexdigit c \<Longrightarrow> is_lower_hex (to_ascii_lower c)"
proof -
  assume a: "is_ascii_hexdigit c"
  define n where "n = (of_char c :: nat)"
  have c: "c = char_of n" by (simp add: n_def)
  show ?thesis
  proof (cases "65 \<le> n \<and> n \<le> 90")
    case True
    then have "n \<le> 70"
      using a by (auto simp: is_ascii_hexdigit_def is_lower_hex_def is_ascii_digit_def less_eq_char_def n_def)
    then show ?thesis using True
      by (simp add: c to_ascii_lower_def is_ascii_upper_def is_lower_hex_def less_eq_char_def)
  next
    case False
    then have "to_ascii_lower c = c" by (auto simp: to_ascii_lower_def is_ascii_upper_def less_eq_char_def n_def)
    moreover have "is_lower_hex c"
      using a False by (auto simp: is_ascii_hexdigit_def is_lower_hex_def less_eq_char_def n_def)
    ultimately show ?thesis by simp
  qed
qed

lemma lower_hex_hexdigit: "is_lower_hex c \<Longrightarrow> is_ascii_hexdigit c"
  by (simp add: is_ascii_hexdigit_def)

lemma split_on_nonempty: "split_on c s \<noteq> []"
  by (cases s) (auto split: list.splits)

lemma split_on_piece: "c \<notin> set p \<Longrightarrow> split_on c p = [p]"
  by (induction p) auto

lemma split_on_append: "c \<notin> set p \<Longrightarrow> split_on c (p @ c # s) = p # split_on c s"
  by (induction p) auto

end
