(* ===== verification/Relay_Protocol.thy ===== *)
theory Relay_Protocol
  imports NetAddr Framing Strings
begin

text \<open>
  The relay's wire protocol, \<^verbatim>\<open>relay/src/protocol.rs\<close>: message types, frame encoding and
  decoding, device-identifier forms and the version check. The bincode serialiser is a
  third-party crate and is a parameter of the functions that call it. Rust strings are byte
  lists here (\<open>string\<close>): \<^verbatim>\<open>len()\<close> counts bytes, and the ASCII predicates of the code reject
  every byte of a non-ASCII character as they reject the character.
\<close>

section \<open>Frame types\<close>

definition TYPE_CONTROL :: u8 where "TYPE_CONTROL = 0x01"
definition TYPE_WORK_HEADER :: u8 where "TYPE_WORK_HEADER = 0x10"
definition TYPE_RESERVED_BASE :: u8 where "TYPE_RESERVED_BASE = 0x80"
definition TYPE_CANDIDATE_REGISTER :: u8 where "TYPE_CANDIDATE_REGISTER = 0x82"
definition TYPE_TUNNEL_REQUEST :: u8 where "TYPE_TUNNEL_REQUEST = 0x84"
definition TYPE_PEER_CANDIDATES :: u8 where "TYPE_PEER_CANDIDATES = 0x87"
definition TYPE_PUNCH_RESULT :: u8 where "TYPE_PUNCH_RESULT = 0x88"
definition TYPE_PATH_PROBE :: u8 where "TYPE_PATH_PROBE = 0x89"
definition TYPE_PATH_PROBE_ACK :: u8 where "TYPE_PATH_PROBE_ACK = 0x8A"
definition TYPE_EXT_END :: u8 where "TYPE_EXT_END = 0x94"

lemmas type_defs = TYPE_CONTROL_def TYPE_WORK_HEADER_def TYPE_RESERVED_BASE_def
  TYPE_CANDIDATE_REGISTER_def TYPE_TUNNEL_REQUEST_def TYPE_PEER_CANDIDATES_def
  TYPE_PUNCH_RESULT_def TYPE_PATH_PROBE_def TYPE_PATH_PROBE_ACK_def TYPE_EXT_END_def

definition DIRECTORY_FRAME_TYPES :: "u8 list" where
  "DIRECTORY_FRAME_TYPES = [0x8B, 0x8C, 0x8D, 0x8E, 0x8F]"

definition DEPRECATED_DIRECTORY_FRAME_TYPES :: "u8 list" where
  "DEPRECATED_DIRECTORY_FRAME_TYPES = [0x90, 0x91, 0x92, 0x93, 0x94]"

definition is_directory_frame_type :: "u8 \<Rightarrow> bool" where
  "is_directory_frame_type ty = (ty \<in> set DIRECTORY_FRAME_TYPES)"

definition is_deprecated_directory_frame_type :: "u8 \<Rightarrow> bool" where
  "is_deprecated_directory_frame_type ty = (ty \<in> set DEPRECATED_DIRECTORY_FRAME_TYPES)"

definition is_known_type :: "u8 \<Rightarrow> bool" where
  "is_known_type ty =
     (ty = TYPE_CONTROL \<or> ty = TYPE_WORK_HEADER \<or> (TYPE_RESERVED_BASE \<le> ty \<and> ty \<le> TYPE_EXT_END))"

definition MAX_FRAME_LEN :: u32 where "MAX_FRAME_LEN = 16 * 1024 * 1024"
definition FRAME_HEADER_LEN :: nat where "FRAME_HEADER_LEN = 5"
definition FRAME_READ_CHUNK :: nat where "FRAME_READ_CHUNK = 16 * 1024"

section \<open>Messages\<close>

datatype candidate_kind = Udp | Tcp

record candidate =
  cand_addr :: socket_addr
  cand_kind :: candidate_kind
  cand_priority :: u8

record candidate_register =
  cr_device_id :: string
  cr_session_id :: "bytes option"
  cr_candidates :: "candidate list"

record tunnel_request =
  tr_from_peer :: string
  tr_conn_id :: u64

record peer_candidates =
  pc_session_id :: bytes
  pc_candidates :: "candidate list"

record punch_result =
  pr_session_id :: bytes
  pr_ok :: bool
  pr_path :: "candidate_kind option"

record path_probe =
  pp_path_id :: u32
  pp_ts_ms :: u64

record device_info_payload =
  di_device_id :: string
  di_candidates :: "candidate list"
  di_ed25519_pub :: string
  di_online :: bool
  di_ts :: u64

record punch_probe =
  probe_session :: bytes
  probe_nonce :: bytes

datatype control_msg =
    Login string string string "string option" "string option" "bytes option" "bytes option"
  | LoginResp bool "string option" string "bytes option"
  | NewProxy string string u16 u16
  | ProxyResp bool string "string option" "u16 option"
  | StartWorkConn string u64
  | CloseProxy string
  | Logout
  | Ping u64
  | Pong u64
  | AuthChallenge bytes
  | RegChallenge bytes
  | RegProof string string bytes

record work_conn_header =
  wh_proxy_name :: string
  wh_conn_id :: u64

datatype protocol_error =
    FrameTooLarge u32 u32
  | UnknownType u8
  | Bincode string
  | IoUnexpectedEof

section \<open>Directory error codes\<close>

datatype dir_error_code = AuthFailed | NotFound | InvalidDeviceId | InvalidDomain | QuotaExceeded | Busy

fun dir_error_as_str :: "dir_error_code \<Rightarrow> string" where
  "dir_error_as_str AuthFailed = ''auth_failed''"
| "dir_error_as_str NotFound = ''not_found''"
| "dir_error_as_str InvalidDeviceId = ''invalid_device_id''"
| "dir_error_as_str InvalidDomain = ''invalid_domain''"
| "dir_error_as_str QuotaExceeded = ''quota_exceeded''"
| "dir_error_as_str Busy = ''busy''"

definition dir_error_parse :: "string \<Rightarrow> dir_error_code option" where
  "dir_error_parse s =
     (if s = ''auth_failed'' then Some AuthFailed
      else if s = ''not_found'' then Some NotFound
      else if s = ''invalid_device_id'' then Some InvalidDeviceId
      else if s = ''invalid_domain'' then Some InvalidDomain
      else if s = ''quota_exceeded'' then Some QuotaExceeded
      else if s = ''busy'' then Some Busy
      else None)"

lemma dir_error_parse_iff: "dir_error_parse s = Some c \<longleftrightarrow> s = dir_error_as_str c"
  by (cases c) (auto simp: dir_error_parse_def)

section \<open>Device identifiers\<close>

definition DEVICE_SHORT_CODE_LEN :: nat where "DEVICE_SHORT_CODE_LEN = 10"

definition is_fingerprint_device_id :: "string \<Rightarrow> bool" where
  "is_fingerprint_device_id device_id =
     (let stripped = filter (\<lambda>c. c \<notin> {CHR '':'', CHR '' '', CHR 0x09, CHR 0x0D, CHR 0x0A}) device_id
      in length stripped = 64 \<and> list_all is_ascii_hexdigit stripped)"

definition is_short_code :: "string \<Rightarrow> bool" where
  "is_short_code s = (length s = DEVICE_SHORT_CODE_LEN \<and> list_all is_lower_hex s)"

definition device_id_short_code :: "string \<Rightarrow> string option" where
  "device_id_short_code device_id =
     (if \<not> is_fingerprint_device_id device_id then None
      else Some (take DEVICE_SHORT_CODE_LEN
             (map to_ascii_lower (filter (\<lambda>c. c \<noteq> CHR '':'') device_id))))"

section \<open>Frames\<close>

definition wrap_frame :: "u8 \<Rightarrow> bytes \<Rightarrow> bytes" where
  "wrap_frame ty payload = ty # be32 (len32 payload) @ payload"

text \<open>\<open>decode_frame\<close> reads one frame off the front of a buffer.\<close>

fun decode_frame :: "bytes \<Rightarrow> protocol_error + (u8 \<times> bytes)" where
  "decode_frame (ty # a # b # c # d # body) =
     (let len = of_be32 a b c d
      in if MAX_FRAME_LEN < len then Inl (FrameTooLarge len MAX_FRAME_LEN)
         else if length body < unat len then Inl IoUnexpectedEof
         else if \<not> is_known_type ty then Inl (UnknownType ty)
         else Inr (ty, take (unat len) body))"
| "decode_frame _ = Inl IoUnexpectedEof"

text \<open>The chunked read loop of \<open>read_frame\<close>: at most \<open>FRAME_READ_CHUNK\<close> bytes at a time.\<close>

function read_chunks :: "nat \<Rightarrow> bytes \<Rightarrow> bytes \<Rightarrow> (bytes \<times> bytes) option" where
  "read_chunks remaining payload stream =
     (if 0 < remaining then
        (let n = min remaining FRAME_READ_CHUNK
         in case read_exact n stream of
              None \<Rightarrow> None
            | Some (buf, rest) \<Rightarrow> read_chunks (remaining - n) (payload @ buf) rest)
      else Some (payload, stream))"
  by pat_completeness auto
termination
  by (relation "measure (\<lambda>(r, _, _). r)") (auto simp: FRAME_READ_CHUNK_def)

declare read_chunks.simps [simp del]

definition read_frame :: "bytes \<Rightarrow> protocol_error + ((u8 \<times> bytes) \<times> bytes)" where
  "read_frame stream =
     (case read_exact FRAME_HEADER_LEN stream of
        Some ([ty, a, b, c, d], rest) \<Rightarrow>
          (let len = of_be32 a b c d
           in if MAX_FRAME_LEN < len then Inl (FrameTooLarge len MAX_FRAME_LEN)
              else if \<not> is_known_type ty then Inl (UnknownType ty)
              else (case read_chunks (unat len) [] rest of
                      None \<Rightarrow> Inl IoUnexpectedEof
                    | Some (payload, rest') \<Rightarrow> Inr ((ty, payload), rest')))
      | _ \<Rightarrow> Inl IoUnexpectedEof)"

text \<open>Typed messages: \<open>ser\<close> and \<open>de\<close> are bincode's functions for the message type.\<close>

definition encode_control :: "(control_msg \<Rightarrow> string + bytes) \<Rightarrow> control_msg \<Rightarrow> protocol_error + bytes" where
  "encode_control ser msg =
     (case ser msg of Inl e \<Rightarrow> Inl (Bincode e) | Inr payload \<Rightarrow> Inr (wrap_frame TYPE_CONTROL payload))"

definition decode_control :: "(bytes \<Rightarrow> string + control_msg) \<Rightarrow> u8 \<Rightarrow> bytes \<Rightarrow> protocol_error + control_msg" where
  "decode_control de ty payload =
     (if ty \<noteq> TYPE_CONTROL then Inl (UnknownType ty)
      else case de payload of Inl e \<Rightarrow> Inl (Bincode e) | Inr m \<Rightarrow> Inr m)"

definition encode_work_header :: "(work_conn_header \<Rightarrow> string + bytes) \<Rightarrow> work_conn_header \<Rightarrow> protocol_error + bytes" where
  "encode_work_header ser h =
     (case ser h of Inl e \<Rightarrow> Inl (Bincode e) | Inr payload \<Rightarrow> Inr (wrap_frame TYPE_WORK_HEADER payload))"

definition decode_work_header :: "(bytes \<Rightarrow> string + work_conn_header) \<Rightarrow> u8 \<Rightarrow> bytes \<Rightarrow> protocol_error + work_conn_header" where
  "decode_work_header de ty payload =
     (if ty \<noteq> TYPE_WORK_HEADER then Inl (UnknownType ty)
      else case de payload of Inl e \<Rightarrow> Inl (Bincode e) | Inr h \<Rightarrow> Inr h)"

definition encode_extension :: "('m \<Rightarrow> string + bytes) \<Rightarrow> u8 \<Rightarrow> 'm \<Rightarrow> protocol_error + bytes" where
  "encode_extension ser ty msg =
     (case ser msg of Inl e \<Rightarrow> Inl (Bincode e) | Inr payload \<Rightarrow> Inr (wrap_frame ty payload))"

definition decode_extension :: "(bytes \<Rightarrow> string + 'm) \<Rightarrow> u8 \<Rightarrow> bytes \<Rightarrow> u8 \<Rightarrow> protocol_error + 'm" where
  "decode_extension de ty payload expected =
     (if ty \<noteq> expected then Inl (UnknownType ty)
      else case de payload of Inl e \<Rightarrow> Inl (Bincode e) | Inr m \<Rightarrow> Inr m)"

definition registration_proof_payload :: "bytes \<Rightarrow> bytes \<Rightarrow> bytes \<Rightarrow> bytes" where
  "registration_proof_payload nonce device_id ed25519_pub =
     map (\<lambda>c. of_char c) ''KIRIN-REG1'' @ nonce @ device_id @ ed25519_pub"

section \<open>Version negotiation\<close>

text \<open>\<^verbatim>\<open>str::parse::<u64>\<close>: an optional plus sign, at least one digit, no overflow.\<close>

fun digits_value :: "nat \<Rightarrow> string \<Rightarrow> nat option" where
  "digits_value acc [] = Some acc"
| "digits_value acc (c # cs) =
     (if is_ascii_digit c then digits_value (acc * 10 + (of_char c - 48)) cs else None)"

definition parse_u64 :: "string \<Rightarrow> nat option" where
  "parse_u64 s =
     (let ds = (case s of c # cs \<Rightarrow> if c = CHR ''+'' then cs else s | [] \<Rightarrow> [])
      in if ds = [] then None
         else case digits_value 0 ds of
                None \<Rightarrow> None
              | Some n \<Rightarrow> if n < 2 ^ 64 then Some n else None)"

definition major_version :: "string \<Rightarrow> nat" where
  "major_version version =
     (case parse_u64 (takeWhile (\<lambda>c. c \<noteq> CHR ''.'') version) of None \<Rightarrow> 0 | Some n \<Rightarrow> n)"

section \<open>Frame round trips\<close>

lemma read_chunks_eq:
  "read_chunks n payload stream =
     (case read_exact n stream of None \<Rightarrow> None | Some (buf, rest) \<Rightarrow> Some (payload @ buf, rest))"
proof (induction n payload stream rule: read_chunks.induct)
  case (1 n payload stream)
  let ?m = "min n FRAME_READ_CHUNK"
  show ?case
  proof (cases "0 < n")
    case False
    then show ?thesis by (subst read_chunks.simps) (simp add: read_exact_def)
  next
    case n: True
    show ?thesis
    proof (cases "length stream < ?m")
      case True
      then show ?thesis
        using n by (simp add: read_chunks.simps [of n] read_exact_def Let_def)
    next
      case False
      then have ex: "read_exact ?m stream = Some (take ?m stream, drop ?m stream)"
        by (simp add: read_exact_def)
      have "read_chunks n payload stream = read_chunks (n - ?m) (payload @ take ?m stream) (drop ?m stream)"
        using n ex by (simp add: read_chunks.simps [of n payload] Let_def)
      also have "\<dots> = (case read_exact (n - ?m) (drop ?m stream) of None \<Rightarrow> None
          | Some (buf, rest) \<Rightarrow> Some ((payload @ take ?m stream) @ buf, rest))"
        using "1" [OF n refl ex refl] by simp
      also have "\<dots> = (case read_exact n stream of None \<Rightarrow> None | Some (buf, rest) \<Rightarrow> Some (payload @ buf, rest))"
        using False by (auto simp: read_exact_def take_add [symmetric] drop_drop)
      finally show ?thesis .
    qed
  qed
qed

lemma read_frame_cons:
  "read_frame (ty # a # b # c # d # body) =
     (let len = of_be32 a b c d
      in if MAX_FRAME_LEN < len then Inl (FrameTooLarge len MAX_FRAME_LEN)
         else if \<not> is_known_type ty then Inl (UnknownType ty)
         else if length body < unat len then Inl IoUnexpectedEof
         else Inr ((ty, take (unat len) body), drop (unat len) body))"
  by (simp add: read_frame_def read_exact_def FRAME_HEADER_LEN_def read_chunks_eq Let_def
      del: of_be32.simps)

lemma read_frame_short: "length bs < 5 \<Longrightarrow> read_frame bs = Inl IoUnexpectedEof"
  by (simp add: read_frame_def read_exact_def FRAME_HEADER_LEN_def)

definition frame_ok :: "u8 \<Rightarrow> bytes \<Rightarrow> bool" where
  "frame_ok ty p \<longleftrightarrow> is_known_type ty \<and> length p \<le> unat MAX_FRAME_LEN"

lemma unat_max_frame [simp]: "unat MAX_FRAME_LEN = 16777216"
  by (simp add: MAX_FRAME_LEN_def)

lemma read_wrap_frame:
  assumes "frame_ok ty p"
  shows "read_frame (wrap_frame ty p @ rest) = Inr ((ty, p), rest)"
proof -
  obtain a b c d where be: "be32 (len32 p) = [a, b, c, d]" "of_be32 a b c d = len32 p"
    by (rule be32_cases)
  have len: "unat (len32 p) = length p" using assms by (simp add: frame_ok_def unat_len32)
  with assms have small: "\<not> MAX_FRAME_LEN < len32 p"
    by (simp add: frame_ok_def word_less_nat_alt)
  show ?thesis
    using assms be len small
    by (simp add: wrap_frame_def read_frame_cons frame_ok_def Let_def del: of_be32.simps)
qed

lemma read_frame_sound:
  assumes "read_frame bs = Inr ((ty, p), rest)"
  shows "frame_ok ty p \<and> bs = wrap_frame ty p @ rest"
proof -
  have "5 \<le> length bs" using assms read_frame_short by (metis Inl_Inr_False not_less)
  then obtain t a b c d body where bs: "bs = t # a # b # c # d # body"
    using length_ge5 by blast
  let ?len = "of_be32 a b c d"
  have r: "\<not> MAX_FRAME_LEN < ?len" "is_known_type t" "\<not> length body < unat ?len"
    "ty = t" "p = take (unat ?len) body" "rest = drop (unat ?len) body"
    using assms by (auto simp: bs read_frame_cons Let_def simp del: of_be32.simps split: if_splits)
  have len: "len32 p = ?len"
    using r(3,5) by (simp add: len32_def min_absorb2 not_less del: of_be32.simps)
  have "frame_ok ty p"
    using r by (simp add: frame_ok_def word_le_nat_alt not_less del: of_be32.simps)
  moreover have "bs = wrap_frame ty p @ rest"
    using r len by (simp add: bs wrap_frame_def be32_of_be32 del: of_be32.simps)
  ultimately show ?thesis ..
qed

interpretation relay_frames: frame_codec wrap_frame read_frame frame_ok IoUnexpectedEof
proof unfold_locales
  fix t p rest
  show "frame_ok t p \<Longrightarrow> read_frame (wrap_frame t p @ rest) = Inr ((t, p), rest)"
    by (rule read_wrap_frame)
next
  fix bs t p rest
  show "read_frame bs = Inr ((t, p), rest) \<Longrightarrow> frame_ok t p \<and> bs = wrap_frame t p @ rest"
    by (rule read_frame_sound)
next
  fix t p
  show "wrap_frame t p \<noteq> []" by (simp add: wrap_frame_def)
next
  show "read_frame [] = Inl IoUnexpectedEof" by (simp add: read_frame_short)
qed

text \<open>
  C21. Streams of relay frames. Whatever sequence of accepted frames a peer writes back to
  back, the reader gets exactly these frames in this order and then the end of the stream;
  any fuel above the number of frames will do.
\<close>
theorem relay_stream_roundtrip:
  assumes "\<forall>(ty, p)\<in>set fs. frame_ok ty p" and "length fs < fuel"
  shows "read_frames read_frame fuel (concat (map (\<lambda>(ty, p). wrap_frame ty p) fs))
           = (fs, Some IoUnexpectedEof)"
  using relay_frames.read_encoded [OF assms] by (simp add: relay_frames.encode_all_def)

theorem relay_stream_roundtrip_witness:
  "read_frames read_frame 3 (wrap_frame 0x01 [1, 2, 3] @ wrap_frame 0x82 [])
     = ([(0x01, [1, 2, 3]), (0x82, [])], Some IoUnexpectedEof)"
proof -
  have ok: "\<forall>(ty, p)\<in>set [(0x01, [1, 2, 3]), (0x82, [])]. frame_ok ty p"
    by (simp add: frame_ok_def is_known_type_def type_defs)
  show ?thesis using relay_stream_roundtrip [OF ok, of 3] by simp
qed

text \<open>
  Judging a frame dead (TNL-PROTO-007). A frame comes out of any byte stream, however
  hostile, only when its type is a known one and its payload is at most 16 MiB, and then the
  bytes consumed are the encoding of that frame; and the buffer decoder accepts the same
  prefixes as the stream reader, with the same result.
\<close>
theorem read_frame_only_good:
  "(read_frame bs = Inr ((ty, p), rest) \<longleftrightarrow>
      is_known_type ty \<and> length p \<le> 16 * 1024 * 1024 \<and> bs = wrap_frame ty p @ rest) \<and>
   (decode_frame bs = Inr (ty, p) \<longleftrightarrow> (\<exists>rest. read_frame bs = Inr ((ty, p), rest)))"
proof -
  have "frame_ok ty p \<longleftrightarrow> is_known_type ty \<and> length p \<le> 16 * 1024 * 1024"
    by (simp add: frame_ok_def)
  moreover have "decode_frame bs = Inr (ty, p) \<longleftrightarrow> (\<exists>rest. read_frame bs = Inr ((ty, p), rest))"
  proof (cases "length bs < 5")
    case True
    then have "decode_frame bs = Inl IoUnexpectedEof"
      by (cases bs rule: decode_frame.cases) (auto simp del: of_be32.simps)
    with True show ?thesis by (simp add: read_frame_short)
  next
    case False
    then obtain t a b c d body where "bs = t # a # b # c # d # body"
      using length_ge5 [of bs] by (auto simp: not_less)
    then show ?thesis by (auto simp: read_frame_cons Let_def simp del: of_be32.simps)
  qed
  ultimately show ?thesis using read_wrap_frame read_frame_sound by blast
qed

text \<open>
  Typed messages. With a serialiser whose \<open>de\<close> undoes its \<open>ser\<close> (bincode's documented
  behaviour), a control message that encodes to a payload within the frame limit is read back
  from the stream as the same message.
\<close>
theorem control_roundtrip:
  assumes bincode: "\<And>m b. ser m = Inr b \<Longrightarrow> de b = Inr m"
    and "encode_control ser msg = Inr frame" and "length frame \<le> unat MAX_FRAME_LEN"
  shows "\<exists>payload. read_frame (frame @ rest) = Inr ((TYPE_CONTROL, payload), rest) \<and>
           decode_control de TYPE_CONTROL payload = Inr msg"
proof -
  obtain p where p: "ser msg = Inr p" "frame = wrap_frame TYPE_CONTROL p"
    using assms(2) by (auto simp: encode_control_def split: sum.splits)
  have "frame_ok TYPE_CONTROL p"
    using assms(3) p(2) by (simp add: frame_ok_def is_known_type_def wrap_frame_def)
  from read_wrap_frame [OF this] p bincode [OF p(1)] show ?thesis
    by (simp add: decode_control_def)
qed

definition demo_ser :: "control_msg \<Rightarrow> string + bytes" where
  "demo_ser m = (case m of Logout \<Rightarrow> Inr [6, 0, 0, 0] | _ \<Rightarrow> Inl ''unsupported'')"

definition demo_de :: "bytes \<Rightarrow> string + control_msg" where
  "demo_de b = (if b = [6, 0, 0, 0] then Inr Logout else Inl ''unsupported'')"

theorem control_roundtrip_witness:
  "\<exists>payload. read_frame ([1, 0, 0, 0, 4, 6, 0, 0, 0] @ [9]) = Inr ((TYPE_CONTROL, payload), [9]) \<and>
     decode_control demo_de TYPE_CONTROL payload = Inr Logout"
proof -
  have law: "\<And>m b. demo_ser m = Inr b \<Longrightarrow> demo_de b = Inr m"
    by (auto simp: demo_ser_def demo_de_def split: control_msg.splits)
  have enc: "encode_control demo_ser Logout = Inr [1, 0, 0, 0, 4, 6, 0, 0, 0]"
    by (simp add: encode_control_def demo_ser_def wrap_frame_def TYPE_CONTROL_def be32_def len32_def)
  from control_roundtrip [where rest = "[9]", OF law enc] show ?thesis by simp
qed

end
