(* ===== verification/Relay_Registry.thy ===== *)
theory Relay_Registry
  imports Channels Known_Hosts Relay_Protocol "HOL-Library.Multiset"
begin

text \<open>
  The server's table of online devices, \<^verbatim>\<open>relay/src/registry.rs\<close>: registration with proof of
  possession, heartbeats and idle sweeping, candidate refresh, resolution, and the pairing of
  relayed tunnels. A record holds the tables, an operation returns it updated; connections and
  control channels are numbers, channels live in the store of \<open>Channels\<close>. The Ed25519 and
  base64 crates and SHA-256 are the parameter \<open>crypto_lib\<close>, bincode the parameter \<open>ser\<close>.

  Every operation of the code runs under the lock of the table it changes, except
  \<open>register_tunnel\<close>, which sends before it inserts, and \<open>register_with_proof\<close>, which verifies
  before it takes the lock for writing. \<open>reg_step\<close> has the two halves of the former as separate
  steps, and for the latter a step that registers on the state then current after any proof has
  been verified, so every interleaving of the tasks is a run.
\<close>

section \<open>Types\<close>

definition HEARTBEAT_TIMEOUT :: duration where "HEARTBEAT_TIMEOUT = secs 30"
definition RESOLVE_WINDOW :: duration where "RESOLVE_WINDOW = secs 30"
definition RESOLVE_LIMIT :: nat where "RESOLVE_LIMIT = 10"
definition MAX_CANDIDATES :: nat where "MAX_CANDIDATES = 16"
definition OBSERVED_CANDIDATE_PRIORITY :: u8 where "OBSERVED_CANDIDATE_PRIORITY = 200"
definition MAX_DEVICE_ID_LEN :: nat where "MAX_DEVICE_ID_LEN = 128"
definition TYPE_DEVICE_INFO :: u8 where "TYPE_DEVICE_INFO = 0x81"

datatype registry_error =
    RegIo string
  | ServerKeyError string
  | DeviceConflict string
  | DeviceUnavailable string
  | BadDeviceId string
  | RegistrationProofRejected string
  | OtherError string

datatype register_outcome = Registered | ReRegistered

record device_entry =
  de_device_id :: string
  de_ed25519_pub :: string
  de_candidates :: "candidate list"
  de_last_seen :: instant
  de_registered_at :: instant
  de_observed_addr :: socket_addr
  de_ctrl_tx :: nat

record pending_tunnel =
  pt_target :: string
  pt_from_peer :: string
  pt_controller :: "nat option"
  pt_device :: "nat option"

record registry =
  reg_devices :: "(string, device_entry) hmap"
  reg_resolve_limits :: "(ip_addr, instant list) hmap"
  reg_tunnels :: "(u64, pending_tunnel) hmap"

definition registry_new :: registry where
  "registry_new = \<lparr>reg_devices = [], reg_resolve_limits = [], reg_tunnels = []\<rparr>"

record crypto_lib =
  sha256 :: "bytes \<Rightarrow> bytes"
  b64_decode :: "string \<Rightarrow> string + bytes"
  valid_point :: "bytes \<Rightarrow> bool"
  ed25519_verify :: "bytes \<Rightarrow> bytes \<Rightarrow> bytes \<Rightarrow> bool"

section \<open>Registration\<close>

definition validate_device_id :: "string \<Rightarrow> bool" where
  "validate_device_id device_id =
     (device_id \<noteq> [] \<and> length device_id \<le> MAX_DEVICE_ID_LEN \<and>
      list_all (\<lambda>c. is_ascii_alphanumeric c \<or> c = CHR '':'' \<or> c = CHR ''_'' \<or> c = CHR ''-'') device_id)"

definition register :: "instant \<Rightarrow> string \<Rightarrow> string \<Rightarrow> socket_addr \<Rightarrow> nat \<Rightarrow> registry \<Rightarrow>
    (registry_error + register_outcome) \<times> registry" where
  "register now device_id ed25519_pub observed_addr ctrl_tx r =
     (if \<not> validate_device_id device_id then (Inl (BadDeviceId device_id), r)
      else case hm_get (reg_devices r) device_id of
        Some existing \<Rightarrow>
          if de_ed25519_pub existing \<noteq> ed25519_pub then (Inl (DeviceConflict device_id), r)
          else (Inr ReRegistered, r\<lparr>reg_devices := hm_put device_id
                  (existing\<lparr>de_observed_addr := observed_addr, de_ctrl_tx := ctrl_tx,
                            de_last_seen := now\<rparr>) (reg_devices r)\<rparr>)
      | None \<Rightarrow>
          (Inr Registered, r\<lparr>reg_devices := hm_put device_id
             \<lparr>de_device_id = device_id, de_ed25519_pub = ed25519_pub, de_candidates = [],
              de_last_seen = now, de_registered_at = now, de_observed_addr = observed_addr,
              de_ctrl_tx = ctrl_tx\<rparr> (reg_devices r)\<rparr>))"

definition flat_id :: "string \<Rightarrow> string" where
  "flat_id s = map to_ascii_lower (filter (\<lambda>c. c \<noteq> CHR '':'') s)"

definition verify_registration_proof :: "crypto_lib \<Rightarrow> string \<Rightarrow> string \<Rightarrow> bytes \<Rightarrow> bytes \<Rightarrow>
    registry_error + unit" where
  "verify_registration_proof cr device_id ed25519_pub nonce signature =
     (if ed25519_pub = [] then
        Inl (RegistrationProofRejected ''empty ed25519_pub (registration requires device identity key)'')
      else if is_fingerprint_device_id device_id \<and>
              flat_id (fingerprint (sha256 cr) ed25519_pub) \<noteq> flat_id device_id then
        Inl (RegistrationProofRejected ''fingerprint-form device_id does not match ed25519_pub (id/key binding violated)'')
      else case b64_decode cr ed25519_pub of
        Inl e \<Rightarrow> Inl (RegistrationProofRejected (''ed25519_pub base64: '' @ e))
      | Inr key_bytes \<Rightarrow>
          if length key_bytes \<noteq> 32 then Inl (RegistrationProofRejected ''ed25519_pub length != 32'')
          else if \<not> valid_point cr key_bytes then
            Inl (RegistrationProofRejected ''ed25519_pub is not a valid Ed25519 point'')
          else if length signature \<noteq> 64 then Inl (RegistrationProofRejected ''signature length != 64'')
          else if ed25519_verify cr key_bytes
                    (registration_proof_payload nonce (str_bytes device_id) (str_bytes ed25519_pub)) signature
            then Inr ()
            else Inl (RegistrationProofRejected ''Ed25519 signature verification failed (proof of possession of device private key required)''))"

text \<open>
  What comes before the table is changed: the form of the identifier, the entry that is there now, the proof.
\<close>

definition registration_check :: "crypto_lib \<Rightarrow> string \<Rightarrow> string \<Rightarrow> bytes \<Rightarrow> bytes \<Rightarrow> registry \<Rightarrow> registry_error + unit" where
  "registration_check cr device_id ed25519_pub nonce signature r =
     (if \<not> validate_device_id device_id then Inl (BadDeviceId device_id)
      else case hm_get (reg_devices r) device_id of
        Some existing \<Rightarrow>
          if de_ed25519_pub existing \<noteq> ed25519_pub then
            (case verify_registration_proof cr device_id ed25519_pub nonce signature of
               Inl e \<Rightarrow> Inl e
             | Inr _ \<Rightarrow> Inl (DeviceConflict device_id))
          else verify_registration_proof cr device_id ed25519_pub nonce signature
      | None \<Rightarrow> verify_registration_proof cr device_id ed25519_pub nonce signature)"

definition register_with_proof :: "crypto_lib \<Rightarrow> instant \<Rightarrow> string \<Rightarrow> string \<Rightarrow> socket_addr \<Rightarrow> nat \<Rightarrow>
    bytes \<Rightarrow> bytes \<Rightarrow> registry \<Rightarrow> (registry_error + register_outcome) \<times> registry" where
  "register_with_proof cr now device_id ed25519_pub observed_addr ctrl_tx nonce signature r =
     (case registration_check cr device_id ed25519_pub nonce signature r of
        Inl e \<Rightarrow> (Inl e, r)
      | Inr _ \<Rightarrow> register now device_id ed25519_pub observed_addr ctrl_tx r)"

section \<open>Liveness of devices\<close>

definition unregister :: "string \<Rightarrow> registry \<Rightarrow> bool \<times> registry" where
  "unregister device_id r =
     (hm_has (reg_devices r) device_id, r\<lparr>reg_devices := hm_del device_id (reg_devices r)\<rparr>)"

definition heartbeat :: "instant \<Rightarrow> string \<Rightarrow> registry \<Rightarrow> registry" where
  "heartbeat now device_id r =
     (case hm_get (reg_devices r) device_id of
        Some e \<Rightarrow> r\<lparr>reg_devices := hm_put device_id (e\<lparr>de_last_seen := now\<rparr>) (reg_devices r)\<rparr>
      | None \<Rightarrow> r)"

definition is_online :: "string \<Rightarrow> registry \<Rightarrow> bool" where
  "is_online device_id r = hm_has (reg_devices r) device_id"

definition device_count :: "registry \<Rightarrow> nat" where
  "device_count r = length (reg_devices r)"

definition sweep_idle :: "instant \<Rightarrow> duration \<Rightarrow> registry \<Rightarrow> (string \<times> socket_addr) list \<times> registry" where
  "sweep_idle now timeout r =
     (let stale = map (\<lambda>(id, e). (id, de_observed_addr e))
                    (filter (\<lambda>(_, e). timeout < now - de_last_seen e) (reg_devices r))
      in (stale, r\<lparr>reg_devices := fold (\<lambda>(id, _). hm_del id) stale (reg_devices r)\<rparr>))"

section \<open>Candidates\<close>

text \<open>The loop of \<open>update_candidates\<close>: the first of each address, up to the cap.\<close>

fun collect_candidates :: "candidate list \<Rightarrow> candidate list \<Rightarrow> socket_addr list \<Rightarrow>
    candidate list \<times> socket_addr list" where
  "collect_candidates [] list seen = (list, seen)"
| "collect_candidates (c # cs) list seen =
     (if cand_addr c \<in> set seen then collect_candidates cs list seen
      else let seen' = seen @ [cand_addr c]; list' = list @ [c]
           in if MAX_CANDIDATES \<le> length list' then (list', seen')
              else collect_candidates cs list' seen')"

definition observed_candidate :: "socket_addr \<Rightarrow> candidate" where
  "observed_candidate addr =
     \<lparr>cand_addr = addr, cand_kind = Tcp, cand_priority = OBSERVED_CANDIDATE_PRIORITY\<rparr>"

definition merge_candidates :: "socket_addr \<Rightarrow> candidate list \<Rightarrow> candidate list" where
  "merge_candidates observed_addr candidates =
     (let (list, seen) = collect_candidates candidates [] [];
          observed = observed_candidate observed_addr;
          list' = (if cand_addr observed \<notin> set seen \<and> length list < MAX_CANDIDATES
                   then list @ [observed] else list)
      in sort_key (\<lambda>c. 255 - unat (cand_priority c)) list')"

definition update_candidates :: "string \<Rightarrow> candidate list \<Rightarrow> registry \<Rightarrow> bool \<times> registry" where
  "update_candidates device_id candidates r =
     (case hm_get (reg_devices r) device_id of
        None \<Rightarrow> (False, r)
      | Some entry \<Rightarrow>
          (True, r\<lparr>reg_devices := hm_put device_id
             (entry\<lparr>de_candidates := merge_candidates (de_observed_addr entry) candidates\<rparr>)
             (reg_devices r)\<rparr>))"

section \<open>Resolution\<close>

fun scan_short :: "string \<Rightarrow> (string, device_entry) hmap \<Rightarrow> device_entry option \<Rightarrow> device_entry option" where
  "scan_short code [] hit = hit"
| "scan_short code ((key, e) # m) hit =
     (if device_id_short_code key = Some code
      then if hit \<noteq> None then None else scan_short code m (Some e)
      else scan_short code m hit)"

definition lookup_device :: "string \<Rightarrow> registry \<Rightarrow> device_entry option" where
  "lookup_device device_id r =
     (case hm_get (reg_devices r) device_id of
        Some e \<Rightarrow> Some e
      | None \<Rightarrow> if \<not> is_short_code device_id then None
                else scan_short device_id (reg_devices r) None)"

definition resolve_limited :: "instant \<Rightarrow> ip_addr \<Rightarrow> registry \<Rightarrow> bool \<times> registry" where
  "resolve_limited now ip r =
     (let q = dropWhile (\<lambda>t. RESOLVE_WINDOW < now - t) (hm_or_insert [] (reg_resolve_limits r) ip);
          limited = (RESOLVE_LIMIT \<le> length q);
          q' = (if limited then q else q @ [now]);
          limits = hm_put ip q' (reg_resolve_limits r);
          limits' = (if 4096 < length limits
                     then filter (\<lambda>(_, q). q \<noteq> [] \<and> now - last q \<le> RESOLVE_WINDOW) limits
                     else limits)
      in (limited, r\<lparr>reg_resolve_limits := limits'\<rparr>))"

record device_info =
  dinfo_payload :: device_info_payload
  dinfo_signature :: bytes

definition resolve_payload :: "u64 \<Rightarrow> string \<Rightarrow> device_entry option \<Rightarrow> device_info_payload" where
  "resolve_payload ts device_id entry =
     (case entry of
        Some e \<Rightarrow> \<lparr>di_device_id = de_device_id e, di_candidates = de_candidates e,
                   di_ed25519_pub = de_ed25519_pub e, di_online = True, di_ts = ts\<rparr>
      | None \<Rightarrow> \<lparr>di_device_id = device_id, di_candidates = [], di_ed25519_pub = [],
                 di_online = False, di_ts = ts\<rparr>)"

definition sign_device_info :: "(bytes \<Rightarrow> bytes) \<Rightarrow> (device_info_payload \<Rightarrow> bytes) \<Rightarrow>
    device_info_payload \<Rightarrow> bytes" where
  "sign_device_info sign ser payload = sign (ser payload)"

definition resolve :: "(bytes \<Rightarrow> bytes) \<Rightarrow> (device_info_payload \<Rightarrow> bytes) \<Rightarrow> instant \<Rightarrow> u64 \<Rightarrow>
    ip_addr \<Rightarrow> string \<Rightarrow> registry \<Rightarrow> (device_info \<times> bool) \<times> registry" where
  "resolve sign ser now ts ip device_id r =
     (let (rate_limited, r') = resolve_limited now ip r;
          payload = resolve_payload ts device_id (lookup_device device_id r')
      in ((\<lparr>dinfo_payload = payload, dinfo_signature = sign_device_info sign ser payload\<rparr>, rate_limited), r'))"

definition verify_device_info :: "(bytes \<Rightarrow> bytes \<Rightarrow> bool) \<Rightarrow> (device_info_payload \<Rightarrow> string + bytes) \<Rightarrow>
    device_info \<Rightarrow> bool" where
  "verify_device_info verify_strict ser info =
     (case ser (dinfo_payload info) of
        Inl _ \<Rightarrow> False
      | Inr b \<Rightarrow> if length (dinfo_signature info) \<noteq> 64 then False
                 else verify_strict b (dinfo_signature info))"

section \<open>Relayed tunnels\<close>

text \<open>First half of \<open>register_tunnel\<close>: look the device up and push the request to it.\<close>

definition send_tunnel_request :: "(tunnel_request \<Rightarrow> string + bytes) \<Rightarrow> string \<Rightarrow> string \<Rightarrow> u64 \<Rightarrow>
    registry \<Rightarrow> chan_store \<Rightarrow> registry_error + chan_store" where
  "send_tunnel_request ser target from_peer conn_id r chans =
     (case hm_get (reg_devices r) target of
        None \<Rightarrow> Inl (DeviceUnavailable target)
      | Some entry \<Rightarrow>
          (case encode_extension ser TYPE_TUNNEL_REQUEST \<lparr>tr_from_peer = from_peer, tr_conn_id = conn_id\<rparr> of
             Inl e \<Rightarrow> Inl (OtherError (case e of Bincode s \<Rightarrow> s | _ \<Rightarrow> []))
           | Inr frame \<Rightarrow>
               (case chan_send (de_ctrl_tx entry) frame chans of
                  None \<Rightarrow> Inl (DeviceUnavailable (target @ '' (control channel dead)''))
                | Some chans' \<Rightarrow> Inr chans')))"

definition insert_tunnel :: "u64 \<Rightarrow> string \<Rightarrow> string \<Rightarrow> nat \<Rightarrow> registry \<Rightarrow> registry" where
  "insert_tunnel conn_id target from_peer controller r =
     r\<lparr>reg_tunnels := hm_put conn_id
         \<lparr>pt_target = target, pt_from_peer = from_peer, pt_controller = Some controller,
          pt_device = None\<rparr> (reg_tunnels r)\<rparr>"

definition register_tunnel :: "(tunnel_request \<Rightarrow> string + bytes) \<Rightarrow> u64 \<Rightarrow> string \<Rightarrow> string \<Rightarrow> nat \<Rightarrow>
    registry \<Rightarrow> chan_store \<Rightarrow> ((registry_error \<times> nat) + u64) \<times> registry \<times> chan_store" where
  "register_tunnel ser conn_id target from_peer controller r chans =
     (case send_tunnel_request ser target from_peer conn_id r chans of
        Inl e \<Rightarrow> (Inl (e, controller), r, chans)
      | Inr chans' \<Rightarrow> (Inr conn_id, insert_tunnel conn_id target from_peer controller r, chans'))"

definition pair_tunnel :: "u64 \<Rightarrow> nat \<Rightarrow> registry \<Rightarrow> bool \<times> registry" where
  "pair_tunnel conn_id device r =
     (case hm_get (reg_tunnels r) conn_id of
        Some t \<Rightarrow> if pt_device t \<noteq> None then (False, r)
                  else (True, r\<lparr>reg_tunnels := hm_put conn_id (t\<lparr>pt_device := Some device\<rparr>) (reg_tunnels r)\<rparr>)
      | None \<Rightarrow> (False, r))"

definition cancel_tunnel :: "u64 \<Rightarrow> registry \<Rightarrow> registry" where
  "cancel_tunnel conn_id r = r\<lparr>reg_tunnels := hm_del conn_id (reg_tunnels r)\<rparr>"

text \<open>
  \<open>wait_for_pair\<close>: each round looks at the table, then at the clock, then sleeps. What the
  other tasks do to the registry during a sleep and the instant read in the next round are
  given as a list; \<open>None\<close> means that the list ended while the loop was still waiting.
\<close>

definition take_paired :: "u64 \<Rightarrow> registry \<Rightarrow> (nat \<times> nat) option \<times> registry" where
  "take_paired conn_id r =
     (case hm_get (reg_tunnels r) conn_id of
        Some t \<Rightarrow> (case (pt_controller t, pt_device t) of
            (Some ctrl, Some dev) \<Rightarrow> (Some (ctrl, dev), r\<lparr>reg_tunnels := hm_del conn_id (reg_tunnels r)\<rparr>)
          | _ \<Rightarrow> (None, r))
      | None \<Rightarrow> (None, r))"

fun wait_for_pair :: "u64 \<Rightarrow> instant \<Rightarrow> (instant \<times> (registry \<Rightarrow> registry)) list \<Rightarrow> registry \<Rightarrow>
    ((nat \<times> nat) option) option \<times> registry" where
  "wait_for_pair conn_id deadline [] r = (None, r)"
| "wait_for_pair conn_id deadline ((now, others) # rounds) r =
     (case take_paired conn_id r of
        (Some pair, r') \<Rightarrow> (Some (Some pair), r')
      | (None, r') \<Rightarrow>
          if deadline \<le> now then (Some None, cancel_tunnel conn_id r')
          else wait_for_pair conn_id deadline rounds (others r'))"

section \<open>What each operation does to the device table\<close>

lemma hm_get_fold_del:
  "hm_get (fold (\<lambda>(k, _). hm_del k) ks m) k = (if k \<in> fst ` set ks then None else hm_get m k)"
  by (induction ks arbitrary: m) auto

lemma hm_ok_fold_del: "hm_ok m \<Longrightarrow> hm_ok (fold (\<lambda>(k, _). hm_del k) ks m)"
  by (induction ks arbitrary: m) auto

lemma register_Inr:
  assumes "register now dev pub addr tx r = (Inr out, r')"
  shows "validate_device_id dev \<and>
    (case hm_get (reg_devices r) dev of
       None \<Rightarrow> out = Registered \<and> r' = r\<lparr>reg_devices := hm_put dev
         \<lparr>de_device_id = dev, de_ed25519_pub = pub, de_candidates = [], de_last_seen = now,
          de_registered_at = now, de_observed_addr = addr, de_ctrl_tx = tx\<rparr> (reg_devices r)\<rparr>
     | Some e \<Rightarrow> out = ReRegistered \<and> de_ed25519_pub e = pub \<and> r' = r\<lparr>reg_devices := hm_put dev
         (e\<lparr>de_observed_addr := addr, de_ctrl_tx := tx, de_last_seen := now\<rparr>) (reg_devices r)\<rparr>)"
  using assms by (auto simp: register_def split: if_splits option.splits)

lemma register_Inl: "register now dev pub addr tx r = (Inl e, r') \<Longrightarrow> r' = r"
  by (auto simp: register_def split: if_splits option.splits)

text \<open>\<open>register_with_proof\<close> is: verify, then register; the early exits change nothing.\<close>

lemma register_with_proof_eq:
  "register_with_proof cr now dev pub addr tx nonce sig r =
     (if \<not> validate_device_id dev then (Inl (BadDeviceId dev), r)
      else case verify_registration_proof cr dev pub nonce sig of
        Inl e \<Rightarrow> (Inl e, r)
      | Inr _ \<Rightarrow> register now dev pub addr tx r)"
  by (auto simp: register_with_proof_def registration_check_def register_def split: option.splits sum.splits)

lemma registration_check_Inr:
  "registration_check cr dev pub nonce sig r = Inr u \<Longrightarrow> verify_registration_proof cr dev pub nonce sig = Inr ()"
  by (auto simp: registration_check_def split: if_splits option.splits sum.splits)

lemma sweep_idle_get:
  assumes "sweep_idle now timeout r = (stale, r')"
  shows "hm_get (reg_devices r') dev = (if dev \<in> fst ` set stale then None else hm_get (reg_devices r) dev)"
  using assms by (force simp: sweep_idle_def Let_def hm_get_fold_del)

text \<open>What the sweep takes is what has been silent too long, and with distinct keys nothing else goes.\<close>

lemma sweep_idle_stale:
  assumes "sweep_idle now timeout r = (stale, r')" and ok: "hm_ok (reg_devices r)"
  shows "dev \<in> fst ` set stale \<longleftrightarrow> (\<exists>e. hm_get (reg_devices r) dev = Some e \<and> timeout < now - de_last_seen e)"
proof -
  have "fst ` set stale = fst ` {x \<in> set (reg_devices r). timeout < now - de_last_seen (snd x)}"
    using assms(1) by (force simp: sweep_idle_def Let_def)
  then show ?thesis by (auto simp: hm_get_iff_set [OF ok] intro: rev_image_eqI)
qed

subsection \<open>Candidates\<close>

lemma collect_candidates_inv:
  assumes "distinct (map cand_addr list)" and "length list < MAX_CANDIDATES"
    and "collect_candidates cs list (map cand_addr list) = (list', seen')"
  shows "seen' = map cand_addr list' \<and> distinct (map cand_addr list') \<and>
    length list' \<le> MAX_CANDIDATES \<and> set list' \<subseteq> set list \<union> set cs"
  using assms
proof (induction cs arbitrary: list)
  case (Cons c cs)
  show ?case
  proof (cases "cand_addr c \<in> set (map cand_addr list) \<or> MAX_CANDIDATES \<le> Suc (length list)")
    case True
    with Cons show ?thesis by (fastforce split: if_splits)
  next
    case False
    with Cons.IH [of "list @ [c]"] Cons.prems show ?thesis by (auto simp: Let_def)
  qed
qed auto

lemma collect_candidates_all:
  assumes "distinct (map cand_addr (list @ cs))" and "length (list @ cs) < MAX_CANDIDATES"
  shows "collect_candidates cs list (map cand_addr list) = (list @ cs, map cand_addr (list @ cs))"
  using assms
proof (induction cs arbitrary: list)
  case (Cons c cs)
  with Cons.IH [of "list @ [c]"] show ?case by (auto simp: Let_def)
qed simp

lemma collect_candidates_full:
  assumes "distinct (map cand_addr (list @ cs))" and "length list < MAX_CANDIDATES"
    and "MAX_CANDIDATES \<le> length (list @ cs)"
  shows "length (fst (collect_candidates cs list (map cand_addr list))) = MAX_CANDIDATES"
  using assms
proof (induction cs arbitrary: list)
  case (Cons c cs)
  with Cons.IH [of "list @ [c]"] show ?case by (auto simp: Let_def)
qed simp

lemma sorted_wrt_priority:
  fixes cs :: "candidate list"
  shows "sorted_wrt (\<lambda>a b. cand_priority b \<le> cand_priority a) (sort_key (\<lambda>c. 255 - unat (cand_priority c)) cs)"
proof -
  let ?f = "\<lambda>c. 255 - unat (cand_priority c)"
  have le: "cand_priority b \<le> cand_priority a" if "?f a \<le> ?f b" for a b :: candidate
    using that unat_u8 [of "cand_priority a"] unat_u8 [of "cand_priority b"]
    by (simp add: word_le_nat_alt)
  have "sorted_wrt (\<lambda>a b. ?f a \<le> ?f b) (sort_key ?f cs)"
    using sorted_sort_key [of ?f cs] by (simp add: sorted_map)
  then show ?thesis by (rule sorted_wrt_mono_rel [rotated]) (rule le)
qed

lemma merge_candidates_props:
  "distinct (map cand_addr (merge_candidates obs cs)) \<and>
   length (merge_candidates obs cs) \<le> 16 \<and>
   sorted_wrt (\<lambda>a b. cand_priority b \<le> cand_priority a) (merge_candidates obs cs) \<and>
   set (merge_candidates obs cs) \<subseteq> insert (observed_candidate obs) (set cs)"
proof -
  obtain list seen where c: "collect_candidates cs [] [] = (list, seen)" by force
  have M: "MAX_CANDIDATES = 16" by (simp add: MAX_CANDIDATES_def)
  have facts: "seen = map cand_addr list" "distinct (map cand_addr list)" "length list \<le> 16" "set list \<subseteq> set cs"
    using collect_candidates_inv [of "[]" cs list seen] c by (simp_all add: M)
  let ?obs = "observed_candidate obs"
  have m: "merge_candidates obs cs = sort_key (\<lambda>c. 255 - unat (cand_priority c))
      (if obs \<notin> set seen \<and> length list < 16 then list @ [?obs] else list)"
    by (simp add: merge_candidates_def c M observed_candidate_def)
  have "distinct (map cand_addr (merge_candidates obs cs))"
    using facts by (force simp: m distinct_map observed_candidate_def)
  moreover have "length (merge_candidates obs cs) \<le> 16"
      "set (merge_candidates obs cs) \<subseteq> insert ?obs (set cs)"
    using facts by (auto simp: m)
  ultimately show ?thesis by (simp add: m sorted_wrt_priority)
qed

text \<open>
  Candidate refresh. The list stored for a device holds at most sixteen candidates with
  distinct addresses, in order of decreasing priority, each reported by the device or the
  address the server observed. Fewer than sixteen reported candidates always leave room for
  the observed address; sixteen reported ones with other addresses crowd it out.
\<close>
theorem merge_candidates_spec:
  "distinct (map cand_addr (merge_candidates obs cs)) \<and>
   length (merge_candidates obs cs) \<le> 16 \<and>
   sorted_wrt (\<lambda>a b. cand_priority b \<le> cand_priority a) (merge_candidates obs cs) \<and>
   set (merge_candidates obs cs) \<subseteq> insert (observed_candidate obs) (set cs) \<and>
   (length cs < 16 \<longrightarrow> obs \<in> cand_addr ` set (merge_candidates obs cs)) \<and>
   (distinct (map cand_addr cs) \<and> obs \<notin> cand_addr ` set cs \<longrightarrow>
      (if length cs < 16 then mset (merge_candidates obs cs) = add_mset (observed_candidate obs) (mset cs)
       else obs \<notin> cand_addr ` set (merge_candidates obs cs)))"
proof -
  obtain list seen where c: "collect_candidates cs [] [] = (list, seen)" by force
  have M: "MAX_CANDIDATES = 16" by (simp add: MAX_CANDIDATES_def)
  note inv = collect_candidates_inv [of "[]" cs list seen]
  have facts: "seen = map cand_addr list" "distinct (map cand_addr list)" "length list \<le> 16" "set list \<subseteq> set cs"
    using inv c by (simp_all add: M)
  let ?obs = "observed_candidate obs"
  let ?l = "if obs \<notin> set seen \<and> length list < 16 then list @ [?obs] else list"
  have m: "merge_candidates obs cs = sort_key (\<lambda>c. 255 - unat (cand_priority c)) ?l"
    by (simp add: merge_candidates_def c M observed_candidate_def)
  have short: "length list \<le> length cs"
  proof -
    have "distinct list" using facts(2) by (simp add: distinct_map)
    with facts(4) show ?thesis by (metis card_length card_mono distinct_card finite_set le_trans)
  qed
  have room: "length cs < 16 \<longrightarrow> obs \<in> cand_addr ` set (merge_candidates obs cs)"
    using short facts(1) by (auto simp: m observed_candidate_def)
  have whole: "mset (merge_candidates obs cs) = add_mset ?obs (mset cs)"
    if "distinct (map cand_addr cs)" "obs \<notin> cand_addr ` set cs" "length cs < 16"
    using collect_candidates_all [of "[]" cs] that c by (auto simp: m M)
  have crowded: "obs \<notin> cand_addr ` set (merge_candidates obs cs)"
    if "distinct (map cand_addr cs)" "obs \<notin> cand_addr ` set cs" "\<not> length cs < 16"
    using collect_candidates_full [of "[]" cs] that c facts(4) by (auto simp: m M)
  show ?thesis
    using merge_candidates_props [of obs cs] room whole crowded by simp
qed

definition demo_candidate :: "u8 \<Rightarrow> u8 \<Rightarrow> candidate" where
  "demo_candidate host prio =
     \<lparr>cand_addr = SocketAddr (V4 10 0 0 host) 5000, cand_kind = Udp, cand_priority = prio\<rparr>"

theorem merge_candidates_spec_witness:
  "mset (merge_candidates (SocketAddr (V4 1 2 3 4) 9) [demo_candidate 1 100, demo_candidate 2 250]) =
     {# observed_candidate (SocketAddr (V4 1 2 3 4) 9), demo_candidate 1 100, demo_candidate 2 250 #}"
  using merge_candidates_spec [of "SocketAddr (V4 1 2 3 4) 9" "[demo_candidate 1 100, demo_candidate 2 250]"]
  by (simp add: demo_candidate_def)

subsection \<open>Short codes\<close>

lemma scan_short_filter:
  "scan_short code m hit =
     (case hit of
        Some h \<Rightarrow> if filter (\<lambda>(k, _). device_id_short_code k = Some code) m = [] then Some h else None
      | None \<Rightarrow> (case filter (\<lambda>(k, _). device_id_short_code k = Some code) m of
                  [(_, e)] \<Rightarrow> Some e | _ \<Rightarrow> None))"
  by (induction code m hit rule: scan_short.induct) (auto split: option.splits list.splits)

lemma filter_one:
  assumes "distinct xs"
  shows "filter P xs = [x] \<longleftrightarrow> x \<in> set xs \<and> P x \<and> (\<forall>y\<in>set xs. P y \<longrightarrow> y = x)"
proof
  assume *: "x \<in> set xs \<and> P x \<and> (\<forall>y\<in>set xs. P y \<longrightarrow> y = x)"
  then have "set (filter P xs) = {x}" by auto
  moreover have "distinct (filter P xs)" using assms by simp
  ultimately show "filter P xs = [x]"
    by (metis distinct_card card_1_singleton_iff length_0_conv length_Suc_conv One_nat_def
        is_singletonI is_singleton_altdef list.set_intros(1) singletonD)
next
  assume "filter P xs = [x]"
  then have "set (filter P xs) = {x}" by simp
  then show "x \<in> set xs \<and> P x \<and> (\<forall>y\<in>set xs. P y \<longrightarrow> y = x)" by auto
qed

text \<open>A code is answered exactly when one registered identifier has it.\<close>

lemma scan_short_unique:
  assumes "hm_ok m"
  shows "scan_short code m None = Some e \<longleftrightarrow>
    (\<exists>k. hm_get m k = Some e \<and> device_id_short_code k = Some code \<and>
         (\<forall>k'. hm_has m k' \<and> device_id_short_code k' = Some code \<longrightarrow> k' = k))"
proof -
  have d: "distinct m" using assms by (simp add: hm_ok_def distinct_map)
  have "scan_short code m None = Some e \<longleftrightarrow>
      (\<exists>k. filter (\<lambda>(k, _). device_id_short_code k = Some code) m = [(k, e)])"
    by (auto simp: scan_short_filter split: list.splits)
  also have "\<dots> \<longleftrightarrow> (\<exists>k. hm_get m k = Some e \<and> device_id_short_code k = Some code \<and>
      (\<forall>(k', e')\<in>set m. device_id_short_code k' = Some code \<longrightarrow> (k', e') = (k, e)))"
    unfolding filter_one [OF d] by (auto simp: hm_get_iff_set [OF assms])
  also have "\<dots> \<longleftrightarrow> (\<exists>k. hm_get m k = Some e \<and> device_id_short_code k = Some code \<and>
         (\<forall>k'. hm_has m k' \<and> device_id_short_code k' = Some code \<longrightarrow> k' = k))"
  proof (intro ex_cong1 conj_cong refl iffI)
    fix k
    assume k: "hm_get m k = Some e"
    {
      assume *: "\<forall>(k', e')\<in>set m. device_id_short_code k' = Some code \<longrightarrow> (k', e') = (k, e)"
      then show "\<forall>k'. hm_has m k' \<and> device_id_short_code k' = Some code \<longrightarrow> k' = k"
        by (auto simp: hm_has_iff)
    next
      assume *: "\<forall>k'. hm_has m k' \<and> device_id_short_code k' = Some code \<longrightarrow> k' = k"
      show "\<forall>(k', e')\<in>set m. device_id_short_code k' = Some code \<longrightarrow> (k', e') = (k, e)"
      proof clarify
        fix k' e'
        assume in': "(k', e') \<in> set m" "device_id_short_code k' = Some code"
        then have "hm_has m k'" by (force simp: hm_has_iff)
        with * in'(2) have "k' = k" by blast
        with in'(1) k show "k' = k \<and> e' = e"
          using hm_get_iff_set [OF assms, of k e'] by simp
      qed
    }
  qed
  finally show ?thesis .
qed

lemma scan_short_None:
  assumes "hm_ok m"
  shows "scan_short code m None = None \<longleftrightarrow>
    \<not> (\<exists>!k. hm_has m k \<and> device_id_short_code k = Some code)"
proof -
  have "(\<exists>e. scan_short code m None = Some e) \<longleftrightarrow>
      (\<exists>!k. hm_has m k \<and> device_id_short_code k = Some code)"
    unfolding scan_short_unique [OF assms] hm_has_def by blast
  then show ?thesis by auto
qed

lemma resolve_limited_devices [frame_simps, simp]:
  "reg_devices (snd (resolve_limited now ip r)) = reg_devices r"
  "reg_tunnels (snd (resolve_limited now ip r)) = reg_tunnels r"
  by (simp_all add: resolve_limited_def Let_def)

lemma lookup_resolve_limited [frame_simps, simp]:
  "lookup_device dev (snd (resolve_limited now ip r)) = lookup_device dev r"
  unfolding lookup_device_def resolve_limited_devices ..

lemma resolve_dinfo:
  "fst (resolve sign ser now ts ip dev r) =
     (\<lparr>dinfo_payload = resolve_payload ts dev (lookup_device dev r),
       dinfo_signature = sign (ser (resolve_payload ts dev (lookup_device dev r)))\<rparr>,
      fst (resolve_limited now ip r))"
  by (simp add: resolve_def Let_def split_def sign_device_info_def)

text \<open>
  No enumeration. When nothing is registered under the identifier and, for a short code,
  not exactly one registered fingerprint identifier has it (an ambiguous code included), the
  signed answer is the one an empty table would give, byte for byte: it depends on the request
  and the clock alone. Otherwise it carries the one entry the identifier stands for, unchanged.
\<close>
theorem resolve_no_enumeration:
  assumes "hm_ok (reg_devices r)"
  shows "(if hm_has (reg_devices r) dev then
            (\<exists>e. hm_get (reg_devices r) dev = Some e \<and>
               dinfo_payload (fst (fst (resolve sign ser now ts ip dev r))) = resolve_payload ts dev (Some e))
          else if is_short_code dev \<and>
              (\<exists>!k. hm_has (reg_devices r) k \<and> device_id_short_code k = Some dev) then
            (\<exists>k e. hm_get (reg_devices r) k = Some e \<and> device_id_short_code k = Some dev \<and>
               dinfo_payload (fst (fst (resolve sign ser now ts ip dev r))) = resolve_payload ts dev (Some e))
          else fst (fst (resolve sign ser now ts ip dev r)) =
               fst (fst (resolve sign ser now ts ip dev registry_new)))"
proof -
  let ?P = "\<lambda>k. hm_has (reg_devices r) k \<and> device_id_short_code k = Some dev"
  note eq = resolve_dinfo [of sign ser now ts ip dev]
  have fresh: "lookup_device dev registry_new = None"
    by (simp add: lookup_device_def registry_new_def)
  consider (exact) e where "hm_get (reg_devices r) dev = Some e"
    | (short) k e where "\<not> hm_has (reg_devices r) dev" "is_short_code dev" "\<exists>!k. ?P k"
        "hm_get (reg_devices r) k = Some e" "device_id_short_code k = Some dev"
        "lookup_device dev r = Some e"
    | (none) "\<not> hm_has (reg_devices r) dev" "\<not> (is_short_code dev \<and> (\<exists>!k. ?P k))"
        "lookup_device dev r = None"
  proof (cases "lookup_device dev r")
    case None
    then have "\<not> hm_has (reg_devices r) dev" "\<not> (is_short_code dev \<and> (\<exists>!k. ?P k))"
      using scan_short_None [OF assms, of dev]
      by (auto simp: lookup_device_def hm_has_def [of "reg_devices r" dev] split: option.splits if_splits)
    with None none show thesis by blast
  next
    case (Some e)
    show thesis
    proof (cases "hm_get (reg_devices r) dev")
      case None
      with Some have short: "is_short_code dev" "scan_short dev (reg_devices r) None = Some e"
        by (auto simp: lookup_device_def split: if_splits)
      then obtain k where "hm_get (reg_devices r) k = Some e" "device_id_short_code k = Some dev"
        "\<forall>k'. ?P k' \<longrightarrow> k' = k"
        unfolding scan_short_unique [OF assms] by blast
      moreover from this have "\<exists>!k. ?P k" by (auto simp: hm_has_def)
      ultimately show thesis using that(2) [of k e] None Some short(1) by (simp add: hm_has_def)
    qed (rule that(1))
  qed
  then show ?thesis
  proof cases
    case exact
    then show ?thesis by (simp add: eq lookup_device_def hm_has_def)
  next
    case short
    then show ?thesis by (auto simp: eq)
  next
    case none
    show ?thesis
      unfolding if_not_P [OF none(1)] if_not_P [OF none(2)] by (simp add: eq fresh none(3))
  qed
qed

definition demo_addr :: socket_addr where
  "demo_addr = SocketAddr (V4 10 0 0 7) 59990"

definition demo_entry :: "string \<Rightarrow> string \<Rightarrow> nat \<Rightarrow> device_entry" where
  "demo_entry dev pub tx =
     \<lparr>de_device_id = dev, de_ed25519_pub = pub, de_candidates = [], de_last_seen = 0,
      de_registered_at = 0, de_observed_addr = demo_addr, de_ctrl_tx = tx\<rparr>"

definition demo_registry :: registry where
  "demo_registry = registry_new\<lparr>reg_devices := [(''pc-a'', demo_entry ''pc-a'' ''key-a'' 1)]\<rparr>"

theorem resolve_no_enumeration_witness:
  "fst (fst (resolve (\<lambda>b. b) (\<lambda>p. []) 5 7 (V4 1 2 3 4) ''pc-b'' demo_registry)) =
   fst (fst (resolve (\<lambda>b. b) (\<lambda>p. []) 5 7 (V4 1 2 3 4) ''pc-b'' registry_new))"
proof -
  have "hm_ok (reg_devices demo_registry)" by (simp add: demo_registry_def hm_ok_def)
  from resolve_no_enumeration [OF this, of "''pc-b''" "\<lambda>b. b" "\<lambda>p. []" 5 7 "V4 1 2 3 4"]
  show ?thesis
    by (simp add: demo_registry_def hm_has_def is_short_code_def DEVICE_SHORT_CODE_LEN_def)
qed

section \<open>The limiter of resolutions\<close>

definition resolve_gate :: "ip_addr \<Rightarrow> instant \<Rightarrow> ip_addr \<Rightarrow> registry \<Rightarrow> bool \<times> registry" where
  "resolve_gate k now ip r =
     (case resolve_limited now ip r of (limited, r') \<Rightarrow> (\<not> limited \<and> ip = k, r'))"

definition resolve_stamps :: "ip_addr \<Rightarrow> registry \<Rightarrow> instant list" where
  "resolve_stamps k r = hm_or_insert [] (reg_resolve_limits r) k"

lemma last_in_window:
  assumes "sorted q" and "\<not> (q \<noteq> [] \<and> now - last q \<le> (w :: nat))"
  shows "\<forall>t\<in>set q. w < now - t"
proof
  fix t assume t: "t \<in> set q"
  with assms(1) have "t \<le> last q"
    by (induction q) auto
  with t assms(2) show "w < now - t" by (cases q) auto
qed

text \<open>
  The lazy pruning of the table drops only queues whose stamps are all outside the window, so
  the contract holds for every sequence of addresses, however many.
\<close>

interpretation resolve_win: sliding_window "resolve_gate k" "resolve_stamps k" RESOLVE_LIMIT
  "\<lambda>now t. RESOLVE_WINDOW < now - t" "\<lambda>r. hm_ok (reg_resolve_limits r)" "\<lambda>_. True"
  for k
proof unfold_locales
  fix now now' t :: nat
  show "now \<le> now' \<Longrightarrow> RESOLVE_WINDOW < now - t \<Longrightarrow> RESOLVE_WINDOW < now' - t" by simp
next
  fix r e now ok r'
  assume "hm_ok (reg_resolve_limits r)" "resolve_gate k now e r = (ok, r')"
  then show "hm_ok (reg_resolve_limits r')"
    by (auto simp: resolve_gate_def resolve_limited_def Let_def split: if_splits)
next
  fix r e now ok r'
  assume hm: "hm_ok (reg_resolve_limits r)" and srt: "sorted (resolve_stamps k r)"
    and le: "\<forall>t\<in>set (resolve_stamps k r). t \<le> now" and g: "resolve_gate k now e r = (ok, r')"
  let ?W = "\<lambda>t. RESOLVE_WINDOW < now - t"
  let ?q = "dropWhile ?W (resolve_stamps e r)"
  let ?q' = "if RESOLVE_LIMIT \<le> length ?q then ?q else ?q @ [now]"
  let ?limits = "hm_put e ?q' (reg_resolve_limits r)"
  let ?keep = "\<lambda>q. q \<noteq> [] \<and> now - last q \<le> RESOLVE_WINDOW"
  let ?s = "if e = k then ?q' else resolve_stamps k r"
  have ok: "ok \<longleftrightarrow> \<not> RESOLVE_LIMIT \<le> length ?q \<and> e = k"
    using g by (auto simp: resolve_gate_def resolve_limited_def Let_def resolve_stamps_def)
  define limits where "limits = ?limits"
  define s where "s = ?s"
  have lim: "reg_resolve_limits r' = (if 4096 < length limits then filter (\<lambda>(_, q). ?keep q) limits else limits)"
    using g by (auto simp: resolve_gate_def resolve_limited_def Let_def resolve_stamps_def limits_def)
  have get: "hm_or_insert [] limits k = s"
    by (simp add: hm_or_insert_def resolve_stamps_def limits_def s_def)
  have "hm_ok limits" using hm by (simp add: limits_def)
  then have "hm_or_insert [] (filter (\<lambda>(_, q). ?keep q) limits) k = (if ?keep s then s else [])"
    unfolding hm_or_insert_def get [symmetric] by (simp add: hm_get_filter split: option.split)
  then have cases: "resolve_stamps k r' = (if 4096 < length limits \<and> \<not> ?keep s then [] else s)"
    unfolding resolve_stamps_def [of k r'] lim using get by simp
  obtain j where j: "dropWhile ?W (resolve_stamps k r) = drop j (resolve_stamps k r)"
    "\<forall>t\<in>set (take j (resolve_stamps k r)). ?W t"
    using dropWhile_as_drop [of ?W "resolve_stamps k r"] by blast
  have sj: "\<exists>j. s = drop j (resolve_stamps k r) @ (if ok then [now] else []) \<and>
      (\<forall>t\<in>set (take j (resolve_stamps k r)). ?W t) \<and> (ok \<longrightarrow> length s \<le> RESOLVE_LIMIT)"
  proof (cases "e = k")
    case True
    then show ?thesis using ok j unfolding s_def by (intro exI [of _ j]) simp
  next
    case False
    then show ?thesis using ok unfolding s_def by (intro exI [of _ 0]) simp
  qed
  show "\<exists>j. resolve_stamps k r' = drop j (resolve_stamps k r) @ (if ok then [now] else []) \<and>
      (\<forall>t\<in>set (take j (resolve_stamps k r)). ?W t) \<and>
      (ok \<longrightarrow> length (resolve_stamps k r') \<le> RESOLVE_LIMIT)"
  proof (cases "4096 < length limits \<and> \<not> ?keep s")
    case False
    with cases have "resolve_stamps k r' = s" by auto
    with sj show ?thesis by simp
  next
    case True
    have "\<not> ok" using True ok by (auto simp: s_def)
    moreover have "\<forall>t\<in>set (resolve_stamps k r). ?W t"
    proof (rule ccontr)
      assume "\<not> (\<forall>t\<in>set (resolve_stamps k r). ?W t)"
      with \<open>\<not> ok\<close> sj obtain i where i: "s = drop i (resolve_stamps k r)"
        "\<forall>t\<in>set (take i (resolve_stamps k r)). ?W t" by auto
      have "sorted s" using srt i(1) by simp
      from last_in_window [OF this, of now RESOLVE_WINDOW] True
      have "\<forall>t\<in>set (drop i (resolve_stamps k r)). ?W t" unfolding i(1) by blast
      with i(2) have "\<forall>t\<in>set (resolve_stamps k r). ?W t"
        by (metis append_take_drop_id Un_iff set_append)
      with \<open>\<not> (\<forall>t\<in>set (resolve_stamps k r). ?W t)\<close> show False ..
    qed
    ultimately show ?thesis
      using True cases by (intro exI [of _ "length (resolve_stamps k r)"]) simp
  qed
qed

text \<open>
  The resolution limiter. Over any sequence of resolutions in order of time, from any
  number of addresses, the queries of one address that are not flagged as limited are such
  that of any eleven consecutive ones the first lies more than thirty seconds before the last.
\<close>
theorem resolve_window:
  assumes "sorted (map fst es)"
    and "i + RESOLVE_LIMIT < length (admissions (resolve_gate k) registry_new es)"
  shows "RESOLVE_WINDOW < admissions (resolve_gate k) registry_new es ! (i + RESOLVE_LIMIT)
           - admissions (resolve_gate k) registry_new es ! i"
  using resolve_win.admissions_spaced [OF assms(1) _ _ _ assms(2)]
  by (simp add: registry_new_def resolve_stamps_def hm_or_insert_def)

text \<open>Twelve queries, the last after more than thirty seconds: it is the eleventh let through.\<close>

definition demo_queries :: "(instant \<times> ip_addr) list" where
  "demo_queries =
     [(0, V4 1 2 3 4), (0, V4 1 2 3 4), (0, V4 1 2 3 4), (0, V4 1 2 3 4), (0, V4 1 2 3 4),
      (0, V4 1 2 3 4), (0, V4 1 2 3 4), (0, V4 1 2 3 4), (0, V4 1 2 3 4), (0, V4 1 2 3 4),
      (0, V4 1 2 3 4), (Suc RESOLVE_WINDOW, V4 1 2 3 4)]"

definition demo_zeros :: "nat \<Rightarrow> registry" where
  "demo_zeros n = registry_new\<lparr>reg_resolve_limits := [(V4 1 2 3 4, replicate n 0)]\<rparr>"

lemma demo_gate:
  "resolve_gate (V4 1 2 3 4) 0 (V4 1 2 3 4) registry_new = (True, demo_zeros 1)"
  "n < 10 \<Longrightarrow> resolve_gate (V4 1 2 3 4) 0 (V4 1 2 3 4) (demo_zeros n) = (True, demo_zeros (Suc n))"
  "resolve_gate (V4 1 2 3 4) 0 (V4 1 2 3 4) (demo_zeros 10) = (False, demo_zeros 10)"
  "fst (resolve_gate (V4 1 2 3 4) (Suc RESOLVE_WINDOW) (V4 1 2 3 4) (demo_zeros 10)) = True"
  by (simp_all add: resolve_gate_def resolve_limited_def demo_zeros_def registry_new_def hm_or_insert_def
      RESOLVE_LIMIT_def Let_def replicate_append_same dropWhile_eq_Nil_conv split_def)

lemma demo_queries_admitted:
  "admissions (resolve_gate (V4 1 2 3 4)) registry_new demo_queries =
     [0, 0, 0, 0, 0, 0, 0, 0, 0, 0, Suc RESOLVE_WINDOW]"
proof -
  obtain r' where "resolve_gate (V4 1 2 3 4) (Suc RESOLVE_WINDOW) (V4 1 2 3 4) (demo_zeros 10) = (True, r')"
    using demo_gate(4) by (metis prod.collapse)
  with demo_gate(3) show ?thesis
    by (simp add: demo_queries_def demo_gate(1,2) eval_nat_numeral)
qed

theorem resolve_window_witness:
  "RESOLVE_WINDOW < admissions (resolve_gate (V4 1 2 3 4)) registry_new demo_queries ! (0 + RESOLVE_LIMIT)
     - admissions (resolve_gate (V4 1 2 3 4)) registry_new demo_queries ! 0"
proof (rule resolve_window)
  show "sorted (map fst demo_queries)" by (simp add: demo_queries_def)
  show "0 + RESOLVE_LIMIT < length (admissions (resolve_gate (V4 1 2 3 4)) registry_new demo_queries)"
    by (simp add: demo_queries_admitted RESOLVE_LIMIT_def)
qed

section \<open>Runs\<close>

text \<open>
  The registry with the channels it sends on; of \<open>register_with_proof\<close>, the calls that have passed the
  checks and not yet changed the table, since the lock is given up in between; and of \<open>register_tunnel\<close>,
  the calls that have sent their request and not yet inserted the pending tunnel.
\<close>

record reg_sys =
  rs_reg :: registry
  rs_chans :: chan_store
  rs_checked :: "(string \<times> string \<times> bytes \<times> bytes) list"
  rs_sent :: "(u64 \<times> string \<times> string \<times> nat) list"

definition reg_sys_new :: "chan_store \<Rightarrow> reg_sys" where
  "reg_sys_new chans = \<lparr>rs_reg = registry_new, rs_chans = chans, rs_checked = [], rs_sent = []\<rparr>"

datatype reg_event =
    EvPresented string string bytes bytes
  | EvRegistered string string bytes bytes
  | EvUnregistered string
  | EvSwept "string list"
  | EvHeartbeat string
  | EvCandidates string
  | EvResolved ip_addr
  | EvRequested u64 string nat
  | EvPending u64 nat
  | EvReturned u64 nat
  | EvRefused u64 nat
  | EvTaken u64 nat nat
  | EvCancelled u64

inductive reg_step ::
    "crypto_lib \<Rightarrow> (tunnel_request \<Rightarrow> string + bytes) \<Rightarrow> reg_sys \<Rightarrow> reg_event \<Rightarrow> reg_sys \<Rightarrow> bool"
  for cr ser where
  step_present:
    "reg_step cr ser s (EvPresented dev pub nonce sig)
       (case registration_check cr dev pub nonce sig (rs_reg s) of
          Inl _ \<Rightarrow> s
        | Inr _ \<Rightarrow> s\<lparr>rs_checked := (dev, pub, nonce, sig) # rs_checked s\<rparr>)"
| step_register:
    "(dev, pub, nonce, sig) \<in> set (rs_checked s) \<Longrightarrow>
     register now dev pub addr tx (rs_reg s) = (res, r') \<Longrightarrow>
     reg_step cr ser s (EvRegistered dev pub nonce sig)
       (s\<lparr>rs_reg := r', rs_checked := remove1 (dev, pub, nonce, sig) (rs_checked s)\<rparr>)"
| step_unregister:
    "unregister dev (rs_reg s) = (b, r') \<Longrightarrow> reg_step cr ser s (EvUnregistered dev) (s\<lparr>rs_reg := r'\<rparr>)"
| step_sweep:
    "sweep_idle now timeout (rs_reg s) = (stale, r') \<Longrightarrow>
     reg_step cr ser s (EvSwept (map fst stale)) (s\<lparr>rs_reg := r'\<rparr>)"
| step_heartbeat:
    "reg_step cr ser s (EvHeartbeat dev) (s\<lparr>rs_reg := heartbeat now dev (rs_reg s)\<rparr>)"
| step_candidates:
    "update_candidates dev cs (rs_reg s) = (b, r') \<Longrightarrow>
     reg_step cr ser s (EvCandidates dev) (s\<lparr>rs_reg := r'\<rparr>)"
| step_resolve:
    "resolve_limited now ip (rs_reg s) = (lim, r') \<Longrightarrow> reg_step cr ser s (EvResolved ip) (s\<lparr>rs_reg := r'\<rparr>)"
| step_request:
    "send_tunnel_request ser target from conn (rs_reg s) (rs_chans s) = Inr chans' \<Longrightarrow>
     reg_step cr ser s (EvRequested conn target ctrl)
       (s\<lparr>rs_chans := chans', rs_sent := (conn, target, from, ctrl) # rs_sent s\<rparr>)"
| step_pending:
    "(conn, target, from, ctrl) \<in> set (rs_sent s) \<Longrightarrow>
     reg_step cr ser s (EvPending conn ctrl)
       (s\<lparr>rs_reg := insert_tunnel conn target from ctrl (rs_reg s),
          rs_sent := remove1 (conn, target, from, ctrl) (rs_sent s)\<rparr>)"
| step_pair:
    "pair_tunnel conn device (rs_reg s) = (ok, r') \<Longrightarrow>
     reg_step cr ser s (if ok then EvReturned conn device else EvRefused conn device) (s\<lparr>rs_reg := r'\<rparr>)"
| step_take:
    "take_paired conn (rs_reg s) = (Some (ctrl, device), r') \<Longrightarrow>
     reg_step cr ser s (EvTaken conn ctrl device) (s\<lparr>rs_reg := r'\<rparr>)"
| step_cancel:
    "reg_step cr ser s (EvCancelled conn) (s\<lparr>rs_reg := cancel_tunnel conn (rs_reg s)\<rparr>)"

inductive reg_run ::
    "crypto_lib \<Rightarrow> (tunnel_request \<Rightarrow> string + bytes) \<Rightarrow> reg_sys \<Rightarrow> reg_event list \<Rightarrow> reg_sys \<Rightarrow> bool"
  for cr ser where
  run_nil: "reg_run cr ser s [] s"
| run_snoc: "reg_run cr ser s evs s' \<Longrightarrow> reg_step cr ser s' ev s'' \<Longrightarrow> reg_run cr ser s (evs @ [ev]) s''"

inductive_cases reg_step_takenE: "reg_step cr ser s (EvTaken conn ctrl device) s'"
inductive_cases reg_step_registeredE: "reg_step cr ser s (EvRegistered dev pub nonce sig) s'"
inductive_simps reg_run_nil: "reg_run cr ser s [] s'"
inductive_simps reg_run_snoc: "reg_run cr ser s (evs @ [ev]) s'"

subsection \<open>The invariant\<close>

definition entry_ok :: "crypto_lib \<Rightarrow> string \<Rightarrow> device_entry \<Rightarrow> bool" where
  "entry_ok cr dev e \<longleftrightarrow>
     de_device_id e = dev \<and> validate_device_id dev \<and> de_ed25519_pub e \<noteq> [] \<and>
     (is_fingerprint_device_id dev \<longrightarrow> flat_id (fingerprint (sha256 cr) (de_ed25519_pub e)) = flat_id dev) \<and>
     distinct (map cand_addr (de_candidates e)) \<and> length (de_candidates e) \<le> 16 \<and>
     sorted_wrt (\<lambda>a b. cand_priority b \<le> cand_priority a) (de_candidates e)"

definition reg_ok :: "crypto_lib \<Rightarrow> registry \<Rightarrow> bool" where
  "reg_ok cr r \<longleftrightarrow>
     hm_ok (reg_devices r) \<and> hm_ok (reg_resolve_limits r) \<and> hm_ok (reg_tunnels r) \<and>
     (\<forall>dev e. hm_get (reg_devices r) dev = Some e \<longrightarrow> entry_ok cr dev e)"

lemma reg_ok_new [inv_intros]: "reg_ok cr registry_new"
  by (simp add: reg_ok_def registry_new_def)

lemma verify_proof_bound:
  "verify_registration_proof cr dev pub nonce sig = Inr () \<Longrightarrow>
   pub \<noteq> [] \<and> (is_fingerprint_device_id dev \<longrightarrow> flat_id (fingerprint (sha256 cr) pub) = flat_id dev)"
  by (auto simp: verify_registration_proof_def split: if_splits)

lemma reg_ok_put:
  "reg_ok cr r \<Longrightarrow> entry_ok cr dev e \<Longrightarrow> reg_ok cr (r\<lparr>reg_devices := hm_put dev e (reg_devices r)\<rparr>)"
  by (auto simp: reg_ok_def)

lemma register_ok [inv_intros]:
  assumes "reg_ok cr r" and "verify_registration_proof cr dev pub nonce sig = Inr ()"
    and "register now dev pub addr tx r = (res, r')"
  shows "reg_ok cr r'"
proof (cases res)
  case (Inl e)
  with assms(1,3) register_Inl [of now dev pub addr tx r e r'] show ?thesis by simp
next
  case (Inr out)
  show ?thesis
    using assms(1) register_Inr [of now dev pub addr tx r out r'] verify_proof_bound [OF assms(2)] assms(3) Inr
    by (auto split: option.splits intro!: reg_ok_put simp: entry_ok_def reg_ok_def [of cr r])
qed

lemma unregister_ok [inv_intros]: "reg_ok cr r \<Longrightarrow> unregister dev r = (b, r') \<Longrightarrow> reg_ok cr r'"
  by (auto simp: unregister_def reg_ok_def split: if_splits)

lemma sweep_ok [inv_intros]: "reg_ok cr r \<Longrightarrow> sweep_idle now timeout r = (stale, r') \<Longrightarrow> reg_ok cr r'"
  using sweep_idle_get [of now timeout r stale r']
  by (auto simp: sweep_idle_def Let_def reg_ok_def hm_ok_fold_del split: if_splits)

lemma heartbeat_ok [inv_intros]: "reg_ok cr r \<Longrightarrow> reg_ok cr (heartbeat now dev r)"
  by (auto simp: heartbeat_def split: option.split intro!: reg_ok_put)
     (simp add: reg_ok_def entry_ok_def)

lemma update_candidates_ok [inv_intros]:
  "reg_ok cr r \<Longrightarrow> update_candidates dev cs r = (b, r') \<Longrightarrow> reg_ok cr r'"
proof -
  assume ok: "reg_ok cr r" and u: "update_candidates dev cs r = (b, r')"
  have "entry_ok cr dev (e\<lparr>de_candidates := merge_candidates (de_observed_addr e) cs\<rparr>)"
    if "hm_get (reg_devices r) dev = Some e" for e
    using ok that merge_candidates_props [of "de_observed_addr e" cs] by (simp add: reg_ok_def entry_ok_def)
  with ok u show "reg_ok cr r'"
    by (auto simp: update_candidates_def split: option.splits intro!: reg_ok_put)
qed

lemma resolve_limited_ok [inv_intros]: "reg_ok cr r \<Longrightarrow> resolve_limited now ip r = (l, r') \<Longrightarrow> reg_ok cr r'"
  by (auto simp: resolve_limited_def Let_def reg_ok_def)

lemma tunnel_ops_ok [inv_intros]:
  "reg_ok cr r \<Longrightarrow> reg_ok cr (insert_tunnel conn target from ctrl r)"
  "reg_ok cr r \<Longrightarrow> reg_ok cr (cancel_tunnel conn r)"
  "reg_ok cr r \<Longrightarrow> pair_tunnel conn device r = (b, r') \<Longrightarrow> reg_ok cr r'"
  "reg_ok cr r \<Longrightarrow> take_paired conn r = (x, r') \<Longrightarrow> reg_ok cr r'"
  by (auto simp: reg_ok_def insert_tunnel_def cancel_tunnel_def pair_tunnel_def take_paired_def
      split: option.splits if_splits)

text \<open>What waits for the table has been presented, with a proof that verified.\<close>

definition checked_traced :: "crypto_lib \<Rightarrow> reg_event list \<Rightarrow> reg_sys \<Rightarrow> bool" where
  "checked_traced cr evs s \<longleftrightarrow> (\<forall>(dev, pub, nonce, sig) \<in> set (rs_checked s).
     EvPresented dev pub nonce sig \<in> set evs \<and> verify_registration_proof cr dev pub nonce sig = Inr ())"

lemma checked_tracedD:
  "checked_traced cr evs s \<Longrightarrow> (dev, pub, nonce, sig) \<in> set (rs_checked s) \<Longrightarrow>
     EvPresented dev pub nonce sig \<in> set evs \<and> verify_registration_proof cr dev pub nonce sig = Inr ()"
  by (auto simp: checked_traced_def)

lemma checked_traced_step:
  assumes "reg_step cr ser s ev s'" and "checked_traced cr evs s"
  shows "checked_traced cr (evs @ [ev]) s'"
  using assms
proof (cases rule: reg_step.cases)
  case (step_present dev pub nonce sig)
  with assms(2) show ?thesis
    by (auto simp: checked_traced_def dest: registration_check_Inr split: sum.splits)
next
  case (step_register dev pub nonce sig now addr tx res r')
  with assms(2) set_remove1_subset [of "(dev, pub, nonce, sig)" "rs_checked s"] show ?thesis
    by (auto simp: checked_traced_def)
qed (auto simp: checked_traced_def)

lemma run_checked_traced: "reg_run cr ser (reg_sys_new chans) evs s \<Longrightarrow> checked_traced cr evs s"
proof (induction "reg_sys_new chans" evs s rule: reg_run.induct)
  case run_nil
  then show ?case by (simp add: checked_traced_def reg_sys_new_def)
next
  case (run_snoc evs s' ev s'')
  then show ?case by (blast intro: checked_traced_step)
qed

lemma reg_step_ok:
  assumes "reg_step cr ser s ev s'" and "checked_traced cr evs s" and "reg_ok cr (rs_reg s)"
  shows "reg_ok cr (rs_reg s')"
  using assms(1)
proof (cases rule: reg_step.cases)
  case (step_register dev pub nonce sig now addr tx res r')
  have "verify_registration_proof cr dev pub nonce sig = Inr ()"
    using checked_tracedD [OF assms(2) step_register(3)] by simp
  from register_ok [OF assms(3) this step_register(4)] step_register(2) show ?thesis by simp
qed (use assms(3) in \<open>auto intro: inv_intros split: sum.split\<close>)

text \<open>
  C15. The table of devices. In every run from the empty registry, whatever the tasks'
  interleaving, each entry is stored under its own valid identifier, its key is bound to the
  identifier when that has the form of a fingerprint, and its candidates are at most sixteen,
  with distinct addresses, by decreasing priority; no table has two entries for a key.
\<close>
theorem registry_invariant:
  assumes "reg_run cr ser (reg_sys_new chans) evs s"
  shows "reg_ok cr (rs_reg s)"
  using assms
proof (induction "reg_sys_new chans" evs s rule: reg_run.induct)
  case run_nil
  then show ?case by (simp add: reg_sys_new_def reg_ok_new)
next
  case (run_snoc evs s' ev s'')
  then show ?case using reg_step_ok [OF run_snoc.hyps(3) run_checked_traced] by blast
qed

subsection \<open>Keys\<close>

text \<open>Which events can take a device offline, and what a step does to one device's entry.\<close>

fun takes_offline :: "string \<Rightarrow> reg_event \<Rightarrow> bool" where
  "takes_offline dev (EvUnregistered d) = (d = dev)"
| "takes_offline dev (EvSwept ds) = (dev \<in> set ds)"
| "takes_offline dev _ = False"

definition same_identity :: "device_entry \<Rightarrow> device_entry \<Rightarrow> bool" where
  "same_identity e e' \<longleftrightarrow> de_ed25519_pub e' = de_ed25519_pub e \<and> de_registered_at e' = de_registered_at e"

lemma reg_step_entry:
  assumes "reg_step cr ser s ev s'"
  shows "case hm_get (reg_devices (rs_reg s')) dev of
      None \<Rightarrow> hm_get (reg_devices (rs_reg s)) dev = None \<or> takes_offline dev ev
    | Some e' \<Rightarrow>
        (case hm_get (reg_devices (rs_reg s)) dev of
           Some e \<Rightarrow> same_identity e e'
         | None \<Rightarrow> \<exists>nonce sig. (dev, de_ed25519_pub e', nonce, sig) \<in> set (rs_checked s))"
  using assms
proof (cases rule: reg_step.cases)
  case (step_register d pub nonce sig now addr tx res r')
  show ?thesis
  proof (cases res)
    case (Inl err)
    with step_register register_Inl [of now d pub addr tx "rs_reg s" err r'] show ?thesis
      by (auto simp: same_identity_def split: option.split)
  next
    case (Inr out)
    with step_register register_Inr [of now d pub addr tx "rs_reg s" out r'] show ?thesis
      by (auto simp: same_identity_def split: option.splits)
  qed
next
  case (step_present d pub nonce sig)
  then show ?thesis by (auto simp: same_identity_def split: option.split sum.split)
next
  case (step_sweep now timeout stale r')
  with sweep_idle_get [OF step_sweep(3)] show ?thesis
    by (auto simp: same_identity_def split: option.splits)
next
  case (step_resolve now ip lim r')
  then have "reg_devices r' = reg_devices (rs_reg s)"
    using resolve_limited_devices(1) [of now ip "rs_reg s"] by simp
  with step_resolve show ?thesis by (auto simp: same_identity_def split: option.splits)
qed (auto simp: same_identity_def unregister_def heartbeat_def update_candidates_def insert_tunnel_def
      pair_tunnel_def take_paired_def cancel_tunnel_def split: option.splits if_splits)

lemma verify_registration_proof_Inr:
  "verify_registration_proof cr dev pub nonce sig = Inr u \<Longrightarrow>
     \<exists>k. b64_decode cr pub = Inr k \<and> length k = 32 \<and> valid_point cr k \<and> length sig = 64 \<and>
       ed25519_verify cr k (registration_proof_payload nonce (str_bytes dev) (str_bytes pub)) sig"
  by (auto simp: verify_registration_proof_def split: if_splits sum.splits)

lemma entry_presented:
  assumes "reg_run cr ser (reg_sys_new chans) evs s"
    and "hm_get (reg_devices (rs_reg s)) dev = Some e"
  shows "\<exists>nonce sig. EvPresented dev (de_ed25519_pub e) nonce sig \<in> set evs \<and>
           verify_registration_proof cr dev (de_ed25519_pub e) nonce sig = Inr ()"
  using assms
proof (induction "reg_sys_new chans" evs s arbitrary: e rule: reg_run.induct)
  case run_nil
  then show ?case by (simp add: reg_sys_new_def registry_new_def)
next
  case (run_snoc evs s' ev s'')
  show ?case
  proof (cases "hm_get (reg_devices (rs_reg s')) dev")
    case None
    with reg_step_entry [OF run_snoc.hyps(3), of dev] run_snoc.prems
    obtain nonce sig where "(dev, de_ed25519_pub e, nonce, sig) \<in> set (rs_checked s')" by auto
    with checked_tracedD [OF run_checked_traced [OF run_snoc.hyps(1)]] show ?thesis by fastforce
  next
    case (Some e')
    with reg_step_entry [OF run_snoc.hyps(3), of dev] run_snoc.prems
    have "de_ed25519_pub e = de_ed25519_pub e'" by (auto simp: same_identity_def)
    with run_snoc.hyps(2) [OF Some] show ?thesis by auto
  qed
qed

text \<open>
  C9. No device without proof. Anyone may present any identifier, key, nonce and signature at any time, and
  the checks of \<open>register_with_proof\<close> decide. Whatever device is online with whatever key at the end of a run,
  exactly that identifier and key were presented, with a signature of 64 bytes that is valid under that key,
  a valid Ed25519 point of 32 bytes, over the nonce, the identifier and the key of that call.
\<close>
theorem online_by_proof:
  assumes "reg_run cr ser (reg_sys_new chans) evs s"
    and "hm_get (reg_devices (rs_reg s)) dev = Some e"
  shows "\<exists>nonce sig k. EvPresented dev (de_ed25519_pub e) nonce sig \<in> set evs \<and>
    b64_decode cr (de_ed25519_pub e) = Inr k \<and> length k = 32 \<and> valid_point cr k \<and> length sig = 64 \<and>
    ed25519_verify cr k (registration_proof_payload nonce (str_bytes dev) (str_bytes (de_ed25519_pub e))) sig"
  using entry_presented [OF assms] verify_registration_proof_Inr by blast

text \<open>
  C10. No takeover. While a device stays online (no disconnection of its own and no sweep that
  takes it), no sequence of events, registrations under its identifier included, changes its
  key; and \<open>register_with_proof\<close> with another key is refused and leaves the registry as it is.
\<close>
theorem no_takeover:
  assumes "reg_run cr ser s evs s'" and "hm_get (reg_devices (rs_reg s)) dev = Some e"
    and "list_all (\<lambda>ev. \<not> takes_offline dev ev) evs" and "pub \<noteq> de_ed25519_pub e"
  shows "(\<exists>e'. hm_get (reg_devices (rs_reg s')) dev = Some e' \<and> de_ed25519_pub e' = de_ed25519_pub e) \<and>
    snd (register_with_proof cr now dev pub addr tx nonce sig (rs_reg s')) = rs_reg s' \<and>
    (\<exists>err. fst (register_with_proof cr now dev pub addr tx nonce sig (rs_reg s')) = Inl err)"
proof -
  have "\<exists>e'. hm_get (reg_devices (rs_reg s')) dev = Some e' \<and> de_ed25519_pub e' = de_ed25519_pub e"
    using assms(1-3)
  proof (induction s evs s' rule: reg_run.induct)
    case (run_nil s)
    then show ?case by simp
  next
    case (run_snoc s evs s' ev s'')
    then obtain e' where "hm_get (reg_devices (rs_reg s')) dev = Some e'" "de_ed25519_pub e' = de_ed25519_pub e"
      by auto
    with reg_step_entry [OF run_snoc.hyps(2), of dev] run_snoc.prems show ?case
      by (auto simp: same_identity_def split: option.splits)
  qed
  then show ?thesis
    using assms(4) by (auto simp: register_with_proof_def registration_check_def split: sum.split)
qed

subsection \<open>Tunnels\<close>

definition tunnel_traced :: "reg_event list \<Rightarrow> reg_sys \<Rightarrow> bool" where
  "tunnel_traced evs s \<longleftrightarrow>
     (\<forall>conn target from ctrl.
        (conn, target, from, ctrl) \<in> set (rs_sent s) \<longrightarrow> EvRequested conn target ctrl \<in> set evs) \<and>
     (\<forall>conn t. hm_get (reg_tunnels (rs_reg s)) conn = Some t \<longrightarrow>
        (\<exists>ctrl. pt_controller t = Some ctrl \<and> EvRequested conn (pt_target t) ctrl \<in> set evs \<and>
                EvPending conn ctrl \<in> set evs) \<and>
        (\<forall>device. pt_device t = Some device \<longrightarrow> EvReturned conn device \<in> set evs))"

lemma tunnel_traced_more: "tunnel_traced evs s \<Longrightarrow> set evs \<subseteq> set evs' \<Longrightarrow> tunnel_traced evs' s"
  unfolding tunnel_traced_def by blast

lemma tunnel_traced_step:
  assumes "reg_step cr ser s ev s'" and "tunnel_traced evs s"
  shows "tunnel_traced (evs @ [ev]) s'"
  using assms(1)
proof (cases rule: reg_step.cases)
  case (step_pending conn target peer ctrl)
  have "EvRequested conn target ctrl \<in> set evs"
    using assms(2) step_pending(3) by (auto simp: tunnel_traced_def)
  moreover have "set (remove1 x xs) \<subseteq> set xs" for x :: "u64 \<times> string \<times> string \<times> nat" and xs
    by (rule set_remove1_subset)
  ultimately show ?thesis
    using step_pending assms(2) by (fastforce simp: tunnel_traced_def insert_tunnel_def)
next
  case (step_pair conn device ok r')
  with assms(2) show ?thesis
    by (auto simp: tunnel_traced_def pair_tunnel_def split: option.splits if_splits)
next
  case (step_register d pub nonce sig now addr tx res r')
  then have "reg_tunnels r' = reg_tunnels (rs_reg s)"
    using register_Inr [of now d pub addr tx "rs_reg s" _ r'] register_Inl [of now d pub addr tx "rs_reg s" _ r']
    by (cases res) (auto split: option.splits)
  with step_register assms(2) show ?thesis by (auto simp: tunnel_traced_def)
next
  case (step_present d pub nonce sig)
  with assms(2) show ?thesis by (auto simp: tunnel_traced_def split: sum.split)
next
  case (step_resolve now ip lim r')
  then have "reg_tunnels r' = reg_tunnels (rs_reg s)"
    using resolve_limited_devices(2) [of now ip "rs_reg s"] by simp
  with step_resolve assms(2) show ?thesis by (auto simp: tunnel_traced_def)
next
  case (step_request target peer conn chans' ctrl)
  define evs' where "evs' = evs @ [ev]"
  have "tunnel_traced evs' s" by (rule tunnel_traced_more [OF assms(2)]) (auto simp: evs'_def)
  moreover have "EvRequested conn target ctrl \<in> set evs'" using step_request(1) by (simp add: evs'_def)
  ultimately have "tunnel_traced evs' s'" using step_request(2) by (auto simp: tunnel_traced_def)
  then show ?thesis by (simp only: evs'_def)
qed (use assms(2) in \<open>auto simp: tunnel_traced_def unregister_def sweep_idle_def heartbeat_def
      update_candidates_def take_paired_def cancel_tunnel_def Let_def split: option.splits if_splits\<close>)

lemma run_tunnel_traced: "reg_run cr ser (reg_sys_new chans) evs s \<Longrightarrow> tunnel_traced evs s"
proof (induction "reg_sys_new chans" evs s rule: reg_run.induct)
  case run_nil
  then show ?case by (simp add: tunnel_traced_def reg_sys_new_def registry_new_def)
next
  case (run_snoc evs s' ev s'')
  then show ?case by (blast intro: tunnel_traced_step)
qed

text \<open>
  C16. Tunnels join what belongs together, once. In every run, a pair handed to a waiting
  controller task consists of the controller connection that requested that tunnel number and
  a device connection that returned with it and was accepted; afterwards the number is gone
  from the table, so the same pair cannot be handed out or joined again.
\<close>
theorem tunnel_pairs_once:
  assumes "reg_run cr ser (reg_sys_new chans) evs s" and "reg_step cr ser s (EvTaken conn ctrl device) s'"
  shows "(\<exists>target. EvRequested conn target ctrl \<in> set evs) \<and> EvPending conn ctrl \<in> set evs \<and>
    EvReturned conn device \<in> set evs \<and>
    hm_get (reg_tunnels (rs_reg s')) conn = None \<and>
    pair_tunnel conn d (rs_reg s') = (False, rs_reg s') \<and>
    take_paired conn (rs_reg s') = (None, rs_reg s')"
proof -
  from assms(2) obtain t where t: "hm_get (reg_tunnels (rs_reg s)) conn = Some t"
    "pt_controller t = Some ctrl" "pt_device t = Some device"
    and gone: "hm_get (reg_tunnels (rs_reg s')) conn = None"
    by (auto elim!: reg_step_takenE simp: take_paired_def split: option.splits if_splits)
  have "(\<exists>c. pt_controller t = Some c \<and> EvRequested conn (pt_target t) c \<in> set evs \<and> EvPending conn c \<in> set evs)"
    and "EvReturned conn device \<in> set evs"
    using run_tunnel_traced [OF assms(1)] t unfolding tunnel_traced_def by blast+
  with t(2) gone show ?thesis by (auto simp: pair_tunnel_def take_paired_def)
qed

text \<open>
  The request overtakes the table. \<open>register_tunnel\<close> sends the request to the device
  before it inserts the pending tunnel. For an online device with a live control channel, if
  the device's data connection arrives in between, it is refused as unknown; the tunnel is
  inserted afterwards, and with no second connection the controller waits until its deadline.
\<close>
theorem early_return_lost:
  assumes "hm_get (reg_devices r) target = Some e" and "chan_live (de_ctrl_tx e) chans"
    and "ser \<lparr>tr_from_peer = peer, tr_conn_id = conn\<rparr> = Inr payload"
    and "hm_get (reg_tunnels r) conn = None" and "now < deadline" and "deadline \<le> later"
  shows "(\<exists>chans'. send_tunnel_request ser target peer conn r chans = Inr chans' \<and>
      chan_queue (de_ctrl_tx e) chans' =
        chan_queue (de_ctrl_tx e) chans @ [wrap_frame TYPE_TUNNEL_REQUEST payload]) \<and>
    pair_tunnel conn device r = (False, r) \<and>
    fst (wait_for_pair conn deadline [(now, \<lambda>r. r), (later, \<lambda>r. r)]
           (insert_tunnel conn target peer ctrl (snd (pair_tunnel conn device r)))) = Some None"
  using assms
  by (auto simp: send_tunnel_request_def encode_extension_def pair_tunnel_def insert_tunnel_def take_paired_def
      chan_send_Some chan_send_ignore_queue split: option.split dest: chan_send_None [THEN iffD1])

text \<open>The table that a round looks at, when no earlier round has returned.\<close>

definition table_at :: "(instant \<times> (registry \<Rightarrow> registry)) list \<Rightarrow> registry \<Rightarrow> registry" where
  "table_at before r = fold (\<lambda>(_, others). others) before r"

definition pair_complete :: "u64 \<Rightarrow> registry \<Rightarrow> bool" where
  "pair_complete conn r \<longleftrightarrow> fst (take_paired conn r) \<noteq> None"

lemma take_paired_None: "fst (take_paired conn r) = None \<Longrightarrow> take_paired conn r = (None, r)"
  by (auto simp: take_paired_def split: option.splits)

lemma wait_deadline: "\<exists>now\<in>fst ` set rounds. deadline \<le> now \<Longrightarrow> fst (wait_for_pair conn deadline rounds r) \<noteq> None"
proof (induction rounds arbitrary: r)
  case (Cons round rounds)
  then show ?case by (cases round) (auto split: prod.split option.split)
qed simp

lemma wait_complete:
  "pair_complete conn (table_at before r) \<Longrightarrow> fst (wait_for_pair conn deadline (before @ round # after) r) \<noteq> None"
proof (induction before arbitrary: r)
  case Nil
  then show ?case by (cases round) (auto simp: pair_complete_def table_at_def split: prod.split option.split)
next
  case (Cons x before)
  obtain now others where x: "x = (now, others)" by (cases x)
  show ?case
  proof (cases "fst (take_paired conn r)")
    case None
    with Cons show ?thesis by (simp add: x take_paired_None table_at_def)
  next
    case (Some p)
    then show ?thesis by (cases "take_paired conn r") (simp add: x)
  qed
qed

text \<open>
  C28. Waiting ends. Whatever other tasks do to the table between the rounds, \<open>wait_for_pair\<close> has returned
  once the clock read in a round has reached the deadline, and also once a round finds both connections of
  the tunnel in the table; and when the device has returned before the wait begins, the first round
  returns that device with the waiting controller.
\<close>
theorem wait_for_pair_ends:
  assumes "(\<exists>now\<in>fst ` set rounds. deadline \<le> now) \<or>
    (\<exists>before round after. rounds = before @ round # after \<and> pair_complete conn (table_at before r))"
  shows "fst (wait_for_pair conn deadline rounds r) \<noteq> None \<and>
    fst (wait_for_pair conn deadline rounds
      (snd (pair_tunnel conn device (insert_tunnel conn target peer ctrl r)))) = Some (Some (ctrl, device))"
proof (rule conjI)
  show "fst (wait_for_pair conn deadline rounds r) \<noteq> None"
    using assms wait_deadline wait_complete by blast
next
  show "fst (wait_for_pair conn deadline rounds
        (snd (pair_tunnel conn device (insert_tunnel conn target peer ctrl r)))) = Some (Some (ctrl, device))"
  proof (cases rounds)
    case Nil
    with assms show ?thesis by simp
  next
    case (Cons round rest)
    then show ?thesis by (cases round) (simp add: pair_tunnel_def insert_tunnel_def take_paired_def)
  qed
qed

section \<open>Concrete runs\<close>

text \<open>A toy signature scheme: a signature is the last byte of the payload, sixty-four times.\<close>

definition demo_crypto :: crypto_lib where
  "demo_crypto = \<lparr>sha256 = (\<lambda>b. b), b64_decode = (\<lambda>s. Inr (replicate 32 (of_char (last s)))),
     valid_point = (\<lambda>k. hd k \<noteq> 0),
     ed25519_verify = (\<lambda>k p s. s = replicate 64 (last p))\<rparr>"

definition demo_ser :: "tunnel_request \<Rightarrow> string + bytes" where
  "demo_ser req = Inr (str_bytes (tr_from_peer req))"

definition demo_chans :: chan_store where
  "demo_chans = [(1, \<lparr>ch_open = True, ch_queue = []\<rparr>)]"

definition demo_sig :: bytes where
  "demo_sig = replicate 64 (of_char (CHR ''k''))"

definition demo_online :: reg_sys where
  "demo_online = (reg_sys_new demo_chans)\<lparr>rs_reg :=
     registry_new\<lparr>reg_devices := [(''pc'', demo_entry ''pc'' ''k'' 1)]\<rparr>\<rparr>"

lemma demo_proof: "verify_registration_proof demo_crypto ''pc'' ''k'' [] demo_sig = Inr ()"
  by (simp add: verify_registration_proof_def is_fingerprint_device_id_def demo_crypto_def demo_sig_def
      registration_proof_payload_def str_bytes_def)

lemma demo_register:
  "register 0 ''pc'' ''k'' demo_addr 1 registry_new = (Inr Registered, rs_reg demo_online)"
  by (simp add: register_def registry_new_def demo_online_def demo_entry_def validate_device_id_def
      is_ascii_alphanumeric_def is_ascii_digit_def is_ascii_upper_def MAX_DEVICE_ID_LEN_def)

lemma demo_run_online:
  "reg_run demo_crypto demo_ser (reg_sys_new demo_chans)
     [EvPresented ''pc'' ''k'' [] demo_sig, EvRegistered ''pc'' ''k'' [] demo_sig] demo_online"
proof -
  let ?s = "(reg_sys_new demo_chans)\<lparr>rs_checked := [(''pc'', ''k'', [], demo_sig)]\<rparr>"
  have v: "validate_device_id ''pc''" using demo_register by (auto simp: register_def split: if_splits)
  then have "registration_check demo_crypto ''pc'' ''k'' [] demo_sig registry_new = Inr ()"
    using demo_proof by (simp add: registration_check_def registry_new_def)
  then have p: "reg_step demo_crypto demo_ser (reg_sys_new demo_chans) (EvPresented ''pc'' ''k'' [] demo_sig) ?s"
    using step_present [of demo_crypto demo_ser "reg_sys_new demo_chans" "''pc''" "''k''" "[]" demo_sig]
    by (simp add: reg_sys_new_def)
  have r: "reg_step demo_crypto demo_ser ?s (EvRegistered ''pc'' ''k'' [] demo_sig) demo_online"
    using step_register [of "''pc''" "''k''" "[]" demo_sig ?s 0 demo_addr 1 "Inr Registered" "rs_reg demo_online"] demo_register
    by (simp add: reg_sys_new_def demo_online_def)
  show ?thesis using run_snoc [OF run_snoc [OF run_nil p] r] by simp
qed

theorem registry_invariant_witness: "reg_ok demo_crypto (rs_reg demo_online)"
  by (rule registry_invariant [OF demo_run_online])

theorem online_by_proof_witness:
  "\<exists>k. b64_decode demo_crypto ''k'' = Inr k \<and> length k = 32 \<and> valid_point demo_crypto k"
  using online_by_proof [OF demo_run_online, of "''pc''" "demo_entry ''pc'' ''k'' 1"]
  by (auto simp: demo_online_def demo_entry_def)

theorem no_takeover_witness:
  "(\<exists>err. fst (register_with_proof demo_crypto 5 ''pc'' ''evil'' demo_addr 2 [] demo_sig
      (heartbeat 3 ''pc'' (rs_reg demo_online))) = Inl err)"
proof -
  have "reg_run demo_crypto demo_ser demo_online [EvHeartbeat ''pc'']
      (demo_online\<lparr>rs_reg := heartbeat 3 ''pc'' (rs_reg demo_online)\<rparr>)"
    using run_snoc [OF run_nil step_heartbeat] by simp
  from no_takeover [OF this, of "''pc''" "demo_entry ''pc'' ''k'' 1" "''evil''"]
  show ?thesis by (simp add: demo_online_def demo_entry_def)
qed

definition demo_device :: device_entry where
  "demo_device = demo_entry ''pc'' ''k'' 1"

definition demo_requested :: reg_sys where
  "demo_requested = demo_online\<lparr>rs_chans := chan_send_ignore 1 (wrap_frame TYPE_TUNNEL_REQUEST []) demo_chans,
     rs_sent := [(7, ''pc'', [], 20)]\<rparr>"

definition demo_pending :: reg_sys where
  "demo_pending = demo_requested\<lparr>rs_reg := insert_tunnel 7 ''pc'' [] 20 (rs_reg demo_online), rs_sent := []\<rparr>"

definition demo_returned :: reg_sys where
  "demo_returned = demo_pending\<lparr>rs_reg := snd (pair_tunnel 7 30 (rs_reg demo_pending))\<rparr>"

definition demo_taken :: reg_sys where
  "demo_taken = demo_returned\<lparr>rs_reg := snd (take_paired 7 (rs_reg demo_returned))\<rparr>"

lemmas demo_tunnel_defs = demo_requested_def demo_pending_def demo_returned_def demo_taken_def
  demo_online_def reg_sys_new_def registry_new_def demo_chans_def demo_entry_def demo_ser_def
  insert_tunnel_def pair_tunnel_def take_paired_def send_tunnel_request_def encode_extension_def
  chan_send_def chan_send_ignore_def str_bytes_def

lemma demo_tunnel_steps:
  "reg_step demo_crypto demo_ser demo_online (EvRequested 7 ''pc'' 20) demo_requested"
  "reg_step demo_crypto demo_ser demo_requested (EvPending 7 20) demo_pending"
  "reg_step demo_crypto demo_ser demo_pending (EvReturned 7 30) demo_returned"
  "reg_step demo_crypto demo_ser demo_returned (EvTaken 7 20 30) demo_taken"
proof -
  show "reg_step demo_crypto demo_ser demo_online (EvRequested 7 ''pc'' 20) demo_requested"
    using step_request [of demo_ser "''pc''" "[]" 7 demo_online "rs_chans demo_requested" demo_crypto 20]
    by (simp add: demo_tunnel_defs)
  show "reg_step demo_crypto demo_ser demo_requested (EvPending 7 20) demo_pending"
    using step_pending [of 7 "''pc''" "[]" 20 demo_requested demo_crypto demo_ser]
    by (simp add: demo_tunnel_defs)
  show "reg_step demo_crypto demo_ser demo_pending (EvReturned 7 30) demo_returned"
    using step_pair [of 7 30 demo_pending True "rs_reg demo_returned" demo_crypto demo_ser]
    by (simp add: demo_tunnel_defs)
  show "reg_step demo_crypto demo_ser demo_returned (EvTaken 7 20 30) demo_taken"
    using step_take [of 7 demo_returned 20 30 "rs_reg demo_taken" demo_crypto demo_ser]
    by (simp add: demo_tunnel_defs)
qed

theorem tunnel_pairs_once_witness:
  "hm_get (reg_tunnels (rs_reg demo_taken)) 7 = None \<and>
   pair_tunnel 7 31 (rs_reg demo_taken) = (False, rs_reg demo_taken)"
  using tunnel_pairs_once [OF run_snoc [OF run_snoc [OF run_snoc [OF demo_run_online demo_tunnel_steps(1)]
      demo_tunnel_steps(2)] demo_tunnel_steps(3)] demo_tunnel_steps(4), of 31]
  by simp

theorem early_return_lost_witness:
  "pair_tunnel 7 30 (rs_reg demo_online) = (False, rs_reg demo_online)"
  using early_return_lost [of "rs_reg demo_online" "''pc''" "demo_entry ''pc'' ''k'' 1" demo_chans demo_ser
      "[]" 7 "[]" 0 1 2 30 20]
  by (simp add: demo_tunnel_defs chan_live_def)

theorem wait_for_pair_ends_witness:
  "fst (wait_for_pair 7 1 [(0, \<lambda>r. r), (2, \<lambda>r. r)] registry_new) \<noteq> None"
  using wait_for_pair_ends [of "[(0, \<lambda>r. r), (2, \<lambda>r. r)]" 1 7 registry_new]
  by auto

end
