(* ===== verification/Relay_Rendezvous.thy ===== *)
theory Relay_Rendezvous
  imports Relay_Registry Relay_RateLimit
begin

text \<open>
  The rendezvous server for hole punching, \<^verbatim>\<open>relay/src/rendezvous.rs\<close>: sessions of at most two
  peers, the exchange of their candidates, the relaying of probes, the two rate limits and the
  resource caps. One frame is one step: \<open>dispatch\<close> takes the server's state, the channel store
  and the frame, and returns them updated with the audit events recorded and whether the
  connection stays open. Session versions are unbounded here; the code's \<^verbatim>\<open>u64\<close> counters go up
  by one per accepted registration and do not come near their bound.
\<close>

section \<open>Types\<close>

definition DEFAULT_PUNCH_RATE_WINDOW :: duration where "DEFAULT_PUNCH_RATE_WINDOW = secs 5"
definition DEFAULT_PUNCH_RATE_LIMIT :: nat where "DEFAULT_PUNCH_RATE_LIMIT = 10"
definition OBSERVED_PRIORITY :: u8 where "OBSERVED_PRIORITY = 200"
definition MAX_RENDEZVOUS_CONNS :: nat where "MAX_RENDEZVOUS_CONNS = 1024"
definition MAX_RENDEZVOUS_SESSIONS :: nat where "MAX_RENDEZVOUS_SESSIONS = 8192"
definition MAX_RENDEZVOUS_DEVICE_CANDIDATES :: nat where "MAX_RENDEZVOUS_DEVICE_CANDIDATES = 4096"
definition MAX_RENDEZVOUS_RATE_KEYS :: nat where "MAX_RENDEZVOUS_RATE_KEYS = 4096"
definition DEFAULT_IP_RATE_WINDOW :: duration where "DEFAULT_IP_RATE_WINDOW = secs 30"
definition DEFAULT_IP_RATE_LIMIT :: nat where "DEFAULT_IP_RATE_LIMIT = 30"

record peer_slot =
  ps_conn_id :: nat
  ps_device_id :: string
  ps_candidates :: "candidate list"
  ps_tx :: nat

record punch_session =
  se_a :: "peer_slot option"
  se_b :: "peer_slot option"
  se_a_version :: nat
  se_b_version :: nat
  se_forwarded_version :: nat
  se_last_activity :: instant

definition session_default :: "instant \<Rightarrow> punch_session" where
  "session_default now = \<lparr>se_a = None, se_b = None, se_a_version = 0, se_b_version = 0,
     se_forwarded_version = 0, se_last_activity = now\<rparr>"

record rendezvous =
  rv_sessions :: "(bytes, punch_session) hmap"
  rv_conn_session :: "(nat, bytes) hmap"
  rv_device_candidates :: "(string, candidate list) hmap"
  rv_rate :: "(string, instant list) hmap"
  rv_ip_rate :: "(ip_addr, instant list) hmap"
  rv_next_conn_id :: nat
  rv_active_conns :: nat

definition rendezvous_new :: rendezvous where
  "rendezvous_new = \<lparr>rv_sessions = [], rv_conn_session = [], rv_device_candidates = [], rv_rate = [],
     rv_ip_rate = [], rv_next_conn_id = 1, rv_active_conns = 0\<rparr>"

section \<open>Slots\<close>

definition holds :: "nat \<Rightarrow> peer_slot option \<Rightarrow> bool" where
  "holds conn_id slot = (case slot of Some s \<Rightarrow> ps_conn_id s = conn_id | None \<Rightarrow> False)"

text \<open>\<^verbatim>\<open>slot_mut\<close> with the update its only caller makes.\<close>

definition refresh_slot :: "nat \<Rightarrow> string \<Rightarrow> candidate list \<Rightarrow> punch_session \<Rightarrow> punch_session" where
  "refresh_slot conn_id device_id cands s =
     (let upd = map_option (\<lambda>p. p\<lparr>ps_candidates := cands, ps_device_id := device_id\<rparr>)
      in if holds conn_id (se_a s) then s\<lparr>se_a := upd (se_a s)\<rparr>
         else if holds conn_id (se_b s) then s\<lparr>se_b := upd (se_b s)\<rparr>
         else s)"

definition other_slot :: "nat \<Rightarrow> punch_session \<Rightarrow> peer_slot option" where
  "other_slot conn_id s =
     (if holds conn_id (se_a s) then se_b s
      else if holds conn_id (se_b s) then se_a s
      else None)"

definition remove_conn :: "nat \<Rightarrow> punch_session \<Rightarrow> punch_session" where
  "remove_conn conn_id s =
     (if holds conn_id (se_a s) then s\<lparr>se_a := None\<rparr>
      else if holds conn_id (se_b s) then s\<lparr>se_b := None\<rparr>
      else s)"

section \<open>Rate limits\<close>

definition last_stamp :: "instant list \<Rightarrow> instant option" where
  "last_stamp q = (if q = [] then None else Some (last q))"

text \<open>The two halves of \<open>allow_rate\<close> have the same body over different tables.\<close>

definition rate_window :: "duration \<Rightarrow> nat \<Rightarrow> instant \<Rightarrow> 'k \<Rightarrow> ('k, instant list) hmap \<Rightarrow>
    bool \<times> ('k, instant list) hmap" where
  "rate_window window limit now k m =
     (let m' = (if \<not> hm_has m k \<and> MAX_RENDEZVOUS_RATE_KEYS \<le> length m
                then (case min_by_key (\<lambda>(_, v). last_stamp v) m of
                        Some kv \<Rightarrow> hm_del (fst kv) m | None \<Rightarrow> m)
                else m);
          w = filter (\<lambda>t. now - t < window) (hm_or_insert [] m' k)
      in if limit \<le> length w then (False, hm_put k w m') else (True, hm_put k (w @ [now]) m'))"

definition ip_key :: "socket_addr \<Rightarrow> ip_addr" where
  "ip_key peer = bucket_key (canonical_ip (sa_ip peer))"

definition allow_rate :: "instant \<Rightarrow> string \<Rightarrow> socket_addr \<Rightarrow> rendezvous \<Rightarrow>
    bool \<times> rendezvous \<times> audit_event list" where
  "allow_rate now device_id peer rv =
     (case rate_window DEFAULT_PUNCH_RATE_WINDOW DEFAULT_PUNCH_RATE_LIMIT now device_id (rv_rate rv) of
        (False, m) \<Rightarrow> (False, rv\<lparr>rv_rate := m\<rparr>, [RateLimited peer (''punch rate limit: '' @ device_id)])
      | (True, m) \<Rightarrow>
          (case rate_window DEFAULT_IP_RATE_WINDOW DEFAULT_IP_RATE_LIMIT now (ip_key peer) (rv_ip_rate rv) of
             (False, m') \<Rightarrow> (False, rv\<lparr>rv_rate := m, rv_ip_rate := m'\<rparr>, [RateLimited peer ''punch IP rate limit''])
           | (True, m') \<Rightarrow> (True, rv\<lparr>rv_rate := m, rv_ip_rate := m'\<rparr>, [])))"

section \<open>Registration of candidates\<close>

datatype session_outcome =
    ThirdPeer punch_session
  | Joined punch_session
  | Exchange punch_session peer_slot peer_slot

text \<open>
  What a registration does to its session: refresh the connection's own slot, or take a free
  one, or be turned away; then count the version, and exchange when both sides are newer than
  the last exchange.
\<close>

definition both_fresh :: "punch_session \<Rightarrow> bool" where
  "both_fresh s = (se_a s \<noteq> None \<and> se_b s \<noteq> None \<and>
     se_forwarded_version s < se_a_version s \<and> se_forwarded_version s < se_b_version s)"

definition bump_version :: "nat \<Rightarrow> punch_session \<Rightarrow> punch_session" where
  "bump_version conn_id s =
     (if holds conn_id (se_a s) then s\<lparr>se_a_version := se_a_version s + 1\<rparr>
      else if holds conn_id (se_b s) then s\<lparr>se_b_version := se_b_version s + 1\<rparr>
      else s)"

definition take_slot :: "peer_slot \<Rightarrow> punch_session \<Rightarrow> punch_session option" where
  "take_slot p s =
     (if holds (ps_conn_id p) (se_a s) \<or> holds (ps_conn_id p) (se_b s)
        then Some (refresh_slot (ps_conn_id p) (ps_device_id p) (ps_candidates p) s)
      else if se_a s = None then Some (s\<lparr>se_a := Some p\<rparr>)
      else if se_b s = None then Some (s\<lparr>se_b := Some p\<rparr>)
      else None)"

definition session_register :: "instant \<Rightarrow> peer_slot \<Rightarrow> punch_session \<Rightarrow> session_outcome" where
  "session_register now p s0 =
     (let s = s0\<lparr>se_last_activity := now\<rparr>
      in case take_slot p s of
           None \<Rightarrow> ThirdPeer s
         | Some s' \<Rightarrow>
             (let s'' = bump_version (ps_conn_id p) s'
              in case (se_a s'', se_b s'') of
                   (Some a, Some b) \<Rightarrow>
                     if both_fresh s''
                     then Exchange (s''\<lparr>se_forwarded_version := max (se_a_version s'') (se_b_version s'')\<rparr>) a b
                     else Joined s''
                 | _ \<Rightarrow> Joined s''))"

definition debug_hex :: "bytes \<Rightarrow> string" where
  "debug_hex sid = ''['' @ join '', '' (map hex_byte sid) @ '']''"

definition observed_udp :: "socket_addr \<Rightarrow> candidate" where
  "observed_udp peer = \<lparr>cand_addr = peer, cand_kind = Udp, cand_priority = OBSERVED_PRIORITY\<rparr>"

text \<open>The session table makes room for a new session by dropping the least active one.\<close>

definition make_room :: "bytes \<Rightarrow> (bytes, punch_session) hmap \<Rightarrow> (bytes, punch_session) hmap" where
  "make_room sid m =
     (if \<not> hm_has m sid \<and> MAX_RENDEZVOUS_SESSIONS \<le> length m
      then (case min_by_key (\<lambda>(_, s). se_last_activity s) m of
              Some kv \<Rightarrow> hm_del (fst kv) m | None \<Rightarrow> m)
      else m)"

definition send_candidates :: "(peer_candidates \<Rightarrow> string + bytes) \<Rightarrow> bytes \<Rightarrow> nat \<Rightarrow> candidate list \<Rightarrow>
    chan_store \<Rightarrow> chan_store" where
  "send_candidates ser sid tx cands chans =
     (case ser \<lparr>pc_session_id = sid, pc_candidates = cands\<rparr> of
        Inr payload \<Rightarrow> chan_send_ignore tx (wrap_frame TYPE_PEER_CANDIDATES payload) chans
      | Inl _ \<Rightarrow> chans)"

definition register_session :: "(peer_candidates \<Rightarrow> string + bytes) \<Rightarrow> instant \<Rightarrow> bytes \<Rightarrow> peer_slot \<Rightarrow>
    socket_addr \<Rightarrow> rendezvous \<Rightarrow> chan_store \<Rightarrow> rendezvous \<times> chan_store \<times> audit_event list" where
  "register_session ser now sid p peer rv chans =
     (let sessions = make_room sid (rv_sessions rv)
      in case session_register now p (hm_or_insert (session_default now) sessions sid) of
           ThirdPeer s \<Rightarrow>
             (rv\<lparr>rv_sessions := hm_put sid s sessions\<rparr>, chans, [PunchUnknownSession peer (debug_hex sid)])
         | Joined s \<Rightarrow>
             (rv\<lparr>rv_sessions := hm_put sid s sessions,
                 rv_conn_session := hm_put (ps_conn_id p) sid (rv_conn_session rv)\<rparr>, chans,
              [PunchCandidateRegistered peer (ps_device_id p)])
         | Exchange s a b \<Rightarrow>
             (rv\<lparr>rv_sessions := hm_put sid s sessions,
                 rv_conn_session := hm_put (ps_conn_id p) sid (rv_conn_session rv)\<rparr>,
              send_candidates ser sid (ps_tx b) (ps_candidates a)
                (send_candidates ser sid (ps_tx a) (ps_candidates b) chans),
              [PunchCandidateRegistered peer (ps_device_id p), PunchForwarded peer (ps_device_id p)]))"

definition store_device_candidates :: "string \<Rightarrow> candidate list \<Rightarrow> rendezvous \<Rightarrow> rendezvous" where
  "store_device_candidates device_id cands rv =
     (let dc = rv_device_candidates rv;
          dc' = (if \<not> hm_has dc device_id \<and> MAX_RENDEZVOUS_DEVICE_CANDIDATES \<le> length dc
                 then (case dc of kv # _ \<Rightarrow> hm_del (fst kv) dc | [] \<Rightarrow> dc) else dc)
      in rv\<lparr>rv_device_candidates := hm_put device_id cands dc'\<rparr>)"

definition on_candidate_register :: "(peer_candidates \<Rightarrow> string + bytes) \<Rightarrow> instant \<Rightarrow> nat \<Rightarrow> socket_addr \<Rightarrow>
    candidate_register \<Rightarrow> nat \<Rightarrow> rendezvous \<Rightarrow> chan_store \<Rightarrow> rendezvous \<times> chan_store \<times> audit_event list" where
  "on_candidate_register ser now conn_id peer msg tx rv chans =
     (if \<not> validate_device_id (cr_device_id msg) then (rv, chans, [RateLimited peer ''invalid device_id''])
      else if MAX_CANDIDATES < length (cr_candidates msg)
        then (rv, chans, [RateLimited peer ''candidate overflow''])
      else case allow_rate now (cr_device_id msg) peer rv of
        (False, rv', audits) \<Rightarrow> (rv', chans, audits)
      | (True, rv', _) \<Rightarrow>
          (let candidates = observed_udp peer # cr_candidates msg
           in case cr_session_id msg of
                Some sid \<Rightarrow>
                  register_session ser now sid
                    \<lparr>ps_conn_id = conn_id, ps_device_id = cr_device_id msg, ps_candidates = candidates, ps_tx = tx\<rparr>
                    peer rv' chans
              | None \<Rightarrow> (store_device_candidates (cr_device_id msg) candidates rv', chans, [])))"

section \<open>Relaying and dispatch\<close>

definition forward_to_other :: "instant \<Rightarrow> nat \<Rightarrow> socket_addr \<Rightarrow> u8 \<Rightarrow> bytes \<Rightarrow>
    rendezvous \<Rightarrow> chan_store \<Rightarrow> rendezvous \<times> chan_store \<times> audit_event list" where
  "forward_to_other now conn_id peer ty payload rv chans =
     (case hm_get (rv_conn_session rv) conn_id of
        None \<Rightarrow> (rv, chans, [PunchUnknownSession peer ''unregistered-conn''])
      | Some sid \<Rightarrow>
          (case hm_get (rv_sessions rv) sid of
             None \<Rightarrow> (rv, chans, [PunchUnknownSession peer (debug_hex sid)])
           | Some s \<Rightarrow>
               (let rv' = rv\<lparr>rv_sessions := hm_put sid (s\<lparr>se_last_activity := now\<rparr>) (rv_sessions rv)\<rparr>
                in case other_slot conn_id s of
                     None \<Rightarrow> (rv', chans, [])
                   | Some other \<Rightarrow> (rv', chan_send_ignore (ps_tx other) (wrap_frame ty payload) chans, []))))"

record rv_codec =
  de_register :: "bytes \<Rightarrow> string + candidate_register"
  de_punch_result :: "bytes \<Rightarrow> string + punch_result"
  de_path_probe :: "bytes \<Rightarrow> string + path_probe"
  de_path_probe_ack :: "bytes \<Rightarrow> string + path_probe"
  ser_peers :: "peer_candidates \<Rightarrow> string + bytes"

definition is_inr :: "'a + 'b \<Rightarrow> bool" where
  "is_inr x = (case x of Inr _ \<Rightarrow> True | Inl _ \<Rightarrow> False)"

definition dispatch :: "rv_codec \<Rightarrow> (u8 \<Rightarrow> bytes \<Rightarrow> socket_addr \<Rightarrow> nat \<Rightarrow> bytes option) option \<Rightarrow> instant \<Rightarrow>
    nat \<Rightarrow> socket_addr \<Rightarrow> u8 \<Rightarrow> bytes \<Rightarrow> nat \<Rightarrow> rendezvous \<Rightarrow> chan_store \<Rightarrow>
    bool \<times> rendezvous \<times> chan_store \<times> audit_event list" where
  "dispatch codec extension now conn_id peer ty payload tx rv chans =
     (if ty = TYPE_CANDIDATE_REGISTER then
        (case decode_extension (de_register codec) TYPE_CANDIDATE_REGISTER payload TYPE_CANDIDATE_REGISTER of
           Inl _ \<Rightarrow> (False, rv, chans, [])
         | Inr msg \<Rightarrow> (True, on_candidate_register (ser_peers codec) now conn_id peer msg tx rv chans))
      else if ty = TYPE_PUNCH_RESULT then
        (case decode_extension (de_punch_result codec) TYPE_PUNCH_RESULT payload TYPE_PUNCH_RESULT of
           Inl _ \<Rightarrow> (False, rv, chans, [])
         | Inr msg \<Rightarrow>
             (case forward_to_other now conn_id peer TYPE_PUNCH_RESULT payload rv chans of
                (rv', chans', audits) \<Rightarrow>
                  (True, rv', chans', audits @ [PunchForwarded peer
                     (''session '' @ debug_hex (pr_session_id msg) @ '' result='' @
                      (if pr_ok msg then ''ok'' else ''failed''))])))
      else if ty = TYPE_PATH_PROBE \<or> ty = TYPE_PATH_PROBE_ACK then
        (let ok = (if ty = TYPE_PATH_PROBE
                   then is_inr (decode_extension (de_path_probe codec) TYPE_PATH_PROBE payload TYPE_PATH_PROBE)
                   else is_inr (decode_extension (de_path_probe_ack codec) TYPE_PATH_PROBE_ACK payload TYPE_PATH_PROBE_ACK))
         in if \<not> ok then (False, rv, chans, [])
            else (True, forward_to_other now conn_id peer ty payload rv chans))
      else (case extension of
              Some on_frame \<Rightarrow>
                (case on_frame ty payload peer conn_id of
                   Some reply \<Rightarrow> (True, rv, chan_send_ignore tx (wrap_frame ty reply) chans, [])
                 | None \<Rightarrow> (False, rv, chans, []))
            | None \<Rightarrow> (False, rv, chans, [])))"

section \<open>Connections\<close>

definition cleanup_conn :: "nat \<Rightarrow> rendezvous \<Rightarrow> rendezvous" where
  "cleanup_conn conn_id rv =
     (let rv' = rv\<lparr>rv_conn_session := hm_del conn_id (rv_conn_session rv)\<rparr>
      in case hm_get (rv_conn_session rv) conn_id of
           None \<Rightarrow> rv'
         | Some sid \<Rightarrow>
             (case hm_get (rv_sessions rv) sid of
                None \<Rightarrow> rv'
              | Some s \<Rightarrow>
                  (let s' = remove_conn conn_id s
                   in rv'\<lparr>rv_sessions := (if se_a s' = None \<and> se_b s' = None
                        then hm_del sid (rv_sessions rv) else hm_put sid s' (rv_sessions rv))\<rparr>)))"

definition alloc_conn_id :: "rendezvous \<Rightarrow> nat \<times> rendezvous" where
  "alloc_conn_id rv = (rv_next_conn_id rv, rv\<lparr>rv_next_conn_id := rv_next_conn_id rv + 1\<rparr>)"

text \<open>The accept branch of \<open>serve\<close> up to the spawned task's allocation of its number, and the task's end.\<close>

definition accept_conn :: "rendezvous \<Rightarrow> nat option \<times> rendezvous" where
  "accept_conn rv =
     (let prev = rv_active_conns rv; rv' = rv\<lparr>rv_active_conns := prev + 1\<rparr>
      in if MAX_RENDEZVOUS_CONNS \<le> prev then (None, rv'\<lparr>rv_active_conns := rv_active_conns rv' - 1\<rparr>)
         else (case alloc_conn_id rv' of (conn_id, rv'') \<Rightarrow> (Some conn_id, rv'')))"

definition close_conn :: "nat \<Rightarrow> rendezvous \<Rightarrow> rendezvous" where
  "close_conn conn_id rv =
     (let rv' = cleanup_conn conn_id rv in rv'\<lparr>rv_active_conns := rv_active_conns rv' - 1\<rparr>)"

section \<open>The rate limits are sliding windows\<close>

text \<open>
  A table whose keys lie in a set \<open>K\<close> of at most \<open>MAX_RENDEZVOUS_RATE_KEYS\<close> elements never
  evicts; as for the relay's limiter, \<open>K\<close> is part of the interpretation.
\<close>

definition rate_cap :: "'k set \<Rightarrow> 'k set" where
  "rate_cap K = (if finite K \<and> card K \<le> MAX_RENDEZVOUS_RATE_KEYS then K else {})"

definition rate_within :: "'k set \<Rightarrow> ('k, instant list) hmap \<Rightarrow> bool" where
  "rate_within K m \<longleftrightarrow> hm_ok m \<and> fst ` set m \<subseteq> rate_cap K"

definition rate_stamps :: "'k \<Rightarrow> ('k, instant list) hmap \<Rightarrow> instant list" where
  "rate_stamps k m = hm_or_insert [] m k"

lemma rate_stamps_put [simp]: "rate_stamps k (hm_put k' q m) = (if k = k' then q else rate_stamps k m)"
  by (simp add: rate_stamps_def hm_or_insert_def)

lemma rate_window_within:
  assumes m: "rate_within K m" and k: "k \<in> rate_cap K"
  shows "rate_window window limit now k m =
    (let w = filter (\<lambda>t. now - t < window) (rate_stamps k m)
     in if limit \<le> length w then (False, hm_put k w m) else (True, hm_put k (w @ [now]) m))"
proof -
  have fin: "finite (rate_cap K)" "card (rate_cap K) \<le> MAX_RENDEZVOUS_RATE_KEYS"
    by (simp_all add: rate_cap_def)
  have "\<not> (\<not> hm_has m k \<and> MAX_RENDEZVOUS_RATE_KEYS \<le> length m)"
  proof
    assume *: "\<not> hm_has m k \<and> MAX_RENDEZVOUS_RATE_KEYS \<le> length m"
    have "length (hm_put k [] m) \<le> card (rate_cap K)"
      using m k fin by (intro hm_keys_le) (auto simp: rate_within_def dom_update)
    with * fin(2) show False by (simp add: length_hm_put)
  qed
  then show ?thesis by (simp only: rate_window_def rate_stamps_def if_False Let_def)
qed

lemma rate_window_inv:
  "rate_within K m \<Longrightarrow> e \<in> rate_cap K \<Longrightarrow> rate_within K (snd (rate_window window limit now e m))"
  using rate_window_within [of K m e window limit now]
  by (auto simp: Let_def rate_within_def dom_update)

lemma rate_window_contract:
  assumes m: "rate_within K m" and e: "e \<in> rate_cap K"
    and srt: "sorted (rate_stamps k m)" and g: "rate_window window limit now e m = (ok, m')"
  shows "rate_within K m' \<and>
    (\<exists>j. rate_stamps k m' = drop j (rate_stamps k m) @ (if ok \<and> e = k then [now] else []) \<and>
      (\<forall>t\<in>set (take j (rate_stamps k m)). window \<le> now - t) \<and>
      (ok \<and> e = k \<longrightarrow> length (rate_stamps k m') \<le> limit))"
proof -
  let ?w = "filter (\<lambda>t. now - t < window) (rate_stamps e m)"
  have m': "m' = hm_put e (?w @ (if ok then [now] else [])) m" and ok: "ok \<longleftrightarrow> \<not> limit \<le> length ?w"
    using g rate_window_within [OF m e, of window limit now] by (auto simp: Let_def split: if_splits)
  have inv: "rate_within K m'" using m e by (auto simp: m' rate_within_def dom_update)
  show ?thesis
  proof (cases "e = k")
    case False
    then show ?thesis using inv by (auto simp: m' intro: exI [of _ 0])
  next
    case True
    have "filter (\<lambda>t. now - t < window) (rate_stamps k m) = dropWhile (\<lambda>t. \<not> now - t < window) (rate_stamps k m)"
      by (rule filter_sorted_as_dropWhile [OF srt]) simp
    moreover obtain j where "dropWhile (\<lambda>t. \<not> now - t < window) (rate_stamps k m) = drop j (rate_stamps k m)"
      "\<forall>t\<in>set (take j (rate_stamps k m)). \<not> now - t < window"
      using dropWhile_as_drop [of "\<lambda>t. \<not> now - t < window" "rate_stamps k m"] by blast
    ultimately show ?thesis
      using True inv ok by (intro conjI exI [of _ j]) (auto simp: m' not_less)
  qed
qed

text \<open>
  The two gates. The device limit lets a registration through or not; the address limit only
  sees what the device limit has let through, and decides.
\<close>

definition device_gate :: "string \<Rightarrow> instant \<Rightarrow> string \<times> socket_addr \<Rightarrow> rendezvous \<Rightarrow> bool \<times> rendezvous" where
  "device_gate k now e rv =
     (fst (rate_window DEFAULT_PUNCH_RATE_WINDOW DEFAULT_PUNCH_RATE_LIMIT now (fst e) (rv_rate rv)) \<and> fst e = k,
      fst (snd (allow_rate now (fst e) (snd e) rv)))"

definition ip_gate :: "ip_addr \<Rightarrow> instant \<Rightarrow> string \<times> socket_addr \<Rightarrow> rendezvous \<Rightarrow> bool \<times> rendezvous" where
  "ip_gate k now e rv =
     (fst (allow_rate now (fst e) (snd e) rv) \<and> ip_key (snd e) = k,
      fst (snd (allow_rate now (fst e) (snd e) rv)))"

lemma allow_rate_rate:
  "rv_rate (fst (snd (allow_rate now dev peer rv))) =
     snd (rate_window DEFAULT_PUNCH_RATE_WINDOW DEFAULT_PUNCH_RATE_LIMIT now dev (rv_rate rv))"
  by (auto simp: allow_rate_def split: prod.split bool.split)

lemma allow_rate_ip:
  "rv_ip_rate (fst (snd (allow_rate now dev peer rv))) =
     (if fst (rate_window DEFAULT_PUNCH_RATE_WINDOW DEFAULT_PUNCH_RATE_LIMIT now dev (rv_rate rv))
      then snd (rate_window DEFAULT_IP_RATE_WINDOW DEFAULT_IP_RATE_LIMIT now (ip_key peer) (rv_ip_rate rv))
      else rv_ip_rate rv)"
  by (auto simp: allow_rate_def split: prod.split bool.split)

lemma allow_rate_ok:
  "fst (allow_rate now dev peer rv) \<longleftrightarrow>
     fst (rate_window DEFAULT_PUNCH_RATE_WINDOW DEFAULT_PUNCH_RATE_LIMIT now dev (rv_rate rv)) \<and>
     fst (rate_window DEFAULT_IP_RATE_WINDOW DEFAULT_IP_RATE_LIMIT now (ip_key peer) (rv_ip_rate rv))"
  by (auto simp: allow_rate_def split: prod.split bool.split)

interpretation device_win: sliding_window "device_gate k" "\<lambda>rv. rate_stamps k (rv_rate rv)"
  DEFAULT_PUNCH_RATE_LIMIT "\<lambda>now t. DEFAULT_PUNCH_RATE_WINDOW \<le> now - t"
  "\<lambda>rv. rate_within K (rv_rate rv)" "\<lambda>e. fst e \<in> rate_cap K"
  for k K
proof unfold_locales
  fix now now' t :: nat
  show "now \<le> now' \<Longrightarrow> DEFAULT_PUNCH_RATE_WINDOW \<le> now - t \<Longrightarrow> DEFAULT_PUNCH_RATE_WINDOW \<le> now' - t" by simp
next
  fix rv e now ok rv'
  assume *: "rate_within K (rv_rate rv)" "fst e \<in> rate_cap K" "device_gate k now e rv = (ok, rv')"
  then show "rate_within K (rv_rate rv')"
    using rate_window_inv [OF *(1,2)] by (auto simp: device_gate_def allow_rate_rate)
next
  fix rv e now ok rv'
  assume *: "rate_within K (rv_rate rv)" "fst e \<in> rate_cap K" "device_gate k now e rv = (ok, rv')"
    "sorted (rate_stamps k (rv_rate rv))"
  obtain b m where b: "rate_window DEFAULT_PUNCH_RATE_WINDOW DEFAULT_PUNCH_RATE_LIMIT now (fst e) (rv_rate rv) = (b, m)"
    by force
  have "ok \<longleftrightarrow> b \<and> fst e = k" "rv_rate rv' = m"
    using *(3) b by (auto simp: device_gate_def allow_rate_rate)
  with rate_window_contract [OF *(1,2,4) b]
  show "\<exists>j. rate_stamps k (rv_rate rv') = drop j (rate_stamps k (rv_rate rv)) @ (if ok then [now] else []) \<and>
      (\<forall>t\<in>set (take j (rate_stamps k (rv_rate rv))). DEFAULT_PUNCH_RATE_WINDOW \<le> now - t) \<and>
      (ok \<longrightarrow> length (rate_stamps k (rv_rate rv')) \<le> DEFAULT_PUNCH_RATE_LIMIT)"
    by simp
qed

interpretation ip_win: sliding_window "ip_gate k" "\<lambda>rv. rate_stamps k (rv_ip_rate rv)"
  DEFAULT_IP_RATE_LIMIT "\<lambda>now t. DEFAULT_IP_RATE_WINDOW \<le> now - t"
  "\<lambda>rv. rate_within K (rv_ip_rate rv)" "\<lambda>e. ip_key (snd e) \<in> rate_cap K"
  for k K
proof unfold_locales
  fix now now' t :: nat
  show "now \<le> now' \<Longrightarrow> DEFAULT_IP_RATE_WINDOW \<le> now - t \<Longrightarrow> DEFAULT_IP_RATE_WINDOW \<le> now' - t" by simp
next
  fix rv e now ok rv'
  assume *: "rate_within K (rv_ip_rate rv)" "ip_key (snd e) \<in> rate_cap K" "ip_gate k now e rv = (ok, rv')"
  then show "rate_within K (rv_ip_rate rv')"
    using rate_window_inv [OF *(1,2)] by (auto simp: ip_gate_def allow_rate_ip split: if_splits)
next
  fix rv e now ok rv'
  assume *: "rate_within K (rv_ip_rate rv)" "ip_key (snd e) \<in> rate_cap K" "ip_gate k now e rv = (ok, rv')"
    "sorted (rate_stamps k (rv_ip_rate rv))"
  obtain b m where b: "rate_window DEFAULT_IP_RATE_WINDOW DEFAULT_IP_RATE_LIMIT now (ip_key (snd e)) (rv_ip_rate rv) = (b, m)"
    by force
  let ?d = "fst (rate_window DEFAULT_PUNCH_RATE_WINDOW DEFAULT_PUNCH_RATE_LIMIT now (fst e) (rv_rate rv))"
  have ok: "ok \<longleftrightarrow> ?d \<and> b \<and> ip_key (snd e) = k" "rv_ip_rate rv' = (if ?d then m else rv_ip_rate rv)"
    using *(3) b by (auto simp: ip_gate_def allow_rate_ip allow_rate_ok)
  show "\<exists>j. rate_stamps k (rv_ip_rate rv') = drop j (rate_stamps k (rv_ip_rate rv)) @ (if ok then [now] else []) \<and>
      (\<forall>t\<in>set (take j (rate_stamps k (rv_ip_rate rv))). DEFAULT_IP_RATE_WINDOW \<le> now - t) \<and>
      (ok \<longrightarrow> length (rate_stamps k (rv_ip_rate rv')) \<le> DEFAULT_IP_RATE_LIMIT)"
  proof (cases ?d)
    case True
    with ok rate_window_contract [OF *(1,2,4) b] show ?thesis by simp
  next
    case False
    with ok show ?thesis by (intro exI [of _ 0]) simp
  qed
qed

text \<open>
  Both limits of the rendezvous server. Over any sequence of candidate registrations in
  order of time, from at most 4096 device identifiers and 4096 subnets: of any eleven
  consecutive registrations of one device that pass its limit the first lies at least five
  seconds before the last, and of any thirty-one accepted from one subnet at least thirty
  seconds, however the sender rotates its device identifiers.
\<close>
theorem punch_windows:
  assumes "sorted (map fst es)"
    and "card (fst ` snd ` set es) \<le> MAX_RENDEZVOUS_RATE_KEYS"
    and "card ((\<lambda>e. ip_key (snd e)) ` snd ` set es) \<le> MAX_RENDEZVOUS_RATE_KEYS"
  shows "(i + 10 < length (admissions (device_gate d) rendezvous_new es) \<longrightarrow>
      secs 5 \<le> admissions (device_gate d) rendezvous_new es ! (i + 10) - admissions (device_gate d) rendezvous_new es ! i) \<and>
    (i + 30 < length (admissions (ip_gate k) rendezvous_new es) \<longrightarrow>
      secs 30 \<le> admissions (ip_gate k) rendezvous_new es ! (i + 30) - admissions (ip_gate k) rendezvous_new es ! i)"
proof -
  let ?D = "fst ` snd ` set es" and ?I = "(\<lambda>e. ip_key (snd e)) ` snd ` set es"
  have "rate_cap ?D = ?D" "rate_cap ?I = ?I" using assms(2,3) by (simp_all add: rate_cap_def)
  then have d: "\<forall>e\<in>snd ` set es. fst e \<in> rate_cap ?D" and i: "\<forall>e\<in>snd ` set es. ip_key (snd e) \<in> rate_cap ?I"
    by auto
  have new: "rate_within K (rv_rate rendezvous_new)" "rate_within K' (rv_ip_rate rendezvous_new)"
    "rate_stamps d (rv_rate rendezvous_new) = []" "rate_stamps k (rv_ip_rate rendezvous_new) = []" for K K'
    by (simp_all add: rate_within_def rendezvous_new_def rate_stamps_def hm_or_insert_def)
  show ?thesis
    using device_win.admissions_spaced [OF assms(1) d new(1,3), of i]
      ip_win.admissions_spaced [OF assms(1) i new(2,4), of i]
    by (simp add: DEFAULT_PUNCH_RATE_LIMIT_def DEFAULT_PUNCH_RATE_WINDOW_def DEFAULT_IP_RATE_LIMIT_def
        DEFAULT_IP_RATE_WINDOW_def)
qed

definition demo_peer :: socket_addr where
  "demo_peer = SocketAddr (V4 10 0 0 9) 4000"

definition demo_rates :: "nat \<Rightarrow> rendezvous" where
  "demo_rates n = rendezvous_new\<lparr>rv_rate := [(''d'', replicate n 0)],
     rv_ip_rate := [(V4 10 0 0 0, replicate n 0)]\<rparr>"

lemma demo_ip_key: "ip_key demo_peer = V4 10 0 0 0"
  by (simp add: ip_key_def demo_peer_def)

lemma demo_device_gate:
  "device_gate ''d'' 0 (''d'', demo_peer) rendezvous_new = (True, demo_rates 1)"
  "n < 10 \<Longrightarrow> device_gate ''d'' 0 (''d'', demo_peer) (demo_rates n) = (True, demo_rates (Suc n))"
  "fst (device_gate ''d'' DEFAULT_PUNCH_RATE_WINDOW (''d'', demo_peer) (demo_rates 10)) = True"
  by (simp_all add: device_gate_def allow_rate_def rate_window_def demo_ip_key demo_rates_def rendezvous_new_def
      hm_or_insert_def hm_has_def DEFAULT_PUNCH_RATE_LIMIT_def DEFAULT_IP_RATE_LIMIT_def
      DEFAULT_IP_RATE_WINDOW_def DEFAULT_PUNCH_RATE_WINDOW_def secs_def MAX_RENDEZVOUS_RATE_KEYS_def
      Let_def replicate_append_same)

definition demo_registrations :: "(instant \<times> string \<times> socket_addr) list" where
  "demo_registrations =
     (let e = (''d'', demo_peer)
      in [(0, e), (0, e), (0, e), (0, e), (0, e), (0, e), (0, e), (0, e), (0, e), (0, e),
          (DEFAULT_PUNCH_RATE_WINDOW, e)])"

lemma demo_registrations_admitted:
  "admissions (device_gate ''d'') rendezvous_new demo_registrations =
     [0, 0, 0, 0, 0, 0, 0, 0, 0, 0, DEFAULT_PUNCH_RATE_WINDOW]"
proof -
  obtain rv where "device_gate ''d'' DEFAULT_PUNCH_RATE_WINDOW (''d'', demo_peer) (demo_rates 10) = (True, rv)"
    using demo_device_gate(3) by (metis prod.collapse)
  then show ?thesis
    by (simp add: demo_registrations_def demo_device_gate(1,2) eval_nat_numeral Let_def)
qed

theorem punch_windows_witness:
  "secs 5 \<le> admissions (device_gate ''d'') rendezvous_new demo_registrations ! (0 + 10)
     - admissions (device_gate ''d'') rendezvous_new demo_registrations ! 0"
proof -
  have "sorted (map fst demo_registrations)" "snd ` set demo_registrations = {(''d'', demo_peer)}"
    by (auto simp: demo_registrations_def Let_def)
  then show ?thesis
    using punch_windows [of demo_registrations 0 "''d''"]
    by (simp add: demo_registrations_admitted MAX_RENDEZVOUS_RATE_KEYS_def)
qed

section \<open>Runs\<close>

text \<open>
  A run of the server: frames arrive on any connection number, connections are accepted,
  dropped at the cap, closed; the main server allots numbers to its sessions and removes them.
\<close>

datatype rv_event =
    RvFrame nat socket_addr u8 bytes nat
  | RvAccepted nat
  | RvDropped
  | RvAllotted nat
  | RvClosed nat
  | RvRemoved nat

inductive rv_step ::
    "rv_codec \<Rightarrow> (u8 \<Rightarrow> bytes \<Rightarrow> socket_addr \<Rightarrow> nat \<Rightarrow> bytes option) option \<Rightarrow>
     rendezvous \<times> chan_store \<Rightarrow> rv_event \<Rightarrow> rendezvous \<times> chan_store \<Rightarrow> bool"
  for codec ext where
  rv_frame:
    "dispatch codec ext now conn peer ty payload tx rv chans = (keep, rv', chans', audits) \<Longrightarrow>
     rv_step codec ext (rv, chans) (RvFrame conn peer ty payload tx) (rv', chans')"
| rv_accept:
    "accept_conn rv = (Some conn, rv') \<Longrightarrow> rv_step codec ext (rv, chans) (RvAccepted conn) (rv', chans)"
| rv_drop:
    "accept_conn rv = (None, rv') \<Longrightarrow> rv_step codec ext (rv, chans) RvDropped (rv', chans)"
| rv_allot:
    "alloc_conn_id rv = (conn, rv') \<Longrightarrow> rv_step codec ext (rv, chans) (RvAllotted conn) (rv', chans)"
| rv_close: "rv_step codec ext (rv, chans) (RvClosed conn) (close_conn conn rv, chans)"
| rv_remove: "rv_step codec ext (rv, chans) (RvRemoved conn) (cleanup_conn conn rv, chans)"

inductive_cases rv_step_frameE: "rv_step codec ext s (RvFrame conn peer ty payload tx) s'"

inductive rv_run ::
    "rv_codec \<Rightarrow> (u8 \<Rightarrow> bytes \<Rightarrow> socket_addr \<Rightarrow> nat \<Rightarrow> bytes option) option \<Rightarrow>
     rendezvous \<times> chan_store \<Rightarrow> rv_event list \<Rightarrow> rendezvous \<times> chan_store \<Rightarrow> bool"
  for codec ext where
  rv_run_nil: "rv_run codec ext s [] s"
| rv_run_snoc: "rv_run codec ext s evs s' \<Longrightarrow> rv_step codec ext s' ev s'' \<Longrightarrow> rv_run codec ext s (evs @ [ev]) s''"

subsection \<open>The sessions\<close>

definition session_ok :: "punch_session \<Rightarrow> bool" where
  "session_ok s \<longleftrightarrow>
     (se_a s \<noteq> None \<or> se_b s \<noteq> None) \<and>
     (\<forall>a b. se_a s = Some a \<and> se_b s = Some b \<longrightarrow> ps_conn_id a \<noteq> ps_conn_id b) \<and>
     \<not> both_fresh s"

lemma holds_simps [simp]: "holds c None = False" "holds c (Some p) = (ps_conn_id p = c)"
  by (simp_all add: holds_def)

lemma holds_map [simp]:
  "(\<And>q. ps_conn_id (f q) = ps_conn_id q) \<Longrightarrow> holds c (map_option f slot) = holds c slot"
  by (cases slot) simp_all

lemma session_ok_activity [simp]: "session_ok (s\<lparr>se_last_activity := now\<rparr>) = session_ok s"
  by (simp add: session_ok_def both_fresh_def)

lemma take_slot_ids:
  assumes "take_slot p s = Some s'"
    and "\<forall>a b. se_a s = Some a \<and> se_b s = Some b \<longrightarrow> ps_conn_id a \<noteq> ps_conn_id b"
  shows "(holds (ps_conn_id p) (se_a s') \<or> holds (ps_conn_id p) (se_b s')) \<and>
    (\<forall>a b. se_a s' = Some a \<and> se_b s' = Some b \<longrightarrow> ps_conn_id a \<noteq> ps_conn_id b)"
  using assms by (auto simp: take_slot_def refresh_slot_def Let_def split: if_splits option.splits)

lemma bump_version_slots [simp]:
  "se_a (bump_version c s) = se_a s" "se_b (bump_version c s) = se_b s"
  "se_forwarded_version (bump_version c s) = se_forwarded_version s"
  by (simp_all add: bump_version_def)

lemma session_register_ok:
  assumes "session_ok s \<or> s = session_default t"
  shows "case session_register now p s of
      ThirdPeer s' \<Rightarrow> session_ok s'
    | Joined s' \<Rightarrow> session_ok s'
    | Exchange s' a b \<Rightarrow> session_ok s' \<and> se_a s' = Some a \<and> se_b s' = Some b"
proof -
  let ?s = "s\<lparr>se_last_activity := now\<rparr>"
  have ids: "\<forall>a b. se_a ?s = Some a \<and> se_b ?s = Some b \<longrightarrow> ps_conn_id a \<noteq> ps_conn_id b"
    using assms by (auto simp: session_ok_def session_default_def)
  show ?thesis
  proof (cases "take_slot p ?s")
    case None
    then have "se_a s \<noteq> None" by (auto simp: take_slot_def split: if_splits)
    with None assms show ?thesis
      by (auto simp: session_register_def session_default_def)
  next
    case (Some s')
    from take_slot_ids [OF Some ids]
    have present: "se_a s' \<noteq> None \<or> se_b s' \<noteq> None"
      and ids': "\<forall>a b. se_a s' = Some a \<and> se_b s' = Some b \<longrightarrow> ps_conn_id a \<noteq> ps_conn_id b" by auto
    show ?thesis
      using Some present ids'
      by (auto simp: session_register_def Let_def session_ok_def both_fresh_def split: option.splits)
  qed
qed

definition rv_ok :: "rendezvous \<Rightarrow> bool" where
  "rv_ok rv \<longleftrightarrow>
     hm_ok (rv_sessions rv) \<and> length (rv_sessions rv) \<le> MAX_RENDEZVOUS_SESSIONS \<and>
     (\<forall>sid s. hm_get (rv_sessions rv) sid = Some s \<longrightarrow> session_ok s) \<and>
     hm_ok (rv_conn_session rv) \<and>
     hm_ok (rv_device_candidates rv) \<and> length (rv_device_candidates rv) \<le> MAX_RENDEZVOUS_DEVICE_CANDIDATES \<and>
     hm_ok (rv_rate rv) \<and> length (rv_rate rv) \<le> MAX_RENDEZVOUS_RATE_KEYS \<and>
     hm_ok (rv_ip_rate rv) \<and> length (rv_ip_rate rv) \<le> MAX_RENDEZVOUS_RATE_KEYS \<and>
     rv_active_conns rv \<le> MAX_RENDEZVOUS_CONNS"

text \<open>Inserting after making room keeps the cap.\<close>

lemma put_after_room:
  assumes ok: "hm_ok m" "length m \<le> cap" "0 < cap"
    and pick: "\<And>kv. pick = Some kv \<Longrightarrow> kv \<in> set m" "m \<noteq> [] \<Longrightarrow> pick \<noteq> None"
    and m': "m' = (if \<not> hm_has m k \<and> cap \<le> length m
      then (case pick of Some kv \<Rightarrow> hm_del (fst kv) m | None \<Rightarrow> m) else m)"
  shows "hm_ok m' \<and> length (hm_put k v m') \<le> cap"
proof (cases "\<not> hm_has m k \<and> cap \<le> length m")
  case True
  with ok(3) have "m \<noteq> []" by auto
  then obtain kv where kv: "pick = Some kv" "kv \<in> set m" using pick by (cases pick) auto
  have "length (hm_del (fst kv) m) < length m" using kv(2) by (intro length_hm_del_less) auto
  moreover have "hm_ok (hm_del (fst kv) m)" using ok(1) by simp
  moreover have "length (hm_put k v (hm_del (fst kv) m)) \<le> Suc (length (hm_del (fst kv) m))"
    by (simp add: length_hm_put)
  ultimately show ?thesis using True kv(1) ok(2) m' by simp
next
  case False
  then have "m' = m" using m' by auto
  then show ?thesis using False ok by (auto simp: length_hm_put)
qed

lemma rate_window_caps [inv_intros]:
  assumes "hm_ok m" and "length m \<le> MAX_RENDEZVOUS_RATE_KEYS"
  shows "hm_ok (snd (rate_window window limit now k m)) \<and>
    length (snd (rate_window window limit now k m)) \<le> MAX_RENDEZVOUS_RATE_KEYS"
proof -
  have "hm_ok m' \<and> length (hm_put k v m') \<le> MAX_RENDEZVOUS_RATE_KEYS"
    if "m' = (if \<not> hm_has m k \<and> MAX_RENDEZVOUS_RATE_KEYS \<le> length m
      then (case min_by_key (\<lambda>(_, v). last_stamp v) m of Some kv \<Rightarrow> hm_del (fst kv) m | None \<Rightarrow> m)
      else m)" for m' v
    by (rule put_after_room [OF assms _ _ _ that]) (auto simp: MAX_RENDEZVOUS_RATE_KEYS_def dest: min_by_key_mem)
  then show ?thesis by (simp add: rate_window_def Let_def)
qed

lemma allow_rate_frame [frame_simps]:
  "rv_sessions (fst (snd (allow_rate now dev peer rv))) = rv_sessions rv"
  "rv_conn_session (fst (snd (allow_rate now dev peer rv))) = rv_conn_session rv"
  "rv_device_candidates (fst (snd (allow_rate now dev peer rv))) = rv_device_candidates rv"
  "rv_active_conns (fst (snd (allow_rate now dev peer rv))) = rv_active_conns rv"
  by (simp_all add: allow_rate_def split: prod.split bool.split)

lemma allow_rate_rv_ok [inv_intros]: "rv_ok rv \<Longrightarrow> rv_ok (fst (snd (allow_rate now dev peer rv)))"
  using rate_window_caps [of "rv_rate rv"] rate_window_caps [of "rv_ip_rate rv"]
  by (simp add: rv_ok_def allow_rate_frame allow_rate_rate allow_rate_ip)

lemma make_room_props:
  assumes "hm_ok m" and "length m \<le> MAX_RENDEZVOUS_SESSIONS"
  shows "hm_ok (make_room sid m) \<and> length (hm_put sid s (make_room sid m)) \<le> MAX_RENDEZVOUS_SESSIONS"
  by (rule put_after_room [OF assms _ _ _ make_room_def])
     (auto simp: MAX_RENDEZVOUS_SESSIONS_def dest: min_by_key_mem)

lemma make_room_get: "hm_get (make_room sid m) k = Some s \<Longrightarrow> hm_get m k = Some s"
  by (auto simp: make_room_def split: if_splits option.splits)

lemma register_session_rv_ok [inv_intros]:
  assumes "rv_ok rv"
  shows "rv_ok (fst (register_session ser now sid p peer rv chans))"
proof -
  let ?m = "make_room sid (rv_sessions rv)"
  have "session_ok (hm_or_insert (session_default now) ?m sid) \<or>
      hm_or_insert (session_default now) ?m sid = session_default now"
    using assms make_room_get [of sid "rv_sessions rv" sid]
    by (auto simp: hm_or_insert_def rv_ok_def split: option.split)
  note ok = session_register_ok [OF this, of now p]
  have room: "hm_ok ?m" "length (hm_put sid s ?m) \<le> MAX_RENDEZVOUS_SESSIONS" for s
    using make_room_props [of "rv_sessions rv" sid s] assms by (simp_all add: rv_ok_def)
  have kept: "\<forall>k s. hm_get ?m k = Some s \<longrightarrow> session_ok s"
    using assms make_room_get unfolding rv_ok_def by blast
  have put: "rv_ok (rv\<lparr>rv_sessions := hm_put sid s ?m\<rparr>)"
    "rv_ok (rv\<lparr>rv_sessions := hm_put sid s ?m, rv_conn_session := hm_put c sid (rv_conn_session rv)\<rparr>)"
    if "session_ok s" for s c
    using assms room that kept by (simp_all add: rv_ok_def)
  show ?thesis
    using ok put by (auto simp: register_session_def Let_def split: session_outcome.split)
qed

lemma store_device_candidates_rv_ok [inv_intros]:
  assumes "rv_ok rv"
  shows "rv_ok (store_device_candidates dev cands rv)"
proof -
  let ?dc = "rv_device_candidates rv"
  let ?pick = "case ?dc of kv # _ \<Rightarrow> Some kv | [] \<Rightarrow> None"
  let ?dc' = "if \<not> hm_has ?dc dev \<and> MAX_RENDEZVOUS_DEVICE_CANDIDATES \<le> length ?dc
     then (case ?pick of Some kv \<Rightarrow> hm_del (fst kv) ?dc | None \<Rightarrow> ?dc) else ?dc"
  have "hm_ok ?dc' \<and> length (hm_put dev cands ?dc') \<le> MAX_RENDEZVOUS_DEVICE_CANDIDATES"
    by (rule put_after_room [OF _ _ _ _ _ refl])
       (use assms in \<open>auto simp: rv_ok_def MAX_RENDEZVOUS_DEVICE_CANDIDATES_def split: list.splits\<close>)
  moreover have "store_device_candidates dev cands rv = rv\<lparr>rv_device_candidates := hm_put dev cands ?dc'\<rparr>"
    by (simp add: store_device_candidates_def Let_def split: list.split)
  ultimately show ?thesis using assms by (simp add: rv_ok_def)
qed

lemma on_candidate_register_rv_ok [inv_intros]:
  assumes "rv_ok rv"
  shows "rv_ok (fst (on_candidate_register ser now conn peer msg tx rv chans))"
proof -
  have "rv_ok (fst (snd (allow_rate now (cr_device_id msg) peer rv)))"
    by (rule allow_rate_rv_ok [OF assms])
  then show ?thesis
    using assms by (auto simp: on_candidate_register_def Let_def register_session_rv_ok
        store_device_candidates_rv_ok split: prod.split bool.split option.split)
qed

lemma forward_to_other_rv_ok [inv_intros]:
  "rv_ok rv \<Longrightarrow> rv_ok (fst (forward_to_other now conn peer ty payload rv chans))"
  by (auto simp: forward_to_other_def Let_def rv_ok_def length_hm_put hm_has_def split: option.split)

lemma decode_extension_Inr: "decode_extension de t payload t = Inr m \<longleftrightarrow> de payload = Inr m"
  by (simp add: decode_extension_def split: sum.split)

text \<open>The four ways a frame is handled.\<close>

lemma dispatch_cases:
  assumes "dispatch codec ext now conn peer ty payload tx rv chans = (keep, rv', chans', audits)"
  obtains (ignored) "rv' = rv" "chans' = chans"
  | (registered) msg where "ty = TYPE_CANDIDATE_REGISTER" "de_register codec payload = Inr msg"
      "on_candidate_register (ser_peers codec) now conn peer msg tx rv chans = (rv', chans', audits)"
  | (relayed) audits' where "ty \<in> {TYPE_PUNCH_RESULT, TYPE_PATH_PROBE, TYPE_PATH_PROBE_ACK}"
      "forward_to_other now conn peer ty payload rv chans = (rv', chans', audits')"
  | (replied) on_frame reply where "ext = Some on_frame" "on_frame ty payload peer conn = Some reply"
      "rv' = rv" "chans' = chan_send_ignore tx (wrap_frame ty reply) chans"
proof (cases "ty = TYPE_CANDIDATE_REGISTER")
  case True
  with assms that(1,2) show thesis
    by (auto simp: dispatch_def decode_extension_Inr split: sum.splits)
next
  case reg: False
  show thesis
  proof (cases "ty = TYPE_PUNCH_RESULT")
    case True
    with reg assms that(1,3) show thesis
      by (auto simp: dispatch_def split: sum.splits prod.splits)
  next
    case punch: False
    show thesis
    proof (cases "ty = TYPE_PATH_PROBE \<or> ty = TYPE_PATH_PROBE_ACK")
      case True
      with reg punch assms that(1,3) show thesis
        by (simp add: dispatch_def Let_def split: if_splits)
    next
      case False
      with reg punch assms that(1,4) show thesis
        by (auto simp: dispatch_def split: option.splits)
    qed
  qed
qed

lemma dispatch_rv_ok [inv_intros]:
  assumes "rv_ok rv"
  shows "rv_ok (fst (snd (dispatch codec ext now conn peer ty payload tx rv chans)))"
proof -
  obtain keep rv' chans' audits
    where d: "dispatch codec ext now conn peer ty payload tx rv chans = (keep, rv', chans', audits)"
    by (metis prod.collapse)
  then have "rv_ok rv'"
  proof (cases rule: dispatch_cases)
    case (registered msg)
    with on_candidate_register_rv_ok [OF assms, of "ser_peers codec" now conn peer msg tx chans]
    show ?thesis by simp
  next
    case (relayed audits')
    with forward_to_other_rv_ok [OF assms, of now conn peer ty payload chans] show ?thesis by simp
  qed (use assms in simp_all)
  with d show ?thesis by simp
qed

lemma remove_conn_ok: "session_ok s \<Longrightarrow> se_a (remove_conn c s) \<noteq> None \<or> se_b (remove_conn c s) \<noteq> None \<Longrightarrow>
   session_ok (remove_conn c s)"
  by (auto simp: remove_conn_def session_ok_def both_fresh_def)

lemma cleanup_conn_rv_ok [inv_intros]:
  assumes "rv_ok rv"
  shows "rv_ok (cleanup_conn conn rv)"
proof (cases "hm_get (rv_conn_session rv) conn")
  case None
  with assms show ?thesis by (simp add: cleanup_conn_def Let_def rv_ok_def)
next
  case (Some sid)
  show ?thesis
  proof (cases "hm_get (rv_sessions rv) sid")
    case None
    with Some assms show ?thesis by (simp add: cleanup_conn_def Let_def rv_ok_def)
  next
    case (Some s)
    note sess = this
    have s: "session_ok s" using assms sess by (simp add: rv_ok_def)
    show ?thesis
    proof (cases "se_a (remove_conn conn s) = None \<and> se_b (remove_conn conn s) = None")
      case True
      then show ?thesis
        using assms sess \<open>hm_get (rv_conn_session rv) conn = Some sid\<close> length_hm_del_le [of sid "rv_sessions rv"]
        by (auto simp: cleanup_conn_def Let_def rv_ok_def split: if_splits)
    next
      case False
      then show ?thesis
        using assms sess \<open>hm_get (rv_conn_session rv) conn = Some sid\<close> remove_conn_ok [OF s, of conn]
          length_hm_del_le [of sid "rv_sessions rv"]
        by (auto simp: cleanup_conn_def Let_def rv_ok_def length_hm_put hm_has_def)
    qed
  qed
qed

lemma close_conn_rv_ok [inv_intros]: "rv_ok rv \<Longrightarrow> rv_ok (close_conn conn rv)"
  using cleanup_conn_rv_ok [of rv conn] by (auto simp: close_conn_def Let_def rv_ok_def)

lemma accept_conn_rv_ok [inv_intros]: "rv_ok rv \<Longrightarrow> rv_ok (snd (accept_conn rv))"
  by (auto simp: accept_conn_def alloc_conn_id_def Let_def rv_ok_def)

lemma alloc_conn_id_rv_ok [inv_intros]: "rv_ok rv \<Longrightarrow> rv_ok (snd (alloc_conn_id rv))"
  by (simp add: alloc_conn_id_def rv_ok_def)

lemma rv_step_ok: "rv_step codec ext s ev s' \<Longrightarrow> rv_ok (fst s) \<Longrightarrow> rv_ok (fst s')"
proof (induction rule: rv_step.induct)
  case (rv_frame now conn peer ty payload tx rv chans keep rv' chans' audits)
  then show ?case using dispatch_rv_ok [of rv codec ext now conn peer ty payload tx chans] by simp
next
  case (rv_accept rv conn rv' chans)
  then show ?case using accept_conn_rv_ok [of rv] by simp
next
  case (rv_drop rv rv' chans)
  then show ?case using accept_conn_rv_ok [of rv] by simp
next
  case (rv_allot rv conn rv' chans)
  then show ?case using alloc_conn_id_rv_ok [of rv] by simp
qed (simp_all add: close_conn_rv_ok cleanup_conn_rv_ok)

lemma rendezvous_new_ok: "rv_ok rendezvous_new"
  by (simp add: rv_ok_def rendezvous_new_def)

lemma rv_run_ok:
  "rv_run codec ext s evs s' \<Longrightarrow> rv_ok (fst s) \<Longrightarrow> rv_ok (fst s')"
  by (induction rule: rv_run.induct) (auto intro: rv_step_ok)

text \<open>
  C18. The server's tables. In every run, whatever frames arrive, there are at most 8192
  sessions, 4096 stored device lists, 4096 keys in each rate table and 1024 connections; every
  session has one or two peers, on different connections, and is not due for an exchange.
\<close>
theorem rendezvous_invariant:
  assumes "rv_run codec ext (rendezvous_new, chans) evs (rv, chans')"
  shows "length (rv_sessions rv) \<le> 8192 \<and> length (rv_device_candidates rv) \<le> 4096 \<and>
    length (rv_rate rv) \<le> 4096 \<and> length (rv_ip_rate rv) \<le> 4096 \<and> rv_active_conns rv \<le> 1024 \<and>
    (\<forall>sid s. hm_get (rv_sessions rv) sid = Some s \<longrightarrow> session_ok s)"
  using rv_run_ok [OF assms] rendezvous_new_ok
  by (simp add: rv_ok_def MAX_RENDEZVOUS_SESSIONS_def MAX_RENDEZVOUS_DEVICE_CANDIDATES_def
      MAX_RENDEZVOUS_RATE_KEYS_def MAX_RENDEZVOUS_CONNS_def)

subsection \<open>What the server sends\<close>

text \<open>
  Every frame the server sends comes from a frame it received: a \<open>PeerCandidates\<close> message holds
  the candidates of one registration with the address the server observed in front, a relayed
  frame is the received one, and everything else is an extension's reply.
\<close>

definition registered_candidates :: "rv_codec \<Rightarrow> rv_event list \<Rightarrow> bytes \<Rightarrow> nat \<Rightarrow> candidate list \<Rightarrow> bool" where
  "registered_candidates codec evs sid conn cands \<longleftrightarrow>
     (\<exists>peer payload tx msg. RvFrame conn peer TYPE_CANDIDATE_REGISTER payload tx \<in> set evs \<and>
        de_register codec payload = Inr msg \<and> cr_session_id msg = Some sid \<and>
        length (cr_candidates msg) \<le> 16 \<and> cands = observed_udp peer # cr_candidates msg)"

inductive frame_explained :: "rv_codec \<Rightarrow> (u8 \<Rightarrow> bytes \<Rightarrow> socket_addr \<Rightarrow> nat \<Rightarrow> bytes option) option \<Rightarrow>
    rv_event list \<Rightarrow> bytes \<Rightarrow> bool"
  for codec ext evs where
  explained_candidates:
    "registered_candidates codec evs sid conn cands \<Longrightarrow>
     ser_peers codec \<lparr>pc_session_id = sid, pc_candidates = cands\<rparr> = Inr payload \<Longrightarrow>
     frame_explained codec ext evs (wrap_frame TYPE_PEER_CANDIDATES payload)"
| explained_relayed:
    "RvFrame conn peer ty payload tx \<in> set evs \<Longrightarrow>
     ty \<in> {TYPE_PUNCH_RESULT, TYPE_PATH_PROBE, TYPE_PATH_PROBE_ACK} \<Longrightarrow>
     frame_explained codec ext evs (wrap_frame ty payload)"
| explained_reply:
    "RvFrame conn peer ty payload tx \<in> set evs \<Longrightarrow> ext = Some on_frame \<Longrightarrow>
     on_frame ty payload peer conn = Some reply \<Longrightarrow> frame_explained codec ext evs (wrap_frame ty reply)"

definition slots_explained :: "rv_codec \<Rightarrow> rv_event list \<Rightarrow> rendezvous \<Rightarrow> bool" where
  "slots_explained codec evs rv \<longleftrightarrow>
     (\<forall>sid s p. hm_get (rv_sessions rv) sid = Some s \<and> (se_a s = Some p \<or> se_b s = Some p) \<longrightarrow>
        registered_candidates codec evs sid (ps_conn_id p) (ps_candidates p))"

definition queues_explained :: "rv_codec \<Rightarrow> (u8 \<Rightarrow> bytes \<Rightarrow> socket_addr \<Rightarrow> nat \<Rightarrow> bytes option) option \<Rightarrow>
    chan_store \<Rightarrow> rv_event list \<Rightarrow> chan_store \<Rightarrow> bool" where
  "queues_explained codec ext chans0 evs chans \<longleftrightarrow>
     (\<forall>t f. f \<in> set (chan_queue t chans) \<longrightarrow> f \<in> set (chan_queue t chans0) \<or> frame_explained codec ext evs f)"

lemma registered_candidates_more:
  "registered_candidates codec evs sid conn cands \<Longrightarrow> set evs \<subseteq> set evs' \<Longrightarrow>
   registered_candidates codec evs' sid conn cands"
  unfolding registered_candidates_def by blast

lemma slots_explained_more: "slots_explained codec evs rv \<Longrightarrow> set evs \<subseteq> set evs' \<Longrightarrow> slots_explained codec evs' rv"
  unfolding slots_explained_def by (blast intro: registered_candidates_more)

lemma frame_explained_more:
  "frame_explained codec ext evs f \<Longrightarrow> set evs \<subseteq> set evs' \<Longrightarrow> frame_explained codec ext evs' f"
  by (induction rule: frame_explained.induct)
     (blast intro: frame_explained.intros registered_candidates_more)+

lemma queues_explained_more:
  "queues_explained codec ext c0 evs chans \<Longrightarrow> set evs \<subseteq> set evs' \<Longrightarrow> queues_explained codec ext c0 evs' chans"
  unfolding queues_explained_def by (blast intro: frame_explained_more)

lemma queues_explained_send:
  "queues_explained codec ext c0 evs chans \<Longrightarrow> frame_explained codec ext evs f \<Longrightarrow>
   queues_explained codec ext c0 evs (chan_send_ignore tx f chans)"
  by (auto simp: queues_explained_def chan_send_ignore_queue split: if_splits)

lemma queues_explained_candidates:
  "queues_explained codec ext c0 evs chans \<Longrightarrow> registered_candidates codec evs sid conn cands \<Longrightarrow>
   queues_explained codec ext c0 evs (send_candidates (ser_peers codec) sid tx cands chans)"
  unfolding send_candidates_def
  by (auto split: sum.split intro!: queues_explained_send explained_candidates)

text \<open>What a registration does to the two slots: one of them holds it, the other is untouched.\<close>

lemma session_register_slots:
  assumes "(case session_register now p s of ThirdPeer s' \<Rightarrow> s' | Joined s' \<Rightarrow> s' | Exchange s' _ _ \<Rightarrow> s') = s'"
    and "se_a s' = Some q \<or> se_b s' = Some q"
  shows "se_a s = Some q \<or> se_b s = Some q \<or>
    ps_conn_id q = ps_conn_id p \<and> ps_candidates q = ps_candidates p \<and>
      (\<forall>s''. session_register now p s \<noteq> ThirdPeer s'')"
  using assms
  by (auto simp: session_register_def take_slot_def refresh_slot_def Let_def holds_def
      split: if_splits option.splits)

lemma register_session_slots:
  assumes "register_session ser now sid p peer rv chans = (rv', chans', audits)"
    and "slots_explained codec evs rv" and "registered_candidates codec evs sid (ps_conn_id p) (ps_candidates p)"
  shows "slots_explained codec evs rv'"
proof -
  let ?m = "make_room sid (rv_sessions rv)"
  let ?s = "hm_or_insert (session_default now) ?m sid"
  let ?s' = "case session_register now p ?s of ThirdPeer s' \<Rightarrow> s' | Joined s' \<Rightarrow> s' | Exchange s' _ _ \<Rightarrow> s'"
  have sess: "rv_sessions rv' = hm_put sid ?s' ?m"
    using assms(1) by (auto simp: register_session_def Let_def split: session_outcome.splits)
  have old: "registered_candidates codec evs sid (ps_conn_id q) (ps_candidates q)"
    if "se_a ?s = Some q \<or> se_b ?s = Some q" for q
    using that assms(2) make_room_get [of sid "rv_sessions rv" sid]
    by (auto simp: hm_or_insert_def session_default_def slots_explained_def split: option.splits)
  show ?thesis
    unfolding slots_explained_def sess
  proof (intro allI impI)
    fix k s q
    assume a: "hm_get (hm_put sid ?s' ?m) k = Some s \<and> (se_a s = Some q \<or> se_b s = Some q)"
    show "registered_candidates codec evs k (ps_conn_id q) (ps_candidates q)"
    proof (cases "k = sid")
      case True
      with a have "se_a ?s' = Some q \<or> se_b ?s' = Some q" by auto
      from session_register_slots [OF refl this] old [of q] assms(3) True show ?thesis by auto
    next
      case False
      with a assms(2) make_room_get [of sid "rv_sessions rv" k s] show ?thesis
        by (auto simp: slots_explained_def)
    qed
  qed
qed

lemma register_session_queues:
  assumes "register_session (ser_peers codec) now sid p peer rv chans = (rv', chans', audits)"
    and "slots_explained codec evs rv'" and "queues_explained codec ext c0 evs chans"
    and "rv_ok rv"
  shows "queues_explained codec ext c0 evs chans'"
proof -
  let ?m = "make_room sid (rv_sessions rv)"
  let ?s = "hm_or_insert (session_default now) ?m sid"
  show ?thesis
  proof (cases "session_register now p ?s")
    case (Exchange s a b)
    have "session_ok ?s \<or> ?s = session_default now"
      using assms(4) make_room_get [of sid "rv_sessions rv" sid]
      by (auto simp: hm_or_insert_def rv_ok_def split: option.split)
    from session_register_ok [OF this, of now p] Exchange have "se_a s = Some a" "se_b s = Some b" by auto
    moreover have "hm_get (rv_sessions rv') sid = Some s"
      using assms(1) Exchange by (auto simp: register_session_def Let_def)
    ultimately have "registered_candidates codec evs sid (ps_conn_id a) (ps_candidates a)"
      "registered_candidates codec evs sid (ps_conn_id b) (ps_candidates b)"
      using assms(2) unfolding slots_explained_def by blast+
    with assms(1,3) Exchange show ?thesis
      by (auto simp: register_session_def Let_def intro!: queues_explained_candidates)
  qed (use assms in \<open>auto simp: register_session_def Let_def\<close>)
qed

lemma slots_explained_sessions:
  "rv_sessions rv' = rv_sessions rv \<Longrightarrow> slots_explained codec evs rv' = slots_explained codec evs rv"
  by (simp add: slots_explained_def)

lemma register_explained:
  assumes "on_candidate_register (ser_peers codec) now conn peer msg tx rv chans = (rv', chans', audits)"
    and "RvFrame conn peer TYPE_CANDIDATE_REGISTER payload tx \<in> set evs" and "de_register codec payload = Inr msg"
    and "slots_explained codec evs rv" and "queues_explained codec ext c0 evs chans" and "rv_ok rv"
  shows "slots_explained codec evs rv' \<and> queues_explained codec ext c0 evs chans'"
proof -
  obtain ok rv1 au where a: "allow_rate now (cr_device_id msg) peer rv = (ok, rv1, au)"
    by (metis prod.collapse)
  have rv1: "rv_sessions rv1 = rv_sessions rv" "rv_ok rv1"
    using allow_rate_frame(1) [of now "cr_device_id msg" peer rv] allow_rate_rv_ok [OF assms(6), of now "cr_device_id msg" peer] a
    by simp_all
  have sl: "slots_explained codec evs rv1" using assms(4) slots_explained_sessions [OF rv1(1)] by simp
  show ?thesis
  proof (cases "validate_device_id (cr_device_id msg) \<and> length (cr_candidates msg) \<le> MAX_CANDIDATES \<and> ok")
    case False
    then have "(rv' = rv \<or> rv' = rv1) \<and> chans' = chans"
      using assms(1) a by (auto simp: on_candidate_register_def split: if_splits)
    then show ?thesis using assms(4,5) sl by auto
  next
    case True
    show ?thesis
    proof (cases "cr_session_id msg")
      case None
      then have "rv' = store_device_candidates (cr_device_id msg) (observed_udp peer # cr_candidates msg) rv1"
        "chans' = chans"
        using assms(1) a True by (auto simp: on_candidate_register_def)
      then show ?thesis
        using sl assms(5) by (simp add: store_device_candidates_def Let_def slots_explained_def)
    next
      case (Some sid)
      let ?p = "\<lparr>ps_conn_id = conn, ps_device_id = cr_device_id msg,
        ps_candidates = observed_udp peer # cr_candidates msg, ps_tx = tx\<rparr>"
      have r: "register_session (ser_peers codec) now sid ?p peer rv1 chans = (rv', chans', audits)"
        using assms(1) a True Some by (simp add: on_candidate_register_def)
      have "registered_candidates codec evs sid conn (observed_udp peer # cr_candidates msg)"
        using assms(2,3) Some True by (auto simp: registered_candidates_def MAX_CANDIDATES_def)
      then have "slots_explained codec evs rv'"
        using register_session_slots [OF r sl] by simp
      with register_session_queues [OF r _ assms(5) rv1(2)] show ?thesis by simp
    qed
  qed
qed

lemma slots_explainedD:
  "slots_explained codec evs rv \<Longrightarrow> hm_get (rv_sessions rv) sid = Some s \<Longrightarrow> se_a s = Some p \<or> se_b s = Some p \<Longrightarrow>
   registered_candidates codec evs sid (ps_conn_id p) (ps_candidates p)"
  unfolding slots_explained_def by blast

text \<open>Replacing a session by one whose slots it already had, or dropping it.\<close>

lemma slots_explained_put:
  assumes "slots_explained codec evs rv" and "hm_get (rv_sessions rv) sid = Some s"
    and "rv_sessions rv' = hm_put sid s' (rv_sessions rv)"
    and "\<And>p. se_a s' = Some p \<or> se_b s' = Some p \<Longrightarrow> se_a s = Some p \<or> se_b s = Some p"
  shows "slots_explained codec evs rv'"
  unfolding slots_explained_def assms(3)
proof (intro allI impI)
  fix k q p
  assume "hm_get (hm_put sid s' (rv_sessions rv)) k = Some q \<and> (se_a q = Some p \<or> se_b q = Some p)"
  then show "registered_candidates codec evs k (ps_conn_id p) (ps_candidates p)"
    using slots_explainedD [OF assms(1)] assms(2,4) by (cases "k = sid") auto
qed

lemma slots_explained_del:
  "slots_explained codec evs rv \<Longrightarrow> rv_sessions rv' = hm_del sid (rv_sessions rv) \<Longrightarrow> slots_explained codec evs rv'"
  by (auto simp: slots_explained_def split: if_splits)

lemma slots_explained_fields [simp]:
  "slots_explained codec evs (rv\<lparr>rv_active_conns := n\<rparr>) = slots_explained codec evs rv"
  "slots_explained codec evs (rv\<lparr>rv_next_conn_id := n\<rparr>) = slots_explained codec evs rv"
  by (simp_all add: slots_explained_def)

lemma forward_to_other_cases:
  assumes "forward_to_other now conn peer ty payload rv chans = (rv', chans', audits)"
  obtains (unknown) "rv' = rv" "chans' = chans"
  | (session) sid s where "hm_get (rv_conn_session rv) conn = Some sid" "hm_get (rv_sessions rv) sid = Some s"
      "rv' = rv\<lparr>rv_sessions := hm_put sid (s\<lparr>se_last_activity := now\<rparr>) (rv_sessions rv)\<rparr>"
      "chans' = (case other_slot conn s of None \<Rightarrow> chans
         | Some other \<Rightarrow> chan_send_ignore (ps_tx other) (wrap_frame ty payload) chans)"
proof (cases "hm_get (rv_conn_session rv) conn")
  case None
  with assms unknown show thesis by (simp add: forward_to_other_def)
next
  case sid: (Some sid)
  show thesis
  proof (cases "hm_get (rv_sessions rv) sid")
    case None
    with assms sid unknown show thesis by (simp add: forward_to_other_def)
  next
    case (Some s)
    have "rv' = rv\<lparr>rv_sessions := hm_put sid (s\<lparr>se_last_activity := now\<rparr>) (rv_sessions rv)\<rparr>"
      "chans' = (case other_slot conn s of None \<Rightarrow> chans
         | Some other \<Rightarrow> chan_send_ignore (ps_tx other) (wrap_frame ty payload) chans)"
      using assms sid Some by (auto simp: forward_to_other_def Let_def split: option.splits)
    with session [OF sid Some] show thesis by blast
  qed
qed

lemma forward_explained:
  assumes "forward_to_other now conn peer ty payload rv chans = (rv', chans', audits)"
    and "RvFrame conn peer ty payload tx \<in> set evs" and "ty \<in> {TYPE_PUNCH_RESULT, TYPE_PATH_PROBE, TYPE_PATH_PROBE_ACK}"
    and "slots_explained codec evs rv" and "queues_explained codec ext c0 evs chans"
  shows "slots_explained codec evs rv' \<and> queues_explained codec ext c0 evs chans'"
  using assms(1)
proof (cases rule: forward_to_other_cases)
  case (session sid s)
  have "slots_explained codec evs rv'"
    by (rule slots_explained_put [OF assms(4) session(2), where s' = "s\<lparr>se_last_activity := now\<rparr>"])
       (auto simp: session(3))
  moreover have "queues_explained codec ext c0 evs chans'"
    using queues_explained_send [OF assms(5) explained_relayed [OF assms(2,3)]] assms(5)
    by (simp add: session(4) split: option.split)
  ultimately show ?thesis ..
qed (use assms(4,5) in simp)

lemma cleanup_explained: "slots_explained codec evs rv \<Longrightarrow> slots_explained codec evs (cleanup_conn conn rv)"
proof -
  assume sl: "slots_explained codec evs rv"
  show ?thesis
  proof (cases "\<exists>sid s. hm_get (rv_conn_session rv) conn = Some sid \<and> hm_get (rv_sessions rv) sid = Some s")
    case True
    then obtain sid s where "hm_get (rv_conn_session rv) conn = Some sid" and s: "hm_get (rv_sessions rv) sid = Some s"
      by blast
    then have eq: "rv_sessions (cleanup_conn conn rv) =
        (if se_a (remove_conn conn s) = None \<and> se_b (remove_conn conn s) = None
         then hm_del sid (rv_sessions rv) else hm_put sid (remove_conn conn s) (rv_sessions rv))"
      by (simp add: cleanup_conn_def Let_def)
    show ?thesis
    proof (cases "se_a (remove_conn conn s) = None \<and> se_b (remove_conn conn s) = None")
      case True
      with eq have "rv_sessions (cleanup_conn conn rv) = hm_del sid (rv_sessions rv)" by simp
      with sl show ?thesis by (rule slots_explained_del)
    next
      case False
      with eq have "rv_sessions (cleanup_conn conn rv) = hm_put sid (remove_conn conn s) (rv_sessions rv)" by simp
      with sl s show ?thesis
        by (rule slots_explained_put) (auto simp: remove_conn_def split: if_splits)
    qed
  next
    case False
    then have "rv_sessions (cleanup_conn conn rv) = rv_sessions rv"
      by (auto simp: cleanup_conn_def Let_def split: option.splits)
    with sl show ?thesis using slots_explained_sessions by blast
  qed
qed

lemma rv_run_explained:
  "rv_run codec ext s evs s' \<Longrightarrow> s = (rendezvous_new, c0) \<Longrightarrow>
   slots_explained codec evs (fst s') \<and> queues_explained codec ext c0 evs (snd s')"
proof (induction rule: rv_run.induct)
  case (rv_run_nil s)
  then show ?case by (simp add: slots_explained_def queues_explained_def rendezvous_new_def)
next
  case (rv_run_snoc s evs s' ev s'')
  let ?evs = "evs @ [ev]"
  have ih: "slots_explained codec ?evs (fst s')" "queues_explained codec ext c0 ?evs (snd s')"
    using rv_run_snoc.IH [OF rv_run_snoc.prems] slots_explained_more queues_explained_more
    by (metis set_append Un_upper1)+
  have ok: "rv_ok (fst s')" using rv_run_ok [OF rv_run_snoc.hyps(1)] rv_run_snoc.prems rendezvous_new_ok by simp
  from rv_run_snoc.hyps(2) show ?case
  proof (cases rule: rv_step.cases)
    case (rv_frame now conn peer ty payload tx rv chans keep rv' chans' audits)
    have ev: "RvFrame conn peer ty payload tx \<in> set ?evs" using rv_frame by simp
    from rv_frame(4) show ?thesis
    proof (cases rule: dispatch_cases)
      case (registered msg)
      with register_explained [OF registered(3), of payload ?evs ext c0] ev ih ok rv_frame show ?thesis by simp
    next
      case (relayed audits')
      with forward_explained [OF relayed(2) ev relayed(1)] ih rv_frame show ?thesis by simp
    next
      case (replied on_frame reply)
      with ih rv_frame explained_reply [OF ev replied(1,2)] show ?thesis by (simp add: queues_explained_send)
    qed (use ih rv_frame in simp)
  qed (use ih in \<open>auto simp: cleanup_explained close_conn_def accept_conn_def alloc_conn_id_def Let_def
        split: if_splits\<close>)
qed

text \<open>
  C17. The server only passes on. In every run, each frame waiting in any channel that was not
  there at the start is either a \<open>PeerCandidates\<close> message of a session with the unaltered
  candidates some connection registered for that session, headed by the address the server
  observed for it, or a punch result or path probe exactly as received, or an extension's reply.
\<close>
theorem server_only_forwards:
  assumes "rv_run codec ext (rendezvous_new, chans0) evs (rv, chans)"
    and "f \<in> set (chan_queue t chans)" and "f \<notin> set (chan_queue t chans0)"
  shows "frame_explained codec ext evs f"
  using rv_run_explained [OF assms(1) refl] assms(2,3) unfolding queues_explained_def by auto

subsection \<open>When candidates are exchanged\<close>

definition outcome_session :: "session_outcome \<Rightarrow> punch_session" where
  "outcome_session r = (case r of ThirdPeer s \<Rightarrow> s | Joined s \<Rightarrow> s | Exchange s _ _ \<Rightarrow> s)"

definition register_all :: "(instant \<times> peer_slot) list \<Rightarrow> punch_session \<Rightarrow> punch_session" where
  "register_all regs s = fold (\<lambda>(now, p) s. outcome_session (session_register now p s)) regs s"

text \<open>
  With both slots taken by \<open>a\<close> and \<open>b\<close>, a side newer than the last exchange has registered
  since: \<open>seen\<close> are the connections that registered since then.
\<close>

definition refreshed_by :: "nat \<Rightarrow> nat \<Rightarrow> nat set \<Rightarrow> punch_session \<Rightarrow> bool" where
  "refreshed_by a b seen s \<longleftrightarrow>
     holds a (se_a s) \<and> holds b (se_b s) \<and> a \<noteq> b \<and>
     (se_forwarded_version s < se_a_version s \<longrightarrow> a \<in> seen) \<and>
     (se_forwarded_version s < se_b_version s \<longrightarrow> b \<in> seen)"

lemma holds_Some: "holds c slot \<longleftrightarrow> (\<exists>p. slot = Some p \<and> ps_conn_id p = c)"
  by (simp add: holds_def split: option.split)

text \<open>A registration into a full session, in closed form.\<close>

lemma session_register_full:
  assumes "holds a (se_a s)" and "holds b (se_b s)" and "a \<noteq> b"
  shows "\<exists>sa sb. ps_conn_id sa = a \<and> ps_conn_id sb = b \<and>
    session_register now p s =
      (let s' = s\<lparr>se_last_activity := now, se_a := Some sa, se_b := Some sb,
                  se_a_version := se_a_version s + (if ps_conn_id p = a then 1 else 0),
                  se_b_version := se_b_version s + (if ps_conn_id p = b then 1 else 0)\<rparr>
       in if ps_conn_id p \<notin> {a, b} then ThirdPeer s'
          else if both_fresh s'
            then Exchange (s'\<lparr>se_forwarded_version := max (se_a_version s') (se_b_version s')\<rparr>) sa sb
            else Joined s')"
proof -
  obtain qa qb where q: "se_a s = Some qa" "se_b s = Some qb" "ps_conn_id qa = a" "ps_conn_id qb = b"
    using assms(1,2) by (auto simp: holds_Some)
  let ?upd = "\<lambda>q. if ps_conn_id p = ps_conn_id q
    then q\<lparr>ps_candidates := ps_candidates p, ps_device_id := ps_device_id p\<rparr> else q"
  show ?thesis
    using assms(3) q
    by (intro exI [of _ "?upd qa"] exI [of _ "?upd qb"])
       (cases s, auto simp: session_register_def take_slot_def refresh_slot_def bump_version_def Let_def)
qed

lemma refreshed_by_register:
  assumes "refreshed_by a b seen s"
  shows "refreshed_by a b (insert (ps_conn_id p) seen) (outcome_session (session_register now p s))"
proof -
  obtain sa sb where "ps_conn_id sa = a" "ps_conn_id sb = b" and r: "session_register now p s =
      (let s' = s\<lparr>se_last_activity := now, se_a := Some sa, se_b := Some sb,
                  se_a_version := se_a_version s + (if ps_conn_id p = a then 1 else 0),
                  se_b_version := se_b_version s + (if ps_conn_id p = b then 1 else 0)\<rparr>
       in if ps_conn_id p \<notin> {a, b} then ThirdPeer s'
          else if both_fresh s'
            then Exchange (s'\<lparr>se_forwarded_version := max (se_a_version s') (se_b_version s')\<rparr>) sa sb
            else Joined s')"
    using session_register_full [of a s b now p] assms by (auto simp: refreshed_by_def)
  then show ?thesis
    using assms by (auto simp: refreshed_by_def outcome_session_def Let_def)
qed

lemma refreshed_by_all:
  "refreshed_by a b seen s \<Longrightarrow> refreshed_by a b (seen \<union> ps_conn_id ` snd ` set regs) (register_all regs s)"
proof (induction regs arbitrary: s seen)
  case (Cons r regs)
  obtain now p where r: "r = (now, p)" by force
  have "refreshed_by a b (insert (ps_conn_id p) seen) (outcome_session (session_register now p s))"
    by (rule refreshed_by_register [OF Cons.prems])
  from Cons.IH [OF this] r show ?case by (simp add: register_all_def Un_insert_right insert_commute)
qed (simp add: register_all_def)

text \<open>
  Never a stale candidate. After an exchange between two peers of a session, whatever
  registrations follow in it, the next exchange only happens once both of these peers have
  registered again: candidates from before the last exchange are not sent a second time.
\<close>
theorem exchange_needs_both:
  assumes "session_ok s0" and "session_register now0 p0 s0 = Exchange s a b"
    and "session_register now p (register_all regs s) = Exchange s' a' b'"
  shows "{ps_conn_id a, ps_conn_id b} \<subseteq> insert (ps_conn_id p) (ps_conn_id ` snd ` set regs) \<and>
    ps_conn_id a' = ps_conn_id a \<and> ps_conn_id b' = ps_conn_id b"
proof -
  have s: "session_ok s" "se_a s = Some a" "se_b s = Some b"
    using session_register_ok [of s0 now0 now0 p0] assms(1,2) by auto
  moreover have "se_a_version s \<le> se_forwarded_version s" "se_b_version s \<le> se_forwarded_version s"
    using assms(2) by (auto simp: session_register_def Let_def split: option.splits if_splits)
  ultimately have "refreshed_by (ps_conn_id a) (ps_conn_id b) {} s"
    by (auto simp: refreshed_by_def session_ok_def)
  from refreshed_by_all [OF this, of regs]
  have r: "refreshed_by (ps_conn_id a) (ps_conn_id b) (ps_conn_id ` snd ` set regs) (register_all regs s)" by simp
  then obtain sa sb where ids: "ps_conn_id sa = ps_conn_id a" "ps_conn_id sb = ps_conn_id b"
    and eq: "session_register now p (register_all regs s) =
      (let t = register_all regs s;
           s' = t\<lparr>se_last_activity := now, se_a := Some sa, se_b := Some sb,
                  se_a_version := se_a_version t + (if ps_conn_id p = ps_conn_id a then 1 else 0),
                  se_b_version := se_b_version t + (if ps_conn_id p = ps_conn_id b then 1 else 0)\<rparr>
       in if ps_conn_id p \<notin> {ps_conn_id a, ps_conn_id b} then ThirdPeer s'
          else if both_fresh s'
            then Exchange (s'\<lparr>se_forwarded_version := max (se_a_version s') (se_b_version s')\<rparr>) sa sb
            else Joined s')"
    using session_register_full [of "ps_conn_id a" "register_all regs s" "ps_conn_id b" now p]
    by (auto simp: refreshed_by_def Let_def)
  from assms(3) eq r ids show ?thesis
    by (auto simp: refreshed_by_def both_fresh_def Let_def split: if_splits)
qed

text \<open>
  A side that lags stays behind. The exchange records the larger of the two versions, so
  once one peer has registered more often than the other, a round in which both register anew,
  in either order, is not answered with an exchange: the fresh candidates stay with the server
  until the lagging side has caught up.
\<close>
theorem lagging_side_blocked:
  assumes "holds a (se_a s)" and "holds b (se_b s)" and "a \<noteq> b"
    and "se_b_version s < se_forwarded_version s"
    and "ps_conn_id pa = a" and "ps_conn_id pb = b"
  shows "(\<exists>s1 s2. session_register now pa s = Joined s1 \<and> session_register now' pb s1 = Joined s2) \<and>
    (\<exists>s1 s2. session_register now pb s = Joined s1 \<and> session_register now' pa s1 = Joined s2)"
proof -
  have round: "\<exists>s1 s2. session_register now p s = Joined s1 \<and> session_register now' p' s1 = Joined s2"
    if "(ps_conn_id p, ps_conn_id p') \<in> {(a, b), (b, a)}" for p p'
  proof -
    have "\<exists>s1. session_register now p s = Joined s1 \<and> holds a (se_a s1) \<and> holds b (se_b s1) \<and>
        se_forwarded_version s1 = se_forwarded_version s \<and>
        se_b_version s1 = se_b_version s + (if ps_conn_id p = b then 1 else 0)"
      using session_register_full [OF assms(1-3), of now p] assms(3,4) that
      by (auto simp: Let_def both_fresh_def)
    then obtain s1 where s1: "session_register now p s = Joined s1" "holds a (se_a s1)" "holds b (se_b s1)"
      "se_forwarded_version s1 = se_forwarded_version s"
      "se_b_version s1 = se_b_version s + (if ps_conn_id p = b then 1 else 0)" by blast
    have "\<exists>s2. session_register now' p' s1 = Joined s2"
      using session_register_full [OF s1(2,3) assms(3), of now' p'] assms(3,4) s1(4,5) that
      by (auto simp: Let_def both_fresh_def)
    with s1(1) show ?thesis by blast
  qed
  show ?thesis using round [of pa pb] round [of pb pa] assms(5,6) by blast
qed

subsection \<open>Disconnection\<close>

definition has_slot :: "nat \<Rightarrow> bytes \<Rightarrow> rendezvous \<Rightarrow> bool" where
  "has_slot conn sid rv =
     (case hm_get (rv_sessions rv) sid of Some s \<Rightarrow> holds conn (se_a s) \<or> holds conn (se_b s) | None \<Rightarrow> False)"

text \<open>
  Disconnection. Cleaning up after a connection frees its slot in the session it last
  registered in, removes that session when it is left empty, and leaves every other slot and
  session alone. Hence a slot that the connection holds in an earlier session stays behind.
\<close>
theorem cleanup_exact:
  assumes "rv_ok rv"
  shows "(has_slot conn sid (cleanup_conn conn rv) \<longleftrightarrow>
      has_slot conn sid rv \<and> hm_get (rv_conn_session rv) conn \<noteq> Some sid) \<and>
    (other \<noteq> conn \<longrightarrow> has_slot other sid (cleanup_conn conn rv) = has_slot other sid rv) \<and>
    (\<forall>s. hm_get (rv_sessions (cleanup_conn conn rv)) sid = Some s \<longrightarrow> se_a s \<noteq> None \<or> se_b s \<noteq> None) \<and>
    hm_get (rv_conn_session (cleanup_conn conn rv)) conn = None"
proof (cases "\<exists>s. hm_get (rv_conn_session rv) conn = Some sid \<and> hm_get (rv_sessions rv) sid = Some s")
  case True
  then obtain s where s: "hm_get (rv_conn_session rv) conn = Some sid" "hm_get (rv_sessions rv) sid = Some s"
    by blast
  have ok: "session_ok s" using assms s(2) by (simp add: rv_ok_def)
  have get: "hm_get (rv_sessions (cleanup_conn conn rv)) sid =
      (if se_a (remove_conn conn s) = None \<and> se_b (remove_conn conn s) = None then None
       else Some (remove_conn conn s))"
    using s by (simp add: cleanup_conn_def Let_def)
  have gone: "hm_get (rv_conn_session (cleanup_conn conn rv)) conn = None"
    using s by (simp add: cleanup_conn_def Let_def)
  have "\<not> holds conn (se_a (remove_conn conn s))" "\<not> holds conn (se_b (remove_conn conn s))"
    using ok by (auto simp: remove_conn_def session_ok_def holds_Some)
  moreover have "(holds other (se_a (remove_conn conn s)) \<or> holds other (se_b (remove_conn conn s))) =
      (holds other (se_a s) \<or> holds other (se_b s))" if "other \<noteq> conn"
    using that by (auto simp: remove_conn_def holds_Some)
  ultimately show ?thesis
    using s get gone by (auto simp: has_slot_def split: if_splits)
next
  case False
  have "hm_get (rv_sessions (cleanup_conn conn rv)) sid = hm_get (rv_sessions rv) sid"
    using False by (auto simp: cleanup_conn_def Let_def split: option.splits)
  moreover have "hm_get (rv_conn_session (cleanup_conn conn rv)) conn = None"
    by (simp add: cleanup_conn_def Let_def split: option.split)
  ultimately show ?thesis
    using False assms by (auto simp: has_slot_def rv_ok_def session_ok_def split: option.splits)
qed

section \<open>Concrete runs\<close>

definition demo_codec :: rv_codec where
  "demo_codec =
     \<lparr>de_register = (\<lambda>pl. Inr \<lparr>cr_device_id = ''d'', cr_session_id = Some pl, cr_candidates = []\<rparr>),
      de_punch_result = (\<lambda>_. Inl []), de_path_probe = (\<lambda>_. Inl []), de_path_probe_ack = (\<lambda>_. Inl []),
      ser_peers = (\<lambda>m. Inr (pc_session_id m))\<rparr>"

definition demo_channels :: chan_store where
  "demo_channels = [(1, \<lparr>ch_open = True, ch_queue = []\<rparr>), (2, \<lparr>ch_open = True, ch_queue = []\<rparr>)]"

definition demo_join :: "nat \<Rightarrow> bytes \<Rightarrow> rendezvous \<times> chan_store \<Rightarrow> rendezvous \<times> chan_store" where
  "demo_join conn sid s =
     (case dispatch demo_codec None 0 conn demo_peer TYPE_CANDIDATE_REGISTER sid conn (fst s) (snd s) of
        (_, rv, chans, _) \<Rightarrow> (rv, chans))"

lemma demo_join_step:
  "rv_step demo_codec None s (RvFrame conn demo_peer TYPE_CANDIDATE_REGISTER sid conn) (demo_join conn sid s)"
proof -
  obtain keep rv chans audits
    where d: "dispatch demo_codec None 0 conn demo_peer TYPE_CANDIDATE_REGISTER sid conn (fst s) (snd s) =
      (keep, rv, chans, audits)" by (metis prod.collapse)
  show ?thesis using rv_frame [OF d] by (simp add: demo_join_def d)
qed

definition demo_slot :: "nat \<Rightarrow> peer_slot" where
  "demo_slot conn = \<lparr>ps_conn_id = conn, ps_device_id = ''d'', ps_candidates = [observed_udp demo_peer], ps_tx = conn\<rparr>"

lemma demo_join_eq:
  assumes "fst (allow_rate 0 ''d'' demo_peer (fst s))"
  shows "demo_join conn sid s =
    (let (rv, chans, _) = register_session (ser_peers demo_codec) 0 sid (demo_slot conn) demo_peer
       (fst (snd (allow_rate 0 ''d'' demo_peer (fst s)))) (snd s) in (rv, chans))"
  using assms
  by (auto simp: demo_join_def dispatch_def decode_extension_def demo_codec_def on_candidate_register_def
      demo_slot_def validate_device_id_def is_ascii_alphanumeric_def MAX_DEVICE_ID_LEN_def is_ascii_digit_def
      is_ascii_upper_def Let_def split: prod.splits bool.splits)

lemma demo_allow:
  "n < 10 \<Longrightarrow> 0 < n \<Longrightarrow> rv_rate rv = [(''d'', replicate n 0)] \<Longrightarrow> rv_ip_rate rv = [(V4 10 0 0 0, replicate n 0)] \<Longrightarrow>
   allow_rate 0 ''d'' demo_peer rv =
     (True, rv\<lparr>rv_rate := [(''d'', replicate (Suc n) 0)], rv_ip_rate := [(V4 10 0 0 0, replicate (Suc n) 0)]\<rparr>, [])"
  "allow_rate 0 ''d'' demo_peer rendezvous_new = (True, demo_rates 1, [])"
  by (simp_all add: allow_rate_def rate_window_def demo_ip_key demo_rates_def rendezvous_new_def
      hm_or_insert_def hm_has_def DEFAULT_PUNCH_RATE_LIMIT_def DEFAULT_IP_RATE_LIMIT_def
      DEFAULT_IP_RATE_WINDOW_def DEFAULT_PUNCH_RATE_WINDOW_def secs_def MAX_RENDEZVOUS_RATE_KEYS_def
      Let_def replicate_append_same)

definition demo_first :: "rendezvous \<times> chan_store" where
  "demo_first = ((demo_rates 1)\<lparr>
     rv_sessions := [([7], (session_default 0)\<lparr>se_a := Some (demo_slot 1), se_a_version := 1\<rparr>)],
     rv_conn_session := [(1, [7])]\<rparr>, demo_channels)"

lemma demo_first: "demo_join 1 [7] (rendezvous_new, demo_channels) = demo_first"
  by (simp add: demo_join_eq demo_allow(2) demo_first_def)
     (simp add: register_session_def session_register_def take_slot_def bump_version_def make_room_def
      demo_rates_def rendezvous_new_def hm_or_insert_def session_default_def hm_has_def demo_slot_def
      MAX_RENDEZVOUS_SESSIONS_def Let_def)

definition demo_frame :: bytes where
  "demo_frame = wrap_frame TYPE_PEER_CANDIDATES [7]"

lemma demo_second: "chan_queue 1 (snd (demo_join 2 [7] demo_first)) = [demo_frame]"
proof -
  have "allow_rate 0 ''d'' demo_peer (fst demo_first) =
     (True, (fst demo_first)\<lparr>rv_rate := [(''d'', [0, 0])], rv_ip_rate := [(V4 10 0 0 0, [0, 0])]\<rparr>, [])"
    using demo_allow(1) [of 1 "fst demo_first"] by (simp add: demo_first_def demo_rates_def)
  then show ?thesis
    by (simp add: demo_join_eq)
       (simp add: demo_first_def register_session_def session_register_def take_slot_def bump_version_def
        make_room_def demo_rates_def rendezvous_new_def hm_or_insert_def session_default_def hm_has_def
        demo_slot_def both_fresh_def send_candidates_def demo_codec_def chan_send_ignore_def chan_send_def
        chan_queue_def demo_channels_def demo_frame_def MAX_RENDEZVOUS_SESSIONS_def Let_def)
qed

lemma demo_rv_run:
  "rv_run demo_codec None (rendezvous_new, demo_channels)
     [RvFrame 1 demo_peer TYPE_CANDIDATE_REGISTER [7] 1, RvFrame 2 demo_peer TYPE_CANDIDATE_REGISTER [7] 2]
     (demo_join 2 [7] demo_first)"
  using rv_run_snoc [OF rv_run_snoc [OF rv_run_nil demo_join_step [of "(rendezvous_new, demo_channels)" 1 "[7]",
      unfolded demo_first]] demo_join_step]
  by simp

theorem rendezvous_invariant_witness: "length (rv_sessions (fst (demo_join 2 [7] demo_first))) \<le> 8192"
  using rendezvous_invariant [of demo_codec None demo_channels _ "fst (demo_join 2 [7] demo_first)"
      "snd (demo_join 2 [7] demo_first)", unfolded prod.collapse, OF demo_rv_run] by simp

theorem server_only_forwards_witness:
  "frame_explained demo_codec None
     [RvFrame 1 demo_peer TYPE_CANDIDATE_REGISTER [7] 1, RvFrame 2 demo_peer TYPE_CANDIDATE_REGISTER [7] 2] demo_frame"
proof (rule server_only_forwards [where t = 1])
  show "rv_run demo_codec None (rendezvous_new, demo_channels)
     [RvFrame 1 demo_peer TYPE_CANDIDATE_REGISTER [7] 1, RvFrame 2 demo_peer TYPE_CANDIDATE_REGISTER [7] 2]
     (fst (demo_join 2 [7] demo_first), snd (demo_join 2 [7] demo_first))"
    using demo_rv_run by simp
  show "demo_frame \<in> set (chan_queue 1 (snd (demo_join 2 [7] demo_first)))"
    unfolding demo_second by simp
  show "demo_frame \<notin> set (chan_queue 1 demo_channels)"
    by (simp add: demo_channels_def chan_queue_def)
qed

text \<open>One peer registers, then the other, then the first twice more and the other once more.\<close>

definition demo_full :: punch_session where
  "demo_full = (session_default 0)\<lparr>se_a := Some (demo_slot 1), se_b := Some (demo_slot 2),
     se_a_version := 1, se_b_version := 1, se_forwarded_version := 1\<rparr>"

definition demo_lagging :: punch_session where
  "demo_lagging = demo_full\<lparr>se_a_version := 3, se_b_version := 2, se_forwarded_version := 3\<rparr>"

lemmas demo_session_defs = demo_full_def demo_lagging_def session_register_def take_slot_def refresh_slot_def
  bump_version_def session_default_def demo_slot_def both_fresh_def register_all_def outcome_session_def
  session_ok_def

lemma demo_exchange:
  "session_register 0 (demo_slot 2) ((session_default 0)\<lparr>se_a := Some (demo_slot 1), se_a_version := 1\<rparr>) =
     Exchange demo_full (demo_slot 1) (demo_slot 2)"
  "session_register 0 (demo_slot 2) (register_all [(0, demo_slot 1), (0, demo_slot 1)] demo_full) =
     Exchange demo_lagging (demo_slot 1) (demo_slot 2)"
  by (simp_all add: demo_session_defs Let_def)

theorem exchange_needs_both_witness:
  "{ps_conn_id (demo_slot 1), ps_conn_id (demo_slot 2)} \<subseteq>
     insert (ps_conn_id (demo_slot 2)) (ps_conn_id ` snd ` set [(0 :: nat, demo_slot 1), (0, demo_slot 1)])"
  using exchange_needs_both [OF _ demo_exchange(1) demo_exchange(2)]
  by (simp add: session_ok_def both_fresh_def session_default_def)

theorem lagging_side_blocked_witness:
  "\<exists>s1 s2. session_register 0 (demo_slot 1) demo_lagging = Joined s1 \<and>
     session_register 0 (demo_slot 2) s1 = Joined s2"
  using lagging_side_blocked [of 1 demo_lagging 2 "demo_slot 1" "demo_slot 2" 0 0]
  by (simp add: demo_lagging_def demo_full_def demo_slot_def)

definition demo_two_sessions :: rendezvous where
  "demo_two_sessions = rendezvous_new\<lparr>
     rv_sessions := [([7], (session_default 0)\<lparr>se_a := Some (demo_slot 1), se_a_version := 1\<rparr>),
                     ([8], (session_default 0)\<lparr>se_a := Some (demo_slot 1), se_a_version := 1\<rparr>)],
     rv_conn_session := [(1, [8])]\<rparr>"

theorem cleanup_exact_witness:
  "has_slot 1 [7] (cleanup_conn 1 demo_two_sessions) \<and> \<not> has_slot 1 [8] (cleanup_conn 1 demo_two_sessions)"
proof -
  have "rv_ok demo_two_sessions"
    by (simp add: rv_ok_def demo_two_sessions_def rendezvous_new_def hm_ok_def session_ok_def both_fresh_def
        session_default_def MAX_RENDEZVOUS_SESSIONS_def)
  from cleanup_exact [OF this, of 1 "[7]"] cleanup_exact [OF this, of 1 "[8]"] show ?thesis
    by (simp add: has_slot_def demo_two_sessions_def session_default_def demo_slot_def)
qed

end
