(* ===== verification/Relay_Auth.thy ===== *)
theory Relay_Auth
  imports Relay_Protocol Known_Hosts
begin

text \<open>
  The client's half of the login, \<^verbatim>\<open>relay/src/auth.rs\<close>: probe, challenge, proof, receipt, with
  the registration challenge before or after. HMAC-SHA256 (\<open>hmac\<close>), bincode (\<open>de\<close>) and the
  device's signer are parameters. What the network does is data: \<open>io_reads\<close> lists how each
  \<^verbatim>\<open>read_frame\<close> under its timeout ends, and the closure \<open>send\<close> says, from what was sent before,
  whether the next message fails. The \<^verbatim>\<open>Debug\<close> text of an unexpected message is kept as the
  message itself.
\<close>

section \<open>Types\<close>

datatype client_auth_error =
    AuthTimeout string
  | AuthProtocol protocol_error
  | LoginRejected string
  | NoTokenForChallenge
  | LegacyServerRejected
  | ServerReceiptMismatch
  | ServerReceiptMissing
  | UnexpectedResponse string control_msg
  | SendFailed string
  | RegistrationProofUnsupported

datatype auth_outcome = Challenged | Legacy

record login_fields =
  lf_version :: string
  lf_hostname :: string
  lf_device_id :: "string option"
  lf_ed25519_pub :: "string option"

datatype auth_read = FrameRead u8 bytes | ReadFailed protocol_error | ReadTimeout

record auth_io =
  io_reads :: "auth_read list"
  io_sent :: "control_msg list"

type_synonym 'a auth = "auth_io \<Rightarrow> (client_auth_error + 'a) \<times> auth_io"

text \<open>\<^verbatim>\<open>?\<close> and early returns.\<close>

definition aret :: "'a \<Rightarrow> 'a auth" where "aret x = (\<lambda>io. (Inr x, io))"
definition athrow :: "client_auth_error \<Rightarrow> 'a auth" where "athrow e = (\<lambda>io. (Inl e, io))"

definition abind :: "'a auth \<Rightarrow> ('a \<Rightarrow> 'b auth) \<Rightarrow> 'b auth" where
  "abind m f = (\<lambda>io. case m io of (Inl e, io') \<Rightarrow> (Inl e, io') | (Inr x, io') \<Rightarrow> f x io')"

section \<open>Digests\<close>

definition login_msg :: "login_fields \<Rightarrow> bytes option \<Rightarrow> bytes option \<Rightarrow> control_msg" where
  "login_msg lf client_nonce digest =
     Login [] (lf_version lf) (lf_hostname lf) (lf_device_id lf) (lf_ed25519_pub lf)
       client_nonce digest"

definition auth_digest :: "(bytes \<Rightarrow> bytes \<Rightarrow> bytes) \<Rightarrow> bytes \<Rightarrow> bytes \<Rightarrow> bytes" where
  "auth_digest hmac key d = hmac key d"

definition client_digest :: "(bytes \<Rightarrow> bytes \<Rightarrow> bytes) \<Rightarrow> bytes \<Rightarrow> bytes \<Rightarrow> bytes \<Rightarrow> bytes" where
  "client_digest hmac token server_nonce client_nonce = auth_digest hmac token (server_nonce @ client_nonce)"

definition server_digest :: "(bytes \<Rightarrow> bytes \<Rightarrow> bytes) \<Rightarrow> bytes \<Rightarrow> bytes \<Rightarrow> bytes" where
  "server_digest hmac token client_nonce = auth_digest hmac token client_nonce"

definition constant_time_eq :: "bytes \<Rightarrow> bytes \<Rightarrow> bool" where
  "constant_time_eq a b =
     (if length a \<noteq> length b then False
      else foldl (\<lambda>diff (x, y). or diff (xor x y)) 0 (zip a b) = 0)"

section \<open>The exchange\<close>

definition auth_send :: "(control_msg list \<Rightarrow> control_msg \<Rightarrow> string option) \<Rightarrow> control_msg \<Rightarrow> unit auth" where
  "auth_send send m = (\<lambda>io.
     (case send (io_sent io) m of None \<Rightarrow> Inr () | Some e \<Rightarrow> Inl (SendFailed e),
      io\<lparr>io_sent := io_sent io @ [m]\<rparr>))"

definition read_auth_frame :: "string \<Rightarrow> (u8 \<times> bytes) auth" where
  "read_auth_frame what = (\<lambda>io.
     case io_reads io of
       [] \<Rightarrow> (Inl (AuthTimeout what), io)
     | r # rs \<Rightarrow>
         ((case r of
             FrameRead ty payload \<Rightarrow> Inr (ty, payload)
           | ReadFailed e \<Rightarrow> Inl (AuthProtocol e)
           | ReadTimeout \<Rightarrow> Inl (AuthTimeout what)), io\<lparr>io_reads := rs\<rparr>))"

definition read_control :: "(bytes \<Rightarrow> string + control_msg) \<Rightarrow> string \<Rightarrow> control_msg auth" where
  "read_control de what =
     abind (read_auth_frame what) (\<lambda>(ty, payload).
       case decode_control de ty payload of Inl e \<Rightarrow> athrow (AuthProtocol e) | Inr m \<Rightarrow> aret m)"

definition send_reg_proof :: "(control_msg list \<Rightarrow> control_msg \<Rightarrow> string option) \<Rightarrow> login_fields \<Rightarrow>
    (bytes \<Rightarrow> bytes) option \<Rightarrow> bytes \<Rightarrow> unit auth" where
  "send_reg_proof send lf reg_signer reg_nonce =
     (case (lf_device_id lf, lf_ed25519_pub lf) of
        (Some did, Some pub_b64) \<Rightarrow>
          (case reg_signer of
             None \<Rightarrow> athrow RegistrationProofUnsupported
           | Some signer \<Rightarrow>
               auth_send send (RegProof did pub_b64
                 (signer (registration_proof_payload reg_nonce (str_bytes did) (str_bytes pub_b64)))))
      | _ \<Rightarrow> athrow RegistrationProofUnsupported)"

definition login_failed :: "string option \<Rightarrow> 'a auth" where
  "login_failed err = athrow (LoginRejected (case err of Some e \<Rightarrow> e | None \<Rightarrow> ''login failed''))"

text \<open>The first answer of the server: \<open>Inl\<close> ends the exchange, \<open>Inr\<close> is \<^verbatim>\<open>challenged\<close>.\<close>

definition auth_first :: "(bytes \<Rightarrow> bytes \<Rightarrow> bytes) \<Rightarrow> (control_msg list \<Rightarrow> control_msg \<Rightarrow> string option) \<Rightarrow>
    string \<Rightarrow> bytes \<Rightarrow> login_fields \<Rightarrow> (bytes \<Rightarrow> bytes) option \<Rightarrow> control_msg \<Rightarrow> (auth_outcome + bool) auth" where
  "auth_first hmac send token client_nonce lf reg_signer m =
     (case m of
        AuthChallenge server_nonce \<Rightarrow>
          if token = [] then athrow NoTokenForChallenge
          else abind (auth_send send (login_msg lf (Some client_nonce)
                 (Some (client_digest hmac (str_bytes token) server_nonce client_nonce))))
               (\<lambda>_. aret (Inr True))
      | RegChallenge reg_nonce \<Rightarrow>
          abind (send_reg_proof send lf reg_signer reg_nonce) (\<lambda>_. aret (Inr False))
      | LoginResp ok err _ _ \<Rightarrow>
          if ok then if token \<noteq> [] then athrow LegacyServerRejected else aret (Inl Legacy)
          else login_failed err
      | other \<Rightarrow> athrow (UnexpectedResponse ''expected AuthChallenge or LoginResp'' other))"

definition auth_last :: "(bytes \<Rightarrow> bytes \<Rightarrow> bytes) \<Rightarrow> string \<Rightarrow> bytes \<Rightarrow> bool \<Rightarrow> control_msg \<Rightarrow> auth_outcome auth" where
  "auth_last hmac token client_nonce challenged m =
     (case m of
        LoginResp ok err _ receipt \<Rightarrow>
          if ok then
            if challenged then
              (case receipt of
                 None \<Rightarrow> athrow ServerReceiptMissing
               | Some r \<Rightarrow> if \<not> constant_time_eq r (server_digest hmac (str_bytes token) client_nonce)
                            then athrow ServerReceiptMismatch else aret Challenged)
            else aret Legacy
          else login_failed err
      | other \<Rightarrow> athrow (UnexpectedResponse ''expected LoginResp'' other))"

definition authenticate :: "(bytes \<Rightarrow> bytes \<Rightarrow> bytes) \<Rightarrow> (bytes \<Rightarrow> string + control_msg) \<Rightarrow>
    (control_msg list \<Rightarrow> control_msg \<Rightarrow> string option) \<Rightarrow> string \<Rightarrow> bytes \<Rightarrow> login_fields \<Rightarrow>
    (bytes \<Rightarrow> bytes) option \<Rightarrow> auth_outcome auth" where
  "authenticate hmac de send token client_nonce lf reg_signer =
     abind (auth_send send (login_msg lf (Some client_nonce) None)) (\<lambda>_.
     abind (read_control de ''auth challenge'') (\<lambda>first.
     abind (auth_first hmac send token client_nonce lf reg_signer first) (\<lambda>arm.
     case arm of
       Inl outcome \<Rightarrow> aret outcome
     | Inr challenged \<Rightarrow>
         abind (read_control de ''auth proof response'') (\<lambda>second.
         abind (case second of
                  RegChallenge reg_nonce \<Rightarrow>
                    abind (send_reg_proof send lf reg_signer reg_nonce)
                      (\<lambda>_. read_control de ''reg proof response'')
                | _ \<Rightarrow> aret second)
           (auth_last hmac token client_nonce challenged)))))"

section \<open>The constant-time comparison\<close>

lemma constant_time_eq_iff [simp]: "constant_time_eq a b \<longleftrightarrow> a = b"
  by (auto simp: constant_time_eq_def xor_fold_eq)

section \<open>What a successful exchange was\<close>

lemma abind_Inr:
  "abind m f io = (Inr y, io') \<longleftrightarrow> (\<exists>x io1. m io = (Inr x, io1) \<and> f x io1 = (Inr y, io'))"
  by (auto simp: abind_def split: prod.splits sum.splits)

lemma aret_eq [simp]: "aret x io = (r, io') \<longleftrightarrow> r = Inr x \<and> io' = io"
  by (auto simp: aret_def)

lemma athrow_Inr [simp]: "athrow e io \<noteq> (Inr y, io')"
  by (simp add: athrow_def)

definition decoded :: "(bytes \<Rightarrow> string + control_msg) \<Rightarrow> auth_read \<Rightarrow> control_msg \<Rightarrow> bool" where
  "decoded de r m =
     (case r of FrameRead ty payload \<Rightarrow> decode_control de ty payload = Inr m | _ \<Rightarrow> False)"

lemma read_control_Inr:
  "read_control de what io = (Inr m, io') \<longleftrightarrow>
     (\<exists>r rs. io_reads io = r # rs \<and> decoded de r m \<and> io' = io\<lparr>io_reads := rs\<rparr>)"
  by (auto simp: read_control_def abind_Inr read_auth_frame_def decoded_def
           split: list.splits auth_read.splits sum.splits)

lemma auth_send_Inr:
  "auth_send send m io = (Inr u, io') \<longleftrightarrow>
     send (io_sent io) m = None \<and> io' = io\<lparr>io_sent := io_sent io @ [m]\<rparr>"
  by (auto simp: auth_send_def split: option.splits)

lemma send_reg_proof_Inr:
  "send_reg_proof send lf signer rn io = (Inr u, io') \<Longrightarrow>
     \<exists>m. io' = io\<lparr>io_sent := io_sent io @ [m]\<rparr>"
  by (auto simp: send_reg_proof_def auth_send_Inr split: option.splits)

lemma login_failed_Inr [simp]: "login_failed err io \<noteq> (Inr y, io')"
  by (simp add: login_failed_def)

lemmas auth_Inr = abind_Inr read_control_Inr auth_send_Inr

lemma auth_last_Inr:
  assumes "auth_last hmac token cn challenged m io = (Inr out, io')"
  shows "io' = io \<and> (\<exists>err v receipt. m = LoginResp True err v receipt \<and>
       (if challenged then out = Challenged \<and> receipt = Some (server_digest hmac (str_bytes token) cn)
        else out = Legacy))"
  using assms by (auto simp: auth_last_def split: control_msg.splits if_splits option.splits)

lemma auth_first_Inr:
  assumes "auth_first hmac send token cn lf signer m io = (Inr arm, io')"
  shows "(\<exists>sn. m = AuthChallenge sn \<and> token \<noteq> [] \<and> arm = Inr True \<and>
            io' = io\<lparr>io_sent := io_sent io @
                    [login_msg lf (Some cn) (Some (client_digest hmac (str_bytes token) sn cn))]\<rparr>)
       \<or> (\<exists>rn p. m = RegChallenge rn \<and> arm = Inr False \<and> io' = io\<lparr>io_sent := io_sent io @ [p]\<rparr>)
       \<or> (\<exists>err v d. m = LoginResp True err v d \<and> token = [] \<and> arm = Inl Legacy \<and> io' = io)"
  using assms
  by (auto simp: auth_first_def auth_Inr split: control_msg.splits if_splits dest: send_reg_proof_Inr)

text \<open>
  What the server has to have sent for a client to log in: for \<^verbatim>\<open>Challenged\<close> a challenge, and
  after at most one registration challenge the receipt under the client's own password and nonce;
  for \<^verbatim>\<open>Legacy\<close> either an immediate acceptance, or a registration challenge first.
\<close>

definition server_proved :: "(bytes \<Rightarrow> bytes \<Rightarrow> bytes) \<Rightarrow> (bytes \<Rightarrow> string + control_msg) \<Rightarrow> string \<Rightarrow> bytes \<Rightarrow>
    auth_read list \<Rightarrow> bool" where
  "server_proved hmac de token cn reads =
     (\<exists>r1 sn mid rk rest err v. reads = r1 # mid @ rk # rest \<and> decoded de r1 (AuthChallenge sn) \<and>
        (mid = [] \<or> (\<exists>r2 rn. mid = [r2] \<and> decoded de r2 (RegChallenge rn))) \<and>
        decoded de rk (LoginResp True err v (Some (hmac (str_bytes token) cn))))"

lemma server_provedI:
  assumes "decoded de r1 (AuthChallenge sn)"
  shows "decoded de r2 (LoginResp True err v (Some (hmac (str_bytes token) cn))) \<Longrightarrow>
      server_proved hmac de token cn (r1 # r2 # rest)"
    and "decoded de r2 (RegChallenge rn) \<Longrightarrow>
      decoded de r3 (LoginResp True err v (Some (hmac (str_bytes token) cn))) \<Longrightarrow>
      server_proved hmac de token cn (r1 # r2 # r3 # rest)"
  using assms unfolding server_proved_def by (metis append_Nil, metis append_Cons append_Nil)

definition reg_challenged_first :: "(bytes \<Rightarrow> string + control_msg) \<Rightarrow> auth_read list \<Rightarrow> bool" where
  "reg_challenged_first de reads = (\<exists>r1 rest rn. reads = r1 # rest \<and> decoded de r1 (RegChallenge rn))"

lemma second_Inr:
  assumes "(case second of
              RegChallenge rn \<Rightarrow> abind (send_reg_proof send lf signer rn) (\<lambda>_. read_control de what)
            | _ \<Rightarrow> aret second) io = (Inr m, io')"
  shows "(m = second \<and> io' = io \<and> (\<forall>rn. second \<noteq> RegChallenge rn))
       \<or> (\<exists>rn r rs. second = RegChallenge rn \<and> io_reads io = r # rs \<and> decoded de r m)"
  using assms
  by (cases second) (auto simp: auth_Inr dest!: send_reg_proof_Inr)

text \<open>
  C11. The client's login is mutual where it says so. If \<^verbatim>\<open>authenticate\<close> returns
  \<^verbatim>\<open>Challenged\<close>, then a password is configured and the server has sent the HMAC, under that
  password, of the nonce this client drew for this login. If it returns \<^verbatim>\<open>Legacy\<close>, then no
  password is configured or the server has sent a registration challenge before anything else.
\<close>
theorem auth_sound:
  assumes "authenticate hmac de send token cn lf signer \<lparr>io_reads = reads, io_sent = []\<rparr> = (Inr out, io')"
  shows "(out = Challenged \<and> token \<noteq> [] \<and> server_proved hmac de token cn reads)
       \<or> (out = Legacy \<and> (token = [] \<or> reg_challenged_first de reads))"
proof -
  let ?io0 = "\<lparr>io_reads = reads, io_sent = [login_msg lf (Some cn) None]\<rparr>"
  obtain r1 rs first arm io1 where reads: "reads = r1 # rs" and r1: "decoded de r1 first"
    and arm: "auth_first hmac send token cn lf signer first (?io0\<lparr>io_reads := rs\<rparr>) = (Inr arm, io1)"
    and rest: "(case arm of Inl outcome \<Rightarrow> aret outcome
       | Inr challenged \<Rightarrow>
           abind (read_control de ''auth proof response'') (\<lambda>second.
           abind (case second of
                  RegChallenge reg_nonce \<Rightarrow>
                    abind (send_reg_proof send lf signer reg_nonce) (\<lambda>_. read_control de ''reg proof response'')
                | _ \<Rightarrow> aret second)
             (auth_last hmac token cn challenged))) io1 = (Inr out, io')"
    using assms by (auto simp: authenticate_def auth_Inr)
  from auth_first_Inr [OF arm] consider
      (chal) sn where "first = AuthChallenge sn" "token \<noteq> []" "arm = Inr True" "io_reads io1 = rs"
    | (reg) rn where "first = RegChallenge rn" "arm = Inr False" "io_reads io1 = rs"
    | (ok) "token = []" "arm = Inl Legacy"
    by auto
  then show ?thesis
  proof cases
    case chal
    obtain r2 rs2 second m io2 where r2: "rs = r2 # rs2" "decoded de r2 second"
      and snd: "(case second of
                  RegChallenge reg_nonce \<Rightarrow>
                    abind (send_reg_proof send lf signer reg_nonce) (\<lambda>_. read_control de ''reg proof response'')
                | _ \<Rightarrow> aret second) (io1\<lparr>io_reads := rs2\<rparr>) = (Inr m, io2)"
      and lst: "auth_last hmac token cn True m io2 = (Inr out, io')"
      using rest chal(3,4) by (auto simp: auth_Inr)
    from auth_last_Inr [OF lst] obtain err v where out: "out = Challenged"
      and m: "m = LoginResp True err v (Some (hmac (str_bytes token) cn))"
      by (auto simp: server_digest_def auth_digest_def)
    from second_Inr [OF snd] consider "m = second"
      | rn r3 rs3 where "second = RegChallenge rn" "rs2 = r3 # rs3" "decoded de r3 m" by auto
    then have "server_proved hmac de token cn reads"
      using r1 r2(2) m chal(1) unfolding reads r2(1) by cases (auto intro: server_provedI)
    then show ?thesis using out chal(2) by blast
  next
    case reg
    then have "out = Legacy" using rest by (auto simp: auth_Inr dest: auth_last_Inr)
    moreover have "reg_challenged_first de reads"
      unfolding reg_challenged_first_def reads using reg(1) r1 by blast
    ultimately show ?thesis by blast
  next
    case ok
    then show ?thesis using rest by simp
  qed
qed

definition demo_hmac :: "bytes \<Rightarrow> bytes \<Rightarrow> bytes" where
  "demo_hmac key d = key @ d"

definition demo_fields :: login_fields where
  "demo_fields = \<lparr>lf_version = ''1.1.0'', lf_hostname = ''pc'', lf_device_id = Some ''dev'',
     lf_ed25519_pub = Some ''key''\<rparr>"

definition demo_auth_de :: "bytes \<Rightarrow> string + control_msg" where
  "demo_auth_de b =
     (if b = [1] then Inr (AuthChallenge [7])
      else if b = [2] then Inr (RegChallenge [8])
      else if b = [3] then Inr (LoginResp True None ''1.1.0'' (Some (demo_hmac (str_bytes ''pw'') [5])))
      else Inl ''bad'')"

definition demo_reads :: "bytes list \<Rightarrow> auth_read list" where
  "demo_reads ps = map (FrameRead TYPE_CONTROL) ps"

lemmas demo_auth_defs = demo_fields_def demo_auth_de_def demo_reads_def authenticate_def abind_def auth_send_def
  read_control_def read_auth_frame_def decode_control_def auth_first_def aret_def auth_last_def send_reg_proof_def
  server_digest_def auth_digest_def

theorem auth_sound_witness:
  "server_proved demo_hmac demo_auth_de ''pw'' [5] (demo_reads [[1], [2], [3]])"
proof -
  have "fst (authenticate demo_hmac demo_auth_de (\<lambda>_ _. None) ''pw'' [5] demo_fields (Some (\<lambda>_. []))
      \<lparr>io_reads = demo_reads [[1], [2], [3]], io_sent = []\<rparr>) = Inr Challenged"
    by (simp add: demo_auth_defs)
  then obtain io' where "authenticate demo_hmac demo_auth_de (\<lambda>_ _. None) ''pw'' [5] demo_fields (Some (\<lambda>_. []))
      \<lparr>io_reads = demo_reads [[1], [2], [3]], io_sent = []\<rparr> = (Inr Challenged, io')"
    by (metis prod.collapse)
  from auth_sound [OF this] show ?thesis by simp
qed

text \<open>
  The refusal of an unauthenticated server (TNL-SEC-008) has a gap. Whatever password is
  configured, a server that knows nothing of it and sends a registration challenge followed by an
  acceptance without a receipt is accepted by every client that registers a device: the client
  signs the challenge and returns \<^verbatim>\<open>Legacy\<close>, although a bare acceptance is refused.
\<close>
theorem password_skipped:
  assumes "de p1 = Inr (RegChallenge rn)" and "de p2 = Inr (LoginResp True err v d)"
    and "lf_device_id lf = Some did" and "lf_ed25519_pub lf = Some pub"
  shows "authenticate hmac de (\<lambda>_ _. None) token cn lf (Some sign)
           \<lparr>io_reads = [FrameRead TYPE_CONTROL p1, FrameRead TYPE_CONTROL p2], io_sent = []\<rparr>
         = (Inr Legacy,
            \<lparr>io_reads = [],
             io_sent = [login_msg lf (Some cn) None,
               RegProof did pub (sign (registration_proof_payload rn (str_bytes did) (str_bytes pub)))]\<rparr>)
       \<and> (token \<noteq> [] \<longrightarrow>
          fst (authenticate hmac de (\<lambda>_ _. None) token cn lf (Some sign)
             \<lparr>io_reads = [FrameRead TYPE_CONTROL p2], io_sent = []\<rparr>) = Inl LegacyServerRejected)"
  using assms by (simp add: demo_auth_defs athrow_def)

theorem password_skipped_witness:
  "fst (authenticate demo_hmac demo_auth_de (\<lambda>_ _. None) ''other'' [5] demo_fields (Some (\<lambda>_. []))
      \<lparr>io_reads = [FrameRead TYPE_CONTROL [2], FrameRead TYPE_CONTROL [3]], io_sent = []\<rparr>) = Inr Legacy"
  using password_skipped [of demo_auth_de "[2]" "[8]" "[3]" None "''1.1.0''"
      "Some (demo_hmac (str_bytes ''pw'') [5])" demo_fields "''dev''" "''key''" demo_hmac "''other''" "[5]"]
  by (simp add: demo_auth_de_def demo_fields_def)

section \<open>What goes on the wire\<close>

text \<open>Every message an exchange hands to \<open>send\<close> satisfies a predicate, also when it fails.\<close>

definition sends_only :: "(control_msg \<Rightarrow> bool) \<Rightarrow> 'a auth \<Rightarrow> bool" where
  "sends_only P m = (\<forall>io. list_all P (io_sent io) \<longrightarrow> list_all P (io_sent (snd (m io))))"

lemma sends_only_aret: "sends_only P (aret x)"
  by (simp add: sends_only_def aret_def)

lemma sends_only_athrow: "sends_only P (athrow e)"
  by (simp add: sends_only_def athrow_def)

lemma sends_only_abind: "sends_only P m \<Longrightarrow> (\<And>x. sends_only P (f x)) \<Longrightarrow> sends_only P (abind m f)"
  unfolding sends_only_def abind_def by (auto split: prod.split sum.split)

lemma sends_only_send: "P m \<Longrightarrow> sends_only P (auth_send send m)"
  by (simp add: sends_only_def auth_send_def)

lemma sends_only_read: "sends_only P (read_auth_frame what)"
  by (simp add: sends_only_def read_auth_frame_def split: list.split)

lemmas sends_only_rules = sends_only_aret sends_only_athrow sends_only_abind sends_only_send sends_only_read

lemma sends_only_read_control: "sends_only P (read_control de what)"
  unfolding read_control_def by (auto intro!: sends_only_rules split: prod.split sum.split)

definition wire_ok :: "(bytes \<Rightarrow> bytes \<Rightarrow> bytes) \<Rightarrow> string \<Rightarrow> bytes \<Rightarrow> login_fields \<Rightarrow> (bytes \<Rightarrow> bytes) option \<Rightarrow>
    control_msg \<Rightarrow> bool" where
  "wire_ok hmac token cn lf signer m =
     (m = login_msg lf (Some cn) None
      \<or> (\<exists>sn. m = login_msg lf (Some cn) (Some (hmac (str_bytes token) (sn @ cn))))
      \<or> (\<exists>rn did pub sg. lf_device_id lf = Some did \<and> lf_ed25519_pub lf = Some pub \<and> signer = Some sg \<and>
           m = RegProof did pub (sg (registration_proof_payload rn (str_bytes did) (str_bytes pub)))))"

lemma sends_only_reg_proof: "sends_only (wire_ok hmac token cn lf signer) (send_reg_proof send lf signer rn)"
  unfolding send_reg_proof_def
  by (auto intro!: sends_only_rules simp: wire_ok_def split: option.split)

text \<open>
  The password never goes on the wire (TNL-SEC-006). In every exchange, with whatever the
  server answers and however it ends, each message the client sends is the probe, the proof (both
  with an empty token field, the proof with the HMAC of the two nonces under the password), or the
  signed answer to a registration challenge.
\<close>
theorem wire_messages:
  "list_all (wire_ok hmac token cn lf signer)
     (io_sent (snd (authenticate hmac de send token cn lf signer \<lparr>io_reads = reads, io_sent = []\<rparr>)))"
proof -
  let ?P = "wire_ok hmac token cn lf signer"
  have first: "sends_only ?P (auth_first hmac send token cn lf signer m)" for m
    unfolding auth_first_def login_failed_def
    by (auto intro!: sends_only_rules sends_only_reg_proof split: control_msg.split
          simp: wire_ok_def client_digest_def auth_digest_def)
  have last: "sends_only ?P (auth_last hmac token cn challenged m)" for challenged m
    unfolding auth_last_def login_failed_def
    by (auto intro!: sends_only_rules split: control_msg.split option.split)
  have "sends_only ?P (authenticate hmac de send token cn lf signer)"
    unfolding authenticate_def
    by (intro sends_only_abind sends_only_send sends_only_read_control first)
       (auto intro!: sends_only_abind sends_only_read_control sends_only_reg_proof sends_only_aret last
             split: sum.split control_msg.split simp: wire_ok_def)
  then show ?thesis unfolding sends_only_def by (metis auth_io.select_convs(2) list.pred_inject(1))
qed

end
