(* ===== verification/Relay_Session.thy ===== *)
theory Relay_Session
  imports Relay_Auth Relay_Rendezvous
begin

text \<open>
  The sessions of the relay server, \<^verbatim>\<open>relay/src/server.rs\<close>: the limit on half-open connections,
  the login with its two challenges, what a session's frames do, and the clean-up. A task of the
  code runs without interruption between two \<^verbatim>\<open>await\<close>s on the network; each such stretch is a
  definition here, and what a task waits for is its phase. \<^verbatim>\<open>Arc\<close>s are references into explicit
  stores: a session object lives on in \<open>sv_objs\<close> when it has left the table, and so do proxies.
  Random numbers (nonces, session numbers, channel numbers) are arguments. Log lines are left out,
  audit events are kept.
\<close>

section \<open>Half-open connections\<close>

record preauth =
  pa_max_per_ip :: nat
  pa_counts :: "(ip_addr, nat) hmap"

definition preauth_new :: "nat \<Rightarrow> preauth" where
  "preauth_new max_per_ip = \<lparr>pa_max_per_ip = max_per_ip, pa_counts = []\<rparr>"

definition acquire :: "ip_addr \<Rightarrow> preauth \<Rightarrow> bool \<times> preauth" where
  "acquire ip p =
     (let c = hm_or_insert 0 (pa_counts p) ip
      in if pa_max_per_ip p \<le> c then (False, p\<lparr>pa_counts := hm_put ip c (pa_counts p)\<rparr>)
         else (True, p\<lparr>pa_counts := hm_put ip (c + 1) (pa_counts p)\<rparr>))"

definition release :: "ip_addr \<Rightarrow> preauth \<Rightarrow> preauth" where
  "release ip p =
     (case hm_get (pa_counts p) ip of
        None \<Rightarrow> p
      | Some c \<Rightarrow>
          (let c' = c - 1
           in if c' = 0 then p\<lparr>pa_counts := hm_del ip (pa_counts p)\<rparr>
              else p\<lparr>pa_counts := hm_put ip c' (pa_counts p)\<rparr>))"

definition pa_active :: "preauth \<Rightarrow> nat" where
  "pa_active p = sum_list (map snd (pa_counts p))"

section \<open>The server's state\<close>

definition PROTOCOL_VERSION :: string where "PROTOCOL_VERSION = ''2.0.0''"
definition DEFAULT_HEARTBEAT_TIMEOUT :: duration where "DEFAULT_HEARTBEAT_TIMEOUT = secs 30"
definition DEFAULT_WORK_CONN_TIMEOUT :: duration where "DEFAULT_WORK_CONN_TIMEOUT = secs 8"
definition DEFAULT_MAX_PROXIES :: nat where "DEFAULT_MAX_PROXIES = 32"
definition DEFAULT_MAX_CONCURRENT_WORK :: nat where "DEFAULT_MAX_CONCURRENT_WORK = 100"
definition DEFAULT_MAX_SESSIONS :: nat where "DEFAULT_MAX_SESSIONS = 512"
definition DEFAULT_PREAUTH_PER_IP :: nat where "DEFAULT_PREAUTH_PER_IP = 64"
definition DEFAULT_MAX_PENDING_TUNNELS :: nat where "DEFAULT_MAX_PENDING_TUNNELS = 256"
definition DEFAULT_MAX_PENDING_PER_TARGET :: nat where "DEFAULT_MAX_PENDING_PER_TARGET = 16"

record server_config =
  cfg_token :: string
  cfg_heartbeat_timeout :: duration
  cfg_work_conn_timeout :: duration
  cfg_max_proxies :: nat
  cfg_max_concurrent_work :: nat
  cfg_rate_limit :: rl_config
  cfg_tunnel_conn_rate_limit :: rl_config
  cfg_max_pending_tunnels :: nat
  cfg_max_pending_per_target :: nat
  cfg_max_sessions :: nat
  cfg_preauth_per_ip :: nat

definition server_config_default :: server_config where
  "server_config_default =
     \<lparr>cfg_token = [], cfg_heartbeat_timeout = DEFAULT_HEARTBEAT_TIMEOUT,
      cfg_work_conn_timeout = DEFAULT_WORK_CONN_TIMEOUT, cfg_max_proxies = DEFAULT_MAX_PROXIES,
      cfg_max_concurrent_work = DEFAULT_MAX_CONCURRENT_WORK, cfg_rate_limit = rl_config_default,
      cfg_tunnel_conn_rate_limit = tunnel_conn_default, cfg_max_pending_tunnels = DEFAULT_MAX_PENDING_TUNNELS,
      cfg_max_pending_per_target = DEFAULT_MAX_PENDING_PER_TARGET, cfg_max_sessions = DEFAULT_MAX_SESSIONS,
      cfg_preauth_per_ip = DEFAULT_PREAUTH_PER_IP\<rparr>"

text \<open>A waiter of \<open>pe_pending\<close> is the number of a one-shot channel.\<close>

record proxy_entry =
  pe_name :: string
  pe_local_addr :: string
  pe_local_port :: u16
  pe_listener_port :: u16
  pe_pending :: "(u64, nat) hmap"
  pe_conn_count :: nat

record client_session =
  cs_id :: nat
  cs_addr :: socket_addr
  cs_proxies :: "(string, nat) hmap"
  cs_control_tx :: nat
  cs_last_activity :: instant
  cs_tasks :: "nat list"
  cs_device_id :: "string option"
  cs_punch_conn :: "nat option"

text \<open>
  \<open>sv_oneshots\<close> holds what was sent on a one-shot channel: \<open>Some stream\<close> for
  \<^verbatim>\<open>Ok(stream)\<close>, \<open>None\<close> for \<^verbatim>\<open>Err(())\<close>; \<open>sv_aborted\<close> the background tasks that were
  aborted.
\<close>

record server =
  sv_cfg :: server_config
  sv_objs :: "(nat, client_session) hmap"
  sv_sessions :: "nat list"
  sv_proxy_objs :: "(nat, proxy_entry) hmap"
  sv_oneshots :: "(nat, nat option) hmap"
  sv_pending_index :: "(u64, nat \<times> string) hmap"
  sv_rate_limiter :: limiter
  sv_tunnel_conn_limiter :: limiter
  sv_pending_tunnels :: nat
  sv_pending_by_target :: "(string, nat) hmap"
  sv_preauth :: preauth
  sv_registry :: registry
  sv_rendezvous :: "rendezvous option"
  sv_chans :: chan_store
  sv_aborted :: "nat list"
  sv_audit :: "audit_event list"

definition server_bind :: "server_config \<Rightarrow> rendezvous option \<Rightarrow> server" where
  "server_bind cfg rz =
     \<lparr>sv_cfg = cfg, sv_objs = [], sv_sessions = [], sv_proxy_objs = [], sv_oneshots = [],
      sv_pending_index = [], sv_rate_limiter = with_config (cfg_rate_limit cfg),
      sv_tunnel_conn_limiter = with_config (cfg_tunnel_conn_rate_limit cfg), sv_pending_tunnels = 0,
      sv_pending_by_target = [], sv_preauth = preauth_new (cfg_preauth_per_ip cfg),
      sv_registry = registry_new, sv_rendezvous = rz, sv_chans = [], sv_aborted = [], sv_audit = []\<rparr>"

definition audit :: "audit_event \<Rightarrow> server \<Rightarrow> server" where
  "audit e s = s\<lparr>sv_audit := sv_audit s @ [e]\<rparr>"

definition upd_session :: "nat \<Rightarrow> (client_session \<Rightarrow> client_session) \<Rightarrow> server \<Rightarrow> server" where
  "upd_session sid f s =
     (case hm_get (sv_objs s) sid of None \<Rightarrow> s | Some c \<Rightarrow> s\<lparr>sv_objs := hm_put sid (f c) (sv_objs s)\<rparr>)"

definition canonical_peer_addr :: "socket_addr \<Rightarrow> socket_addr" where
  "canonical_peer_addr addr = SocketAddr (canonical_ip (sa_ip addr)) (sa_port addr)"

section \<open>Login\<close>

record login_info =
  li_token :: string
  li_version :: string
  li_hostname :: string
  li_device_id :: "string option"
  li_ed25519_pub :: "string option"
  li_auth_nonce :: "bytes option"
  li_auth_digest :: "bytes option"

datatype login_phase =
    LoginDone
  | AwaitProof login_info bytes bytes
  | AwaitRegProof nat string "string option" bytes "bytes option"
  | InSession nat

text \<open>A stretch of a task: the frames written to the stream, the phase, the state.\<close>

type_synonym stretch = "bytes list \<times> login_phase \<times> server"

text \<open>The texts of the errors that reach the wire and the audit log.\<close>

fun decision_debug :: "decision \<Rightarrow> string" where
  "decision_debug Allowed = ''Allowed''"
| "decision_debug TooManyAttempts = ''TooManyAttempts''"
| "decision_debug Banned = ''Banned''"

fun registry_error_text :: "registry_error \<Rightarrow> string" where
  "registry_error_text (RegIo e) = ''io error: '' @ e"
| "registry_error_text (ServerKeyError e) = ''server key error: '' @ e"
| "registry_error_text (DeviceConflict d) = ''device id conflict: '' @ d"
| "registry_error_text (DeviceUnavailable d) = ''device unavailable: '' @ d"
| "registry_error_text (BadDeviceId d) = ''invalid device_id: '' @ d"
| "registry_error_text (RegistrationProofRejected e) = ''registration proof rejected: '' @ e"
| "registry_error_text (OtherError e) = ''other: '' @ e"

definition login_refusal :: "(control_msg \<Rightarrow> string + bytes) \<Rightarrow> string option \<Rightarrow> bytes list" where
  "login_refusal ser err =
     (case encode_control ser (LoginResp False err PROTOCOL_VERSION None) of Inr f \<Rightarrow> [f] | Inl _ \<Rightarrow> [])"

definition reject_login :: "(control_msg \<Rightarrow> string + bytes) \<Rightarrow> instant \<Rightarrow> socket_addr \<Rightarrow> string \<Rightarrow>
    server \<Rightarrow> stretch" where
  "reject_login ser now addr reason s =
     (let s = audit (LoginFailed addr reason) s;
          s = s\<lparr>sv_rate_limiter := record_handshake_failure now (sa_ip addr) (sv_rate_limiter s)\<rparr>
      in (login_refusal ser (Some reason), LoginDone, s))"

text \<open>The end of \<open>start_session\<close>: the acceptance is the first message of the control channel.\<close>

definition accept_login :: "(control_msg \<Rightarrow> string + bytes) \<Rightarrow> nat \<Rightarrow> bytes option \<Rightarrow> server \<Rightarrow> stretch" where
  "accept_login ser sid receipt s =
     (case encode_control ser (LoginResp True None PROTOCOL_VERSION receipt) of
        Inl _ \<Rightarrow> ([], LoginDone, s)
      | Inr f \<Rightarrow>
          (case hm_get (sv_objs s) sid of
             None \<Rightarrow> ([], LoginDone, s)
           | Some c \<Rightarrow>
               (case chan_send (cs_control_tx c) f (sv_chans s) of
                  None \<Rightarrow> ([], LoginDone, s)
                | Some chans \<Rightarrow> ([], InSession sid, s\<lparr>sv_chans := chans\<rparr>))))"

definition new_session :: "instant \<Rightarrow> nat \<Rightarrow> nat \<Rightarrow> socket_addr \<Rightarrow> client_session" where
  "new_session now sid tx addr =
     \<lparr>cs_id = sid, cs_addr = addr, cs_proxies = [], cs_control_tx = tx, cs_last_activity = now,
      cs_tasks = [], cs_device_id = None, cs_punch_conn = None\<rparr>"

definition drop_session :: "nat \<Rightarrow> server \<Rightarrow> server" where
  "drop_session sid s = s\<lparr>sv_sessions := removeAll sid (sv_sessions s)\<rparr>"

definition start_session :: "(control_msg \<Rightarrow> string + bytes) \<Rightarrow> instant \<Rightarrow> nat \<Rightarrow> nat \<Rightarrow> bytes \<Rightarrow> bool \<Rightarrow>
    socket_addr \<Rightarrow> string \<Rightarrow> string option \<Rightarrow> string option \<Rightarrow> bytes option \<Rightarrow> server \<Rightarrow> stretch" where
  "start_session ser now sid tx reg_nonce written addr hostname device_id ed25519_pub auth_receipt s =
     (if cfg_max_sessions (sv_cfg s) \<le> length (sv_sessions s)
      then reject_login ser now addr
             (''global session limit reached ('' @ digits_of (length (sv_sessions s)) @ ''/'' @
              digits_of (cfg_max_sessions (sv_cfg s)) @ '')'') s
      else
        (let s = s\<lparr>sv_rate_limiter := reset (sa_ip addr) (sv_rate_limiter s)\<rparr>;
             s = audit (LoginSuccess addr hostname) s;
             s = s\<lparr>sv_objs := hm_put sid (new_session now sid tx addr) (sv_objs s),
                   sv_chans := hm_put tx \<lparr>ch_open = True, ch_queue = []\<rparr> (sv_chans s),
                   sv_sessions := sid # sv_sessions s\<rparr>
         in case device_id of
              None \<Rightarrow> accept_login ser sid auth_receipt s
            | Some did \<Rightarrow>
                (case encode_control ser (RegChallenge reg_nonce) of
                   Inl _ \<Rightarrow> ([], LoginDone, s)
                 | Inr f \<Rightarrow>
                     if \<not> written then ([], LoginDone, drop_session sid s)
                     else ([f], AwaitRegProof sid did ed25519_pub reg_nonce auth_receipt, s))))"

text \<open>The registration proof, or whatever came instead of it.\<close>

definition reg_proof_of :: "(bytes \<Rightarrow> string + control_msg) \<Rightarrow> string \<Rightarrow> string option \<Rightarrow> auth_read \<Rightarrow>
    (string \<times> bytes) option" where
  "reg_proof_of de did ed25519_pub r =
     (case r of
        FrameRead ty payload \<Rightarrow>
          (case decode_control de ty payload of
             Inr (RegProof proof_did proof_pub signature) \<Rightarrow>
               if proof_did = did \<and> proof_pub = (case ed25519_pub of Some p \<Rightarrow> p | None \<Rightarrow> [])
               then Some (proof_pub, signature) else None
           | _ \<Rightarrow> None)
      | _ \<Rightarrow> None)"

definition refuse_device :: "(control_msg \<Rightarrow> string + bytes) \<Rightarrow> nat \<Rightarrow> string option \<Rightarrow> server \<Rightarrow> stretch" where
  "refuse_device ser sid err s =
     (if login_refusal ser err = [] then ([], LoginDone, s)
      else (login_refusal ser err, LoginDone, drop_session sid s))"

definition reg_proof_arrived :: "crypto_lib \<Rightarrow> (control_msg \<Rightarrow> string + bytes) \<Rightarrow> (bytes \<Rightarrow> string + control_msg) \<Rightarrow>
    instant \<Rightarrow> socket_addr \<Rightarrow> nat \<Rightarrow> string \<Rightarrow> string option \<Rightarrow> bytes \<Rightarrow> bytes option \<Rightarrow> auth_read \<Rightarrow>
    server \<Rightarrow> stretch" where
  "reg_proof_arrived cr ser de now addr sid did ed25519_pub reg_nonce auth_receipt r s =
     (case reg_proof_of de did ed25519_pub r of
        None \<Rightarrow>
          refuse_device ser sid (Some ''device registration requires a valid private-key proof (upgrade client)'')
            (audit (DeviceRejected addr did ''registration proof missing/mismatched (C-1 challenge round)'') s)
      | Some (proof_pub, signature) \<Rightarrow>
          (let tx = (case hm_get (sv_objs s) sid of Some c \<Rightarrow> cs_control_tx c | None \<Rightarrow> 0);
               (res, reg) = register_with_proof cr now did proof_pub addr tx reg_nonce signature (sv_registry s);
               s = s\<lparr>sv_registry := reg\<rparr>
           in case res of
                Inr _ \<Rightarrow>
                  accept_login ser sid auth_receipt
                    (audit (DeviceRegistered addr did) (upd_session sid (\<lambda>c. c\<lparr>cs_device_id := Some did\<rparr>) s))
              | Inl (DeviceConflict _) \<Rightarrow>
                  refuse_device ser sid (Some (''device_id conflict: '' @ did))
                    (audit (DeviceRejected addr did ''conflicting ed25519_pub'') s)
              | Inl e \<Rightarrow>
                  refuse_device ser sid (Some (''device registration failed: '' @ registry_error_text e))
                    (audit (DeviceRejected addr did (registry_error_text e)) s)))"

text \<open>\<^verbatim>\<open>{e}\<close> of a protocol error.\<close>

fun protocol_error_text :: "protocol_error \<Rightarrow> string" where
  "protocol_error_text (FrameTooLarge len mx) =
     ''frame too large: '' @ digits_of (unat len) @ '' > '' @ digits_of (unat mx)"
| "protocol_error_text (UnknownType ty) = ''unknown frame type: 0x'' @ hex_byte ty"
| "protocol_error_text (Bincode e) = ''bincode error: '' @ e"
| "protocol_error_text IoUnexpectedEof = ''io error: early eof''"

definition UPGRADE :: string where
  "UPGRADE = ''server requires challenge-response auth; upgrade client''"

text \<open>First stretch of the login with a password: check the probe, send the challenge.\<close>

definition challenge_login :: "(control_msg \<Rightarrow> string + bytes) \<Rightarrow> instant \<Rightarrow> bytes \<Rightarrow> bool \<Rightarrow> socket_addr \<Rightarrow>
    login_info \<Rightarrow> server \<Rightarrow> stretch" where
  "challenge_login ser now server_nonce written addr login s =
     (if li_auth_digest login \<noteq> None then
        reject_login ser now addr ''unexpected auth_digest in first login frame (challenge not issued)'' s
      else case li_auth_nonce login of
        None \<Rightarrow> reject_login ser now addr UPGRADE s
      | Some client_nonce \<Rightarrow>
          if li_token login \<noteq> [] then
            reject_login ser now addr ''plain-text token login is not accepted; use challenge-response auth (upgrade client)'' s
          else
            (case encode_control ser (AuthChallenge server_nonce) of
               Inl _ \<Rightarrow> ([], LoginDone, s)
             | Inr f \<Rightarrow> if \<not> written then ([], LoginDone, s)
                       else ([f], AwaitProof login server_nonce client_nonce, s)))"

text \<open>Second stretch: the proof frame has arrived, or the wait for it has ended.\<close>

definition proof_arrived :: "(bytes \<Rightarrow> bytes \<Rightarrow> bytes) \<Rightarrow> (control_msg \<Rightarrow> string) \<Rightarrow> (control_msg \<Rightarrow> string + bytes) \<Rightarrow>
    (bytes \<Rightarrow> string + control_msg) \<Rightarrow> instant \<Rightarrow> nat \<Rightarrow> nat \<Rightarrow> bytes \<Rightarrow> bool \<Rightarrow> socket_addr \<Rightarrow> login_info \<Rightarrow>
    bytes \<Rightarrow> bytes \<Rightarrow> auth_read \<Rightarrow> server \<Rightarrow> stretch" where
  "proof_arrived hmac dbg ser de now sid tx reg_nonce written addr login server_nonce client_nonce r s =
     (case r of
        FrameRead ty payload \<Rightarrow>
          (case decode_control de ty payload of
             Inl e \<Rightarrow> reject_login ser now addr (UPGRADE @ '' (proof decode: '' @ protocol_error_text e @ '')'') s
           | Inr m \<Rightarrow>
               (case m of
                  Login _ _ _ _ _ _ digest \<Rightarrow>
                    (case digest of
                       None \<Rightarrow> reject_login ser now addr UPGRADE s
                     | Some d \<Rightarrow>
                         (let token = str_bytes (cfg_token (sv_cfg s))
                          in if \<not> constant_time_eq d (client_digest hmac token server_nonce client_nonce)
                             then reject_login ser now addr ''invalid auth digest'' s
                             else start_session ser now sid tx reg_nonce written addr (li_hostname login)
                                    (li_device_id login) (li_ed25519_pub login)
                                    (Some (server_digest hmac token client_nonce)) s))
                | other \<Rightarrow> reject_login ser now addr (''expected auth proof Login, got '' @ dbg other) s))
      | _ \<Rightarrow> ([], LoginDone, s))"

definition handle_login :: "(control_msg \<Rightarrow> string + bytes) \<Rightarrow> instant \<Rightarrow> nat \<Rightarrow> nat \<Rightarrow> bytes \<Rightarrow> bytes \<Rightarrow> bool \<Rightarrow>
    socket_addr \<Rightarrow> login_info \<Rightarrow> server \<Rightarrow> stretch" where
  "handle_login ser now sid tx server_nonce reg_nonce written addr login s =
     (case check_connect now (sa_ip addr) (sv_rate_limiter s) of
        (d, rl) \<Rightarrow>
          (let s = s\<lparr>sv_rate_limiter := rl\<rparr>
           in if d \<noteq> Allowed then ([], LoginDone, audit (RateLimited addr (decision_debug d)) s)
              else if major_version (li_version login) \<noteq> major_version PROTOCOL_VERSION then
                reject_login ser now addr (''incompatible protocol version: '' @ li_version login) s
              else if cfg_token (sv_cfg s) \<noteq> [] then
                challenge_login ser now server_nonce written addr login s
              else if \<not> constant_time_eq (str_bytes (li_token login)) [] then
                reject_login ser now addr ''invalid token'' s
              else start_session ser now sid tx reg_nonce written addr (li_hostname login)
                     (li_device_id login) (li_ed25519_pub login) None s))"

text \<open>
  The first frame of a connection, when it is a control frame: a login, also in the layout of the
  clients before the challenge (\<open>de_legacy\<close> is bincode for that structure).
\<close>

definition decode_legacy_login :: "(bytes \<Rightarrow> string + login_info) \<Rightarrow> bytes \<Rightarrow> protocol_error + login_info" where
  "decode_legacy_login de_legacy payload =
     (if length payload < 4 then Inl (Bincode ''payload too short for variant tag'')
      else let variant = of_le_bytes (take 4 payload)
           in if variant \<noteq> 0
              then Inl (Bincode (''not a Login payload (variant '' @ digits_of variant @ '')''))
              else (case de_legacy (drop 4 payload) of Inl e \<Rightarrow> Inl (Bincode e) | Inr l \<Rightarrow> Inr l))"

fun login_of :: "control_msg \<Rightarrow> login_info option" where
  "login_of (Login token version hostname device_id ed25519_pub nonce digest) =
     Some \<lparr>li_token = token, li_version = version, li_hostname = hostname, li_device_id = device_id,
           li_ed25519_pub = ed25519_pub, li_auth_nonce = nonce, li_auth_digest = digest\<rparr>"
| "login_of _ = None"

definition control_first_frame :: "(bytes \<Rightarrow> string + login_info) \<Rightarrow> (control_msg \<Rightarrow> string + bytes) \<Rightarrow>
    (bytes \<Rightarrow> string + control_msg) \<Rightarrow> instant \<Rightarrow> nat \<Rightarrow> nat \<Rightarrow> bytes \<Rightarrow> bytes \<Rightarrow> bool \<Rightarrow> socket_addr \<Rightarrow>
    bytes \<Rightarrow> server \<Rightarrow> stretch" where
  "control_first_frame de_legacy ser de now sid tx server_nonce reg_nonce written addr payload s =
     (case decode_control de TYPE_CONTROL payload of
        Inr m \<Rightarrow>
          (case login_of m of
             Some login \<Rightarrow> handle_login ser now sid tx server_nonce reg_nonce written addr login s
           | None \<Rightarrow> ([], LoginDone, s))
      | Inl _ \<Rightarrow>
          (case decode_legacy_login de_legacy payload of
             Inr legacy \<Rightarrow>
               handle_login ser now sid tx server_nonce reg_nonce written addr
                 (legacy\<lparr>li_auth_nonce := None, li_auth_digest := None\<rparr>) s
           | Inl _ \<Rightarrow> (login_refusal ser (Some (UPGRADE @ '' (bad login frame)'')), LoginDone, s)))"

section \<open>The limit on half-open connections\<close>

text \<open>
  The connections of the accept loop: an address is open from its admission until its task has
  returned, which for a login is the end of the session.
\<close>

datatype preauth_event = PaAccepted ip_addr | PaRefused ip_addr | PaDone ip_addr

inductive preauth_run :: "preauth \<Rightarrow> preauth_event list \<Rightarrow> preauth \<Rightarrow> ip_addr list \<Rightarrow> bool" for p0 where
  pa_start: "preauth_run p0 [] p0 []"
| pa_accept: "preauth_run p0 evs p ips \<Longrightarrow> acquire ip p = (True, p') \<Longrightarrow>
    preauth_run p0 (evs @ [PaAccepted ip]) p' (ip # ips)"
| pa_refuse: "preauth_run p0 evs p ips \<Longrightarrow> acquire ip p = (False, p') \<Longrightarrow>
    preauth_run p0 (evs @ [PaRefused ip]) p' ips"
| pa_done: "preauth_run p0 evs p ips \<Longrightarrow> ip \<in> set ips \<Longrightarrow>
    preauth_run p0 (evs @ [PaDone ip]) (release ip p) (remove1 ip ips)"

definition preauth_counts :: "nat \<Rightarrow> preauth \<Rightarrow> ip_addr list \<Rightarrow> bool" where
  "preauth_counts mx p ips \<longleftrightarrow>
     pa_max_per_ip p = mx \<and> hm_ok (pa_counts p) \<and>
     (\<forall>ip. hm_get (pa_counts p) ip = (if ip \<in> set ips then Some (count_list ips ip) else None)) \<and>
     (\<forall>ip. count_list ips ip \<le> mx)"

lemma count_list_remove1: "count_list (remove1 y xs) x = (if x = y then count_list xs x - 1 else count_list xs x)"
  by (induction xs) (auto simp: count_list_0_iff dest: count_list_0_iff [THEN iffD1])

lemma preauth_counts_run:
  assumes "preauth_run (preauth_new mx) evs p ips" and "0 < mx"
  shows "preauth_counts mx p ips"
  using assms
proof (induction rule: preauth_run.induct)
  case pa_start
  then show ?case by (simp add: preauth_counts_def preauth_new_def)
next
  case (pa_accept evs p ips ip p')
  then show ?case
    by (auto simp: preauth_counts_def acquire_def hm_or_insert_def Let_def count_list_0_iff
             split: if_splits option.splits)
next
  case (pa_refuse evs p ips ip p')
  then show ?case
    by (auto simp: preauth_counts_def acquire_def hm_or_insert_def Let_def split: if_splits option.splits)
next
  case (pa_done evs p ips ip)
  let ?c = "count_list ips ip"
  have pos: "0 < ?c" using pa_done.hyps(2) by (metis count_list_0_iff neq0_conv)
  have IH: "pa_max_per_ip p = mx" "hm_ok (pa_counts p)"
    "\<And>x. hm_get (pa_counts p) x = (if x \<in> set ips then Some (count_list ips x) else None)"
    "\<And>x. count_list ips x \<le> mx"
    using pa_done.IH [OF pa_done.prems] by (auto simp: preauth_counts_def)
  have mem: "x \<in> set (remove1 ip ips) \<longleftrightarrow> x \<in> set ips \<and> (x = ip \<longrightarrow> 1 < ?c)" for x
    using count_list_0_iff [of "remove1 ip ips" x] count_list_0_iff [of ips x]
    by (simp add: count_list_remove1 split: if_splits) linarith
  have rel: "release ip p =
      p\<lparr>pa_counts := (if ?c = 1 then hm_del ip (pa_counts p) else hm_put ip (?c - 1) (pa_counts p))\<rparr>"
    using IH(3) [of ip] pa_done.hyps(2) pos by (simp add: release_def Let_def)
  have "count_list (remove1 ip ips) x \<le> mx" for x
    using IH(4) [of x] by (simp add: count_list_remove1)
  moreover have "hm_get (pa_counts (release ip p)) x =
      (if x \<in> set (remove1 ip ips) then Some (count_list (remove1 ip ips) x) else None)" for x
    unfolding mem rel using IH(3) [of x] pos pa_done.hyps(2) by (auto simp: count_list_remove1)
  ultimately show ?case using IH(1,2) by (simp add: preauth_counts_def rel)
qed

text \<open>
  The limit on connections per address (F-4). In every run of the accept loop with a positive limit,
  the table has exactly one entry per address that has connections between their admission and the
  return of \<^verbatim>\<open>handle_incoming\<close>, its value is their number, and that never exceeds the limit; an
  attempt is refused exactly when the address is at the limit.
\<close>
theorem preauth_exact:
  assumes "preauth_run (preauth_new mx) evs p ips" and "0 < mx"
  shows "hm_get (pa_counts p) ip = (if ip \<in> set ips then Some (count_list ips ip) else None)
       \<and> count_list ips ip \<le> mx
       \<and> (fst (acquire ip p) \<longleftrightarrow> count_list ips ip < mx)"
  using preauth_counts_run [OF assms]
  by (auto simp: preauth_counts_def acquire_def hm_or_insert_def Let_def count_list_0_iff)

theorem preauth_exact_witness:
  "hm_get (pa_counts (snd (acquire (V4 1 2 3 4) (preauth_new 1)))) (V4 1 2 3 4) = Some 1
   \<and> \<not> fst (acquire (V4 1 2 3 4) (snd (acquire (V4 1 2 3 4) (preauth_new 1))))"
proof -
  have "acquire (V4 1 2 3 4) (preauth_new 1) = (True, snd (acquire (V4 1 2 3 4) (preauth_new 1)))"
    by (simp add: acquire_def preauth_new_def hm_or_insert_def)
  from pa_accept [OF pa_start this]
  show ?thesis using preauth_exact [of 1 "[PaAccepted (V4 1 2 3 4)]" _ "[V4 1 2 3 4]" "V4 1 2 3 4"] by simp
qed

end
