(* ===== verification/Relay_Login.thy ===== *)
theory Relay_Login
  imports Relay_Session
begin

text \<open>
  The two halves of a login put together: the client's \<open>authenticate\<close> against the server's
  stretches, each reading what the other wrote.
\<close>

section \<open>One exchange\<close>

text \<open>What one side reads when the other has written a frame, or has sent a message.\<close>

definition frame_read :: "bytes \<Rightarrow> auth_read" where
  "frame_read f = (case read_frame f of Inr ((ty, p), _) \<Rightarrow> FrameRead ty p | Inl e \<Rightarrow> ReadFailed e)"

definition message_read :: "(control_msg \<Rightarrow> string + bytes) \<Rightarrow> control_msg \<Rightarrow> auth_read" where
  "message_read ser m =
     (case encode_control ser m of Inr f \<Rightarrow> frame_read f | Inl e \<Rightarrow> ReadFailed e)"

text \<open>
  The server reads the messages of one connection in order, each in the stretch its login has come to: the
  frames it wrote, the phase it ends in, and its state. Messages after the login are another matter.
\<close>

fun serve_more :: "(bytes \<Rightarrow> bytes \<Rightarrow> bytes) \<Rightarrow> crypto_lib \<Rightarrow> (control_msg \<Rightarrow> string) \<Rightarrow>
    (control_msg \<Rightarrow> string + bytes) \<Rightarrow> (bytes \<Rightarrow> string + control_msg) \<Rightarrow> instant \<Rightarrow> nat \<Rightarrow> nat \<Rightarrow> bytes \<Rightarrow>
    socket_addr \<Rightarrow> control_msg list \<Rightarrow> login_phase \<Rightarrow> server \<Rightarrow> bytes list \<times> login_phase \<times> server" where
  "serve_more hmac cr dbg ser de now sid tx rn addr [] ph s = ([], ph, s)"
| "serve_more hmac cr dbg ser de now sid tx rn addr (m # ms) ph s =
     (case ph of
        AwaitProof login sn cn \<Rightarrow>
          (case proof_arrived hmac dbg ser de now sid tx rn True addr login sn cn (message_read ser m) s of
             (out, ph1, s1) \<Rightarrow>
               (case serve_more hmac cr dbg ser de now sid tx rn addr ms ph1 s1 of (out', r) \<Rightarrow> (out @ out', r)))
      | AwaitRegProof sid' did pub rn' rc \<Rightarrow>
          (case reg_proof_arrived cr ser de now addr sid' did pub rn' rc (message_read ser m) s of
             (out, ph1, s1) \<Rightarrow>
               (case serve_more hmac cr dbg ser de now sid tx rn addr ms ph1 s1 of (out', r) \<Rightarrow> (out @ out', r)))
      | _ \<Rightarrow> ([], ph, s))"

text \<open>
  A connection from its first frame on. What the session's control channel \<open>tx\<close> holds in the end is
  written after what the login wrote itself.
\<close>

definition serve_client :: "(bytes \<Rightarrow> bytes \<Rightarrow> bytes) \<Rightarrow> crypto_lib \<Rightarrow> (control_msg \<Rightarrow> string) \<Rightarrow> (bytes \<Rightarrow> string + login_info) \<Rightarrow>
    (control_msg \<Rightarrow> string + bytes) \<Rightarrow> (bytes \<Rightarrow> string + control_msg) \<Rightarrow> instant \<Rightarrow> nat \<Rightarrow> nat \<Rightarrow> bytes \<Rightarrow> bytes \<Rightarrow>
    socket_addr \<Rightarrow> control_msg list \<Rightarrow> server \<Rightarrow> bytes list \<times> login_phase \<times> server" where
  "serve_client hmac cr dbg leg ser de now sid tx sn rn addr ms s =
     (case ms of
        [] \<Rightarrow> ([], LoginDone, s)
      | m # ms' \<Rightarrow>
          (case message_read ser m of
             FrameRead ty p \<Rightarrow>
               if ty \<noteq> TYPE_CONTROL then ([], LoginDone, s)
               else (case control_first_frame leg ser de now sid tx sn rn True addr p s of
                  (out, ph, s1) \<Rightarrow>
                    (case serve_more hmac cr dbg ser de now sid tx rn addr ms' ph s1 of
                       (out', ph', s2) \<Rightarrow> (out @ out' @ chan_queue tx (sv_chans s2), ph', s2)))
           | _ \<Rightarrow> ([], LoginDone, s)))"

text \<open>
  The conversation. The client is run on the frames the server has written so far, its own messages go to
  the server, and what the server writes for them is what the client is run on next. The client's run
  on more frames sends what it sent before and then more; when there is nothing left to read it waits.
\<close>

definition client_on :: "(bytes \<Rightarrow> bytes \<Rightarrow> bytes) \<Rightarrow> (bytes \<Rightarrow> string + control_msg) \<Rightarrow> string \<Rightarrow> bytes \<Rightarrow> login_fields \<Rightarrow>
    (bytes \<Rightarrow> bytes) option \<Rightarrow> bytes list \<Rightarrow> (client_auth_error + auth_outcome) \<times> auth_io" where
  "client_on hmac de token cn lf signer outs =
     authenticate hmac de (\<lambda>_ _. None) token cn lf signer \<lparr>io_reads = map frame_read outs, io_sent = []\<rparr>"

fun conversation :: "(control_msg list \<Rightarrow> bytes list) \<Rightarrow> (bytes list \<Rightarrow> control_msg list) \<Rightarrow> nat \<Rightarrow> bytes list" where
  "conversation srv cli 0 = []"
| "conversation srv cli (Suc n) = srv (cli (conversation srv cli n))"

text \<open>A message that bincode carries: it encodes, within the frame limit, and decodes to itself.\<close>

definition carried :: "(control_msg \<Rightarrow> string + bytes) \<Rightarrow> (bytes \<Rightarrow> string + control_msg) \<Rightarrow> control_msg \<Rightarrow> bool" where
  "carried ser de m \<longleftrightarrow>
     (case ser m of Inr b \<Rightarrow> length b \<le> 16777216 \<and> de b = Inr m | Inl _ \<Rightarrow> False)"

definition frame_of :: "(control_msg \<Rightarrow> string + bytes) \<Rightarrow> control_msg \<Rightarrow> bytes" where
  "frame_of ser m = (case encode_control ser m of Inr f \<Rightarrow> f | Inl _ \<Rightarrow> [])"

lemma carried_encode:
  assumes "carried ser de m"
  shows "encode_control ser m = Inr (frame_of ser m)"
    and "decoded de (frame_read (frame_of ser m)) m"
    and "\<exists>p. frame_read (frame_of ser m) = FrameRead TYPE_CONTROL p \<and> decode_control de TYPE_CONTROL p = Inr m"
proof -
  obtain b where b: "ser m = Inr b" "length b \<le> 16777216" "de b = Inr m"
    using assms by (auto simp: carried_def split: sum.splits)
  have f: "encode_control ser m = Inr (wrap_frame TYPE_CONTROL b)"
    using b by (simp add: encode_control_def)
  then show "encode_control ser m = Inr (frame_of ser m)" by (simp add: frame_of_def)
  have "frame_ok TYPE_CONTROL b" using b by (simp add: frame_ok_def is_known_type_def)
  from read_wrap_frame [OF this, of "[]"]
  have "frame_read (frame_of ser m) = FrameRead TYPE_CONTROL b"
    using f by (simp add: frame_of_def frame_read_def)
  then show "decoded de (frame_read (frame_of ser m)) m"
    "\<exists>p. frame_read (frame_of ser m) = FrameRead TYPE_CONTROL p \<and> decode_control de TYPE_CONTROL p = Inr m"
    using b by (auto simp: decoded_def decode_control_def)
qed

lemma carried_message_read:
  assumes "carried ser de m"
  shows "\<exists>p. message_read ser m = FrameRead TYPE_CONTROL p \<and> decode_control de TYPE_CONTROL p = Inr m"
  using carried_encode(1,3) [OF assms] by (simp add: message_read_def)

section \<open>The client against given answers\<close>

text \<open>The client's run, from the messages it decodes.\<close>

lemma read_control_cons:
  assumes "decoded de r m" and "io_reads io = r # rs"
  shows "read_control de what io = (Inr m, io\<lparr>io_reads := rs\<rparr>)"
  using assms by (auto simp: read_control_Inr)

lemma auth_send_ok [simp]: "auth_send (\<lambda>_ _. None) m io = (Inr (), io\<lparr>io_sent := io_sent io @ [m]\<rparr>)"
  by (simp add: auth_send_def)

lemma abind_ok: "m io = (Inr x, io') \<Longrightarrow> abind m f io = f x io'"
  by (simp add: abind_def)

lemma read_control_nothing:
  "io_reads io = [] \<Longrightarrow> read_control de what io = (Inl (AuthTimeout what), io)"
  by (simp add: read_control_def read_auth_frame_def abind_def)

text \<open>What the client has sent when it has read no frame, the challenge, and the registration challenge.\<close>

lemmas client_steps = authenticate_def abind_def aret_def athrow_def auth_first_def auth_last_def server_digest_def
  client_digest_def auth_digest_def send_reg_proof_def login_failed_def read_control_nothing

lemma client_sends:
  assumes "decoded de r1 (AuthChallenge sn)" and "token \<noteq> []"
  shows "io_sent (snd (authenticate hmac de (\<lambda>_ _. None) token cn lf signer \<lparr>io_reads = [], io_sent = []\<rparr>))
           = [login_msg lf (Some cn) None]"
    and "io_sent (snd (authenticate hmac de (\<lambda>_ _. None) token cn lf signer \<lparr>io_reads = [r1], io_sent = []\<rparr>))
           = [login_msg lf (Some cn) None, login_msg lf (Some cn) (Some (hmac (str_bytes token) (sn @ cn)))]"
  using assms(2) by (simp_all add: client_steps read_control_cons [OF assms(1)])

lemma client_challenged_device:
  fixes sign :: "bytes \<Rightarrow> bytes"
  assumes "decoded de r1 (AuthChallenge sn)" and "decoded de r2 (RegChallenge rn)"
    and "decoded de r3 (LoginResp True err v (Some (hmac (str_bytes token) cn)))"
    and "token \<noteq> []" and "lf_device_id lf = Some did" and "lf_ed25519_pub lf = Some pub"
  defines "sent \<equiv> [login_msg lf (Some cn) None, login_msg lf (Some cn) (Some (hmac (str_bytes token) (sn @ cn))),
      RegProof did pub (sign (registration_proof_payload rn (str_bytes did) (str_bytes pub)))]"
  shows "io_sent (snd (authenticate hmac de (\<lambda>_ _. None) token cn lf (Some sign) \<lparr>io_reads = [r1, r2], io_sent = []\<rparr>)) = sent"
    and "authenticate hmac de (\<lambda>_ _. None) token cn lf (Some sign)
           \<lparr>io_reads = [r1, r2, r3], io_sent = []\<rparr> = (Inr Challenged, \<lparr>io_reads = [], io_sent = sent\<rparr>)"
  using assms(4-6)
  by (simp_all add: client_steps sent_def read_control_cons [OF assms(1)] read_control_cons [OF assms(2)]
      read_control_cons [OF assms(3)])

lemma client_rejected:
  assumes "decoded de r1 (AuthChallenge sn)" and "decoded de r2 (LoginResp False (Some e) v d)" and "token \<noteq> []"
  shows "authenticate hmac de (\<lambda>_ _. None) token cn lf signer \<lparr>io_reads = [r1, r2], io_sent = []\<rparr>
       = (Inl (LoginRejected e), \<lparr>io_reads = [], io_sent = [login_msg lf (Some cn) None,
            login_msg lf (Some cn) (Some (hmac (str_bytes token) (sn @ cn)))]\<rparr>)"
  using assms(3)
  by (simp add: client_steps read_control_cons [OF assms(1)] read_control_cons [OF assms(2)])

section \<open>The server against given messages\<close>

text \<open>What the server needs for the login to get past its first checks.\<close>

definition admits :: "instant \<Rightarrow> socket_addr \<Rightarrow> login_fields \<Rightarrow> server \<Rightarrow> bool" where
  "admits now addr lf s \<longleftrightarrow>
     fst (check_connect now (sa_ip addr) (sv_rate_limiter s)) = Allowed \<and>
     major_version (lf_version lf) = major_version PROTOCOL_VERSION \<and>
     cfg_token (sv_cfg s) \<noteq> []"

lemma probe_answer:
  assumes "admits now addr lf s" and "carried ser de (AuthChallenge sn)"
    and "login_of (login_msg lf (Some cn) None) = Some login"
  shows "handle_login ser now sid tx sn rn True addr login s =
    ([frame_of ser (AuthChallenge sn)], AwaitProof login sn cn,
     s\<lparr>sv_rate_limiter := snd (check_connect now (sa_ip addr) (sv_rate_limiter s))\<rparr>)"
proof -
  obtain rl where "check_connect now (sa_ip addr) (sv_rate_limiter s) = (Allowed, rl)"
    using assms(1) by (metis admits_def prod.collapse)
  then show ?thesis
    using assms(1,3) carried_encode(1) [OF assms(2)]
    by (auto simp: handle_login_def challenge_login_def login_msg_def admits_def Let_def)
qed

lemma proof_answer:
  assumes "carried ser de (login_msg lf (Some cn) (Some d))"
  shows "proof_arrived hmac dbg ser de now sid tx rn w addr login sn cn
      (message_read ser (login_msg lf (Some cn) (Some d))) s =
     (let token = str_bytes (cfg_token (sv_cfg s))
      in if d \<noteq> hmac token (sn @ cn) then reject_login ser now addr ''invalid auth digest'' s
         else start_session ser now sid tx rn w addr (li_hostname login) (li_device_id login)
                (li_ed25519_pub login) (Some (hmac token cn)) s)"
proof -
  obtain p where "message_read ser (login_msg lf (Some cn) (Some d)) = FrameRead TYPE_CONTROL p"
    "decode_control de TYPE_CONTROL p = Inr (login_msg lf (Some cn) (Some d))"
    using carried_message_read [OF assms] by blast
  then show ?thesis
    by (simp add: proof_arrived_def login_msg_def client_digest_def server_digest_def auth_digest_def Let_def)
qed

text \<open>The server on the client's first message alone, and on more.\<close>

lemma serve_first:
  assumes "admits now addr lf s" and "carried ser de (AuthChallenge sn)" and "carried ser de (login_msg lf (Some cn) None)"
    and "login_of (login_msg lf (Some cn) None) = Some login"
  defines "s1 \<equiv> s\<lparr>sv_rate_limiter := snd (check_connect now (sa_ip addr) (sv_rate_limiter s))\<rparr>"
  shows "serve_client hmac cr dbg leg ser de now sid tx sn rn addr (login_msg lf (Some cn) None # ms) s =
    (case serve_more hmac cr dbg ser de now sid tx rn addr ms (AwaitProof login sn cn) s1 of
       (out, ph, s2) \<Rightarrow> (frame_of ser (AuthChallenge sn) # out @ chan_queue tx (sv_chans s2), ph, s2))"
proof -
  obtain p where "message_read ser (login_msg lf (Some cn) None) = FrameRead TYPE_CONTROL p"
    "decode_control de TYPE_CONTROL p = Inr (login_msg lf (Some cn) None)"
    using carried_message_read [OF assms(3)] by blast
  then show ?thesis
    using assms(4) probe_answer [OF assms(1,2,4)]
    by (simp add: serve_client_def control_first_frame_def s1_def split: prod.split)
qed

text \<open>
  A wrong password gets nowhere and is counted. A client whose digest differs from the one under
  the server's password is answered with a refusal that it reports as such, no session is opened
  and no device registered, the attempt is in the audit log, and the address's failure count goes
  up in the limiter that bans it.
\<close>
theorem wrong_password_counted:
  assumes "admits now addr lf s" and "token \<noteq> []"
    and "hmac (str_bytes token) (sn @ cn) \<noteq> hmac (str_bytes (cfg_token (sv_cfg s))) (sn @ cn)"
    and "carried ser de (AuthChallenge sn)" and "carried ser de (login_msg lf (Some cn) None)"
    and "carried ser de (login_msg lf (Some cn) (Some (hmac (str_bytes token) (sn @ cn))))"
    and "carried ser de (LoginResp False (Some ''invalid auth digest'') PROTOCOL_VERSION None)"
    and "hm_get (sv_chans s) tx = None"
  shows "\<exists>outs io s'.
    (let cli = client_on hmac de token cn lf signer; srv = \<lambda>ms. serve_client hmac cr dbg leg ser de now sid tx sn rn addr ms s
     in conversation (fst \<circ> srv) (io_sent \<circ> snd \<circ> cli) 2 = outs
      \<and> cli outs = (Inl (LoginRejected ''invalid auth digest''), io) \<and> srv (io_sent io) = (outs, LoginDone, s')
      \<and> sv_sessions s' = sv_sessions s \<and> sv_registry s' = sv_registry s
      \<and> sv_audit s' = sv_audit s @ [LoginFailed addr ''invalid auth digest'']
      \<and> sv_rate_limiter s' = record_handshake_failure now (sa_ip addr)
           (snd (check_connect now (sa_ip addr) (sv_rate_limiter s))))"
proof -
  let ?no = "LoginResp False (Some ''invalid auth digest'') PROTOCOL_VERSION None"
  let ?first = "login_msg lf (Some cn) None"
  let ?proof = "login_msg lf (Some cn) (Some (hmac (str_bytes token) (sn @ cn)))"
  let ?outs = "[frame_of ser (AuthChallenge sn), frame_of ser ?no]"
  have refuse: "login_refusal ser (Some ''invalid auth digest'') = [frame_of ser ?no]"
    using carried_encode(1) [OF assms(7)] by (simp add: login_refusal_def)
  obtain login where login: "login_of ?first = Some login" by (simp add: login_msg_def)
  note serve = serve_first [OF assms(1,4,5) login, of hmac cr dbg leg sid tx rn]
  define s1 where "s1 = s\<lparr>sv_rate_limiter := snd (check_connect now (sa_ip addr) (sv_rate_limiter s))\<rparr>"
  define s' where "s' = (audit (LoginFailed addr ''invalid auth digest'') s1)\<lparr>sv_rate_limiter :=
       record_handshake_failure now (sa_ip addr) (sv_rate_limiter s1)\<rparr>"
  have one: "fst (serve_client hmac cr dbg leg ser de now sid tx sn rn addr [?first] s) = [frame_of ser (AuthChallenge sn)]"
    using assms(8) by (simp add: serve chan_queue_def)
  have two: "serve_client hmac cr dbg leg ser de now sid tx sn rn addr [?first, ?proof] s = (?outs, LoginDone, s')"
    unfolding serve using assms(3,8)
    by (simp add: Let_def proof_answer [OF assms(6)] reject_login_def refuse audit_def chan_queue_def s'_def s1_def)
  note dec = carried_encode(2) [OF assms(4)] carried_encode(2) [OF assms(7)]
  show ?thesis
    unfolding Let_def numeral_2_eq_2
    by (rule exI [of _ ?outs], rule exI [of _ "\<lparr>io_reads = [], io_sent = [?first, ?proof]\<rparr>"], rule exI [of _ s'], intro conjI)
       (simp_all add: client_on_def client_sends [OF dec(1) assms(2)] client_rejected [OF dec assms(2)] one two,
        simp_all add: s'_def s1_def audit_def)
qed

text \<open>
  C13. The login of a device completes. The client is run on what the server writes and the server on what
  the client sends, until there is nothing more to say. Assume that the two have the same password and
  it is not empty; the client's version has the server's major number; the limiter admits the address
  and there is room for a session; the identifier is a valid one, no other key holds it, and the
  signer's signature over the server's nonce verifies under the device's key; the session's control
  channel is a fresh one; and bincode carries each of the messages. Then after three messages of each
  side the client has ended with \<^verbatim>\<open>Challenged\<close> and the server has the session in its table, and the
  device is online under its key, reachable through the session's control channel.
\<close>
theorem login_completes:
  assumes "admits now addr lf s" and "cfg_token (sv_cfg s) = token"
    and "lf_device_id lf = Some did" and "lf_ed25519_pub lf = Some pub"
    and "length (sv_sessions s) < cfg_max_sessions (sv_cfg s)"
    and "validate_device_id did"
    and "case hm_get (reg_devices (sv_registry s)) did of Some e \<Rightarrow> de_ed25519_pub e = pub | None \<Rightarrow> True"
    and "verify_registration_proof cr did pub rn
           (sign (registration_proof_payload rn (str_bytes did) (str_bytes pub))) = Inr ()"
    and "carried ser de (AuthChallenge sn)" and "carried ser de (RegChallenge rn)"
    and "carried ser de (login_msg lf (Some cn) None)"
    and "carried ser de (login_msg lf (Some cn) (Some (hmac (str_bytes token) (sn @ cn))))"
    and "carried ser de (RegProof did pub (sign (registration_proof_payload rn (str_bytes did) (str_bytes pub))))"
    and "carried ser de (LoginResp True None PROTOCOL_VERSION (Some (hmac (str_bytes token) cn)))"
    and "hm_get (sv_chans s) tx = None"
  shows "\<exists>outs io s'.
    (let cli = client_on hmac de token cn lf (Some sign);
         srv = \<lambda>ms. serve_client hmac cr dbg leg ser de now sid tx sn rn addr ms s
     in conversation (fst \<circ> srv) (io_sent \<circ> snd \<circ> cli) 3 = outs \<and> length outs = 3 \<and> length (io_sent io) = 3
      \<and> cli outs = (Inr Challenged, io) \<and> srv (io_sent io) = (outs, InSession sid, s') \<and> sid \<in> set (sv_sessions s')
      \<and> (\<exists>e. hm_get (reg_devices (sv_registry s')) did = Some e \<and> de_ed25519_pub e = pub \<and> de_ctrl_tx e = tx))"
proof -
  let ?payload = "registration_proof_payload rn (str_bytes did) (str_bytes pub)"
  let ?yes = "LoginResp True None PROTOCOL_VERSION (Some (hmac (str_bytes token) cn))"
  let ?first = "login_msg lf (Some cn) None"
  let ?proof = "login_msg lf (Some cn) (Some (hmac (str_bytes token) (sn @ cn)))"
  let ?reg = "RegProof did pub (sign ?payload)"
  let ?s1 = "s\<lparr>sv_rate_limiter := snd (check_connect now (sa_ip addr) (sv_rate_limiter s))\<rparr>"
  let ?outs = "[frame_of ser (AuthChallenge sn), frame_of ser (RegChallenge rn), frame_of ser ?yes]"
  obtain login where login: "login_of ?first = Some login"
    and fields: "li_device_id login = Some did" "li_ed25519_pub login = Some pub"
    using assms(3,4) by (simp add: login_msg_def)
  note serve = serve_first [OF assms(1,9,11) login, of hmac cr dbg leg sid tx rn]
  define s2 where "s2 = (audit (LoginSuccess addr (li_hostname login))
     (?s1\<lparr>sv_rate_limiter := reset (sa_ip addr) (sv_rate_limiter ?s1)\<rparr>))
       \<lparr>sv_objs := hm_put sid (new_session now sid tx addr) (sv_objs s),
        sv_chans := hm_put tx \<lparr>ch_open = True, ch_queue = []\<rparr> (sv_chans s),
        sv_sessions := sid # sv_sessions s\<rparr>"
  have start: "start_session ser now sid tx rn True addr (li_hostname login) (Some did) (Some pub)
      (Some (hmac (str_bytes token) cn)) ?s1
    = ([frame_of ser (RegChallenge rn)],
       AwaitRegProof sid did (Some pub) rn (Some (hmac (str_bytes token) cn)), s2)"
    using assms(5) carried_encode(1) [OF assms(10)] by (simp add: start_session_def s2_def audit_def Let_def)
  obtain p where "message_read ser ?reg = FrameRead TYPE_CONTROL p" "decode_control de TYPE_CONTROL p = Inr ?reg"
    using carried_message_read [OF assms(13)] by blast
  then have rproof: "reg_proof_of de did (Some pub) (message_read ser ?reg) = Some (pub, sign ?payload)"
    by (simp add: reg_proof_of_def)
  have regs: "sv_registry s2 = sv_registry s" by (simp add: s2_def audit_def)
  obtain out reg where reg: "register_with_proof cr now did pub addr tx rn (sign ?payload) (sv_registry s2) = (Inr out, reg)"
    and dev: "\<exists>e. hm_get (reg_devices reg) did = Some e \<and> de_ed25519_pub e = pub \<and> de_ctrl_tx e = tx"
    using assms(6-8)
    by (cases "hm_get (reg_devices (sv_registry s)) did") (auto simp: register_with_proof_eq register_def regs)
  define s3 where "s3 = audit (DeviceRegistered addr did)
     (upd_session sid (\<lambda>c. c\<lparr>cs_device_id := Some did\<rparr>) (s2\<lparr>sv_registry := reg\<rparr>))"
  have s3: "sv_chans s3 = sv_chans s2" "sv_registry s3 = reg" "sv_sessions s3 = sid # sv_sessions s"
    "\<exists>c. hm_get (sv_objs s3) sid = Some c \<and> cs_control_tx c = tx"
    by (auto simp: s3_def s2_def audit_def upd_session_def new_session_def)
  have chans: "chan_live tx (sv_chans s3)" "chan_queue tx (sv_chans s3) = []"
    by (simp_all add: s3 s2_def chan_live_def chan_queue_def)
  define s' where "s' = s3\<lparr>sv_chans := chan_send_ignore tx (frame_of ser ?yes) (sv_chans s3)\<rparr>"
  have accept: "accept_login ser sid (Some (hmac (str_bytes token) cn)) s3 = ([], InSession sid, s')"
    using s3(4) chans(1) carried_encode(1) [OF assms(14)]
    by (auto simp: accept_login_def chan_send_Some s'_def split: option.splits)
       (metis chan_send_None option.distinct(1))
  have tx: "(case hm_get (sv_objs s2) sid of Some c \<Rightarrow> cs_control_tx c | None \<Rightarrow> 0) = tx"
    by (simp add: s2_def new_session_def)
  have arrived: "reg_proof_arrived cr ser de now addr sid did (Some pub) rn (Some (hmac (str_bytes token) cn))
      (message_read ser ?reg) s2 = ([], InSession sid, s')"
    by (simp add: reg_proof_arrived_def rproof tx reg accept [unfolded s3_def] Let_def)
  have one: "fst (serve_client hmac cr dbg leg ser de now sid tx sn rn addr [?first] s) = [frame_of ser (AuthChallenge sn)]"
    using assms(15) by (simp add: serve chan_queue_def)
  have two: "fst (serve_client hmac cr dbg leg ser de now sid tx sn rn addr [?first, ?proof] s)
      = [frame_of ser (AuthChallenge sn), frame_of ser (RegChallenge rn)]"
    using assms(2) chans(2) by (simp add: serve Let_def proof_answer [OF assms(12)] fields start s3(1))
  have three: "serve_client hmac cr dbg leg ser de now sid tx sn rn addr [?first, ?proof, ?reg] s = (?outs, InSession sid, s')"
    using assms(2) chans
    by (simp add: serve Let_def proof_answer [OF assms(12)] fields start arrived chan_send_ignore_queue s'_def)
  have "token \<noteq> []" using assms(1,2) by (simp add: admits_def)
  note dec = carried_encode(2) [OF assms(9)] carried_encode(2) [OF assms(10)] carried_encode(2) [OF assms(14)]
  note cli = client_sends [OF dec(1) \<open>token \<noteq> []\<close>] client_challenged_device [where hmac = hmac and token = token and cn = cn, OF dec \<open>token \<noteq> []\<close> assms(3,4)]
  show ?thesis
    unfolding Let_def numeral_3_eq_3
    by (rule exI [of _ ?outs], rule exI [of _ "\<lparr>io_reads = [], io_sent = [?first, ?proof, ?reg]\<rparr>"], rule exI [of _ s'], intro conjI)
       (simp_all add: client_on_def cli one two three, simp_all add: s'_def s3 dev)
qed

section \<open>What a login leads to\<close>

lemma cfg_audit [simp, frame_simps]: "sv_cfg (audit e s) = sv_cfg s"
  by (simp add: audit_def)

lemma cfg_upd_session [simp, frame_simps]: "sv_cfg (upd_session sid f s) = sv_cfg s"
  by (simp add: upd_session_def split: option.split)

lemma cfg_drop_session [simp, frame_simps]: "sv_cfg (drop_session sid s) = sv_cfg s"
  by (simp add: drop_session_def)

lemma reject_login_phase:
  "reject_login ser now addr reason s = (out, ph, s') \<Longrightarrow> ph = LoginDone \<and> sv_cfg s' = sv_cfg s"
  by (auto simp: reject_login_def Let_def)

lemma refuse_device_phase:
  "refuse_device ser sid err s = (out, ph, s') \<Longrightarrow> ph = LoginDone \<and> sv_cfg s' = sv_cfg s"
  by (auto simp: refuse_device_def split: if_splits)

lemma accept_login_phase:
  "accept_login ser sid receipt s = (out, ph, s') \<Longrightarrow>
     (ph = LoginDone \<or> ph = InSession sid) \<and> sv_cfg s' = sv_cfg s"
  by (auto simp: accept_login_def split: sum.splits option.splits)

lemma start_session_phase:
  assumes "start_session ser now sid tx rn w addr host did pub receipt s = (out, ph, s')"
  shows "(ph = LoginDone \<or> ph = InSession sid \<or> (\<exists>d. ph = AwaitRegProof sid d pub rn receipt)) \<and> sv_cfg s' = sv_cfg s"
  using assms
  by (auto simp: start_session_def Let_def dest!: reject_login_phase accept_login_phase
           split: if_splits option.splits sum.splits)

lemma handle_login_phase:
  assumes "handle_login ser now sid tx sn rn w addr login s = (out, ph, s')"
  shows "sv_cfg s' = sv_cfg s \<and>
    (cfg_token (sv_cfg s) \<noteq> [] \<longrightarrow>
       ph = LoginDone \<or> (\<exists>cn. ph = AwaitProof login sn cn \<and> li_auth_nonce login = Some cn \<and>
                            li_token login = [] \<and> li_auth_digest login = None))"
  using assms
  by (auto simp: handle_login_def challenge_login_def Let_def
           dest!: reject_login_phase start_session_phase
           split: prod.splits if_splits option.splits sum.splits)

definition presents :: "(bytes \<Rightarrow> string + control_msg) \<Rightarrow> auth_read \<Rightarrow> bytes \<Rightarrow> bool" where
  "presents de r d = (\<exists>t v h di pb n. decoded de r (Login t v h di pb n (Some d)))"

lemma proof_arrived_phase:
  assumes "proof_arrived hmac dbg ser de now sid tx rn w addr login sn cn r s = (out, ph, s')"
  shows "sv_cfg s' = sv_cfg s \<and>
    (ph = LoginDone \<or> presents de r (hmac (str_bytes (cfg_token (sv_cfg s))) (sn @ cn)) \<and>
       (ph = InSession sid \<or> (\<exists>d rc. ph = AwaitRegProof sid d (li_ed25519_pub login) rn rc)))"
proof (cases r)
  case (FrameRead ty payload)
  show ?thesis
  proof (cases "decode_control de ty payload")
    case (Inr m)
    show ?thesis
    proof (cases m)
      case (Login t v h di pb n digest)
      show ?thesis
        using assms FrameRead Inr Login
        by (cases digest)
           (auto simp: proof_arrived_def presents_def decoded_def client_digest_def auth_digest_def Let_def
                 dest!: reject_login_phase start_session_phase split: if_splits)
    qed (use assms FrameRead Inr in \<open>auto simp: proof_arrived_def dest!: reject_login_phase\<close>)
  qed (use assms FrameRead in \<open>auto simp: proof_arrived_def dest!: reject_login_phase\<close>)
qed (use assms in \<open>auto simp: proof_arrived_def\<close>)

lemma reg_proof_arrived_phase:
  assumes "reg_proof_arrived cr ser de now addr sid did pub rn rc r s = (out, ph, s')"
  shows "sv_cfg s' = sv_cfg s \<and> (ph = LoginDone \<or> ph = InSession sid)"
  using assms
  by (auto simp: reg_proof_arrived_def Let_def dest!: refuse_device_phase accept_login_phase
           split: option.splits prod.splits sum.splits registry_error.splits)

text \<open>
  All logins of a server together: every connection is in a phase, its stretches interleave with
  those of the others, and the rest of the server may do anything to the state but change the
  configuration.
\<close>

record login_sys =
  lg_srv :: server
  lg_conns :: "(nat, socket_addr \<times> login_phase) hmap"

datatype login_event =
    LgFirst nat socket_addr login_info bytes
  | LgRead nat auth_read
  | LgOther

inductive login_step :: "(bytes \<Rightarrow> bytes \<Rightarrow> bytes) \<Rightarrow> crypto_lib \<Rightarrow> (control_msg \<Rightarrow> string) \<Rightarrow>
    (control_msg \<Rightarrow> string + bytes) \<Rightarrow> (bytes \<Rightarrow> string + control_msg) \<Rightarrow>
    login_sys \<Rightarrow> login_event \<Rightarrow> login_sys \<Rightarrow> bool" for hmac cr dbg ser de where
  lg_first:
    "hm_get (lg_conns s) conn = None \<Longrightarrow>
     handle_login ser now sid tx sn rn w addr login (lg_srv s) = (out, ph, srv) \<Longrightarrow>
     login_step hmac cr dbg ser de s (LgFirst conn addr login sn)
       (s\<lparr>lg_srv := srv, lg_conns := hm_put conn (addr, ph) (lg_conns s)\<rparr>)"
| lg_proof:
    "hm_get (lg_conns s) conn = Some (addr, AwaitProof login sn cn) \<Longrightarrow>
     proof_arrived hmac dbg ser de now sid tx rn w addr login sn cn r (lg_srv s) = (out, ph, srv) \<Longrightarrow>
     login_step hmac cr dbg ser de s (LgRead conn r)
       (s\<lparr>lg_srv := srv, lg_conns := hm_put conn (addr, ph) (lg_conns s)\<rparr>)"
| lg_reg:
    "hm_get (lg_conns s) conn = Some (addr, AwaitRegProof sid did pub rn rc) \<Longrightarrow>
     reg_proof_arrived cr ser de now addr sid did pub rn rc r (lg_srv s) = (out, ph, srv) \<Longrightarrow>
     login_step hmac cr dbg ser de s (LgRead conn r)
       (s\<lparr>lg_srv := srv, lg_conns := hm_put conn (addr, ph) (lg_conns s)\<rparr>)"
| lg_other:
    "sv_cfg srv = sv_cfg (lg_srv s) \<Longrightarrow> login_step hmac cr dbg ser de s LgOther (s\<lparr>lg_srv := srv\<rparr>)"

inductive login_run :: "(bytes \<Rightarrow> bytes \<Rightarrow> bytes) \<Rightarrow> crypto_lib \<Rightarrow> (control_msg \<Rightarrow> string) \<Rightarrow>
    (control_msg \<Rightarrow> string + bytes) \<Rightarrow> (bytes \<Rightarrow> string + control_msg) \<Rightarrow>
    login_sys \<Rightarrow> login_event list \<Rightarrow> login_sys \<Rightarrow> bool" for hmac cr dbg ser de s0 where
  lr_nil: "login_run hmac cr dbg ser de s0 [] s0"
| lr_snoc: "login_run hmac cr dbg ser de s0 evs s \<Longrightarrow> login_step hmac cr dbg ser de s ev s' \<Longrightarrow>
    login_run hmac cr dbg ser de s0 (evs @ [ev]) s'"

text \<open>The events that a connection past the challenge must have left behind.\<close>

definition proved_login :: "(bytes \<Rightarrow> bytes \<Rightarrow> bytes) \<Rightarrow> (bytes \<Rightarrow> string + control_msg) \<Rightarrow> string \<Rightarrow> nat \<Rightarrow>
    login_event list \<Rightarrow> bool" where
  "proved_login hmac de token conn evs \<longleftrightarrow>
     (\<exists>addr login sn cn r. LgFirst conn addr login sn \<in> set evs \<and> li_auth_nonce login = Some cn \<and>
        li_token login = [] \<and> li_auth_digest login = None \<and> LgRead conn r \<in> set evs \<and>
        presents de r (hmac (str_bytes token) (sn @ cn)))"

lemma proved_loginI:
  "LgFirst conn addr login sn \<in> set evs \<Longrightarrow> li_auth_nonce login = Some cn \<Longrightarrow> li_token login = [] \<Longrightarrow>
   li_auth_digest login = None \<Longrightarrow> LgRead conn r \<in> set evs \<Longrightarrow>
   presents de r (hmac (str_bytes token) (sn @ cn)) \<Longrightarrow> proved_login hmac de token conn evs"
  unfolding proved_login_def by blast

lemma proved_login_mono:
  assumes "proved_login hmac de token conn evs" and "set evs \<subseteq> set evs'"
  shows "proved_login hmac de token conn evs'"
  using assms unfolding proved_login_def by (elim exE conjE) (intro exI conjI, auto)

definition phase_explained :: "(bytes \<Rightarrow> bytes \<Rightarrow> bytes) \<Rightarrow> (bytes \<Rightarrow> string + control_msg) \<Rightarrow> string \<Rightarrow> nat \<Rightarrow>
    login_phase \<Rightarrow> login_event list \<Rightarrow> bool" where
  "phase_explained hmac de token conn ph evs \<longleftrightarrow>
     (case ph of
        LoginDone \<Rightarrow> True
      | AwaitProof login sn cn \<Rightarrow>
          (\<exists>addr. LgFirst conn addr login sn \<in> set evs) \<and> li_auth_nonce login = Some cn \<and>
          li_token login = [] \<and> li_auth_digest login = None
      | _ \<Rightarrow> proved_login hmac de token conn evs)"

lemma phase_explained_mono:
  "phase_explained hmac de token conn ph evs \<Longrightarrow> phase_explained hmac de token conn ph (evs @ [ev])"
  using proved_login_mono [of hmac de token conn evs "evs @ [ev]"]
  by (cases ph) (auto simp: phase_explained_def)

lemma login_run_explained:
  assumes "login_run hmac cr dbg ser de s0 evs s" and "lg_conns s0 = []"
    and "cfg_token (sv_cfg (lg_srv s0)) = token" and "token \<noteq> []"
  shows "cfg_token (sv_cfg (lg_srv s)) = token \<and>
    (\<forall>conn addr ph. hm_get (lg_conns s) conn = Some (addr, ph) \<longrightarrow> phase_explained hmac de token conn ph evs)"
  using assms
proof (induction rule: login_run.induct)
  case lr_nil
  then show ?case by simp
next
  case (lr_snoc evs s ev s')
  have tok: "cfg_token (sv_cfg (lg_srv s)) = token"
    and IH: "\<And>conn addr ph. hm_get (lg_conns s) conn = Some (addr, ph) \<Longrightarrow> phase_explained hmac de token conn ph evs"
    using lr_snoc by auto
  have old: "\<And>conn addr ph. hm_get (lg_conns s) conn = Some (addr, ph) \<Longrightarrow>
      phase_explained hmac de token conn ph (evs @ [ev])"
    using IH phase_explained_mono by blast
  from lr_snoc.hyps(2) show ?case
  proof cases
    case (lg_first conn now sid tx sn rn w addr login out ph srv)
    from handle_login_phase [OF lg_first(4)] tok lr_snoc.prems(3)
    have "sv_cfg srv = sv_cfg (lg_srv s)" "phase_explained hmac de token conn ph (evs @ [ev])"
      unfolding lg_first(1) by (auto simp: phase_explained_def)
    then show ?thesis using old tok unfolding lg_first(2) by auto
  next
    case (lg_proof conn addr login sn cn now sid tx rn w r out ph srv)
    have expl: "(\<exists>a. LgFirst conn a login sn \<in> set evs) \<and> li_auth_nonce login = Some cn \<and>
          li_token login = [] \<and> li_auth_digest login = None"
      using IH [OF lg_proof(3)] by (simp add: phase_explained_def)
    from proof_arrived_phase [OF lg_proof(4)] tok
    have cfg: "sv_cfg srv = sv_cfg (lg_srv s)"
      and ph: "ph = LoginDone \<or> presents de r (hmac (str_bytes token) (sn @ cn)) \<and>
       (ph = InSession sid \<or> (\<exists>d rc. ph = AwaitRegProof sid d (li_ed25519_pub login) rn rc))" by auto
    have "presents de r (hmac (str_bytes token) (sn @ cn)) \<Longrightarrow> proved_login hmac de token conn (evs @ [ev])"
      unfolding lg_proof(1) using expl by (auto intro: proved_loginI)
    with ph have "phase_explained hmac de token conn ph (evs @ [ev])"
      by (auto simp: phase_explained_def)
    then show ?thesis using old tok cfg unfolding lg_proof(2) by auto
  next
    case (lg_reg conn addr sid did pub rn rc now r out ph srv)
    have "proved_login hmac de token conn evs"
      using IH [OF lg_reg(3)] by (simp add: phase_explained_def)
    then have "proved_login hmac de token conn (evs @ [ev])" by (rule proved_login_mono) auto
    with reg_proof_arrived_phase [OF lg_reg(4)]
    have "sv_cfg srv = sv_cfg (lg_srv s)" "phase_explained hmac de token conn ph (evs @ [ev])"
      by (auto simp: phase_explained_def)
    then show ?thesis using old tok unfolding lg_reg(2) by auto
  next
    case (lg_other srv)
    then show ?thesis using old tok by auto
  qed
qed

text \<open>
  C12. No session without the password (TNL-SEC-006, 007). On a server with a password, whatever the
  connections send and however their logins interleave with each other and with the rest of the
  server: a connection that is in a session, or that has got as far as the registration challenge,
  has sent a first login frame with a nonce, no password and no digest, and later a proof frame
  whose digest is the HMAC, under the password, of the nonce the server drew for this connection
  and the connection's own.
\<close>
theorem login_needs_password:
  assumes "login_run hmac cr dbg ser de s0 evs s" and "lg_conns s0 = []"
    and "cfg_token (sv_cfg (lg_srv s0)) \<noteq> []"
    and "hm_get (lg_conns s) conn = Some (addr, ph)"
    and "ph = InSession sid \<or> ph = AwaitRegProof sid did pub rn rc"
  shows "proved_login hmac de (cfg_token (sv_cfg (lg_srv s0))) conn evs"
proof -
  have "phase_explained hmac de (cfg_token (sv_cfg (lg_srv s0))) conn ph evs"
    using login_run_explained [OF assms(1,2) refl assms(3)] assms(4) by blast
  then show ?thesis using assms(5) by (auto simp: phase_explained_def)
qed

section \<open>An example\<close>

text \<open>A codec on the messages of one login, by number.\<close>

definition demo_token :: string where "demo_token = ''pw''"

definition demo_lf :: login_fields where
  "demo_lf = \<lparr>lf_version = ''2.1.0'', lf_hostname = ''pc'', lf_device_id = Some ''pc'', lf_ed25519_pub = Some ''k''\<rparr>"

definition demo_login_msgs :: "control_msg list" where
  "demo_login_msgs =
     [AuthChallenge [7], RegChallenge [8], login_msg demo_lf (Some [5]) None,
      login_msg demo_lf (Some [5]) (Some (demo_hmac (str_bytes demo_token) [7, 5])),
      login_msg demo_lf (Some [5]) (Some (demo_hmac (str_bytes ''no'') [7, 5])),
      RegProof ''pc'' ''k'' demo_sig,
      LoginResp True None PROTOCOL_VERSION (Some (demo_hmac (str_bytes demo_token) [5])),
      LoginResp False (Some ''invalid auth digest'') PROTOCOL_VERSION None]"

definition demo_login_ser :: "control_msg \<Rightarrow> string + bytes" where
  "demo_login_ser m =
     (case find (\<lambda>(x, _). x = m) (zip demo_login_msgs [1, 2, 3, 4, 5, 6, 7, 8]) of
        Some (_, b) \<Rightarrow> Inr [b] | None \<Rightarrow> Inl ''unknown'')"

definition demo_login_de :: "bytes \<Rightarrow> string + control_msg" where
  "demo_login_de bs =
     (case find (\<lambda>(_, b). [b] = bs) (zip demo_login_msgs [1, 2, 3, 4, 5, 6, 7, 8]) of
        Some (m, _) \<Rightarrow> Inr m | None \<Rightarrow> Inl ''unknown'')"

definition demo_server :: server where
  "demo_server = server_bind (server_config_default\<lparr>cfg_token := demo_token\<rparr>) None"

lemmas demo_login_defs = demo_login_msgs_def demo_login_ser_def demo_login_de_def demo_token_def
  demo_lf_def login_msg_def demo_hmac_def str_bytes_def

lemma demo_carried:
  "carried demo_login_ser demo_login_de (AuthChallenge [7])"
  "carried demo_login_ser demo_login_de (RegChallenge [8])"
  "carried demo_login_ser demo_login_de (login_msg demo_lf (Some [5]) None)"
  "carried demo_login_ser demo_login_de (login_msg demo_lf (Some [5]) (Some (demo_hmac (str_bytes demo_token) [7, 5])))"
  "carried demo_login_ser demo_login_de (login_msg demo_lf (Some [5]) (Some (demo_hmac (str_bytes ''no'') [7, 5])))"
  "carried demo_login_ser demo_login_de (RegProof ''pc'' ''k'' demo_sig)"
  "carried demo_login_ser demo_login_de
     (LoginResp True None PROTOCOL_VERSION (Some (demo_hmac (str_bytes demo_token) [5])))"
  "carried demo_login_ser demo_login_de (LoginResp False (Some ''invalid auth digest'') PROTOCOL_VERSION None)"
  by (simp_all add: carried_def demo_login_defs)

text \<open>The frames and the phase of a run, whatever its state.\<close>

lemma demo_admits: "admits 0 demo_addr demo_lf demo_server"
  by (simp add: admits_def demo_addr_def demo_lf_def demo_server_def server_bind_def server_config_default_def
      with_config_def check_connect_def demo_token_def bucket_check_def bucket_new_def hm_or_insert_def
      rl_config_default_def major_version_def PROTOCOL_VERSION_def Let_def)

text \<open>Both conversations of the example, at the server that has just started.\<close>

lemma demo_server_fields [simp]:
  "sv_chans demo_server = []" "cfg_token (sv_cfg demo_server) = demo_token" "sv_sessions demo_server = []"
  "0 < cfg_max_sessions (sv_cfg demo_server)" "reg_devices (sv_registry demo_server) = []"
  by (simp_all add: demo_server_def server_bind_def server_config_default_def registry_new_def DEFAULT_MAX_SESSIONS_def)

theorem wrong_password_counted_witness:
  "\<exists>outs io. client_on demo_hmac demo_login_de ''no'' [5] demo_lf None outs = (Inl (LoginRejected ''invalid auth digest''), io)
     \<and> fst (serve_client demo_hmac demo_crypto (\<lambda>_. []) (\<lambda>_. Inl []) demo_login_ser demo_login_de 0 1 1 [7] [8] demo_addr
              (io_sent io) demo_server) = outs"
proof -
  have "demo_hmac (str_bytes ''no'') ([7] @ [5]) \<noteq> demo_hmac (str_bytes (cfg_token (sv_cfg demo_server))) ([7] @ [5])"
    by (simp add: demo_hmac_def str_bytes_def demo_token_def)
  then show ?thesis
    using wrong_password_counted [OF demo_admits, of "''no''" demo_hmac "[7]" "[5]" demo_login_ser demo_login_de 1
        None demo_crypto "\<lambda>_. []" "\<lambda>_. Inl []" 1 "[8]"] demo_carried
    by (fastforce simp: Let_def)
qed

theorem login_completes_witness:
  "\<exists>outs io s'. client_on demo_hmac demo_login_de demo_token [5] demo_lf (Some (\<lambda>_. demo_sig)) outs = (Inr Challenged, io)
     \<and> serve_client demo_hmac demo_crypto (\<lambda>_. []) (\<lambda>_. Inl []) demo_login_ser demo_login_de 0 1 1 [7] [8] demo_addr
              (io_sent io) demo_server = (outs, InSession 1, s')"
proof -
  have "verify_registration_proof demo_crypto ''pc'' ''k'' [8] demo_sig = Inr ()"
    by (simp add: verify_registration_proof_def is_fingerprint_device_id_def demo_crypto_def demo_sig_def
        registration_proof_payload_def str_bytes_def)
  moreover have "validate_device_id ''pc''"
    by (simp add: validate_device_id_def is_ascii_alphanumeric_def is_ascii_digit_def is_ascii_upper_def
        MAX_DEVICE_ID_LEN_def)
  ultimately show ?thesis
    using login_completes [OF demo_admits, of demo_token "''pc''" "''k''" demo_crypto "[8]" "\<lambda>_. demo_sig"
        demo_login_ser demo_login_de "[7]" "[5]" demo_hmac 1 "\<lambda>_. []" "\<lambda>_. Inl []" 1] demo_carried
    by (fastforce simp: Let_def demo_lf_def)
qed

theorem login_needs_password_witness:
  "\<exists>s sid rn rc. login_run demo_hmac demo_crypto (\<lambda>_. []) demo_login_ser demo_login_de
       \<lparr>lg_srv = demo_server, lg_conns = []\<rparr>
       [LgFirst 1 demo_addr (the (login_of (login_msg demo_lf (Some [5]) None))) [7],
        LgRead 1 (message_read demo_login_ser
          (login_msg demo_lf (Some [5]) (Some (demo_hmac (str_bytes demo_token) [7, 5]))))] s
     \<and> hm_get (lg_conns s) 1 = Some (demo_addr, AwaitRegProof sid ''pc'' (Some ''k'') rn rc)
     \<and> proved_login demo_hmac demo_login_de demo_token 1
       [LgFirst 1 demo_addr (the (login_of (login_msg demo_lf (Some [5]) None))) [7],
        LgRead 1 (message_read demo_login_ser
          (login_msg demo_lf (Some [5]) (Some (demo_hmac (str_bytes demo_token) [7, 5]))))]"
proof -
  let ?login = "the (login_of (login_msg demo_lf (Some [5]) None))"
  let ?r = "message_read demo_login_ser (login_msg demo_lf (Some [5]) (Some (demo_hmac (str_bytes demo_token) [7, 5])))"
  let ?evs = "[LgFirst 1 demo_addr ?login [7], LgRead 1 ?r]"
  let ?s0 = "\<lparr>lg_srv = demo_server, lg_conns = []\<rparr>"
  have login: "login_of (login_msg demo_lf (Some [5]) None) = Some ?login"
    by (simp add: login_msg_def)
  note first = probe_answer [OF demo_admits demo_carried(1) login, of 1 1 "[8]"]
  define s1 where "s1 = demo_server\<lparr>sv_rate_limiter := snd (check_connect 0 (sa_ip demo_addr) (sv_rate_limiter demo_server))\<rparr>"
  let ?l1 = "?s0\<lparr>lg_srv := s1, lg_conns := hm_put 1 (demo_addr, AwaitProof ?login [7] [5]) []\<rparr>"
  have "login_step demo_hmac demo_crypto (\<lambda>_. []) demo_login_ser demo_login_de ?s0 (LgFirst 1 demo_addr ?login [7]) ?l1"
    using lg_first [of ?s0 1 demo_login_ser 0 1 1 "[7]" "[8]" True demo_addr ?login] first by (simp add: s1_def)
  from lr_snoc [OF lr_nil this]
  have run1: "login_run demo_hmac demo_crypto (\<lambda>_. []) demo_login_ser demo_login_de ?s0 [LgFirst 1 demo_addr ?login [7]] ?l1"
    by simp
  have cfg: "cfg_token (sv_cfg s1) = demo_token" "sv_sessions s1 = []" "0 < cfg_max_sessions (sv_cfg s1)"
    by (simp_all add: s1_def demo_server_def server_bind_def server_config_default_def DEFAULT_MAX_SESSIONS_def)
  have fields: "li_device_id ?login = Some ''pc''" "li_ed25519_pub ?login = Some ''k''"
    by (simp_all add: login_msg_def demo_lf_def)
  obtain out srv rc where ans: "proof_arrived demo_hmac (\<lambda>_. []) demo_login_ser demo_login_de 0 1 1 [8] True demo_addr ?login [7] [5] ?r s1
      = (out, AwaitRegProof 1 ''pc'' (Some ''k'') [8] rc, srv)"
    using cfg carried_encode(1) [OF demo_carried(2)]
    by (simp add: proof_answer [OF demo_carried(4)] fields start_session_def Let_def)
  define l2 where "l2 = ?l1\<lparr>lg_srv := srv, lg_conns := hm_put 1 (demo_addr, AwaitRegProof 1 ''pc'' (Some ''k'') [8] rc) (lg_conns ?l1)\<rparr>"
  have "login_step demo_hmac demo_crypto (\<lambda>_. []) demo_login_ser demo_login_de ?l1 (LgRead 1 ?r) l2"
    unfolding l2_def by (rule lg_proof [where now = 0 and sid = 1 and tx = 1 and rn = "[8]" and w = True]) (use ans in simp_all)
  from lr_snoc [OF run1 this]
  have run2: "login_run demo_hmac demo_crypto (\<lambda>_. []) demo_login_ser demo_login_de ?s0 ?evs l2" by simp
  have conn: "hm_get (lg_conns l2) 1 = Some (demo_addr, AwaitRegProof 1 ''pc'' (Some ''k'') [8] rc)"
    by (simp add: l2_def)
  have "cfg_token (sv_cfg demo_server) = demo_token"
    by (simp add: demo_server_def server_bind_def server_config_default_def)
  with login_needs_password [OF run2 _ _ conn]
  have "proved_login demo_hmac demo_login_de demo_token 1 ?evs" by (simp add: demo_token_def)
  with run2 conn show ?thesis by blast
qed

end
