(* ===== verification/Relay_Proxy.thy ===== *)
theory Relay_Proxy
  imports Relay_Session
begin

text \<open>
  The port proxies of \<^verbatim>\<open>relay/src/server.rs\<close>: registration and removal, the listener task that
  asks the client for a work connection per public connection, the arrival of work connections,
  and the clean-up of waiters. Binding a port is the parameter \<open>bound\<close>; public and work
  connections, one-shot channels, tasks and proxy objects are numbers.
\<close>

section \<open>Operations\<close>

definition send_control :: "(control_msg \<Rightarrow> string + bytes) \<Rightarrow> nat \<Rightarrow> control_msg \<Rightarrow> server \<Rightarrow> server" where
  "send_control ser sid m s =
     (case (encode_control ser m, hm_get (sv_objs s) sid) of
        (Inr f, Some c) \<Rightarrow> s\<lparr>sv_chans := chan_send_ignore (cs_control_tx c) f (sv_chans s)\<rparr>
      | _ \<Rightarrow> s)"

definition session_proxies :: "nat \<Rightarrow> server \<Rightarrow> (string, nat) hmap" where
  "session_proxies sid s = (case hm_get (sv_objs s) sid of Some c \<Rightarrow> cs_proxies c | None \<Rightarrow> [])"

definition session_addr :: "nat \<Rightarrow> server \<Rightarrow> socket_addr" where
  "session_addr sid s =
     (case hm_get (sv_objs s) sid of Some c \<Rightarrow> cs_addr c | None \<Rightarrow> SocketAddr (V4 0 0 0 0) 0)"

definition upd_proxy :: "nat \<Rightarrow> (proxy_entry \<Rightarrow> proxy_entry) \<Rightarrow> server \<Rightarrow> server" where
  "upd_proxy p f s =
     (case hm_get (sv_proxy_objs s) p of None \<Rightarrow> s | Some e \<Rightarrow> s\<lparr>sv_proxy_objs := hm_put p (f e) (sv_proxy_objs s)\<rparr>)"

definition proxy_pending :: "nat \<Rightarrow> server \<Rightarrow> (u64, nat) hmap" where
  "proxy_pending p s = (case hm_get (sv_proxy_objs s) p of Some e \<Rightarrow> pe_pending e | None \<Rightarrow> [])"

text \<open>One waiter of \<^verbatim>\<open>drain_pending\<close>, then the loop over the keys.\<close>

definition drain_one :: "nat \<Rightarrow> u64 \<Rightarrow> server \<Rightarrow> server" where
  "drain_one p conn s =
     (let s = s\<lparr>sv_pending_index := hm_del conn (sv_pending_index s)\<rparr>
      in case hm_get (proxy_pending p s) conn of
           None \<Rightarrow> s
         | Some tx \<Rightarrow>
             (let s = upd_proxy p (\<lambda>e. e\<lparr>pe_pending := hm_del conn (pe_pending e)\<rparr>) s
              in s\<lparr>sv_oneshots := hm_put tx None (sv_oneshots s)\<rparr>))"

definition drain_pending :: "nat \<Rightarrow> server \<Rightarrow> server" where
  "drain_pending p s = fold (drain_one p) (map fst (proxy_pending p s)) s"

definition close_proxy :: "nat \<Rightarrow> string \<Rightarrow> server \<Rightarrow> server" where
  "close_proxy sid name s =
     (case hm_get (session_proxies sid s) name of
        None \<Rightarrow> s
      | Some p \<Rightarrow>
          (let s = upd_session sid (\<lambda>c. c\<lparr>cs_proxies := hm_del name (cs_proxies c)\<rparr>) s;
               s = audit (ProxyRemoved (session_addr sid s) name) s
           in drain_pending p s))"

text \<open>
  Binding the public port. \<open>try v6 port\<close> is the attempt on \<^verbatim>\<open>[::]\<close> or on \<^verbatim>\<open>0.0.0.0\<close>; the
  result is the port the listener reports.
\<close>

definition bind_one :: "(bool \<Rightarrow> u16 \<Rightarrow> string + u16) \<Rightarrow> u16 \<Rightarrow> string + u16" where
  "bind_one try_bind port =
     (case try_bind True port of
        Inr l \<Rightarrow> Inr l
      | Inl _ \<Rightarrow>
          (case try_bind False port of
             Inr l \<Rightarrow> Inr l
           | Inl e \<Rightarrow> Inl (''bind :'' @ digits_of (unat port) @ '' failed: '' @ e)))"

fun first_free :: "(bool \<Rightarrow> u16 \<Rightarrow> string + u16) \<Rightarrow> u16 list \<Rightarrow> u16 option" where
  "first_free try_bind [] = None"
| "first_free try_bind (port # ports) =
     (case bind_one try_bind port of Inr l \<Rightarrow> Some l | Inl _ \<Rightarrow> first_free try_bind ports)"

definition bind_proxy_listener :: "(bool \<Rightarrow> u16 \<Rightarrow> string + u16) \<Rightarrow> (u16 \<times> u16) option \<Rightarrow> u16 \<Rightarrow> string + u16" where
  "bind_proxy_listener try_bind port_range remote_port =
     (if remote_port \<noteq> 0 then bind_one try_bind remote_port
      else case port_range of
             None \<Rightarrow> Inl ''port_range not configured (remote_port=0)''
           | Some (start, stop) \<Rightarrow>
               if stop < start
               then Inl (''invalid port_range: '' @ digits_of (unat start) @ ''-'' @ digits_of (unat stop))
               else (case first_free try_bind (map of_nat [unat start..<Suc (unat stop)]) of
                       Some l \<Rightarrow> Inr l
                     | None \<Rightarrow> Inl (''no free port in range '' @ digits_of (unat start) @ ''-'' @ digits_of (unat stop))))"

lemma first_free_Some:
  "first_free try_bind ports = Some l \<Longrightarrow> \<exists>port \<in> set ports. bind_one try_bind port = Inr l"
  by (induction ports) (auto split: sum.splits)

lemma bound_in_range:
  assumes "bind_proxy_listener try_bind (Some (start, stop)) 0 = Inr l"
  shows "\<exists>port. start \<le> port \<and> port \<le> stop \<and> bind_one try_bind port = Inr l"
proof -
  define ports :: "u16 list" where "ports = map of_nat [unat start..<Suc (unat stop)]"
  have "first_free try_bind ports = Some l"
    using assms by (auto simp: bind_proxy_listener_def ports_def split: if_splits option.splits)
  from first_free_Some [OF this]
  obtain n where n: "unat start \<le> n" "n \<le> unat stop" "bind_one try_bind (of_nat n) = Inr l"
    unfolding ports_def by (auto simp del: upt_Suc)
  have "n < 2 ^ 16" using n(2) unat_lt [of stop] by simp
  then have "unat (of_nat n :: u16) = n" by (simp add: unsigned_of_nat take_bit_nat_eq_self)
  then show ?thesis using n by (intro exI [of _ "of_nat n"]) (simp add: word_le_nat_alt)
qed

text \<open>\<open>finished\<close> says which tasks have ended when the handle table is swept.\<close>

definition push_task :: "(nat \<Rightarrow> bool) \<Rightarrow> nat \<Rightarrow> nat \<Rightarrow> server \<Rightarrow> server" where
  "push_task finished sid task s =
     upd_session sid (\<lambda>c. c\<lparr>cs_tasks := filter (\<lambda>t. \<not> finished t) (cs_tasks c) @ [task]\<rparr>) s"

definition register_proxy :: "(control_msg \<Rightarrow> string + bytes) \<Rightarrow> (nat \<Rightarrow> bool) \<Rightarrow> nat \<Rightarrow> string \<Rightarrow> string \<Rightarrow>
    u16 \<Rightarrow> string + u16 \<Rightarrow> nat \<Rightarrow> nat \<Rightarrow> server \<Rightarrow> server" where
  "register_proxy ser finished sid name local_addr local_port bound p task s =
     (if cfg_max_proxies (sv_cfg s) \<le> length (session_proxies sid s) \<and> \<not> hm_has (session_proxies sid s) name
      then send_control ser sid
             (ProxyResp False name
               (Some (''proxy limit reached ('' @ digits_of (cfg_max_proxies (sv_cfg s)) @ '')'')) None) s
      else case bound of
        Inl err \<Rightarrow> send_control ser sid (ProxyResp False name (Some err) None) s
      | Inr listener_port \<Rightarrow>
          (let s = s\<lparr>sv_proxy_objs := hm_put p
                 \<lparr>pe_name = name, pe_local_addr = local_addr, pe_local_port = local_port,
                  pe_listener_port = listener_port, pe_pending = [], pe_conn_count = 0\<rparr> (sv_proxy_objs s)\<rparr>;
               old = hm_get (session_proxies sid s) name;
               s = upd_session sid (\<lambda>c. c\<lparr>cs_proxies := hm_del name (cs_proxies c)\<rparr>) s;
               s = (if old = None then s else close_proxy sid name s);
               s = upd_session sid (\<lambda>c. c\<lparr>cs_proxies := hm_put name p (cs_proxies c)\<rparr>) s;
               s = audit (ProxyRegistered (session_addr sid s) name listener_port) s;
               s = push_task finished sid task s
           in send_control ser sid (ProxyResp True name None (Some listener_port)) s))"

section \<open>The listener task\<close>

text \<open>
  A listener accepts the next public connection, or waits for the work connection \<open>conn\<close> of
  a public one on a one-shot channel, or has ended.
\<close>

datatype listener = Accepting | Waiting u64 nat nat | Stopped

definition listener_accept :: "(control_msg \<Rightarrow> string + bytes) \<Rightarrow> nat \<Rightarrow> nat \<Rightarrow> u64 \<Rightarrow> nat \<Rightarrow> nat \<Rightarrow>
    server \<Rightarrow> listener \<times> server" where
  "listener_accept ser sid p conn tx public s =
     (case hm_get (sv_proxy_objs s) p of
        None \<Rightarrow> (Stopped, s)
      | Some e \<Rightarrow>
          if cfg_max_concurrent_work (sv_cfg s) \<le> pe_conn_count e then (Accepting, s)
          else
            (let s = upd_proxy p (\<lambda>e. e\<lparr>pe_pending := hm_put conn tx (pe_pending e)\<rparr>) s;
                 s = s\<lparr>sv_pending_index := hm_put conn (sid, pe_name e) (sv_pending_index s)\<rparr>
             in case encode_control ser (StartWorkConn (pe_name e) conn) of
                  Inl _ \<Rightarrow> (Stopped, drain_pending p s)
                | Inr f \<Rightarrow>
                    (case Option.bind (hm_get (sv_objs s) sid) (\<lambda>c. chan_send (cs_control_tx c) f (sv_chans s)) of
                       None \<Rightarrow> (Stopped, drain_pending p s)
                     | Some chans \<Rightarrow> (Waiting conn tx public, s\<lparr>sv_chans := chans\<rparr>))))"

text \<open>The wait has ended: \<open>arrived\<close> is the work connection that was sent, if one was in time.\<close>

definition listener_result :: "(nat \<Rightarrow> bool) \<Rightarrow> nat \<Rightarrow> nat \<Rightarrow> u64 \<Rightarrow> nat option \<Rightarrow> nat \<Rightarrow> server \<Rightarrow> server" where
  "listener_result finished sid p conn arrived task s =
     (let s = upd_proxy p (\<lambda>e. e\<lparr>pe_pending := hm_del conn (pe_pending e)\<rparr>) s;
          s = s\<lparr>sv_pending_index := hm_del conn (sv_pending_index s)\<rparr>
      in case arrived of
           None \<Rightarrow> s
         | Some work \<Rightarrow>
             (let s = upd_proxy p (\<lambda>e. e\<lparr>pe_conn_count := pe_conn_count e + 1\<rparr>) s;
                  name = (case hm_get (sv_proxy_objs s) p of Some e \<Rightarrow> pe_name e | None \<Rightarrow> []);
                  s = audit (WorkConnOpened (session_addr sid s) name) s
              in push_task finished sid task s))"

definition pump_end :: "nat \<Rightarrow> nat \<Rightarrow> server \<Rightarrow> server" where
  "pump_end sid p s =
     (let s = upd_proxy p (\<lambda>e. e\<lparr>pe_conn_count := pe_conn_count e - 1\<rparr>) s;
          name = (case hm_get (sv_proxy_objs s) p of Some e \<Rightarrow> pe_name e | None \<Rightarrow> [])
      in audit (WorkConnClosed (session_addr sid s) name ''eof'') s)"

definition handle_work_arrival :: "nat \<Rightarrow> socket_addr \<Rightarrow> work_conn_header \<Rightarrow> server \<Rightarrow> server" where
  "handle_work_arrival stream addr header s =
     (case hm_get (sv_pending_index s) (wh_conn_id header) of
        None \<Rightarrow> audit (WorkConnClosed addr (wh_proxy_name header) ''unknown conn_id'') s
      | Some (sid, proxy_name) \<Rightarrow>
          (let s = s\<lparr>sv_pending_index := hm_del (wh_conn_id header) (sv_pending_index s)\<rparr>
           in if proxy_name \<noteq> wh_proxy_name header
              then audit (WorkConnClosed addr (wh_proxy_name header) ''proxy_name mismatch'') s
              else if sid \<notin> set (sv_sessions s) then s
              else case hm_get (session_proxies sid s) proxy_name of
                     None \<Rightarrow> s
                   | Some p \<Rightarrow>
                       (case hm_get (proxy_pending p s) (wh_conn_id header) of
                          Some tx \<Rightarrow>
                            (let s = upd_proxy p (\<lambda>e. e\<lparr>pe_pending := hm_del (wh_conn_id header) (pe_pending e)\<rparr>) s
                             in s\<lparr>sv_oneshots := hm_put tx (Some stream) (sv_oneshots s)\<rparr>)
                        | None \<Rightarrow> audit (WorkConnClosed addr (wh_proxy_name header) ''duplicate conn_id'') s)))"

section \<open>The end of a session\<close>

definition cleanup_proxy :: "nat \<Rightarrow> nat \<Rightarrow> server \<Rightarrow> server" where
  "cleanup_proxy sid p s =
     (let s = drain_pending p s;
          name = (case hm_get (sv_proxy_objs s) p of Some e \<Rightarrow> pe_name e | None \<Rightarrow> [])
      in audit (ProxyRemoved (session_addr sid s) name) s)"

definition cleanup_session :: "nat \<Rightarrow> server \<Rightarrow> server" where
  "cleanup_session sid s0 =
     (case hm_get (sv_objs s0) sid of
        None \<Rightarrow> s0
      | Some c \<Rightarrow>
          (let s = drop_session sid s0;
               s = upd_session sid (\<lambda>c. c\<lparr>cs_device_id := None\<rparr>) s;
               s = (case cs_device_id c of
                      None \<Rightarrow> s
                    | Some did \<Rightarrow>
                        audit (DeviceOffline (cs_addr c) did)
                          (s\<lparr>sv_registry := snd (unregister did (sv_registry s))\<rparr>));
               s = s\<lparr>sv_aborted := sv_aborted s @ cs_tasks c\<rparr>;
               s = upd_session sid (\<lambda>c. c\<lparr>cs_tasks := []\<rparr>) s;
               s = fold (cleanup_proxy sid) (map snd (cs_proxies c)) s
           in case (sv_rendezvous s, cs_punch_conn c) of
                (Some rz, Some conn) \<Rightarrow> s\<lparr>sv_rendezvous := Some (cleanup_conn conn rz)\<rparr>
              | _ \<Rightarrow> s))"

end
