(* ===== verification/Relay_Server.thy ===== *)
theory Relay_Server
  imports Relay_Proxy
begin

text \<open>
  What the frames of a session do and how a controller's tunnel connection is served, the rest of
  \<^verbatim>\<open>relay/src/server.rs\<close>. The directory back end is a trait that another crate implements and a
  parameter here: its answer to a frame. So is the structural check of a directory frame, which is
  bincode's. A tunnel connection's task has an \<^verbatim>\<open>await\<close> between its admission and the insertion
  of the pending tunnel, so these are two steps.
\<close>

section \<open>Frame types\<close>

definition TYPE_RESOLVE_DEVICE :: u8 where "TYPE_RESOLVE_DEVICE = 0x80"
definition TYPE_TUNNEL_CONN :: u8 where "TYPE_TUNNEL_CONN = 0x83"
definition TYPE_TUNNEL_HEADER :: u8 where "TYPE_TUNNEL_HEADER = 0x85"
definition TYPE_TUNNEL_RESP :: u8 where "TYPE_TUNNEL_RESP = 0x86"
definition TYPE_DIR_LIST :: u8 where "TYPE_DIR_LIST = 0x8B"
definition TYPE_DIR_LIST_RESP :: u8 where "TYPE_DIR_LIST_RESP = 0x8C"
definition TYPE_DIR_UPSERT :: u8 where "TYPE_DIR_UPSERT = 0x8D"
definition TYPE_DIR_DELETE :: u8 where "TYPE_DIR_DELETE = 0x8E"
definition TYPE_DIR_ERROR :: u8 where "TYPE_DIR_ERROR = 0x8F"
definition TYPE_PEER_LIST :: u8 where "TYPE_PEER_LIST = 0x90"
definition TYPE_PEER_LIST_RESP :: u8 where "TYPE_PEER_LIST_RESP = 0x91"
definition TYPE_PEER_UPSERT :: u8 where "TYPE_PEER_UPSERT = 0x92"
definition TYPE_PEER_DELETE :: u8 where "TYPE_PEER_DELETE = 0x93"
definition TYPE_PEER_TOGGLE :: u8 where "TYPE_PEER_TOGGLE = 0x94"

lemmas server_type_defs = TYPE_RESOLVE_DEVICE_def TYPE_TUNNEL_CONN_def TYPE_TUNNEL_HEADER_def
  TYPE_TUNNEL_RESP_def TYPE_DIR_LIST_def TYPE_DIR_LIST_RESP_def TYPE_DIR_UPSERT_def TYPE_DIR_DELETE_def
  TYPE_DIR_ERROR_def TYPE_PEER_LIST_def TYPE_PEER_LIST_RESP_def TYPE_PEER_UPSERT_def TYPE_PEER_DELETE_def
  TYPE_PEER_TOGGLE_def

record tunnel_resp =
  tr_ok :: bool
  tr_err :: "string option"

datatype directory_outcome = Silent | Reply bytes | AuthViolation bytes

text \<open>The bincode functions and the back end a session's frames need.\<close>

record srv_env =
  se_ser :: "control_msg \<Rightarrow> string + bytes"
  se_de :: "bytes \<Rightarrow> string + control_msg"
  se_rv :: rv_codec
  se_ext :: "(u8 \<Rightarrow> bytes \<Rightarrow> socket_addr \<Rightarrow> nat \<Rightarrow> bytes option) option"
  se_de_resolve :: "bytes \<Rightarrow> string + string"
  se_ser_info :: "device_info \<Rightarrow> string + bytes"
  se_sign :: "bytes \<Rightarrow> bytes"
  se_ser_payload :: "device_info_payload \<Rightarrow> bytes"
  se_dir_valid :: "u8 \<Rightarrow> bytes \<Rightarrow> bool"
  se_directory :: "(socket_addr \<Rightarrow> string option \<Rightarrow> u8 \<Rightarrow> bytes \<Rightarrow> unit + directory_outcome) option"
  se_ser_request :: "tunnel_request \<Rightarrow> string + bytes"
  se_ser_resp :: "tunnel_resp \<Rightarrow> string + bytes"

section \<open>Frames of a session\<close>

text \<open>Every handler returns whether the session goes on.\<close>

definition session_send :: "nat \<Rightarrow> bytes \<Rightarrow> server \<Rightarrow> server" where
  "session_send sid f s =
     (case hm_get (sv_objs s) sid of
        None \<Rightarrow> s
      | Some c \<Rightarrow> s\<lparr>sv_chans := chan_send_ignore (cs_control_tx c) f (sv_chans s)\<rparr>)"

definition handle_control :: "srv_env \<Rightarrow> (nat \<Rightarrow> bool) \<Rightarrow> (u16 \<Rightarrow> string + u16) \<Rightarrow> nat \<Rightarrow> nat \<Rightarrow> nat \<Rightarrow>
    control_msg \<Rightarrow> server \<Rightarrow> bool \<times> server" where
  "handle_control env finished bind_port p task sid m s =
     (case m of
        NewProxy name local_addr local_port remote_port \<Rightarrow>
          (True, register_proxy (se_ser env) finished sid name local_addr local_port (bind_port remote_port) p task s)
      | CloseProxy name \<Rightarrow> (True, close_proxy sid name s)
      | Logout \<Rightarrow> (False, s)
      | Ping ts \<Rightarrow> (True, send_control (se_ser env) sid (Pong ts) s)
      | Pong _ \<Rightarrow> (True, s)
      | _ \<Rightarrow> (False, s))"

definition handle_resolve :: "srv_env \<Rightarrow> instant \<Rightarrow> u64 \<Rightarrow> nat \<Rightarrow> string \<Rightarrow> server \<Rightarrow> server" where
  "handle_resolve env now ts sid device_id s =
     (case resolve (se_sign env) (se_ser_payload env) now ts (sa_ip (session_addr sid s)) device_id (sv_registry s) of
        ((info, rate_limited), reg) \<Rightarrow>
          (let addr = session_addr sid s; s = s\<lparr>sv_registry := reg\<rparr>;
               s = (if rate_limited
                    then audit (DeviceResolveRejected addr device_id ''rate limited (10/30s per IP)'') s else s);
               s = audit (DeviceResolveAccepted addr device_id (di_online (dinfo_payload info))) s
           in case encode_extension (se_ser_info env) TYPE_DEVICE_INFO info of
                Inl _ \<Rightarrow> s
              | Inr f \<Rightarrow> session_send sid f s))"

text \<open>The rendezvous connection number of a session, allocated at its first punch frame.\<close>

definition punch_conn_of :: "nat \<Rightarrow> rendezvous \<Rightarrow> server \<Rightarrow> nat \<times> rendezvous \<times> server" where
  "punch_conn_of sid rz s =
     (case Option.bind (hm_get (sv_objs s) sid) cs_punch_conn of
        Some conn \<Rightarrow> (conn, rz, s)
      | None \<Rightarrow> (case alloc_conn_id rz of
                   (conn, rz') \<Rightarrow> (conn, rz', upd_session sid (\<lambda>c. c\<lparr>cs_punch_conn := Some conn\<rparr>) s)))"

definition rendezvous_frame :: "srv_env \<Rightarrow> instant \<Rightarrow> nat \<Rightarrow> u8 \<Rightarrow> bytes \<Rightarrow> rendezvous \<Rightarrow> server \<Rightarrow> bool \<times> server" where
  "rendezvous_frame env now sid ty payload rz s =
     (case punch_conn_of sid rz s of
        (conn, rz', s') \<Rightarrow>
          (let tx = (case hm_get (sv_objs s') sid of Some c \<Rightarrow> cs_control_tx c | None \<Rightarrow> 0)
           in case dispatch (se_rv env) (se_ext env) now conn (session_addr sid s') ty payload tx rz' (sv_chans s') of
                (ok, rz'', chans, audits) \<Rightarrow>
                  (ok, s'\<lparr>sv_rendezvous := Some rz'', sv_chans := chans, sv_audit := sv_audit s' @ audits\<rparr>)))"

definition punch_frame_valid :: "srv_env \<Rightarrow> u8 \<Rightarrow> bytes \<Rightarrow> bool" where
  "punch_frame_valid env ty payload =
     (if ty = TYPE_PUNCH_RESULT then is_inr (decode_extension (de_punch_result (se_rv env)) ty payload TYPE_PUNCH_RESULT)
      else if ty = TYPE_PATH_PROBE then is_inr (decode_extension (de_path_probe (se_rv env)) ty payload TYPE_PATH_PROBE)
      else is_inr (decode_extension (de_path_probe_ack (se_rv env)) ty payload TYPE_PATH_PROBE_ACK))"

definition handle_punch_frame :: "srv_env \<Rightarrow> instant \<Rightarrow> nat \<Rightarrow> u8 \<Rightarrow> bytes \<Rightarrow> server \<Rightarrow> bool \<times> server" where
  "handle_punch_frame env now sid ty payload s =
     (if ty \<noteq> TYPE_PUNCH_RESULT \<and> ty \<noteq> TYPE_PATH_PROBE \<and> ty \<noteq> TYPE_PATH_PROBE_ACK then (True, s)
      else if \<not> punch_frame_valid env ty payload then (False, s)
      else case sv_rendezvous s of
             None \<Rightarrow> (True, audit (PunchUnknownSession (session_addr sid s) (''no-rendezvous 0x'' @ hex_byte ty)) s)
           | Some rz \<Rightarrow> rendezvous_frame env now sid ty payload rz s)"

definition session_device :: "nat \<Rightarrow> server \<Rightarrow> string option" where
  "session_device sid s = Option.bind (hm_get (sv_objs s) sid) cs_device_id"

definition handle_candidates :: "srv_env \<Rightarrow> instant \<Rightarrow> nat \<Rightarrow> bytes \<Rightarrow> server \<Rightarrow> server" where
  "handle_candidates env now sid payload s =
     (case decode_extension (de_register (se_rv env)) TYPE_CANDIDATE_REGISTER payload TYPE_CANDIDATE_REGISTER of
        Inl _ \<Rightarrow> s
      | Inr reg \<Rightarrow>
          (case session_device sid s of
             None \<Rightarrow> audit (CandidateRegisterRejected (session_addr sid s) (cr_device_id reg)
                         ''session has no registered device'') s
           | Some did \<Rightarrow>
               if did \<noteq> cr_device_id reg then
                 audit (CandidateRegisterRejected (session_addr sid s) (cr_device_id reg)
                   (''device_id mismatch (session owns '' @ [char_of (39 :: nat)] @ did @ [char_of (39 :: nat)] @ '')'')) s
               else
                 (let s = s\<lparr>sv_registry := snd (update_candidates (cr_device_id reg) (cr_candidates reg) (sv_registry s))\<rparr>
                  in if cr_session_id reg = None then s
                     else case sv_rendezvous s of
                            None \<Rightarrow> s
                          | Some rz \<Rightarrow> snd (rendezvous_frame env now sid TYPE_CANDIDATE_REGISTER payload rz s))))"

definition handle_directory_frame :: "srv_env \<Rightarrow> nat \<Rightarrow> u8 \<Rightarrow> bytes \<Rightarrow> server \<Rightarrow> bool \<times> server" where
  "handle_directory_frame env sid ty payload s =
     (if ty = TYPE_DIR_LIST_RESP \<or> ty = TYPE_DIR_ERROR then (False, s)
      else if (ty = TYPE_DIR_LIST \<or> ty = TYPE_DIR_UPSERT \<or> ty = TYPE_DIR_DELETE) \<and> \<not> se_dir_valid env ty payload
        then (False, s)
      else case se_directory env of
             None \<Rightarrow> (True, audit (DirFrameDropped (session_addr sid s) ty) s)
           | Some handler \<Rightarrow>
               (case handler (session_addr sid s) (session_device sid s) ty payload of
                  Inr Silent \<Rightarrow> (True, s)
                | Inr (Reply f) \<Rightarrow> (True, session_send sid f s)
                | Inr (AuthViolation f) \<Rightarrow> (False, session_send sid f s)
                | Inl _ \<Rightarrow> (False, s)))"

definition handle_deprecated_directory_frame :: "nat \<Rightarrow> u8 \<Rightarrow> server \<Rightarrow> server" where
  "handle_deprecated_directory_frame sid ty s = audit (DirFrameDropped (session_addr sid s) ty) s"

text \<open>The frame branch of \<^verbatim>\<open>run_session\<close>.\<close>

definition session_frame :: "srv_env \<Rightarrow> (nat \<Rightarrow> bool) \<Rightarrow> (u16 \<Rightarrow> string + u16) \<Rightarrow> instant \<Rightarrow> u64 \<Rightarrow> nat \<Rightarrow> nat \<Rightarrow>
    nat \<Rightarrow> u8 \<Rightarrow> bytes \<Rightarrow> server \<Rightarrow> bool \<times> server" where
  "session_frame env finished bind_port now ts p task sid ty payload s0 =
     (let s = upd_session sid (\<lambda>c. c\<lparr>cs_last_activity := now\<rparr>) s0
      in if ty = TYPE_CONTROL then
           (case decode_control (se_de env) ty payload of
              Inl _ \<Rightarrow> (False, s)
            | Inr m \<Rightarrow> handle_control env finished bind_port p task sid m s)
         else if ty = TYPE_RESOLVE_DEVICE then
           (case decode_extension (se_de_resolve env) ty payload TYPE_RESOLVE_DEVICE of
              Inl _ \<Rightarrow> (False, s)
            | Inr device_id \<Rightarrow> (True, handle_resolve env now ts sid device_id s))
         else if ty = TYPE_CANDIDATE_REGISTER then (True, handle_candidates env now sid payload s)
         else if ty = TYPE_PUNCH_RESULT \<or> ty = TYPE_PATH_PROBE \<or> ty = TYPE_PATH_PROBE_ACK then
           handle_punch_frame env now sid ty payload s
         else if ty = TYPE_DIR_LIST \<or> ty = TYPE_DIR_LIST_RESP \<or> ty = TYPE_DIR_UPSERT \<or> ty = TYPE_DIR_DELETE
                 \<or> ty = TYPE_DIR_ERROR then
           handle_directory_frame env sid ty payload s
         else if ty = TYPE_PEER_LIST \<or> ty = TYPE_PEER_LIST_RESP \<or> ty = TYPE_PEER_UPSERT \<or> ty = TYPE_PEER_DELETE
                 \<or> ty = TYPE_PEER_TOGGLE then
           (True, handle_deprecated_directory_frame sid ty s)
         else (True, s))"

text \<open>The heartbeat branch, the accept branch of the server, and its periodic sweep.\<close>

definition session_tick :: "instant \<Rightarrow> nat \<Rightarrow> server \<Rightarrow> bool \<times> server" where
  "session_tick now sid s =
     (case hm_get (sv_objs s) sid of
        None \<Rightarrow> (False, s)
      | Some c \<Rightarrow>
          (let s = (case cs_device_id c of
                      None \<Rightarrow> s
                    | Some did \<Rightarrow> s\<lparr>sv_registry := heartbeat now did (sv_registry s)\<rparr>)
           in (\<not> cfg_heartbeat_timeout (sv_cfg s) < now - cs_last_activity c, s)))"

definition accept_connection :: "socket_addr \<Rightarrow> server \<Rightarrow> socket_addr option \<times> server" where
  "accept_connection raw s =
     (let addr = canonical_peer_addr raw
      in case acquire (sa_ip addr) (sv_preauth s) of
           (ok, pa) \<Rightarrow>
             (let s = s\<lparr>sv_preauth := pa\<rparr>
              in if ok then (Some addr, s)
                 else (None, audit (RateLimited addr ''pre-auth per-ip concurrency limit'') s)))"

definition incoming_done :: "socket_addr \<Rightarrow> server \<Rightarrow> server" where
  "incoming_done addr s = s\<lparr>sv_preauth := release (sa_ip addr) (sv_preauth s)\<rparr>"

definition sweep_tick :: "instant \<Rightarrow> server \<Rightarrow> server" where
  "sweep_tick now s =
     (case sweep_idle now (cfg_heartbeat_timeout (sv_cfg s)) (sv_registry s) of
        (stale, reg) \<Rightarrow>
          fold (\<lambda>(did, client). audit (DeviceOffline client did)) stale (s\<lparr>sv_registry := reg\<rparr>))"

section \<open>Tunnel connections\<close>

datatype tunnel_phase = TunnelDone | TunnelAdmitted string string nat | TunnelWaiting u64 string string

definition tunnel_answer :: "srv_env \<Rightarrow> bool \<Rightarrow> string option \<Rightarrow> bytes list" where
  "tunnel_answer env ok err =
     (case encode_extension (se_ser_resp env) TYPE_TUNNEL_RESP \<lparr>tr_ok = ok, tr_err = err\<rparr> of
        Inl _ \<Rightarrow> [] | Inr f \<Rightarrow> [f])"

definition pending_of :: "string \<Rightarrow> server \<Rightarrow> nat" where
  "pending_of target s = hm_or_insert 0 (sv_pending_by_target s) target"

text \<open>The three limits in front of a tunnel request.\<close>

definition tunnel_admit :: "srv_env \<Rightarrow> instant \<Rightarrow> nat \<Rightarrow> socket_addr \<Rightarrow> string \<Rightarrow> string \<Rightarrow> server \<Rightarrow>
    bytes list \<times> tunnel_phase \<times> server" where
  "tunnel_admit env now stream addr target peer s =
     (case check_connect now (sa_ip addr) (sv_tunnel_conn_limiter s) of
        (d, rl) \<Rightarrow>
          (let s = s\<lparr>sv_tunnel_conn_limiter := rl\<rparr>
           in if d \<noteq> Allowed then
                (tunnel_answer env False (Some (''tunnel conn rate limited: '' @ decision_debug d)), TunnelDone,
                 audit (RateLimited addr (''tunnel conn '' @ decision_debug d)) s)
              else if cfg_max_pending_tunnels (sv_cfg s) \<le> sv_pending_tunnels s then
                (tunnel_answer env False (Some ''pending tunnel limit reached''), TunnelDone,
                 audit (TunnelRelayClosed target 0 (''pending tunnel limit reached ('' @
                   digits_of (cfg_max_pending_tunnels (sv_cfg s)) @ '')'')) s)
              else if cfg_max_pending_per_target (sv_cfg s) \<le> pending_of target s then
                (tunnel_answer env False (Some (''pending tunnel limit reached for target '' @
                   [char_of (39 :: nat)] @ target @ [char_of (39 :: nat)])), TunnelDone,
                 audit (TunnelRelayClosed target 0 (''pending tunnel limit reached for target ('' @
                   digits_of (cfg_max_pending_per_target (sv_cfg s)) @ '')'')) s)
              else ([], TunnelAdmitted target peer stream, s)))"

text \<open>The request to the device, the pending tunnel, and the two counters that mirror the table.\<close>

definition tunnel_register :: "srv_env \<Rightarrow> u64 \<Rightarrow> string \<Rightarrow> string \<Rightarrow> nat \<Rightarrow> server \<Rightarrow>
    bytes list \<times> tunnel_phase \<times> server" where
  "tunnel_register env conn target peer stream s =
     (case register_tunnel (se_ser_request env) conn target peer stream (sv_registry s) (sv_chans s) of
        (Inl (e, _), reg, chans) \<Rightarrow>
          (tunnel_answer env False (Some (registry_error_text e)), TunnelDone,
           audit (TunnelRelayClosed target 0 (registry_error_text e)) (s\<lparr>sv_registry := reg, sv_chans := chans\<rparr>))
      | (Inr conn, reg, chans) \<Rightarrow>
          ([], TunnelWaiting conn target peer,
           s\<lparr>sv_registry := reg, sv_chans := chans, sv_pending_tunnels := sv_pending_tunnels s + 1,
             sv_pending_by_target := hm_put target (pending_of target s + 1) (sv_pending_by_target s)\<rparr>))"

definition release_pending :: "string \<Rightarrow> server \<Rightarrow> server" where
  "release_pending target s =
     (let s = s\<lparr>sv_pending_tunnels := sv_pending_tunnels s - 1\<rparr>
      in case hm_get (sv_pending_by_target s) target of
           None \<Rightarrow> s
         | Some c \<Rightarrow>
             s\<lparr>sv_pending_by_target :=
                 (if c - 1 = 0 then hm_del target (sv_pending_by_target s)
                  else hm_put target (c - 1) (sv_pending_by_target s))\<rparr>)"

text \<open>\<^verbatim>\<open>wait_for_pair\<close> has returned; the pair's streams are pumped until one ends.\<close>

definition tunnel_paired :: "srv_env \<Rightarrow> u64 \<Rightarrow> string \<Rightarrow> string \<Rightarrow> (nat \<times> nat) option \<Rightarrow> server \<Rightarrow>
    bytes list \<times> server" where
  "tunnel_paired env conn target peer pair s =
     (let s = release_pending target s
      in case pair of
           None \<Rightarrow> ([], audit (TunnelRelayClosed target conn ''pairing timeout'') s)
         | Some _ \<Rightarrow>
             (let s = audit (TunnelRelayOpened target peer conn) s; answer = tunnel_answer env True None
              in (answer, if answer = [] then s else audit (TunnelRelayClosed target conn ''eof'') s)))"

definition handle_tunnel_arrival :: "nat \<Rightarrow> u64 \<Rightarrow> server \<Rightarrow> server" where
  "handle_tunnel_arrival stream conn s =
     (case pair_tunnel conn stream (sv_registry s) of
        (ok, reg) \<Rightarrow>
          (let s = s\<lparr>sv_registry := reg\<rparr>
           in if ok then s else audit (TunnelRelayClosed [] conn ''unknown/duplicate conn_id'') s))"

end
