(* ===== verification/Relay_Proxy_Run.thy ===== *)
theory Relay_Proxy_Run
  imports Relay_Proxy
begin

text \<open>
  The proxies of \<^verbatim>\<open>relay/src/server.rs\<close> as a system: listeners, work connections and the clean-up
  of sessions interleave. An invariant of every step gives the pairing of public and work
  connections and the bound on their number; what re-registration leaves behind comes last.
\<close>

section \<open>All proxies of a server together\<close>

text \<open>
  Listeners, pumps, work connections and the frames of the sessions interleave. Besides the server
  the state keeps what the tasks hold: the listener of each proxy object, the pumps that run; and
  three records of the past: the public connections accepted with the one-shot channel each was
  given, the work connections that arrived, and the pairs that were opened
  (proxy, public connection, channel, work connection).
\<close>

type_synonym pump = "nat \<times> nat \<times> nat \<times> nat"

record proxy_sys =
  px_srv :: server
  px_listeners :: "(nat, nat \<times> listener) hmap"
  px_pumps :: "pump list"
  px_asked :: "(nat, nat \<times> u64 \<times> nat) hmap"
  px_arrived :: "(nat, work_conn_header) hmap"
  px_opened :: "pump list"

text \<open>What the rest of the server must leave alone, a session's frames included.\<close>

definition proxies_kept :: "server \<Rightarrow> server \<Rightarrow> bool" where
  "proxies_kept s s' \<longleftrightarrow>
     sv_cfg s' = sv_cfg s \<and> sv_proxy_objs s' = sv_proxy_objs s \<and> sv_oneshots s' = sv_oneshots s \<and>
     (\<forall>sid name p. hm_get (session_proxies sid s') name = Some p \<longrightarrow> hm_get (session_proxies sid s) name = Some p)"

inductive proxy_step :: "(control_msg \<Rightarrow> string + bytes) \<Rightarrow> proxy_sys \<Rightarrow> proxy_sys \<Rightarrow> bool" for ser where
  px_register:
    "hm_get (sv_proxy_objs (px_srv s)) p = None \<Longrightarrow>
     register_proxy ser finished sid name la lp bound p task (px_srv s) = srv \<Longrightarrow>
     proxy_step ser s (s\<lparr>px_srv := srv, px_listeners :=
       (if hm_has (sv_proxy_objs srv) p then hm_put p (sid, Accepting) (px_listeners s) else px_listeners s)\<rparr>)"
| px_close: "proxy_step ser s (s\<lparr>px_srv := close_proxy sid name (px_srv s)\<rparr>)"
| px_cleanup: "proxy_step ser s (s\<lparr>px_srv := cleanup_session sid (px_srv s)\<rparr>)"
| px_accept:
    "hm_get (px_listeners s) p = Some (sid, Accepting) \<Longrightarrow> hm_get (px_asked s) tx = None \<Longrightarrow>
     listener_accept ser sid p conn tx public (px_srv s) = (l, srv) \<Longrightarrow>
     proxy_step ser s (s\<lparr>px_srv := srv, px_listeners := hm_put p (sid, l) (px_listeners s),
       px_asked := hm_put tx (p, conn, public) (px_asked s)\<rparr>)"
| px_arrival:
    "hm_get (px_arrived s) stream = None \<Longrightarrow>
     proxy_step ser s (s\<lparr>px_srv := handle_work_arrival stream addr header (px_srv s),
       px_arrived := hm_put stream header (px_arrived s)\<rparr>)"
| px_paired:
    "hm_get (px_listeners s) p = Some (sid, Waiting conn tx public) \<Longrightarrow>
     hm_get (sv_oneshots (px_srv s)) tx = Some (Some work) \<Longrightarrow>
     proxy_step ser s (s\<lparr>px_srv := listener_result finished sid p conn (Some work) task (px_srv s),
       px_listeners := hm_put p (sid, Accepting) (px_listeners s),
       px_pumps := (p, public, tx, work) # px_pumps s, px_opened := (p, public, tx, work) # px_opened s\<rparr>)"
| px_unpaired:
    "hm_get (px_listeners s) p = Some (sid, Waiting conn tx public) \<Longrightarrow>
     proxy_step ser s (s\<lparr>px_srv := listener_result finished sid p conn None task (px_srv s),
       px_listeners := hm_put p (sid, Accepting) (px_listeners s)\<rparr>)"
| px_pump_end:
    "(p, public, tx, work) \<in> set (px_pumps s) \<Longrightarrow>
     proxy_step ser s (s\<lparr>px_srv := pump_end sid p (px_srv s), px_pumps := remove1 (p, public, tx, work) (px_pumps s)\<rparr>)"
| px_abort_listener:
    "hm_get (px_listeners s) p = Some (sid, l) \<Longrightarrow>
     proxy_step ser s (s\<lparr>px_listeners := hm_put p (sid, Stopped) (px_listeners s)\<rparr>)"
| px_abort_pump: "proxy_step ser s (s\<lparr>px_pumps := remove1 pump (px_pumps s)\<rparr>)"
| px_other: "proxies_kept (px_srv s) srv \<Longrightarrow> proxy_step ser s (s\<lparr>px_srv := srv\<rparr>)"

inductive proxy_run :: "(control_msg \<Rightarrow> string + bytes) \<Rightarrow> server_config \<Rightarrow> proxy_sys \<Rightarrow> bool" for ser cfg where
  px_start: "proxy_run ser cfg \<lparr>px_srv = server_bind cfg rz, px_listeners = [], px_pumps = [], px_asked = [],
                px_arrived = [], px_opened = []\<rparr>"
| px_step: "proxy_run ser cfg s \<Longrightarrow> proxy_step ser s s' \<Longrightarrow> proxy_run ser cfg s'"

section \<open>The invariant\<close>

text \<open>A proxy object: its counter covers its pumps, its waiters are asked for and unanswered.\<close>

definition proxy_ok :: "proxy_sys \<Rightarrow> nat \<Rightarrow> proxy_entry \<Rightarrow> bool" where
  "proxy_ok s p e \<longleftrightarrow>
     count_list (map fst (px_pumps s)) p \<le> pe_conn_count e \<and>
     pe_conn_count e \<le> cfg_max_concurrent_work (sv_cfg (px_srv s)) \<and>
     (\<forall>sid conn tx public. hm_get (px_listeners s) p = Some (sid, Waiting conn tx public) \<longrightarrow>
        pe_conn_count e < cfg_max_concurrent_work (sv_cfg (px_srv s))) \<and>
     (\<forall>conn tx. hm_get (pe_pending e) conn = Some tx \<longrightarrow>
        hm_get (sv_oneshots (px_srv s)) tx = None \<and> (\<exists>public. hm_get (px_asked s) tx = Some (p, conn, public)))"

text \<open>A channel that carries a work connection was asked for with that connection's header.\<close>

definition delivered_ok :: "proxy_sys \<Rightarrow> nat \<Rightarrow> nat \<Rightarrow> bool" where
  "delivered_ok s tx work \<longleftrightarrow>
     (\<exists>p conn public e header. hm_get (px_asked s) tx = Some (p, conn, public) \<and>
        hm_get (sv_proxy_objs (px_srv s)) p = Some e \<and> hm_get (px_arrived s) work = Some header \<and>
        wh_conn_id header = conn \<and> wh_proxy_name header = pe_name e)"

definition proxies_ok :: "proxy_sys \<Rightarrow> bool" where
  "proxies_ok s \<longleftrightarrow>
     (\<forall>p e. hm_get (sv_proxy_objs (px_srv s)) p = Some e \<longrightarrow> proxy_ok s p e) \<and>
     (\<forall>sid name p. hm_get (session_proxies sid (px_srv s)) name = Some p \<longrightarrow>
        (\<exists>e. hm_get (sv_proxy_objs (px_srv s)) p = Some e \<and> pe_name e = name)) \<and>
     (\<forall>p. hm_get (sv_proxy_objs (px_srv s)) p = None \<longrightarrow>
        hm_get (px_listeners s) p = None \<and> p \<notin> fst ` set (px_pumps s)) \<and>
     (\<forall>p sid conn tx public. hm_get (px_listeners s) p = Some (sid, Waiting conn tx public) \<longrightarrow>
        hm_get (px_asked s) tx = Some (p, conn, public) \<and> tx \<notin> (fst \<circ> snd \<circ> snd) ` set (px_opened s))"

definition deliveries_ok :: "proxy_sys \<Rightarrow> bool" where
  "deliveries_ok s \<longleftrightarrow>
     (\<forall>tx. hm_get (sv_oneshots (px_srv s)) tx \<noteq> None \<longrightarrow> hm_get (px_asked s) tx \<noteq> None) \<and>
     (\<forall>tx work. hm_get (sv_oneshots (px_srv s)) tx = Some (Some work) \<longrightarrow> delivered_ok s tx work) \<and>
     (\<forall>tx tx' work. hm_get (sv_oneshots (px_srv s)) tx = Some (Some work) \<longrightarrow>
        hm_get (sv_oneshots (px_srv s)) tx' = Some (Some work) \<longrightarrow> tx = tx') \<and>
     distinct (map (fst \<circ> snd \<circ> snd) (px_opened s)) \<and>
     (\<forall>p public tx work. (p, public, tx, work) \<in> set (px_opened s) \<longrightarrow>
        hm_get (sv_oneshots (px_srv s)) tx = Some (Some work) \<and>
        (\<exists>conn. hm_get (px_asked s) tx = Some (p, conn, public)))"

definition px_inv :: "proxy_sys \<Rightarrow> bool" where
  "px_inv s \<longleftrightarrow> proxies_ok s \<and> deliveries_ok s"

section \<open>Preservation\<close>

lemma px_sels:
  "px_srv (s\<lparr>px_srv := x\<rparr>) = x" "px_listeners (s\<lparr>px_srv := x\<rparr>) = px_listeners s"
  "px_pumps (s\<lparr>px_srv := x\<rparr>) = px_pumps s" "px_asked (s\<lparr>px_srv := x\<rparr>) = px_asked s"
  "px_arrived (s\<lparr>px_srv := x\<rparr>) = px_arrived s" "px_opened (s\<lparr>px_srv := x\<rparr>) = px_opened s"
  by simp_all

lemma proxy_ok_waiter:
  assumes "proxy_ok s p e" and "hm_get (pe_pending e) conn = Some tx"
  shows "hm_get (sv_oneshots (px_srv s)) tx = None" and "\<exists>public. hm_get (px_asked s) tx = Some (p, conn, public)"
  using assms unfolding proxy_ok_def by blast+

lemma px_inv_proxy: "px_inv s \<Longrightarrow> hm_get (sv_proxy_objs (px_srv s)) p = Some e \<Longrightarrow> proxy_ok s p e"
  by (simp add: px_inv_def proxies_ok_def)

lemma proxies_okI:
  assumes "\<And>p e. hm_get (sv_proxy_objs (px_srv s)) p = Some e \<Longrightarrow> proxy_ok s p e"
    and "\<And>sid name p. hm_get (session_proxies sid (px_srv s)) name = Some p \<Longrightarrow>
        \<exists>e. hm_get (sv_proxy_objs (px_srv s)) p = Some e \<and> pe_name e = name"
    and "\<And>p. hm_get (sv_proxy_objs (px_srv s)) p = None \<Longrightarrow>
        hm_get (px_listeners s) p = None \<and> p \<notin> fst ` set (px_pumps s)"
    and "\<And>p sid conn tx public. hm_get (px_listeners s) p = Some (sid, Waiting conn tx public) \<Longrightarrow>
        hm_get (px_asked s) tx = Some (p, conn, public) \<and> tx \<notin> (fst \<circ> snd \<circ> snd) ` set (px_opened s)"
  shows "proxies_ok s"
  unfolding proxies_ok_def using assms by iprover

lemma proxies_okD:
  assumes "proxies_ok s"
  shows "hm_get (sv_proxy_objs (px_srv s)) p = Some e \<Longrightarrow> proxy_ok s p e"
    and "hm_get (session_proxies sid (px_srv s)) name = Some p \<Longrightarrow>
        \<exists>e. hm_get (sv_proxy_objs (px_srv s)) p = Some e \<and> pe_name e = name"
    and "hm_get (sv_proxy_objs (px_srv s)) p = None \<Longrightarrow>
        hm_get (px_listeners s) p = None \<and> p \<notin> fst ` set (px_pumps s)"
    and "hm_get (px_listeners s) p = Some (sid, Waiting conn tx public) \<Longrightarrow>
        hm_get (px_asked s) tx = Some (p, conn, public) \<and> tx \<notin> (fst \<circ> snd \<circ> snd) ` set (px_opened s)"
  using assms unfolding proxies_ok_def by iprover+

lemma deliveries_okI:
  assumes "\<And>tx. hm_get (sv_oneshots (px_srv s)) tx \<noteq> None \<Longrightarrow> hm_get (px_asked s) tx \<noteq> None"
    and "\<And>tx work. hm_get (sv_oneshots (px_srv s)) tx = Some (Some work) \<Longrightarrow> delivered_ok s tx work"
    and "\<And>tx tx' work. hm_get (sv_oneshots (px_srv s)) tx = Some (Some work) \<Longrightarrow>
        hm_get (sv_oneshots (px_srv s)) tx' = Some (Some work) \<Longrightarrow> tx = tx'"
    and "distinct (map (fst \<circ> snd \<circ> snd) (px_opened s))"
    and "\<And>p public tx work. (p, public, tx, work) \<in> set (px_opened s) \<Longrightarrow>
        hm_get (sv_oneshots (px_srv s)) tx = Some (Some work) \<and>
        (\<exists>conn. hm_get (px_asked s) tx = Some (p, conn, public))"
  shows "deliveries_ok s"
  unfolding deliveries_ok_def using assms by iprover

lemma deliveries_okD:
  assumes "deliveries_ok s"
  shows "hm_get (sv_oneshots (px_srv s)) tx \<noteq> None \<Longrightarrow> hm_get (px_asked s) tx \<noteq> None"
    and "hm_get (sv_oneshots (px_srv s)) tx = Some (Some work) \<Longrightarrow> delivered_ok s tx work"
    and "hm_get (sv_oneshots (px_srv s)) tx = Some (Some work) \<Longrightarrow>
        hm_get (sv_oneshots (px_srv s)) tx' = Some (Some work) \<Longrightarrow> tx = tx'"
    and "distinct (map (fst \<circ> snd \<circ> snd) (px_opened s))"
    and "(p, public, tx, work) \<in> set (px_opened s) \<Longrightarrow>
        hm_get (sv_oneshots (px_srv s)) tx = Some (Some work) \<and>
        (\<exists>conn. hm_get (px_asked s) tx = Some (p, conn, public))"
  using assms unfolding deliveries_ok_def by iprover+

subsection \<open>What leaves the proxies alone\<close>

lemma proxies_kept_refl [simp, inv_intros]: "proxies_kept s s"
  by (simp add: proxies_kept_def)

lemma proxies_kept_trans: "proxies_kept s s' \<Longrightarrow> proxies_kept s' s'' \<Longrightarrow> proxies_kept s s''"
  by (simp add: proxies_kept_def)

lemma proxies_kept_fields [simp, inv_intros]:
  "proxies_kept s (s\<lparr>sv_chans := a\<rparr>)" "proxies_kept s (s\<lparr>sv_pending_index := b\<rparr>)"
  "proxies_kept s (s\<lparr>sv_registry := c\<rparr>)" "proxies_kept s (s\<lparr>sv_aborted := d\<rparr>)"
  "proxies_kept s (s\<lparr>sv_rendezvous := f\<rparr>)" "proxies_kept s (audit ev s)" "proxies_kept s (drop_session sid s)"
  by (simp_all add: proxies_kept_def session_proxies_def audit_def drop_session_def)

lemma proxies_kept_upd_session:
  assumes "\<And>c name p. hm_get (cs_proxies (f c)) name = Some p \<Longrightarrow> hm_get (cs_proxies c) name = Some p"
  shows "proxies_kept s (upd_session sid f s)"
  by (auto simp: proxies_kept_def session_proxies_def upd_session_def split: option.splits dest: assms)

lemma proxies_kept_session [simp, inv_intros]:
  "proxies_kept s (upd_session sid (\<lambda>c. c\<lparr>cs_device_id := a\<rparr>) s)"
  "proxies_kept s (upd_session sid (\<lambda>c. c\<lparr>cs_tasks := b\<rparr>) s)"
  "proxies_kept s (upd_session sid (\<lambda>c. c\<lparr>cs_proxies := hm_del name (cs_proxies c)\<rparr>) s)"
  "proxies_kept s (push_task finished sid task s)"
  by (auto intro!: proxies_kept_upd_session simp: push_task_def split: if_splits)

lemma proxies_kept_send_control [simp, inv_intros]: "proxies_kept s (send_control ser sid m s)"
  by (simp add: send_control_def split: sum.split option.split)

lemmas kept_trans = proxies_kept_fields [THEN proxies_kept_trans [rotated]]
  proxies_kept_session [THEN proxies_kept_trans [rotated]]
  proxies_kept_send_control [THEN proxies_kept_trans [rotated]]

lemma px_inv_kept:
  assumes "px_inv s" and "proxies_kept (px_srv s) srv"
  shows "px_inv (s\<lparr>px_srv := srv\<rparr>)"
proof -
  have eqs: "sv_cfg srv = sv_cfg (px_srv s)" "sv_proxy_objs srv = sv_proxy_objs (px_srv s)"
    "sv_oneshots srv = sv_oneshots (px_srv s)"
    and sub: "\<And>sid name p. hm_get (session_proxies sid srv) name = Some p \<Longrightarrow>
       hm_get (session_proxies sid (px_srv s)) name = Some p"
    using assms(2) unfolding proxies_kept_def by blast+
  have ok: "proxies_ok s" "deliveries_ok s" using assms(1) by (simp_all add: px_inv_def)
  have same: "proxy_ok (s\<lparr>px_srv := srv\<rparr>) p e = proxy_ok s p e"
    "delivered_ok (s\<lparr>px_srv := srv\<rparr>) tx w = delivered_ok s tx w" for p e tx w
    by (simp_all only: proxy_ok_def delivered_ok_def eqs px_sels)
  have "proxies_ok (s\<lparr>px_srv := srv\<rparr>)"
    using ok(1) sub unfolding proxies_ok_def same eqs px_sels by iprover
  moreover have "deliveries_ok (s\<lparr>px_srv := srv\<rparr>)"
    using ok(2) unfolding deliveries_ok_def same eqs px_sels .
  ultimately show ?thesis by (simp add: px_inv_def)
qed

lemma px_inv_kept_step:
  "px_inv (s\<lparr>px_srv := srv\<rparr>) \<Longrightarrow> proxies_kept srv srv' \<Longrightarrow> px_inv (s\<lparr>px_srv := srv'\<rparr>)"
  using px_inv_kept [of "s\<lparr>px_srv := srv\<rparr>" srv'] by simp

subsection \<open>A waiter is answered\<close>

definition answer :: "nat \<Rightarrow> proxy_entry \<Rightarrow> u64 \<Rightarrow> nat \<Rightarrow> nat option \<Rightarrow> server \<Rightarrow> server" where
  "answer p e conn tx x s =
     s\<lparr>sv_proxy_objs := hm_put p (e\<lparr>pe_pending := hm_del conn (pe_pending e)\<rparr>) (sv_proxy_objs s),
       sv_oneshots := hm_put tx x (sv_oneshots s)\<rparr>"

lemma session_proxies_answer [simp]: "session_proxies sid (answer p e conn tx x s) = session_proxies sid s"
  by (simp add: answer_def session_proxies_def)

lemma answer_lookup:
  "hm_get (sv_oneshots (answer p e conn tx x s)) t = (if t = tx then Some x else hm_get (sv_oneshots s) t)"
  "hm_get (sv_proxy_objs (answer p e conn tx x s)) q =
     (if q = p then Some (e\<lparr>pe_pending := hm_del conn (pe_pending e)\<rparr>) else hm_get (sv_proxy_objs s) q)"
  "sv_cfg (answer p e conn tx x s) = sv_cfg s"
  by (simp_all add: answer_def)

text \<open>A proxy other than the answered one, or the answered one without that waiter.\<close>

lemma proxy_ok_answer:
  assumes ok: "proxy_ok s q f" and asked: "hm_get (px_asked s) tx = Some (p, conn, public)"
    and other: "q = p \<Longrightarrow> hm_get (pe_pending g) conn = None"
    and g: "pe_conn_count g = pe_conn_count f"
      "\<And>c t. hm_get (pe_pending g) c = Some t \<Longrightarrow> hm_get (pe_pending f) c = Some t"
  shows "proxy_ok (s\<lparr>px_srv := answer p e conn tx x (px_srv s)\<rparr>) q g"
proof -
  have "hm_get (sv_oneshots (px_srv (s\<lparr>px_srv := answer p e conn tx x (px_srv s)\<rparr>))) t = None \<and>
      (\<exists>public. hm_get (px_asked s) t = Some (q, c, public))" if "hm_get (pe_pending g) c = Some t" for c t
  proof -
    from proxy_ok_waiter [OF ok g(2) [OF that]] obtain pub
      where t: "hm_get (sv_oneshots (px_srv s)) t = None" "hm_get (px_asked s) t = Some (q, c, pub)" by blast
    moreover have "t \<noteq> tx" using t(2) asked other that by auto
    ultimately show ?thesis by (simp add: answer_lookup)
  qed
  then show ?thesis using ok unfolding proxy_ok_def g(1) answer_lookup(3) px_sels by blast
qed

lemma proxies_ok_answer:
  assumes inv: "px_inv s" and e: "hm_get (sv_proxy_objs (px_srv s)) p = Some e"
    and tx: "hm_get (pe_pending e) conn = Some tx"
  shows "proxies_ok (s\<lparr>px_srv := answer p e conn tx x (px_srv s)\<rparr>)"
proof (rule proxies_okI)
  let ?s' = "s\<lparr>px_srv := answer p e conn tx x (px_srv s)\<rparr>"
  have ok: "proxies_ok s" using inv by (simp add: px_inv_def)
  obtain public where asked: "hm_get (px_asked s) tx = Some (p, conn, public)"
    using proxy_ok_waiter(2) [OF proxies_okD(1) [OF ok e] tx] by blast
  fix q f
  assume "hm_get (sv_proxy_objs (px_srv ?s')) q = Some f"
  then have "q = p \<and> f = e\<lparr>pe_pending := hm_del conn (pe_pending e)\<rparr> \<or> q \<noteq> p \<and> hm_get (sv_proxy_objs (px_srv s)) q = Some f"
    by (auto simp: answer_lookup split: if_splits)
  then show "proxy_ok ?s' q f"
  proof (elim disjE conjE)
    assume "q = p" and f: "f = e\<lparr>pe_pending := hm_del conn (pe_pending e)\<rparr>"
    then show ?thesis
      by (simp only: f, intro proxy_ok_answer [OF proxies_okD(1) [OF ok e] asked]) (auto split: if_splits)
  next
    assume "q \<noteq> p" and f: "hm_get (sv_proxy_objs (px_srv s)) q = Some f"
    then show ?thesis by (intro proxy_ok_answer [OF proxies_okD(1) [OF ok f] asked]) auto
  qed
next
  fix sid name q
  assume "hm_get (session_proxies sid (px_srv (s\<lparr>px_srv := answer p e conn tx x (px_srv s)\<rparr>))) name = Some q"
  with inv e show "\<exists>f. hm_get (sv_proxy_objs (px_srv (s\<lparr>px_srv := answer p e conn tx x (px_srv s)\<rparr>))) q = Some f \<and> pe_name f = name"
    using proxies_okD(2) [of s sid name q] by (auto simp: answer_lookup px_inv_def)
next
  fix q
  assume "hm_get (sv_proxy_objs (px_srv (s\<lparr>px_srv := answer p e conn tx x (px_srv s)\<rparr>))) q = None"
  then show "hm_get (px_listeners (s\<lparr>px_srv := answer p e conn tx x (px_srv s)\<rparr>)) q = None \<and>
      q \<notin> fst ` set (px_pumps (s\<lparr>px_srv := answer p e conn tx x (px_srv s)\<rparr>))"
    using proxies_okD(3) [of s q] inv by (simp add: answer_lookup px_inv_def split: if_splits)
next
  fix q sid c t public
  assume "hm_get (px_listeners (s\<lparr>px_srv := answer p e conn tx x (px_srv s)\<rparr>)) q = Some (sid, Waiting c t public)"
  then show "hm_get (px_asked (s\<lparr>px_srv := answer p e conn tx x (px_srv s)\<rparr>)) t = Some (q, c, public) \<and>
      t \<notin> (fst \<circ> snd \<circ> snd) ` set (px_opened (s\<lparr>px_srv := answer p e conn tx x (px_srv s)\<rparr>))"
    using proxies_okD(4) [of s q sid c t public] inv by (simp add: px_inv_def)
qed

lemma deliveries_ok_answer:
  assumes inv: "px_inv s" and e: "hm_get (sv_proxy_objs (px_srv s)) p = Some e"
    and tx: "hm_get (pe_pending e) conn = Some tx"
    and x: "\<And>w. x = Some w \<Longrightarrow> (\<exists>h. hm_get (px_arrived s) w = Some h \<and> wh_conn_id h = conn \<and> wh_proxy_name h = pe_name e)
               \<and> (\<forall>tx'. hm_get (sv_oneshots (px_srv s)) tx' \<noteq> Some (Some w))"
  shows "deliveries_ok (s\<lparr>px_srv := answer p e conn tx x (px_srv s)\<rparr>)"
proof -
  let ?s' = "s\<lparr>px_srv := answer p e conn tx x (px_srv s)\<rparr>"
  have ok: "proxies_ok s" "deliveries_ok s" using inv by (simp_all add: px_inv_def)
  obtain public where asked: "hm_get (px_asked s) tx = Some (p, conn, public)"
    and free: "hm_get (sv_oneshots (px_srv s)) tx = None"
    using proxy_ok_waiter [OF proxies_okD(1) [OF ok(1) e] tx] by blast
  have old: "delivered_ok ?s' t w" if "delivered_ok s t w" for t w
  proof -
    from that obtain q c pub f h where d: "hm_get (px_asked s) t = Some (q, c, pub)"
      "hm_get (sv_proxy_objs (px_srv s)) q = Some f" "hm_get (px_arrived s) w = Some h"
      "wh_conn_id h = c" "wh_proxy_name h = pe_name f" unfolding delivered_ok_def by blast
    show ?thesis unfolding delivered_ok_def using d e
      by (intro exI [of _ q] exI [of _ c] exI [of _ pub]
            exI [of _ "if q = p then e\<lparr>pe_pending := hm_del conn (pe_pending e)\<rparr> else f"] exI [of _ h])
         (auto simp: answer_lookup)
  qed
  have new: "delivered_ok ?s' tx w" if "x = Some w" for w
    using x [OF that] asked unfolding delivered_ok_def by (auto simp: answer_lookup)
  show ?thesis
  proof (rule deliveries_okI)
    fix t assume "hm_get (sv_oneshots (px_srv ?s')) t \<noteq> None"
    then show "hm_get (px_asked ?s') t \<noteq> None"
      using deliveries_okD(1) [OF ok(2), of t] asked by (auto simp: answer_lookup split: if_splits)
  next
    fix t w assume "hm_get (sv_oneshots (px_srv ?s')) t = Some (Some w)"
    then show "delivered_ok ?s' t w"
      using old [OF deliveries_okD(2) [OF ok(2)]] new by (cases "t = tx") (simp_all add: answer_lookup)
  next
    fix t t' w
    assume "hm_get (sv_oneshots (px_srv ?s')) t = Some (Some w)" "hm_get (sv_oneshots (px_srv ?s')) t' = Some (Some w)"
    then show "t = t'"
      using deliveries_okD(3) [OF ok(2), of t w t'] x [of w] by (auto simp: answer_lookup split: if_splits)
  next
    show "distinct (map (fst \<circ> snd \<circ> snd) (px_opened ?s'))"
      using deliveries_okD(4) [OF ok(2)] by simp
  next
    fix q pub t w assume "(q, pub, t, w) \<in> set (px_opened ?s')"
    then show "hm_get (sv_oneshots (px_srv ?s')) t = Some (Some w) \<and> (\<exists>conn. hm_get (px_asked ?s') t = Some (q, conn, pub))"
      using deliveries_okD(5) [OF ok(2), of q pub t w] free by (auto simp: answer_lookup)
  qed
qed

lemma px_inv_answer:
  assumes "px_inv s" and "hm_get (sv_proxy_objs (px_srv s)) p = Some e" and "hm_get (pe_pending e) conn = Some tx"
    and "\<And>w. x = Some w \<Longrightarrow> (\<exists>h. hm_get (px_arrived s) w = Some h \<and> wh_conn_id h = conn \<and> wh_proxy_name h = pe_name e)
               \<and> (\<forall>tx'. hm_get (sv_oneshots (px_srv s)) tx' \<noteq> Some (Some w))"
  shows "px_inv (s\<lparr>px_srv := answer p e conn tx x (px_srv s)\<rparr>)"
  using proxies_ok_answer [OF assms(1-3)] deliveries_ok_answer [OF assms] by (simp add: px_inv_def)

subsection \<open>Draining and closing\<close>

lemma fold_inv: "(\<And>x s. P s \<Longrightarrow> P (f x s)) \<Longrightarrow> P s \<Longrightarrow> P (fold f xs s)"
  by (induction xs arbitrary: s) auto

lemma proxy_pending_Some:
  "hm_get (proxy_pending p s) conn = Some tx \<Longrightarrow>
     \<exists>e. hm_get (sv_proxy_objs s) p = Some e \<and> hm_get (pe_pending e) conn = Some tx"
  by (auto simp: proxy_pending_def split: option.splits)

lemma upd_answer:
  "hm_get (sv_proxy_objs s) p = Some e \<Longrightarrow>
     (upd_proxy p (\<lambda>e. e\<lparr>pe_pending := hm_del conn (pe_pending e)\<rparr>) s)\<lparr>sv_oneshots := hm_put tx x
        (sv_oneshots (upd_proxy p (\<lambda>e. e\<lparr>pe_pending := hm_del conn (pe_pending e)\<rparr>) s))\<rparr>
     = answer p e conn tx x s"
  by (simp add: upd_proxy_def answer_def)

lemma drain_one_inv:
  assumes "px_inv (s\<lparr>px_srv := srv\<rparr>)"
  shows "px_inv (s\<lparr>px_srv := drain_one p conn srv\<rparr>)"
proof -
  define srv1 where "srv1 = srv\<lparr>sv_pending_index := hm_del conn (sv_pending_index srv)\<rparr>"
  have inv: "px_inv (s\<lparr>px_srv := srv1\<rparr>)"
    unfolding srv1_def by (rule px_inv_kept_step [OF assms]) simp
  show ?thesis
  proof (cases "hm_get (proxy_pending p srv1) conn")
    case None
    then show ?thesis using inv by (simp add: drain_one_def srv1_def)
  next
    case (Some tx)
    from proxy_pending_Some [OF this] obtain e
      where e: "hm_get (sv_proxy_objs srv1) p = Some e" "hm_get (pe_pending e) conn = Some tx" by blast
    have "drain_one p conn srv = answer p e conn tx None srv1"
      using Some upd_answer [where conn = conn and tx = tx and x = None, OF e(1)] by (simp add: drain_one_def srv1_def Let_def)
    then show ?thesis
      using px_inv_answer [OF inv, of p e conn tx None] e by simp
  qed
qed

lemma drain_pending_inv: "px_inv (s\<lparr>px_srv := srv\<rparr>) \<Longrightarrow> px_inv (s\<lparr>px_srv := drain_pending p srv\<rparr>)"
  unfolding drain_pending_def by (rule fold_inv) (rule drain_one_inv)

lemma close_proxy_inv:
  assumes "px_inv (s\<lparr>px_srv := srv\<rparr>)"
  shows "px_inv (s\<lparr>px_srv := close_proxy sid name srv\<rparr>)"
proof -
  have "px_inv (s\<lparr>px_srv := audit ev (upd_session sid (\<lambda>c. c\<lparr>cs_proxies := hm_del name (cs_proxies c)\<rparr>) srv)\<rparr>)" for ev
    by (rule px_inv_kept_step [OF assms]) (intro kept_trans proxies_kept_refl)
  then show ?thesis
    using assms by (simp add: close_proxy_def Let_def drain_pending_inv split: option.split)
qed

lemma cleanup_proxy_inv: "px_inv (s\<lparr>px_srv := srv\<rparr>) \<Longrightarrow> px_inv (s\<lparr>px_srv := cleanup_proxy sid p srv\<rparr>)"
  unfolding cleanup_proxy_def Let_def
  by (erule px_inv_kept_step [OF drain_pending_inv [where p = p]]) (intro kept_trans proxies_kept_refl)

lemma cleanup_session_inv:
  assumes "px_inv (s\<lparr>px_srv := srv\<rparr>)"
  shows "px_inv (s\<lparr>px_srv := cleanup_session sid srv\<rparr>)"
proof (cases "hm_get (sv_objs srv) sid")
  case None
  then show ?thesis using assms by (simp add: cleanup_session_def)
next
  case (Some c)
  define s1 where "s1 = upd_session sid (\<lambda>c. c\<lparr>cs_device_id := None\<rparr>) (drop_session sid srv)"
  define s2 where "s2 = (case cs_device_id c of None \<Rightarrow> s1
     | Some did \<Rightarrow> audit (DeviceOffline (cs_addr c) did) (s1\<lparr>sv_registry := snd (unregister did (sv_registry s1))\<rparr>))"
  define s3 where "s3 = upd_session sid (\<lambda>c. c\<lparr>cs_tasks := []\<rparr>) (s2\<lparr>sv_aborted := sv_aborted s2 @ cs_tasks c\<rparr>)"
  define s4 where "s4 = fold (cleanup_proxy sid) (map snd (cs_proxies c)) s3"
  have s1: "px_inv (s\<lparr>px_srv := s1\<rparr>)"
    unfolding s1_def by (rule px_inv_kept_step [OF assms]) (intro kept_trans proxies_kept_refl)
  have s2: "px_inv (s\<lparr>px_srv := s2\<rparr>)"
    unfolding s2_def by (rule px_inv_kept_step [OF s1]) (simp split: option.split, intro allI impI kept_trans proxies_kept_refl)
  have s3: "px_inv (s\<lparr>px_srv := s3\<rparr>)"
    unfolding s3_def by (rule px_inv_kept_step [OF s2]) (intro kept_trans proxies_kept_refl)
  have s4: "px_inv (s\<lparr>px_srv := s4\<rparr>)"
    unfolding s4_def by (rule fold_inv [where P = "\<lambda>srv. px_inv (s\<lparr>px_srv := srv\<rparr>)"]) (auto intro: cleanup_proxy_inv s3)
  have "cleanup_session sid srv =
    (case (sv_rendezvous s4, cs_punch_conn c) of
       (Some rz, Some conn) \<Rightarrow> s4\<lparr>sv_rendezvous := Some (cleanup_conn conn rz)\<rparr> | _ \<Rightarrow> s4)"
    by (simp only: cleanup_session_def Some option.case Let_def s4_def s3_def s2_def s1_def)
  then show ?thesis
    using s4 px_inv_kept_step [OF s4 proxies_kept_fields(5)] by (auto split: option.split prod.split)
qed

subsection \<open>Registration\<close>

lemma session_proxies_upd:
  "session_proxies sid' (upd_session sid (\<lambda>c. c\<lparr>cs_proxies := g (cs_proxies c)\<rparr>) s) =
     (if sid' = sid \<and> hm_get (sv_objs s) sid \<noteq> None then g (session_proxies sid s) else session_proxies sid' s)"
  by (auto simp: session_proxies_def upd_session_def split: option.split)

text \<open>The old proxy of a name is out of the table before it is closed.\<close>

lemma close_proxy_removed:
  "close_proxy sid name (upd_session sid (\<lambda>c. c\<lparr>cs_proxies := hm_del name (cs_proxies c)\<rparr>) s)
     = upd_session sid (\<lambda>c. c\<lparr>cs_proxies := hm_del name (cs_proxies c)\<rparr>) s"
proof -
  have "hm_get (session_proxies sid (upd_session sid (\<lambda>c. c\<lparr>cs_proxies := hm_del name (cs_proxies c)\<rparr>) s)) name = None"
    unfolding session_proxies_upd by (simp add: session_proxies_def)
  then show ?thesis by (simp add: close_proxy_def)
qed

definition fresh_proxy :: "string \<Rightarrow> string \<Rightarrow> u16 \<Rightarrow> u16 \<Rightarrow> proxy_entry" where
  "fresh_proxy name local_addr local_port port =
     \<lparr>pe_name = name, pe_local_addr = local_addr, pe_local_port = local_port, pe_listener_port = port,
      pe_pending = [], pe_conn_count = 0\<rparr>"

definition register_effect :: "nat \<Rightarrow> string \<Rightarrow> nat \<Rightarrow> proxy_entry \<Rightarrow> server \<Rightarrow> server" where
  "register_effect sid name p e s =
     upd_session sid (\<lambda>c. c\<lparr>cs_proxies := hm_put name p (cs_proxies c)\<rparr>)
       (upd_session sid (\<lambda>c. c\<lparr>cs_proxies := hm_del name (cs_proxies c)\<rparr>)
         (s\<lparr>sv_proxy_objs := hm_put p e (sv_proxy_objs s)\<rparr>))"

lemma register_proxy_cases:
  assumes "register_proxy ser finished sid name la lp bound p task s = srv"
  shows "(\<exists>resp. srv = send_control ser sid resp s) \<or>
    (\<exists>port ev resp. srv = send_control ser sid resp (push_task finished sid task (audit ev
       (register_effect sid name p (fresh_proxy name la lp port) s))))"
proof (cases "cfg_max_proxies (sv_cfg s) \<le> length (session_proxies sid s) \<and> \<not> hm_has (session_proxies sid s) name")
  case True
  then show ?thesis using assms by (auto simp: register_proxy_def)
next
  case False
  show ?thesis
  proof (cases bound)
    case (Inl err)
    then show ?thesis using assms False by (auto simp: register_proxy_def)
  next
    case (Inr port)
    then show ?thesis
      using assms False
      unfolding register_proxy_def Let_def close_proxy_removed if_cancel
      by (intro disjI2 exI [of _ port]) (auto simp: register_effect_def fresh_proxy_def)
  qed
qed

lemma px_inv_register_effect:
  assumes inv: "px_inv s" and new: "hm_get (sv_proxy_objs (px_srv s)) p = None"
    and e: "e = fresh_proxy name la lp port"
  shows "px_inv (s\<lparr>px_srv := register_effect sid name p e (px_srv s)\<rparr>)"
proof -
  let ?srv = "register_effect sid name p e (px_srv s)" and ?s' = "s\<lparr>px_srv := register_effect sid name p e (px_srv s)\<rparr>"
  have ok: "proxies_ok s" "deliveries_ok s" using inv by (simp_all add: px_inv_def)
  have objs: "hm_get (sv_proxy_objs ?srv) q = (if q = p then Some e else hm_get (sv_proxy_objs (px_srv s)) q)"
    and eqs: "sv_cfg ?srv = sv_cfg (px_srv s)" "sv_oneshots ?srv = sv_oneshots (px_srv s)" for q
    by (simp_all add: register_effect_def upd_session_def split: option.split)
  have sess: "hm_get (session_proxies sid' ?srv) n = Some q \<Longrightarrow>
      (n = name \<and> q = p) \<or> hm_get (session_proxies sid' (px_srv s)) n = Some q" for sid' n q
    unfolding register_effect_def session_proxies_upd
    by (auto simp: session_proxies_def upd_session_def split: if_splits option.splits)
  have e_ok: "proxy_ok ?s' p e"
    using proxies_okD(3) [OF ok(1) new] by (auto simp: proxy_ok_def e fresh_proxy_def count_list_0_iff)
  have same: "proxy_ok ?s' q f = proxy_ok s q f" for q f by (simp only: proxy_ok_def eqs px_sels)
  have delivered: "delivered_ok ?s' t w" if "delivered_ok s t w" for t w
  proof -
    from that obtain q c pub f h where "hm_get (px_asked s) t = Some (q, c, pub)"
      "hm_get (sv_proxy_objs (px_srv s)) q = Some f" "hm_get (px_arrived s) w = Some h"
      "wh_conn_id h = c" "wh_proxy_name h = pe_name f" unfolding delivered_ok_def by blast
    moreover have "hm_get (sv_proxy_objs ?srv) q = Some f" using new calculation(2) by (auto simp: objs)
    ultimately show ?thesis unfolding delivered_ok_def px_sels by blast
  qed
  have "proxies_ok ?s'"
  proof (rule proxies_okI)
    show "proxy_ok ?s' q f" if "hm_get (sv_proxy_objs (px_srv ?s')) q = Some f" for q f
      using that e_ok proxies_okD(1) [OF ok(1), of q f] by (cases "q = p") (simp_all add: objs same)
    show "\<exists>f. hm_get (sv_proxy_objs (px_srv ?s')) q = Some f \<and> pe_name f = n"
      if "hm_get (session_proxies sid' (px_srv ?s')) n = Some q" for sid' n q
    proof -
      have name: "pe_name e = name" by (simp add: e fresh_proxy_def)
      from sess [OF that [unfolded px_sels]] show ?thesis
        using proxies_okD(2) [OF ok(1), of sid' n q] new name unfolding px_sels objs by auto
    qed
    show "hm_get (px_listeners ?s') q = None \<and> q \<notin> fst ` set (px_pumps ?s')"
      if "hm_get (sv_proxy_objs (px_srv ?s')) q = None" for q
      using that proxies_okD(3) [OF ok(1), of q] by (simp add: objs split: if_splits)
    show "hm_get (px_asked ?s') t = Some (q, c, pub) \<and> t \<notin> (fst \<circ> snd \<circ> snd) ` set (px_opened ?s')"
      if "hm_get (px_listeners ?s') q = Some (sid', Waiting c t pub)" for q sid' c t pub
      using that proxies_okD(4) [OF ok(1), of q sid' c t pub] by simp
  qed
  moreover have "deliveries_ok ?s'"
    using ok(2) delivered unfolding deliveries_ok_def eqs px_sels by iprover
  ultimately show ?thesis by (simp add: px_inv_def)
qed

subsection \<open>Listeners and pumps\<close>

text \<open>One proxy object, its listener and its pumps change, the rest does not.\<close>

lemma px_inv_entry:
  assumes inv: "px_inv s" and e: "hm_get (sv_proxy_objs (px_srv s)) p = Some e"
    and objs: "\<And>q. hm_get (sv_proxy_objs (px_srv s')) q = (if q = p then Some g else hm_get (sv_proxy_objs (px_srv s)) q)"
    and srv: "sv_cfg (px_srv s') = sv_cfg (px_srv s)" "sv_oneshots (px_srv s') = sv_oneshots (px_srv s)"
      "\<And>sid. session_proxies sid (px_srv s') = session_proxies sid (px_srv s)"
    and same: "px_asked s' = px_asked s" "px_arrived s' = px_arrived s" "px_opened s' = px_opened s"
    and lst: "\<And>q. q \<noteq> p \<Longrightarrow> hm_get (px_listeners s') q = hm_get (px_listeners s) q"
      "\<And>sid c t pub. hm_get (px_listeners s') p = Some (sid, Waiting c t pub) \<Longrightarrow>
         hm_get (px_asked s) t = Some (p, c, pub) \<and> t \<notin> (fst \<circ> snd \<circ> snd) ` set (px_opened s)"
    and pumps: "\<And>q. q \<noteq> p \<Longrightarrow> count_list (map fst (px_pumps s')) q \<le> count_list (map fst (px_pumps s)) q"
    and name: "pe_name g = pe_name e" and g: "proxy_ok s' p g"
  shows "px_inv s'"
proof -
  have ok: "proxies_ok s" "deliveries_ok s" using inv by (simp_all add: px_inv_def)
  have other: "proxy_ok s' q f" if "q \<noteq> p" "proxy_ok s q f" for q f
    using that(2) pumps [OF that(1)] unfolding proxy_ok_def srv same lst(1) [OF that(1)]
    by (iprover intro: order_trans)
  have delivered: "delivered_ok s' t w" if "delivered_ok s t w" for t w
  proof -
    from that obtain q c pub f h where d: "hm_get (px_asked s) t = Some (q, c, pub)"
      "hm_get (sv_proxy_objs (px_srv s)) q = Some f" "hm_get (px_arrived s) w = Some h"
      "wh_conn_id h = c" "wh_proxy_name h = pe_name f" unfolding delivered_ok_def by blast
    have "\<exists>f'. hm_get (sv_proxy_objs (px_srv s')) q = Some f' \<and> pe_name f' = pe_name f"
      using d(2) e name by (auto simp: objs)
    then show ?thesis using d(1,3-5) unfolding delivered_ok_def same by force
  qed
  have "proxies_ok s'"
  proof (rule proxies_okI)
    show "proxy_ok s' q f" if "hm_get (sv_proxy_objs (px_srv s')) q = Some f" for q f
      using that g other [of q f] proxies_okD(1) [OF ok(1), of q f] by (cases "q = p") (simp_all add: objs)
    show "\<exists>f. hm_get (sv_proxy_objs (px_srv s')) q = Some f \<and> pe_name f = n"
      if "hm_get (session_proxies sid' (px_srv s')) n = Some q" for sid' n q
      using that proxies_okD(2) [OF ok(1), of sid' n q] e name unfolding objs srv by auto
    show "hm_get (px_listeners s') q = None \<and> q \<notin> fst ` set (px_pumps s')"
      if n: "hm_get (sv_proxy_objs (px_srv s')) q = None" for q
    proof -
      from n have q: "q \<noteq> p" "hm_get (sv_proxy_objs (px_srv s)) q = None" by (auto simp: objs split: if_splits)
      with proxies_okD(3) [OF ok(1) q(2)] pumps [OF q(1)] show ?thesis
        by (simp add: lst(1) count_list_0_iff [symmetric] flip: set_map)
    qed
    show "hm_get (px_asked s') t = Some (q, c, pub) \<and> t \<notin> (fst \<circ> snd \<circ> snd) ` set (px_opened s')"
      if "hm_get (px_listeners s') q = Some (sid', Waiting c t pub)" for q sid' c t pub
      using that lst proxies_okD(4) [OF ok(1), of q sid' c t pub] unfolding same by (cases "q = p") simp_all
  qed
  moreover have "deliveries_ok s'"
    using ok(2) delivered unfolding deliveries_ok_def srv same by iprover
  ultimately show ?thesis by (simp add: px_inv_def)
qed

lemma px_inv_listener:
  assumes inv: "px_inv s" and l: "hm_get (px_listeners s) p \<noteq> None" "\<And>c t pub. l \<noteq> Waiting c t pub"
  shows "px_inv (s\<lparr>px_listeners := hm_put p (sid, l) (px_listeners s)\<rparr>)"
proof -
  have ok: "proxies_ok s" "deliveries_ok s" using inv by (simp_all add: px_inv_def)
  let ?s' = "s\<lparr>px_listeners := hm_put p (sid, l) (px_listeners s)\<rparr>"
  have "proxies_ok ?s'"
  proof (rule proxies_okI)
    show "proxy_ok ?s' q f" if "hm_get (sv_proxy_objs (px_srv ?s')) q = Some f" for q f
      using proxies_okD(1) [OF ok(1), of q f] that l(2) unfolding proxy_ok_def by (cases "q = p") simp_all
    show "\<exists>f. hm_get (sv_proxy_objs (px_srv ?s')) q = Some f \<and> pe_name f = n"
      if "hm_get (session_proxies sid' (px_srv ?s')) n = Some q" for sid' n q
      using that proxies_okD(2) [OF ok(1)] by simp
    show "hm_get (px_listeners ?s') q = None \<and> q \<notin> fst ` set (px_pumps ?s')"
      if "hm_get (sv_proxy_objs (px_srv ?s')) q = None" for q
      using that proxies_okD(3) [OF ok(1), of q] l(1) by auto
    show "hm_get (px_asked ?s') t = Some (q, c, pub) \<and> t \<notin> (fst \<circ> snd \<circ> snd) ` set (px_opened ?s')"
      if w: "hm_get (px_listeners ?s') q = Some (sid', Waiting c t pub)" for q sid' c t pub
    proof -
      have "hm_get (px_listeners s) q = Some (sid', Waiting c t pub)" using w l(2) by (simp split: if_splits)
      from proxies_okD(4) [OF ok(1) this] show ?thesis by simp
    qed
  qed
  moreover have "deliveries_ok ?s'" using ok(2) by (simp add: deliveries_ok_def delivered_ok_def)
  ultimately show ?thesis by (simp add: px_inv_def)
qed

text \<open>More was asked for, more has arrived.\<close>

lemma px_inv_mono:
  assumes inv: "px_inv s"
    and same: "px_srv s' = px_srv s" "px_listeners s' = px_listeners s" "px_pumps s' = px_pumps s"
      "px_opened s' = px_opened s"
    and asked: "\<And>t v. hm_get (px_asked s) t = Some v \<Longrightarrow> hm_get (px_asked s') t = Some v"
    and arrived: "\<And>w h. hm_get (px_arrived s) w = Some h \<Longrightarrow> hm_get (px_arrived s') w = Some h"
  shows "px_inv s'"
proof -
  have ok: "proxies_ok s" "deliveries_ok s" using inv by (simp_all add: px_inv_def)
  have p_ok: "proxy_ok s' q f" if "proxy_ok s q f" for q f
  proof -
    have "hm_get (sv_oneshots (px_srv s)) t = None \<and> (\<exists>pub. hm_get (px_asked s') t = Some (q, c, pub))"
      if "hm_get (pe_pending f) c = Some t" for c t
      using proxy_ok_waiter [OF \<open>proxy_ok s q f\<close> that] asked by blast
    then show ?thesis using that unfolding proxy_ok_def same by iprover
  qed
  have d_ok: "delivered_ok s' t w" if "delivered_ok s t w" for t w
  proof -
    from that obtain q c pub f h where d: "hm_get (px_asked s) t = Some (q, c, pub)"
      "hm_get (sv_proxy_objs (px_srv s)) q = Some f" "hm_get (px_arrived s) w = Some h"
      "wh_conn_id h = c" "wh_proxy_name h = pe_name f" unfolding delivered_ok_def by blast
    from asked [OF d(1)] arrived [OF d(3)] d(2,4,5) show ?thesis unfolding delivered_ok_def same by blast
  qed
  have "proxies_ok s'"
  proof (rule proxies_okI)
    show "hm_get (px_asked s') t = Some (q, c, pub) \<and> t \<notin> (fst \<circ> snd \<circ> snd) ` set (px_opened s')"
      if "hm_get (px_listeners s') q = Some (sid', Waiting c t pub)" for q sid' c t pub
      using proxies_okD(4) [OF ok(1) that [unfolded same]] asked unfolding same by simp
  qed (use proxies_okD(1-3) [OF ok(1)] p_ok in \<open>simp_all add: same\<close>)
  moreover have "deliveries_ok s'"
  proof (rule deliveries_okI)
    show "hm_get (px_asked s') t \<noteq> None" if "hm_get (sv_oneshots (px_srv s')) t \<noteq> None" for t
      using deliveries_okD(1) [OF ok(2) that [unfolded same]] asked by fastforce
    show "hm_get (sv_oneshots (px_srv s')) t = Some (Some w) \<and> (\<exists>c. hm_get (px_asked s') t = Some (q, c, pub))"
      if "(q, pub, t, w) \<in> set (px_opened s')" for q pub t w
      using deliveries_okD(5) [OF ok(2) that [unfolded same]] asked unfolding same by blast
    show "t = t'" if "hm_get (sv_oneshots (px_srv s')) t = Some (Some w)"
      "hm_get (sv_oneshots (px_srv s')) t' = Some (Some w)" for t t' w
      using deliveries_okD(3) [OF ok(2), of t w t'] that unfolding same by simp
  qed (use deliveries_okD(2,4) [OF ok(2)] d_ok in \<open>simp_all add: same\<close>)
  ultimately show ?thesis by (simp add: px_inv_def)
qed

lemma px_inv_asked:
  "px_inv s \<Longrightarrow> hm_get (px_asked s) tx = None \<Longrightarrow> px_inv (s\<lparr>px_asked := hm_put tx v (px_asked s)\<rparr>)"
  by (erule px_inv_mono) auto

lemma px_inv_arrived:
  "px_inv s \<Longrightarrow> hm_get (px_arrived s) w = None \<Longrightarrow> px_inv (s\<lparr>px_arrived := hm_put w h (px_arrived s)\<rparr>)"
  by (erule px_inv_mono) auto

lemma px_inv_opened:
  assumes inv: "px_inv s" and tx: "hm_get (sv_oneshots (px_srv s)) tx = Some (Some work)"
    and asked: "hm_get (px_asked s) tx = Some (p, conn, public)"
    and new: "tx \<notin> (fst \<circ> snd \<circ> snd) ` set (px_opened s)"
    and idle: "\<And>q sid c pub. hm_get (px_listeners s) q \<noteq> Some (sid, Waiting c tx pub)"
  shows "px_inv (s\<lparr>px_opened := (p, public, tx, work) # px_opened s\<rparr>)"
proof -
  let ?s' = "s\<lparr>px_opened := (p, public, tx, work) # px_opened s\<rparr>"
  have ok: "proxies_ok s" "deliveries_ok s" using inv by (simp_all add: px_inv_def)
  have same: "proxy_ok ?s' q f = proxy_ok s q f" "delivered_ok ?s' t w = delivered_ok s t w" for q f t w
    by (simp_all add: proxy_ok_def delivered_ok_def)
  have "proxies_ok ?s'"
  proof (rule proxies_okI)
    show "hm_get (px_asked ?s') t = Some (q, c, pub) \<and> t \<notin> (fst \<circ> snd \<circ> snd) ` set (px_opened ?s')"
      if w: "hm_get (px_listeners ?s') q = Some (sid', Waiting c t pub)" for q sid' c t pub
    proof -
      from w idle have "t \<noteq> tx" by auto
      with w show ?thesis using proxies_okD(4) [OF ok(1), of q sid' c t pub] by simp
    qed
  qed (use proxies_okD(1-3) [OF ok(1)] in \<open>simp_all add: same\<close>)
  moreover have "deliveries_ok ?s'"
  proof (rule deliveries_okI)
    show "distinct (map (fst \<circ> snd \<circ> snd) (px_opened ?s'))"
      using deliveries_okD(4) [OF ok(2)] new by simp
    show "hm_get (sv_oneshots (px_srv ?s')) t = Some (Some w) \<and> (\<exists>c. hm_get (px_asked ?s') t = Some (q, c, pub))"
      if "(q, pub, t, w) \<in> set (px_opened ?s')" for q pub t w
      using that deliveries_okD(5) [OF ok(2), of q pub t w] tx asked by auto
    show "hm_get (px_asked ?s') t \<noteq> None" if "hm_get (sv_oneshots (px_srv ?s')) t \<noteq> None" for t
      using deliveries_okD(1) [OF ok(2)] that by simp
    show "delivered_ok ?s' t w" if "hm_get (sv_oneshots (px_srv ?s')) t = Some (Some w)" for t w
      using deliveries_okD(2) [OF ok(2)] that by (simp add: same)
    show "t = t'" if "hm_get (sv_oneshots (px_srv ?s')) t = Some (Some w)"
      "hm_get (sv_oneshots (px_srv ?s')) t' = Some (Some w)" for t t' w
      using deliveries_okD(3) [OF ok(2), of t w t'] that by simp
  qed
  ultimately show ?thesis by (simp add: px_inv_def)
qed

section \<open>Every step preserves the invariant\<close>

lemma upd_proxy_Some:
  "hm_get (sv_proxy_objs s) p = Some e \<Longrightarrow> upd_proxy p f s = s\<lparr>sv_proxy_objs := hm_put p (f e) (sv_proxy_objs s)\<rparr>"
  by (simp add: upd_proxy_def)

lemma px_inv_waiter:
  assumes inv: "px_inv s" and e: "hm_get (sv_proxy_objs (px_srv s)) p = Some e"
    and asked: "hm_get (px_asked s) tx = Some (p, conn, public)"
    and free: "hm_get (sv_oneshots (px_srv s)) tx = None"
  shows "px_inv (s\<lparr>px_srv := (px_srv s)\<lparr>sv_proxy_objs :=
     hm_put p (e\<lparr>pe_pending := hm_put conn tx (pe_pending e)\<rparr>) (sv_proxy_objs (px_srv s))\<rparr>\<rparr>)"
proof (rule px_inv_entry [OF inv e])
  have ok: "proxy_ok s p e" by (rule px_inv_proxy [OF inv e])
  let ?g = "e\<lparr>pe_pending := hm_put conn tx (pe_pending e)\<rparr>"
  have "hm_get (sv_oneshots (px_srv s)) t = None \<and> (\<exists>pub. hm_get (px_asked s) t = Some (p, c, pub))"
    if "hm_get (pe_pending ?g) c = Some t" for c t
    using that proxy_ok_waiter [OF ok, of c t] asked free by (auto split: if_splits)
  then show "proxy_ok (s\<lparr>px_srv := (px_srv s)\<lparr>sv_proxy_objs := hm_put p ?g (sv_proxy_objs (px_srv s))\<rparr>\<rparr>) p ?g"
    using ok unfolding proxy_ok_def px_sels by simp
  show "hm_get (px_asked s) t = Some (p, c, pub) \<and> t \<notin> (fst \<circ> snd \<circ> snd) ` set (px_opened s)"
    if "hm_get (px_listeners (s\<lparr>px_srv := (px_srv s)\<lparr>sv_proxy_objs := hm_put p ?g (sv_proxy_objs (px_srv s))\<rparr>\<rparr>)) p
        = Some (sid, Waiting c t pub)" for sid c t pub
    using that inv unfolding px_inv_def px_sels by (blast dest: proxies_okD(4))
qed (simp_all add: session_proxies_def)

lemma px_inv_wait:
  assumes inv: "px_inv s" and e: "hm_get (sv_proxy_objs (px_srv s)) p = Some e"
    and asked: "hm_get (px_asked s) tx = Some (p, conn, public)"
    and new: "tx \<notin> (fst \<circ> snd \<circ> snd) ` set (px_opened s)"
    and room: "pe_conn_count e < cfg_max_concurrent_work (sv_cfg (px_srv s))"
  shows "px_inv (s\<lparr>px_listeners := hm_put p (sid, Waiting conn tx public) (px_listeners s)\<rparr>)"
proof -
  let ?s' = "s\<lparr>px_listeners := hm_put p (sid, Waiting conn tx public) (px_listeners s)\<rparr>"
  have ok: "proxies_ok s" "deliveries_ok s" using inv by (simp_all add: px_inv_def)
  have "proxies_ok ?s'"
  proof (rule proxies_okI)
    show "proxy_ok ?s' q f" if f: "hm_get (sv_proxy_objs (px_srv ?s')) q = Some f" for q f
      using proxies_okD(1) [OF ok(1), of q f] f e room unfolding proxy_ok_def by (cases "q = p") simp_all
    show "\<exists>f. hm_get (sv_proxy_objs (px_srv ?s')) q = Some f \<and> pe_name f = n"
      if "hm_get (session_proxies sid' (px_srv ?s')) n = Some q" for sid' n q
      using that proxies_okD(2) [OF ok(1)] by simp
    show "hm_get (px_listeners ?s') q = None \<and> q \<notin> fst ` set (px_pumps ?s')"
      if "hm_get (sv_proxy_objs (px_srv ?s')) q = None" for q
      using that proxies_okD(3) [OF ok(1), of q] e by auto
    show "hm_get (px_asked ?s') t = Some (q, c, pub) \<and> t \<notin> (fst \<circ> snd \<circ> snd) ` set (px_opened ?s')"
      if "hm_get (px_listeners ?s') q = Some (sid', Waiting c t pub)" for q sid' c t pub
      using that proxies_okD(4) [OF ok(1), of q sid' c t pub] asked new by (cases "q = p") auto
  qed
  moreover have "deliveries_ok ?s'" using ok(2) by (simp add: deliveries_ok_def delivered_ok_def)
  ultimately show ?thesis by (simp add: px_inv_def)
qed

lemma listener_accept_cases:
  assumes "listener_accept ser sid p conn tx public s = (l, srv)"
  shows "(srv = s \<and> (l = Stopped \<or> l = Accepting)) \<or>
    (\<exists>e s1. hm_get (sv_proxy_objs s) p = Some e \<and> pe_conn_count e < cfg_max_concurrent_work (sv_cfg s) \<and>
       proxies_kept (s\<lparr>sv_proxy_objs := hm_put p (e\<lparr>pe_pending := hm_put conn tx (pe_pending e)\<rparr>) (sv_proxy_objs s)\<rparr>) s1 \<and>
       (l = Stopped \<and> srv = drain_pending p s1 \<or> l = Waiting conn tx public \<and> srv = s1))"
proof (cases "hm_get (sv_proxy_objs s) p")
  case None
  then show ?thesis using assms by (simp add: listener_accept_def)
next
  case (Some e)
  define s0 where "s0 = s\<lparr>sv_proxy_objs := hm_put p (e\<lparr>pe_pending := hm_put conn tx (pe_pending e)\<rparr>) (sv_proxy_objs s)\<rparr>"
  define s1 where "s1 = s0\<lparr>sv_pending_index := hm_put conn (sid, pe_name e) (sv_pending_index s0)\<rparr>"
  have kept: "proxies_kept s0 s1" "proxies_kept s0 (s1\<lparr>sv_chans := chans\<rparr>)" for chans
    unfolding s1_def by (intro kept_trans proxies_kept_refl)+
  have eq: "listener_accept ser sid p conn tx public s =
     (if cfg_max_concurrent_work (sv_cfg s) \<le> pe_conn_count e then (Accepting, s)
      else case encode_control ser (StartWorkConn (pe_name e) conn) of
             Inl _ \<Rightarrow> (Stopped, drain_pending p s1)
           | Inr f \<Rightarrow>
               (case Option.bind (hm_get (sv_objs s1) sid) (\<lambda>c. chan_send (cs_control_tx c) f (sv_chans s1)) of
                  None \<Rightarrow> (Stopped, drain_pending p s1)
                | Some chans \<Rightarrow> (Waiting conn tx public, s1\<lparr>sv_chans := chans\<rparr>)))"
    by (simp only: listener_accept_def Some option.case upd_proxy_Some [OF Some] Let_def s1_def s0_def)
  show ?thesis
    using assms kept [unfolded s0_def] Some unfolding eq
    by (auto simp: not_le split: if_splits sum.splits option.splits)
qed

lemma px_updates_swap:
  "s\<lparr>px_srv := x, px_arrived := y\<rparr> = s\<lparr>px_arrived := y, px_srv := x\<rparr>"
  "s\<lparr>px_srv := x, px_listeners := z, px_asked := a\<rparr> = s\<lparr>px_asked := a, px_srv := x, px_listeners := z\<rparr>"
  "s\<lparr>px_srv := x, px_listeners := z, px_pumps := b, px_opened := c\<rparr>
     = s\<lparr>px_listeners := z, px_pumps := b, px_srv := x, px_opened := c\<rparr>"
  "s\<lparr>px_srv := x, px_listeners := z\<rparr> = s\<lparr>px_listeners := z, px_srv := x\<rparr>"
  "s\<lparr>px_srv := x, px_pumps := b\<rparr> = s\<lparr>px_pumps := b, px_srv := x\<rparr>"
  by simp_all

lemma px_accept_inv:
  assumes inv: "px_inv s" and l: "hm_get (px_listeners s) p = Some (sid, Accepting)"
    and tx: "hm_get (px_asked s) tx = None"
    and step: "listener_accept ser sid p conn tx public (px_srv s) = (l', srv)"
  shows "px_inv (s\<lparr>px_asked := hm_put tx (p, conn, public) (px_asked s), px_srv := srv,
       px_listeners := hm_put p (sid, l') (px_listeners s)\<rparr>)"
proof -
  let ?a = "s\<lparr>px_asked := hm_put tx (p, conn, public) (px_asked s)\<rparr>"
  have a: "px_inv ?a" by (rule px_inv_asked [OF inv tx])
  have ok: "deliveries_ok s" using inv by (simp add: px_inv_def)
  have free: "hm_get (sv_oneshots (px_srv s)) tx = None"
    using deliveries_okD(1) [OF ok, of tx] tx by blast
  have new: "tx \<notin> (fst \<circ> snd \<circ> snd) ` set (px_opened s)"
    using deliveries_okD(5) [OF ok] tx by fastforce
  from listener_accept_cases [OF step] show ?thesis
  proof (elim disjE exE conjE)
    assume "srv = px_srv s" "l' = Stopped"
    then show ?thesis using px_inv_listener [OF a, of p Stopped sid] l by simp
  next
    assume "srv = px_srv s" "l' = Accepting"
    then show ?thesis using px_inv_listener [OF a, of p Accepting sid] l by simp
  next
    fix e s1
    assume e: "hm_get (sv_proxy_objs (px_srv s)) p = Some e"
      and room: "pe_conn_count e < cfg_max_concurrent_work (sv_cfg (px_srv s))"
      and kept: "proxies_kept ((px_srv s)\<lparr>sv_proxy_objs := hm_put p (e\<lparr>pe_pending := hm_put conn tx (pe_pending e)\<rparr>)
        (sv_proxy_objs (px_srv s))\<rparr>) s1"
    have w: "px_inv (?a\<lparr>px_srv := s1\<rparr>)"
      using px_inv_kept_step [OF px_inv_waiter [OF a, of p e tx conn public]] e free kept by simp
    {
      assume "l' = Stopped" "srv = drain_pending p s1"
      then show ?thesis
        using px_inv_listener [OF drain_pending_inv [OF w, of p], of p Stopped sid] l by simp
    next
      assume "l' = Waiting conn tx public" "srv = s1"
      then show ?thesis
        using px_inv_wait [OF w, of p "e\<lparr>pe_pending := hm_put conn tx (pe_pending e)\<rparr>" tx conn public sid] kept new room
        by (simp add: proxies_kept_def)
    }
  qed
qed

text \<open>A work connection: answered, or turned away without a trace in the proxies.\<close>

lemma work_arrival_cases:
  "proxies_kept s (handle_work_arrival stream addr header s) \<or>
   (\<exists>sid p e tx s1. proxies_kept s s1 \<and> hm_get (session_proxies sid s1) (wh_proxy_name header) = Some p \<and>
      hm_get (sv_proxy_objs s1) p = Some e \<and> hm_get (pe_pending e) (wh_conn_id header) = Some tx \<and>
      handle_work_arrival stream addr header s = answer p e (wh_conn_id header) tx (Some stream) s1)"
proof (cases "hm_get (sv_pending_index s) (wh_conn_id header)")
  case None
  then show ?thesis by (simp add: handle_work_arrival_def)
next
  case (Some entry)
  obtain sid name where entry: "entry = (sid, name)" by (cases entry)
  define s1 where "s1 = s\<lparr>sv_pending_index := hm_del (wh_conn_id header) (sv_pending_index s)\<rparr>"
  have kept: "proxies_kept s s1" unfolding s1_def by (intro kept_trans proxies_kept_refl)
  then have kept_audit: "proxies_kept s (audit ev s1)" for ev by (intro kept_trans)
  have eq: "handle_work_arrival stream addr header s =
     (if name \<noteq> wh_proxy_name header
      then audit (WorkConnClosed addr (wh_proxy_name header) ''proxy_name mismatch'') s1
      else if sid \<notin> set (sv_sessions s1) then s1
      else case hm_get (session_proxies sid s1) name of
             None \<Rightarrow> s1
           | Some p \<Rightarrow>
               (case hm_get (proxy_pending p s1) (wh_conn_id header) of
                  Some tx \<Rightarrow>
                    (upd_proxy p (\<lambda>e. e\<lparr>pe_pending := hm_del (wh_conn_id header) (pe_pending e)\<rparr>) s1)\<lparr>sv_oneshots := hm_put tx (Some stream)
        (sv_oneshots (upd_proxy p (\<lambda>e. e\<lparr>pe_pending := hm_del (wh_conn_id header) (pe_pending e)\<rparr>) s1))\<rparr>
                | None \<Rightarrow> audit (WorkConnClosed addr (wh_proxy_name header) ''duplicate conn_id'') s1))"
    by (simp only: handle_work_arrival_def Some entry option.case prod.case Let_def s1_def)
  show ?thesis
  proof (cases "name = wh_proxy_name header \<and> sid \<in> set (sv_sessions s1)
      \<and> (\<exists>p. hm_get (session_proxies sid s1) name = Some p \<and> hm_get (proxy_pending p s1) (wh_conn_id header) \<noteq> None)")
    case True
    then obtain p tx where p: "hm_get (session_proxies sid s1) name = Some p"
      "hm_get (proxy_pending p s1) (wh_conn_id header) = Some tx" "name = wh_proxy_name header" "sid \<in> set (sv_sessions s1)"
      by auto
    from proxy_pending_Some [OF p(2)] obtain e where e: "hm_get (sv_proxy_objs s1) p = Some e"
      "hm_get (pe_pending e) (wh_conn_id header) = Some tx" by blast
    have "handle_work_arrival stream addr header s = answer p e (wh_conn_id header) tx (Some stream) s1"
      unfolding eq using p e(1) by (simp add: upd_answer)
    then show ?thesis using kept p(1,3) e by blast
  next
    case False
    then show ?thesis unfolding eq using kept kept_audit by (auto split: option.splits)
  qed
qed

lemma px_arrival_inv:
  assumes inv: "px_inv s" and new: "hm_get (px_arrived s) stream = None"
  shows "px_inv (s\<lparr>px_arrived := hm_put stream header (px_arrived s),
       px_srv := handle_work_arrival stream addr header (px_srv s)\<rparr>)"
proof -
  let ?a = "s\<lparr>px_arrived := hm_put stream header (px_arrived s)\<rparr>"
  have a: "px_inv ?a" by (rule px_inv_arrived [OF inv new])
  have ok: "deliveries_ok s" using inv by (simp add: px_inv_def)
  have unused: "hm_get (sv_oneshots (px_srv s)) t \<noteq> Some (Some stream)" for t
    using deliveries_okD(2) [OF ok, of t stream] new by (auto simp: delivered_ok_def)
  from work_arrival_cases [of "px_srv s" stream addr header] show ?thesis
  proof (elim disjE exE conjE)
    assume "proxies_kept (px_srv s) (handle_work_arrival stream addr header (px_srv s))"
    then show ?thesis using px_inv_kept [OF a] by simp
  next
    fix sid p e tx s1
    assume kept: "proxies_kept (px_srv s) s1" and p: "hm_get (session_proxies sid s1) (wh_proxy_name header) = Some p"
      and e: "hm_get (sv_proxy_objs s1) p = Some e" "hm_get (pe_pending e) (wh_conn_id header) = Some tx"
      and eq: "handle_work_arrival stream addr header (px_srv s) = answer p e (wh_conn_id header) tx (Some stream) s1"
    have a1: "px_inv (?a\<lparr>px_srv := s1\<rparr>)" using px_inv_kept [OF a, of s1] kept by simp
    then have "proxies_ok (?a\<lparr>px_srv := s1\<rparr>)" by (simp add: px_inv_def)
    from proxies_okD(2) [OF this, of sid "wh_proxy_name header" p] p e have "wh_proxy_name header = pe_name e" by auto
    then show ?thesis
      using px_inv_answer [OF a1, of p e "wh_conn_id header" tx "Some stream"] e unused kept
      by (simp add: eq proxies_kept_def)
  qed
qed

lemma proxy_obj_listener:
  assumes "px_inv s" and "hm_get (px_listeners s) p \<noteq> None"
  shows "\<exists>e. hm_get (sv_proxy_objs (px_srv s)) p = Some e"
proof -
  have "proxies_ok s" using assms(1) by (simp add: px_inv_def)
  from proxies_okD(3) [OF this, of p] assms(2) show ?thesis by fastforce
qed

text \<open>What the listener's result does to its proxy object.\<close>

definition settled :: "u64 \<Rightarrow> nat \<Rightarrow> proxy_entry \<Rightarrow> proxy_entry" where
  "settled conn n e = e\<lparr>pe_pending := hm_del conn (pe_pending e), pe_conn_count := pe_conn_count e + n\<rparr>"

lemma listener_result_kept:
  assumes e: "hm_get (sv_proxy_objs s) p = Some e"
  shows "\<exists>m. proxies_kept (s\<lparr>sv_proxy_objs := m\<rparr>) (listener_result finished sid p conn arrived task s) \<and>
     (\<forall>q. hm_get m q = (if q = p then Some (settled conn (if arrived = None then 0 else 1) e) else hm_get (sv_proxy_objs s) q))"
proof -
  define s1 where "s1 = s\<lparr>sv_proxy_objs := hm_put p (e\<lparr>pe_pending := hm_del conn (pe_pending e)\<rparr>) (sv_proxy_objs s)\<rparr>"
  define s2 where "s2 = s1\<lparr>sv_pending_index := hm_del conn (sv_pending_index s1)\<rparr>"
  show ?thesis
  proof (cases arrived)
    case None
    have "proxies_kept s1 s2" unfolding s2_def by (intro kept_trans proxies_kept_refl)
    moreover have "listener_result finished sid p conn arrived task s = s2"
      by (simp add: listener_result_def None upd_proxy_Some [OF e] s2_def s1_def)
    ultimately show ?thesis
      unfolding s1_def by (intro exI [of _ "hm_put p (e\<lparr>pe_pending := hm_del conn (pe_pending e)\<rparr>) (sv_proxy_objs s)"])
        (simp add: None settled_def)
  next
    case (Some work)
    let ?e1 = "e\<lparr>pe_pending := hm_del conn (pe_pending e)\<rparr>"
    let ?m = "hm_put p (?e1\<lparr>pe_conn_count := pe_conn_count ?e1 + 1\<rparr>) (sv_proxy_objs s2)"
    have s2p: "hm_get (sv_proxy_objs s2) p = Some ?e1" by (simp add: s2_def s1_def)
    obtain ev where eq: "listener_result finished sid p conn arrived task s
        = push_task finished sid task (audit ev (s2\<lparr>sv_proxy_objs := ?m\<rparr>))"
      unfolding listener_result_def Some option.case Let_def upd_proxy_Some [OF e]
      unfolding s1_def [symmetric] unfolding s2_def [symmetric] upd_proxy_Some [OF s2p] by blast
    have "proxies_kept (s\<lparr>sv_proxy_objs := ?m\<rparr>) (s2\<lparr>sv_proxy_objs := ?m\<rparr>)"
      by (simp add: s2_def s1_def proxies_kept_def session_proxies_def)
    then have "proxies_kept (s\<lparr>sv_proxy_objs := ?m\<rparr>) (listener_result finished sid p conn arrived task s)"
      unfolding eq by (intro kept_trans)
    then show ?thesis
      by (rule exI [of _ ?m, OF conjI]) (simp add: Some settled_def s2_def s1_def)
  qed
qed

lemma px_result_inv:
  assumes inv: "px_inv s" and l: "hm_get (px_listeners s) p = Some (sid, Waiting conn tx public)"
    and arrived: "arrived = None \<and> pumps = px_pumps s \<or>
       arrived = Some work \<and> pumps = (p, public, tx, work) # px_pumps s"
  shows "px_inv (s\<lparr>px_listeners := hm_put p (sid, Accepting) (px_listeners s), px_pumps := pumps,
       px_srv := listener_result finished sid p conn arrived task (px_srv s)\<rparr>)"
proof -
  obtain e where e: "hm_get (sv_proxy_objs (px_srv s)) p = Some e"
    using proxy_obj_listener [OF inv, of p] l by auto
  from listener_result_kept [OF e, of finished sid conn arrived task] obtain m
    where kept: "proxies_kept ((px_srv s)\<lparr>sv_proxy_objs := m\<rparr>) (listener_result finished sid p conn arrived task (px_srv s))"
      and m: "\<And>q. hm_get m q = (if q = p then Some (settled conn (if arrived = None then 0 else 1) e)
         else hm_get (sv_proxy_objs (px_srv s)) q)" by blast
  let ?g = "settled conn (if arrived = None then 0 else 1) e"
  let ?s' = "s\<lparr>px_srv := (px_srv s)\<lparr>sv_proxy_objs := m\<rparr>, px_listeners := hm_put p (sid, Accepting) (px_listeners s),
     px_pumps := pumps\<rparr>"
  have ok: "proxy_ok s p e" by (rule px_inv_proxy [OF inv e])
  have room: "pe_conn_count e < cfg_max_concurrent_work (sv_cfg (px_srv s))"
    using ok l unfolding proxy_ok_def by iprover
  have count: "count_list (map fst (px_pumps s)) p \<le> pe_conn_count e" using ok unfolding proxy_ok_def by iprover
  have waiters: "hm_get (sv_oneshots (px_srv s)) t = None \<and> (\<exists>pub. hm_get (px_asked s) t = Some (p, c, pub))"
    if "hm_get (pe_pending ?g) c = Some t" for c t
    using that proxy_ok_waiter [OF ok, of c t] by (auto simp: settled_def split: if_splits)
  have g: "proxy_ok ?s' p ?g"
    unfolding proxy_ok_def
  proof (intro conjI allI impI)
    show "count_list (map fst (px_pumps ?s')) p \<le> pe_conn_count ?g"
      "pe_conn_count ?g \<le> cfg_max_concurrent_work (sv_cfg (px_srv ?s'))"
      using arrived room count by (auto simp: settled_def)
    fix c t assume "hm_get (pe_pending ?g) c = Some t"
    from waiters [OF this] show "hm_get (sv_oneshots (px_srv ?s')) t = None"
      "\<exists>pub. hm_get (px_asked ?s') t = Some (p, c, pub)" by simp_all
  qed simp
  have "px_inv ?s'"
    by (rule px_inv_entry [OF inv e, where g = ?g])
       (use arrived g in \<open>auto simp: m session_proxies_def settled_def\<close>)
  from px_inv_kept [OF this, of "listener_result finished sid p conn arrived task (px_srv s)"] kept
  show ?thesis by simp
qed

lemma count_remove1_le: "count_list (map fst (remove1 x xs)) q \<le> count_list (map fst xs) q"
  by (induction xs) auto

lemma count_remove1_fst:
  assumes "x \<in> set xs"
  shows "Suc (count_list (map fst (remove1 x xs)) (fst x)) = count_list (map fst xs) (fst x)"
proof -
  obtain ys zs where "xs = ys @ x # zs" "x \<notin> set ys" using split_list_first [OF assms] by blast
  then show ?thesis by (simp add: remove1_append)
qed

lemma px_pumps_inv:
  assumes inv: "px_inv s"
  shows "px_inv (s\<lparr>px_pumps := remove1 pump (px_pumps s)\<rparr>)"
proof -
  let ?s' = "s\<lparr>px_pumps := remove1 pump (px_pumps s)\<rparr>"
  have ok: "proxies_ok s" "deliveries_ok s" using inv by (simp_all add: px_inv_def)
  have p_ok: "proxy_ok ?s' q f" if "proxy_ok s q f" for q f
    using that count_remove1_le [of pump "px_pumps s" q] unfolding proxy_ok_def by simp
  have sub: "set (remove1 pump (px_pumps s)) \<subseteq> set (px_pumps s)" by (rule set_remove1_subset)
  have "proxies_ok ?s'"
  proof (rule proxies_okI)
    show "hm_get (px_listeners ?s') q = None \<and> q \<notin> fst ` set (px_pumps ?s')"
      if "hm_get (sv_proxy_objs (px_srv ?s')) q = None" for q
      using proxies_okD(3) [OF ok(1), of q] that sub image_mono [OF sub, of fst] by auto
  qed (use proxies_okD(1,2,4) [OF ok(1)] p_ok in simp_all)
  moreover have "deliveries_ok ?s'" using ok(2) by (simp add: deliveries_ok_def delivered_ok_def)
  ultimately show ?thesis by (simp add: px_inv_def)
qed

lemma px_pump_end_inv:
  assumes inv: "px_inv s" and pump: "(p, public, tx, work) \<in> set (px_pumps s)"
  shows "px_inv (s\<lparr>px_pumps := remove1 (p, public, tx, work) (px_pumps s), px_srv := pump_end sid p (px_srv s)\<rparr>)"
proof -
  have pok: "proxies_ok s" using inv by (simp add: px_inv_def)
  obtain e where e: "hm_get (sv_proxy_objs (px_srv s)) p = Some e"
    using proxies_okD(3) [OF pok, of p] pump by force
  let ?g = "e\<lparr>pe_conn_count := pe_conn_count e - 1\<rparr>"
  let ?pumps = "remove1 (p, public, tx, work) (px_pumps s)"
  let ?s' = "s\<lparr>px_pumps := ?pumps, px_srv := (px_srv s)\<lparr>sv_proxy_objs := hm_put p ?g (sv_proxy_objs (px_srv s))\<rparr>\<rparr>"
  have ok: "proxy_ok s p e" by (rule px_inv_proxy [OF inv e])
  have count: "count_list (map fst (px_pumps s)) p \<le> pe_conn_count e"
    "pe_conn_count e \<le> cfg_max_concurrent_work (sv_cfg (px_srv s))" using ok unfolding proxy_ok_def by iprover+
  have less: "Suc (count_list (map fst ?pumps) p) = count_list (map fst (px_pumps s)) p"
    using count_remove1_fst [OF pump] by simp
  have room: "pe_conn_count e < cfg_max_concurrent_work (sv_cfg (px_srv s))"
    if "hm_get (px_listeners s) p = Some (sid', Waiting c t pub)" for sid' c t pub
    using ok that unfolding proxy_ok_def by iprover
  have g: "proxy_ok ?s' p ?g"
    unfolding proxy_ok_def
  proof (intro conjI allI impI)
    show "count_list (map fst (px_pumps ?s')) p \<le> pe_conn_count ?g"
      "pe_conn_count ?g \<le> cfg_max_concurrent_work (sv_cfg (px_srv ?s'))"
      using count less by auto
    show "pe_conn_count ?g < cfg_max_concurrent_work (sv_cfg (px_srv ?s'))"
      if "hm_get (px_listeners ?s') p = Some (sid', Waiting c t pub)" for sid' c t pub
      using room [of sid' c t pub] that by simp
    fix c t assume "hm_get (pe_pending ?g) c = Some t"
    then show "hm_get (sv_oneshots (px_srv ?s')) t = None" "\<exists>pub. hm_get (px_asked ?s') t = Some (p, c, pub)"
      using proxy_ok_waiter [OF ok, of c t] by simp_all
  qed
  have "px_inv ?s'"
  proof (rule px_inv_entry [OF inv e, where g = ?g])
    show "hm_get (px_asked s) t = Some (p, c, pub) \<and> t \<notin> (fst \<circ> snd \<circ> snd) ` set (px_opened s)"
      if "hm_get (px_listeners ?s') p = Some (sid', Waiting c t pub)" for sid' c t pub
      using proxies_okD(4) [OF pok, of p sid' c t pub] that by simp
  qed (use g count_remove1_le in \<open>simp_all add: session_proxies_def\<close>)
  moreover have "proxies_kept (px_srv ?s') (pump_end sid p (px_srv s))"
    unfolding pump_end_def upd_proxy_Some [OF e] Let_def by (simp only: px_sels) (intro kept_trans proxies_kept_refl)
  ultimately show ?thesis using px_inv_kept [of ?s' "pump_end sid p (px_srv s)"] by simp
qed

lemma px_inv_step:
  assumes inv: "px_inv s" and step: "proxy_step ser s s'"
  shows "px_inv s'"
  using step
proof cases
  case (px_register p finished sid name la lp bound task srv)
  from register_proxy_cases [OF px_register(3)] show ?thesis
  proof (elim disjE exE)
    fix resp assume srv: "srv = send_control ser sid resp (px_srv s)"
    have kept: "proxies_kept (px_srv s) srv" unfolding srv by (intro kept_trans proxies_kept_refl)
    then have "\<not> hm_has (sv_proxy_objs srv) p" using px_register(2) by (simp add: hm_has_def proxies_kept_def)
    then show ?thesis unfolding px_register(1) using px_inv_kept [OF inv kept] by simp
  next
    fix port ev resp
    let ?e = "fresh_proxy name la lp port"
    let ?srv0 = "register_effect sid name p ?e (px_srv s)"
    assume srv: "srv = send_control ser sid resp (push_task finished sid task (audit ev ?srv0))"
    have eff: "px_inv (s\<lparr>px_srv := ?srv0\<rparr>)" by (rule px_inv_register_effect [OF inv px_register(2) refl])
    have kept: "proxies_kept ?srv0 srv" unfolding srv by (intro kept_trans proxies_kept_refl)
    have inv1: "px_inv (s\<lparr>px_srv := srv\<rparr>)" by (rule px_inv_kept_step [OF eff kept])
    have obj: "hm_get (sv_proxy_objs srv) p = Some ?e"
      using kept by (simp add: proxies_kept_def register_effect_def upd_session_def split: option.split)
    let ?s' = "s\<lparr>px_srv := srv, px_listeners := hm_put p (sid, Accepting) (px_listeners s)\<rparr>"
    have pok: "proxies_ok (s\<lparr>px_srv := srv\<rparr>)" using inv1 by (simp add: px_inv_def)
    have "px_inv ?s'"
    proof (rule px_inv_entry [OF inv1, where p = p and g = ?e])
      show "hm_get (sv_proxy_objs (px_srv (s\<lparr>px_srv := srv\<rparr>))) p = Some ?e" using obj by simp
      show "proxy_ok ?s' p ?e" using proxies_okD(1) [OF pok, of p ?e] obj unfolding proxy_ok_def by simp
    qed (use obj in simp_all)
    then show ?thesis unfolding px_register(1) using obj by (simp add: hm_has_def)
  qed
next
  case (px_close sid name)
  show ?thesis unfolding px_close using close_proxy_inv [where s = s and srv = "px_srv s"] inv by simp
next
  case (px_cleanup sid)
  show ?thesis unfolding px_cleanup using cleanup_session_inv [where s = s and srv = "px_srv s"] inv by simp
next
  case (px_accept p sid tx conn public l srv)
  show ?thesis unfolding px_accept(1) px_updates_swap(2) by (rule px_accept_inv [OF inv px_accept(2-4)])
next
  case (px_arrival stream addr header)
  show ?thesis unfolding px_arrival(1) px_updates_swap(1) by (rule px_arrival_inv [OF inv px_arrival(2)])
next
  case (px_paired p sid conn tx public work finished task)
  let ?s1 = "s\<lparr>px_listeners := hm_put p (sid, Accepting) (px_listeners s), px_pumps := (p, public, tx, work) # px_pumps s,
     px_srv := listener_result finished sid p conn (Some work) task (px_srv s)\<rparr>"
  have ok: "proxies_ok s" using inv by (simp add: px_inv_def)
  from proxies_okD(4) [OF ok px_paired(2)]
  have asked: "hm_get (px_asked s) tx = Some (p, conn, public)"
    and new: "tx \<notin> (fst \<circ> snd \<circ> snd) ` set (px_opened s)" by auto
  have inv1: "px_inv ?s1" by (rule px_result_inv [OF inv px_paired(2)]) simp
  obtain e where e: "hm_get (sv_proxy_objs (px_srv s)) p = Some e"
    using proxy_obj_listener [OF inv, of p] px_paired(2) by auto
  have "sv_oneshots (listener_result finished sid p conn (Some work) task (px_srv s)) = sv_oneshots (px_srv s)"
    using listener_result_kept [OF e, of finished sid conn "Some work" task] by (auto simp: proxies_kept_def)
  moreover have "hm_get (px_listeners ?s1) q \<noteq> Some (sid', Waiting c tx pub)" for q sid' c pub
  proof
    assume w: "hm_get (px_listeners ?s1) q = Some (sid', Waiting c tx pub)"
    then have "q \<noteq> p" "hm_get (px_listeners s) q = Some (sid', Waiting c tx pub)" by (auto split: if_splits)
    with proxies_okD(4) [OF ok this(2)] asked show False by simp
  qed
  ultimately have "px_inv (?s1\<lparr>px_opened := (p, public, tx, work) # px_opened ?s1\<rparr>)"
    using px_paired(3) asked new by (intro px_inv_opened [OF inv1, where conn = conn]) simp_all
  then show ?thesis unfolding px_paired(1) px_updates_swap(3) by simp
next
  case (px_unpaired p sid conn tx public finished task)
  have "px_inv (s\<lparr>px_listeners := hm_put p (sid, Accepting) (px_listeners s), px_pumps := px_pumps s,
     px_srv := listener_result finished sid p conn None task (px_srv s)\<rparr>)"
    by (rule px_result_inv [OF inv px_unpaired(2)]) simp
  then show ?thesis unfolding px_unpaired(1) px_updates_swap(4) by simp
next
  case (px_pump_end p public tx work sid)
  show ?thesis unfolding px_pump_end(1) px_updates_swap(5) by (rule px_pump_end_inv [OF inv px_pump_end(2)])
next
  case (px_abort_listener p sid l)
  show ?thesis unfolding px_abort_listener(1) by (rule px_inv_listener [OF inv]) (use px_abort_listener(2) in simp_all)
next
  case (px_abort_pump pump)
  show ?thesis unfolding px_abort_pump by (rule px_pumps_inv [OF inv])
next
  case (px_other srv)
  show ?thesis unfolding px_other(1) by (rule px_inv_kept [OF inv px_other(2)])
qed

lemma px_inv_run: "proxy_run ser cfg s \<Longrightarrow> px_inv s"
proof (induction rule: proxy_run.induct)
  case (px_start rz)
  show ?case
    by (simp add: px_inv_def proxies_ok_def deliveries_ok_def server_bind_def session_proxies_def)
next
  case (px_step s s')
  then show ?case using px_inv_step by blast
qed

section \<open>What holds in every run\<close>

text \<open>
  C14. A public connection gets its own work connection (TNL-SEC-004). In every run, with the
  frames of all sessions, the listeners, the work connections and their clean-up interleaved: the
  work connection of each pair that was opened carried the connection number that the listener had
  drawn for exactly this public connection, and the name of its proxy; and no work connection and
  no waiter is ever used for two pairs.
\<close>
theorem work_pairing:
  assumes "proxy_run ser cfg s"
  shows "distinct (map (snd \<circ> snd \<circ> snd) (px_opened s)) \<and> distinct (map (fst \<circ> snd \<circ> snd) (px_opened s)) \<and>
    (\<forall>(p, public, tx, work) \<in> set (px_opened s). \<exists>conn header e.
       hm_get (px_asked s) tx = Some (p, conn, public) \<and> hm_get (px_arrived s) work = Some header \<and>
       hm_get (sv_proxy_objs (px_srv s)) p = Some e \<and>
       wh_conn_id header = conn \<and> wh_proxy_name header = pe_name e)"
proof -
  have ok: "deliveries_ok s" using px_inv_run [OF assms] by (simp add: px_inv_def)
  have each: "\<exists>conn header e. hm_get (px_asked s) tx = Some (p, conn, public) \<and> hm_get (px_arrived s) work = Some header \<and>
       hm_get (sv_proxy_objs (px_srv s)) p = Some e \<and> wh_conn_id header = conn \<and> wh_proxy_name header = pe_name e"
    if "(p, public, tx, work) \<in> set (px_opened s)" for p public tx work
  proof -
    from deliveries_okD(5) [OF ok that] obtain conn where
      a: "hm_get (sv_oneshots (px_srv s)) tx = Some (Some work)" "hm_get (px_asked s) tx = Some (p, conn, public)" by blast
    from deliveries_okD(2) [OF ok a(1)] a(2) show ?thesis unfolding delivered_ok_def by auto
  qed
  have tx: "distinct (map (fst \<circ> snd \<circ> snd) (px_opened s))" by (rule deliveries_okD(4) [OF ok])
  have "inj_on (snd \<circ> snd \<circ> snd) (set (px_opened s))"
  proof (rule inj_onI)
    fix x y assume x: "x \<in> set (px_opened s)" and y: "y \<in> set (px_opened s)"
      and eq: "(snd \<circ> snd \<circ> snd) x = (snd \<circ> snd \<circ> snd) y"
    obtain p pub t w where X: "x = (p, pub, t, w)" by (cases x)
    obtain p' pub' t' w' where Y: "y = (p', pub', t', w')" by (cases y)
    have "t = t'"
      using deliveries_okD(3) [OF ok, of t w t'] deliveries_okD(5) [OF ok x [unfolded X]]
        deliveries_okD(5) [OF ok y [unfolded Y]] eq X Y by simp
    then have "(fst \<circ> snd \<circ> snd) x = (fst \<circ> snd \<circ> snd) y" using X Y by simp
    then show "x = y" using tx x y unfolding distinct_map by (blast dest: inj_onD)
  qed
  then have "distinct (map (snd \<circ> snd \<circ> snd) (px_opened s))"
    using tx by (simp add: distinct_map)
  with tx each show ?thesis by blast
qed

text \<open>
  The number of work connections per proxy (TNL-STAB-005). In every run the pumps of a proxy
  are at most what its counter says, and the counter never exceeds the configured maximum, although
  it is only checked before the wait for the work connection.
\<close>
theorem work_conn_bound:
  assumes "proxy_run ser cfg s" and "hm_get (sv_proxy_objs (px_srv s)) p = Some e"
  shows "count_list (map fst (px_pumps s)) p \<le> pe_conn_count e
       \<and> pe_conn_count e \<le> cfg_max_concurrent_work (sv_cfg (px_srv s))"
  using px_inv_proxy [OF px_inv_run [OF assms(1)] assms(2)] unfolding proxy_ok_def by iprover

text \<open>
  Re-registering a proxy under its name leaves the old one behind. The code takes the old proxy
  out of the table and then closes it by its name, which finds nothing: its waiters are not
  answered, no removal is audited, no task is aborted, and its listener goes on.
\<close>
theorem proxy_update_leaks:
  assumes "hm_get (session_proxies sid s) name = Some p0" and "hm_get (sv_proxy_objs s) p = None" and "p \<noteq> p0"
  shows "let s' = register_proxy ser finished sid name la lp (Inr port) p task s
     in hm_get (session_proxies sid s') name = Some p
      \<and> hm_get (sv_proxy_objs s') p0 = hm_get (sv_proxy_objs s) p0
      \<and> sv_oneshots s' = sv_oneshots s \<and> sv_pending_index s' = sv_pending_index s \<and> sv_aborted s' = sv_aborted s
      \<and> sv_audit s' = sv_audit s @ [ProxyRegistered (session_addr sid s) name port]"
proof -
  obtain c where c: "hm_get (sv_objs s) sid = Some c"
    using assms(1) by (auto simp: session_proxies_def split: option.splits)
  let ?e = "fresh_proxy name la lp port"
  have "register_proxy ser finished sid name la lp (Inr port) p task s =
    send_control ser sid (ProxyResp True name None (Some port)) (push_task finished sid task
      (audit (ProxyRegistered (session_addr sid s) name port) (register_effect sid name p ?e s)))"
    using assms(1) c unfolding register_proxy_def Let_def close_proxy_removed
    by (simp add: hm_has_def register_effect_def fresh_proxy_def session_addr_def upd_session_def)
  then show ?thesis
    using c assms(3)
    by (simp add: Let_def send_control_def push_task_def register_effect_def session_proxies_def upd_session_def
        audit_def split: sum.split)
qed

section \<open>An example\<close>

text \<open>
  A session, its proxy on port 8080, a public connection (9) with channel 5, and the work
  connection 7.
\<close>

definition demo_px_ser :: "control_msg \<Rightarrow> string + bytes" where
  "demo_px_ser m = Inr [1]"

definition demo_px_cfg :: server_config where
  "demo_px_cfg = server_config_default\<lparr>cfg_max_concurrent_work := 1\<rparr>"

definition demo_px_srv1 :: server where
  "demo_px_srv1 = (server_bind demo_px_cfg None)\<lparr>
     sv_objs := [(1, new_session 0 1 2 (SocketAddr (V4 1 2 3 4) 5000))], sv_sessions := [1],
     sv_chans := [(2, \<lparr>ch_open = True, ch_queue = []\<rparr>)]\<rparr>"

definition demo_px_srv2 :: server where
  "demo_px_srv2 = register_proxy demo_px_ser (\<lambda>_. False) 1 ''web'' ''localhost'' 80 (Inr 8080) 0 3 demo_px_srv1"

definition demo_px_srv3 :: server where
  "demo_px_srv3 = snd (listener_accept demo_px_ser 1 0 77 5 9 demo_px_srv2)"

definition demo_header :: work_conn_header where
  "demo_header = \<lparr>wh_proxy_name = ''web'', wh_conn_id = 77\<rparr>"

definition demo_px_srv4 :: server where
  "demo_px_srv4 = handle_work_arrival 7 (SocketAddr (V4 1 2 3 4) 5001) demo_header demo_px_srv3"

definition demo_px :: proxy_sys where
  "demo_px = \<lparr>px_srv = listener_result (\<lambda>_. False) 1 0 77 (Some 7) 4 demo_px_srv4,
     px_listeners = [(0, (1, Accepting))], px_pumps = [(0, 9, 5, 7)], px_asked = [(5, (0, 77, 9))],
     px_arrived = [(7, demo_header)], px_opened = [(0, 9, 5, 7)]\<rparr>"

lemmas demo_px_defs = demo_px_ser_def demo_px_cfg_def server_bind_def server_config_default_def new_session_def
  send_control_def session_proxies_def session_addr_def upd_proxy_def upd_session_def audit_def push_task_def
  proxy_pending_def encode_control_def chan_send_def chan_send_ignore_def chan_live_def Let_def

lemma demo_srv2:
  "demo_px_srv2 = demo_px_srv1\<lparr>
     sv_objs := [(1, (new_session 0 1 2 (SocketAddr (V4 1 2 3 4) 5000))\<lparr>cs_proxies := [(''web'', 0)], cs_tasks := [3]\<rparr>)],
     sv_proxy_objs := [(0, fresh_proxy ''web'' ''localhost'' 80 8080)],
     sv_chans := chan_send_ignore 2 (wrap_frame TYPE_CONTROL [1]) (sv_chans demo_px_srv1),
     sv_audit := [ProxyRegistered (SocketAddr (V4 1 2 3 4) 5000) ''web'' 8080]\<rparr>"
  by (simp add: demo_px_srv2_def register_proxy_def demo_px_srv1_def demo_px_defs DEFAULT_MAX_PROXIES_def
      fresh_proxy_def)

lemma demo_accept:
  "\<exists>chans. listener_accept demo_px_ser 1 0 77 5 9 demo_px_srv2 = (Waiting 77 5 9, demo_px_srv2\<lparr>
     sv_proxy_objs := [(0, (fresh_proxy ''web'' ''localhost'' 80 8080)\<lparr>pe_pending := [(77, 5)]\<rparr>)],
     sv_pending_index := [(77, (1, ''web''))], sv_chans := chans\<rparr>)"
  unfolding demo_srv2
  by (simp add: listener_accept_def demo_px_srv1_def demo_px_defs fresh_proxy_def)

lemma demo_srv4:
  "\<exists>chans. demo_px_srv4 = demo_px_srv2\<lparr>
     sv_proxy_objs := [(0, fresh_proxy ''web'' ''localhost'' 80 8080)],
     sv_oneshots := [(5, Some 7)], sv_chans := chans\<rparr>"
proof -
  obtain chans where s3: "demo_px_srv3 = demo_px_srv2\<lparr>
     sv_proxy_objs := [(0, (fresh_proxy ''web'' ''localhost'' 80 8080)\<lparr>pe_pending := [(77, 5)]\<rparr>)],
     sv_pending_index := [(77, (1, ''web''))], sv_chans := chans\<rparr>"
    using demo_accept unfolding demo_px_srv3_def by auto
  show ?thesis
    unfolding demo_px_srv4_def s3
    by (intro exI [of _ chans])
       (simp add: handle_work_arrival_def demo_header_def demo_srv2 demo_px_srv1_def demo_px_defs fresh_proxy_def)
qed

lemma demo_px_run: "proxy_run demo_px_ser demo_px_cfg demo_px"
proof -
  let ?s0 = "\<lparr>px_srv = server_bind demo_px_cfg None, px_listeners = [], px_pumps = [], px_asked = [],
     px_arrived = [], px_opened = []\<rparr>"
  let ?s1 = "?s0\<lparr>px_srv := demo_px_srv1\<rparr>"
  let ?s2 = "?s1\<lparr>px_srv := demo_px_srv2, px_listeners := [(0, (1, Accepting))]\<rparr>"
  let ?s3 = "?s2\<lparr>px_srv := demo_px_srv3, px_listeners := [(0, (1, Waiting 77 5 9))], px_asked := [(5, (0, 77, 9))]\<rparr>"
  let ?s4 = "?s3\<lparr>px_srv := demo_px_srv4, px_arrived := [(7, demo_header)]\<rparr>"
  have "proxies_kept (server_bind demo_px_cfg None) demo_px_srv1"
    by (simp add: proxies_kept_def demo_px_srv1_def session_proxies_def new_session_def)
  then have r1: "proxy_run demo_px_ser demo_px_cfg ?s1"
    using px_step [OF px_start [of demo_px_ser demo_px_cfg None] px_other] by simp
  have obj1: "hm_get (sv_proxy_objs demo_px_srv1) 0 = None" "hm_has (sv_proxy_objs demo_px_srv2) 0"
    by (simp_all add: demo_px_srv1_def server_bind_def demo_srv2 hm_has_def)
  have "proxy_step demo_px_ser ?s1 ?s2"
    using px_register [of ?s1 0 demo_px_ser "\<lambda>_. False" 1 "''web''" "''localhost''" 80 "Inr 8080" 3 demo_px_srv2] obj1
    by (simp add: demo_px_srv2_def)
  from px_step [OF r1 this] have r2: "proxy_run demo_px_ser demo_px_cfg ?s2" .
  have "listener_accept demo_px_ser 1 0 77 5 9 demo_px_srv2 = (Waiting 77 5 9, demo_px_srv3)"
    using demo_accept unfolding demo_px_srv3_def by auto
  then have "proxy_step demo_px_ser ?s2 ?s3"
    using px_accept [of ?s2 0 1 5 demo_px_ser 77 9 "Waiting 77 5 9" demo_px_srv3] by simp
  from px_step [OF r2 this] have r3: "proxy_run demo_px_ser demo_px_cfg ?s3" .
  have "proxy_step demo_px_ser ?s3 ?s4"
    using px_arrival [of ?s3 7, where ser = demo_px_ser and addr = "SocketAddr (V4 1 2 3 4) 5001" and header = demo_header] by (simp add: demo_px_srv4_def)
  from px_step [OF r3 this] have r4: "proxy_run demo_px_ser demo_px_cfg ?s4" .
  have "\<And>s s' m chans. s = s'\<lparr>sv_proxy_objs := m, sv_oneshots := [(5, Some 7)], sv_chans := chans\<rparr> \<Longrightarrow>
      hm_get (sv_oneshots s) 5 = Some (Some 7)" by simp
  with demo_srv4 have "hm_get (sv_oneshots demo_px_srv4) 5 = Some (Some 7)" by blast
  then have "proxy_step demo_px_ser ?s4 demo_px"
    using px_paired [of ?s4 0 1 77 5 9 7 demo_px_ser "\<lambda>_. False" 4] by (simp add: demo_px_def)
  from px_step [OF r4 this] show ?thesis .
qed

theorem work_pairing_witness:
  "\<exists>header. hm_get (px_arrived demo_px) 7 = Some header \<and> wh_conn_id header = 77"
  using work_pairing [OF demo_px_run] by (auto simp: demo_px_def)

theorem work_conn_bound_witness: "count_list (map fst (px_pumps demo_px)) 0 \<le> 1"
proof -
  obtain chans where s4: "demo_px_srv4 = demo_px_srv2\<lparr>sv_proxy_objs := [(0, fresh_proxy ''web'' ''localhost'' 80 8080)],
     sv_oneshots := [(5, Some 7)], sv_chans := chans\<rparr>" using demo_srv4 by blast
  have "hm_get (sv_proxy_objs (px_srv demo_px)) 0 = Some ((fresh_proxy ''web'' ''localhost'' 80 8080)\<lparr>pe_conn_count := 1\<rparr>)"
    unfolding demo_px_def s4 demo_srv2 demo_px_srv1_def by (simp add: listener_result_def fresh_proxy_def demo_px_defs)
  from work_conn_bound [OF demo_px_run this] show ?thesis by simp
qed

theorem proxy_update_leaks_witness:
  "hm_get (sv_proxy_objs (register_proxy demo_px_ser (\<lambda>_. False) 1 ''web'' ''localhost'' 81 (Inr 8081) 4 6 demo_px_srv3)) 0
     = hm_get (sv_proxy_objs demo_px_srv3) 0"
proof -
  obtain chans where s3: "demo_px_srv3 = demo_px_srv2\<lparr>
     sv_proxy_objs := [(0, (fresh_proxy ''web'' ''localhost'' 80 8080)\<lparr>pe_pending := [(77, 5)]\<rparr>)],
     sv_pending_index := [(77, (1, ''web''))], sv_chans := chans\<rparr>"
    using demo_accept unfolding demo_px_srv3_def by auto
  have "hm_get (session_proxies 1 demo_px_srv3) ''web'' = Some 0" "hm_get (sv_proxy_objs demo_px_srv3) 4 = None"
    unfolding s3 by (simp_all add: demo_srv2 session_proxies_def)
  from proxy_update_leaks [OF this, of demo_px_ser "\<lambda>_. False" "''localhost''" 81 8081 6] show ?thesis
    by (simp add: Let_def)
qed

end
