(* ===== verification/Relay_Server_Facts.thy ===== *)
theory Relay_Server_Facts
  imports Relay_Server Relay_Proxy_Run
begin

text \<open>
  What the frames of a session may change in the registry, what the clean-up of an old session does
  to a device that has come back, the answer to a limited resolution, and the limits on pending
  tunnels under interleaving.
\<close>

section \<open>The registry under the frames of a session\<close>

text \<open>The proxies and the control messages leave the registry and the tunnel counters alone.\<close>

definition registry_kept :: "server \<Rightarrow> server \<Rightarrow> bool" where
  "registry_kept s s' \<longleftrightarrow>
     sv_registry s' = sv_registry s \<and> sv_cfg s' = sv_cfg s \<and> sv_sessions s' = sv_sessions s \<and>
     sv_pending_tunnels s' = sv_pending_tunnels s \<and> sv_pending_by_target s' = sv_pending_by_target s"

lemma registry_kept_refl [simp]: "registry_kept s s"
  by (simp add: registry_kept_def)

lemma registry_kept_trans: "registry_kept s s' \<Longrightarrow> registry_kept s' s'' \<Longrightarrow> registry_kept s s''"
  by (simp add: registry_kept_def)

lemma registry_kept_ops:
  "registry_kept s (audit ev s)" "registry_kept s (upd_session sid f s)" "registry_kept s (upd_proxy p g s)"
  "registry_kept s (send_control ser sid m s)" "registry_kept s (session_send sid fr s)"
  "registry_kept s (push_task fin sid task s)" "registry_kept s (s\<lparr>sv_proxy_objs := a\<rparr>)"
  "registry_kept s (s\<lparr>sv_oneshots := b\<rparr>)" "registry_kept s (s\<lparr>sv_pending_index := c\<rparr>)"
  "registry_kept s (s\<lparr>sv_rendezvous := d, sv_chans := e, sv_audit := g'\<rparr>)"
  by (simp_all add: registry_kept_def audit_def upd_session_def upd_proxy_def send_control_def session_send_def
      push_task_def split: option.split sum.split)

lemmas rk = registry_kept_ops [THEN registry_kept_trans [rotated]]

lemma registry_kept_drain_one: "registry_kept s (drain_one p conn s)"
  by (simp add: drain_one_def registry_kept_def Let_def upd_proxy_def split: option.split)

lemma registry_kept_drain: "registry_kept s (drain_pending p s)"
  unfolding drain_pending_def
  by (rule fold_inv [where P = "registry_kept s"]) (auto intro: registry_kept_trans registry_kept_drain_one)

lemma registry_kept_close: "registry_kept s (close_proxy sid name s)"
  by (auto simp: close_proxy_def Let_def split: option.split
      intro!: registry_kept_trans [OF _ registry_kept_drain] rk registry_kept_refl)

lemma registry_kept_register: "registry_kept s (register_proxy ser fin sid name la lp bound p task s)"
proof -
  have "registry_kept s (register_effect sid name p e s)" for e
    unfolding register_effect_def by (intro rk registry_kept_refl)
  then show ?thesis
    using register_proxy_cases [OF refl, of ser fin sid name la lp bound p task s]
    by (metis registry_kept_ops(1,4,6) registry_kept_trans)
qed

lemma registry_kept_control:
  "registry_kept s (snd (handle_control env fin bind_port p task sid m s))"
  by (cases m) (simp_all add: handle_control_def registry_kept_register registry_kept_close registry_kept_ops)

lemma registry_kept_directory: "registry_kept s (snd (handle_directory_frame env sid ty payload s))"
  by (auto simp: handle_directory_frame_def registry_kept_ops split: option.split sum.split directory_outcome.split)

lemma registry_kept_punch_conn:
  "punch_conn_of sid rz s = (conn, rz', s') \<Longrightarrow> registry_kept s s' \<and> session_device sid s' = session_device sid s"
  by (auto simp: punch_conn_of_def registry_kept_def session_device_def upd_session_def split: option.splits prod.splits)

lemma registry_kept_rendezvous: "registry_kept s (snd (rendezvous_frame env now sid ty payload rz s))"
proof -
  obtain conn rz' s' where c: "punch_conn_of sid rz s = (conn, rz', s')" by (cases "punch_conn_of sid rz s") auto
  have "registry_kept s s'" using registry_kept_punch_conn [OF c] by simp
  then show ?thesis
    by (auto simp: rendezvous_frame_def c Let_def split: prod.split intro!: rk)
qed

lemma registry_kept_punch: "registry_kept s (snd (handle_punch_frame env now sid ty payload s))"
  by (auto simp: handle_punch_frame_def registry_kept_ops registry_kept_rendezvous split: option.split)

text \<open>
  A change of the registry at one identifier at most, that keeps which devices there are, their
  keys, their control channels and their observed addresses.
\<close>

definition entry_kept :: "device_entry \<Rightarrow> device_entry \<Rightarrow> bool" where
  "entry_kept e e' \<longleftrightarrow> de_ed25519_pub e' = de_ed25519_pub e \<and> de_ctrl_tx e' = de_ctrl_tx e \<and>
     de_observed_addr e' = de_observed_addr e \<and> de_device_id e' = de_device_id e"

definition own_device_only :: "string option \<Rightarrow> registry \<Rightarrow> registry \<Rightarrow> bool" where
  "own_device_only own r r' \<longleftrightarrow>
     (\<forall>d. (case hm_get (reg_devices r) d of
             None \<Rightarrow> hm_get (reg_devices r') d = None
           | Some e \<Rightarrow> \<exists>e'. hm_get (reg_devices r') d = Some e' \<and> entry_kept e e' \<and> (own = Some d \<or> e' = e)))"

lemma own_device_only_refl: "reg_devices r' = reg_devices r \<Longrightarrow> own_device_only own r r'"
  by (auto simp: own_device_only_def entry_kept_def split: option.split)

lemma own_device_only_candidates: "own_device_only (Some d) r (snd (update_candidates d cs r))"
  by (auto simp: own_device_only_def update_candidates_def entry_kept_def split: option.split)

lemma own_device_only_heartbeat: "own_device_only (Some d) r (heartbeat now d r)"
  by (auto simp: own_device_only_def heartbeat_def entry_kept_def split: option.split)

lemma resolve_devices: "resolve sign ser now ts ip did r = (res, r') \<Longrightarrow> reg_devices r' = reg_devices r"
  by (auto simp: resolve_def resolve_limited_def Let_def split: prod.splits)

lemma own_device_only_resolve:
  "own_device_only own (sv_registry s) (sv_registry (handle_resolve env now ts sid did s))"
proof -
  obtain info lim reg where r: "resolve (se_sign env) (se_ser_payload env) now ts (sa_ip (session_addr sid s)) did
      (sv_registry s) = ((info, lim), reg)" by (metis prod.collapse)
  have "sv_registry (handle_resolve env now ts sid did s) = reg"
    by (simp add: handle_resolve_def r Let_def audit_def session_send_def split: sum.split option.split)
  then show ?thesis using resolve_devices [OF r] by (simp add: own_device_only_refl)
qed

lemma own_device_only_handle_candidates:
  "own_device_only (session_device sid s) (sv_registry s) (sv_registry (handle_candidates env now sid payload s))"
proof (cases "decode_extension (de_register (se_rv env)) TYPE_CANDIDATE_REGISTER payload TYPE_CANDIDATE_REGISTER")
  case (Inl e)
  then show ?thesis by (simp add: handle_candidates_def own_device_only_refl)
next
  case (Inr reg)
  show ?thesis
  proof (cases "session_device sid s = Some (cr_device_id reg)")
    case True
    define s1 where "s1 = s\<lparr>sv_registry := snd (update_candidates (cr_device_id reg) (cr_candidates reg) (sv_registry s))\<rparr>"
    have "sv_registry (handle_candidates env now sid payload s) = sv_registry s1"
      using registry_kept_rendezvous [of s1 env now sid TYPE_CANDIDATE_REGISTER payload]
      by (auto simp: handle_candidates_def Inr True s1_def [symmetric] registry_kept_def Let_def split: option.split)
    then show ?thesis by (simp add: True s1_def own_device_only_candidates)
  next
    case False
    then show ?thesis
      by (auto simp: handle_candidates_def Inr audit_def own_device_only_refl split: option.split)
  qed
qed

text \<open>
  C26. A session acts on its own device only (S-09). Whatever frame a session sends, and at every tick
  of its heartbeat: no device appears or disappears, every key, control channel and observed
  address stays, and only the entry of the device this session registered changes at all.
\<close>
theorem session_own_device:
  "own_device_only (session_device sid s) (sv_registry s)
     (sv_registry (snd (session_frame env finished bind_port now ts p task sid ty payload s)))
   \<and> own_device_only (session_device sid s) (sv_registry s) (sv_registry (snd (session_tick now sid s)))"
proof
  define s1 where "s1 = upd_session sid (\<lambda>c. c\<lparr>cs_last_activity := now\<rparr>) s"
  have s1: "sv_registry s1 = sv_registry s" "session_device sid s1 = session_device sid s"
    by (auto simp: s1_def upd_session_def session_device_def split: option.split)
  define ok where "ok r' = own_device_only (session_device sid s) (sv_registry s) r'" for r'
  have kept: "ok (sv_registry s2)" if "registry_kept s1 s2" for s2
    unfolding ok_def using that s1(1) by (intro own_device_only_refl) (simp add: registry_kept_def)
  have facts: "ok (sv_registry s1)" "ok (sv_registry (handle_resolve env now ts sid did s1))"
    "ok (sv_registry (handle_candidates env now sid payload s1))"
    "ok (sv_registry (snd (handle_control env finished bind_port p task sid m s1)))"
    "ok (sv_registry (snd (handle_punch_frame env now sid ty payload s1)))"
    "ok (sv_registry (snd (handle_directory_frame env sid ty payload s1)))"
    "ok (sv_registry (handle_deprecated_directory_frame sid ty s1))" for did m
  proof -
    show "ok (sv_registry (handle_resolve env now ts sid did s1))"
      using own_device_only_resolve [of "session_device sid s1" s1] by (simp add: ok_def s1)
    show "ok (sv_registry (handle_candidates env now sid payload s1))"
      using own_device_only_handle_candidates [of sid s1] by (simp add: ok_def s1)
  qed (rule kept, simp add: handle_deprecated_directory_frame_def registry_kept_ops registry_kept_control
         registry_kept_punch registry_kept_directory)+
  have "ok (sv_registry (snd (session_frame env finished bind_port now ts p task sid ty payload s)))"
    unfolding session_frame_def Let_def s1_def [symmetric] by (simp add: facts split: sum.split)
  then show "own_device_only (session_device sid s) (sv_registry s)
     (sv_registry (snd (session_frame env finished bind_port now ts p task sid ty payload s)))"
    by (simp add: ok_def)
  show "own_device_only (session_device sid s) (sv_registry s) (sv_registry (snd (session_tick now sid s)))"
    by (auto simp: session_tick_def session_device_def own_device_only_refl own_device_only_heartbeat Let_def
             split: option.split)
qed

section \<open>Resolution over the limit\<close>

lemma lookup_device_cong: "reg_devices r' = reg_devices r \<Longrightarrow> lookup_device did r' = lookup_device did r"
  by (simp only: lookup_device_def)

text \<open>
  The limit on resolutions limits nothing. What the session is sent in answer to a query does
  not depend on the resolution limiter at all, and a query over the limit is audited as rejected
  and then as accepted.
\<close>
theorem resolve_limit_ignored:
  "sv_chans (handle_resolve env now ts sid did s)
     = sv_chans (handle_resolve env now ts sid did (s\<lparr>sv_registry := (sv_registry s)\<lparr>reg_resolve_limits := limits\<rparr>\<rparr>))
   \<and> (let limited = fst (resolve_limited now (sa_ip (session_addr sid s)) (sv_registry s));
          online = di_online (resolve_payload ts did (lookup_device did (sv_registry s)))
      in sv_audit (handle_resolve env now ts sid did s) = sv_audit s @
           (if limited then [DeviceResolveRejected (session_addr sid s) did ''rate limited (10/30s per IP)''] else []) @
           [DeviceResolveAccepted (session_addr sid s) did online])"
proof -
  have lookup: "lookup_device did (snd (resolve_limited now ip r)) = lookup_device did r"
    "lookup_device did (r\<lparr>reg_resolve_limits := limits\<rparr>) = lookup_device did r" for ip r
    by (rule lookup_device_cong, simp add: resolve_limited_def Let_def)+
  have addr: "session_addr sid (s\<lparr>sv_registry := r\<rparr>) = session_addr sid s" for r
    by (simp add: session_addr_def)
  define p where "p = resolve_payload ts did (lookup_device did (sv_registry s))"
  define info where "info = \<lparr>dinfo_payload = p, dinfo_signature = sign_device_info (se_sign env) (se_ser_payload env) p\<rparr>"
  have res: "\<exists>r'. resolve (se_sign env) (se_ser_payload env) now ts ip did r = ((info, fst (resolve_limited now ip r)), r')"
    if "lookup_device did r = lookup_device did (sv_registry s)" for ip r
  proof -
    obtain lim r' where r': "resolve_limited now ip r = (lim, r')" by (cases "resolve_limited now ip r")
    then have "lookup_device did r' = lookup_device did (sv_registry s)"
      using lookup_resolve_limited [of did now ip r] that by simp
    then show ?thesis by (simp add: resolve_def r' info_def p_def Let_def)
  qed
  obtain r1 where r1: "resolve (se_sign env) (se_ser_payload env) now ts (sa_ip (session_addr sid s)) did (sv_registry s)
      = ((info, fst (resolve_limited now (sa_ip (session_addr sid s)) (sv_registry s))), r1)" using res by blast
  obtain r2 where r2: "resolve (se_sign env) (se_ser_payload env) now ts (sa_ip (session_addr sid s)) did
        ((sv_registry s)\<lparr>reg_resolve_limits := limits\<rparr>)
      = ((info, fst (resolve_limited now (sa_ip (session_addr sid s)) ((sv_registry s)\<lparr>reg_resolve_limits := limits\<rparr>))), r2)"
    using res lookup(2) by blast
  have "di_online (dinfo_payload info) = di_online p" by (simp add: info_def)
  then show ?thesis
    by (simp add: handle_resolve_def r1 r2 addr Let_def audit_def session_send_def p_def
        split: sum.split option.split)
qed

section \<open>The end of an old session\<close>

definition objs_kept :: "nat \<Rightarrow> server \<Rightarrow> server \<Rightarrow> bool" where
  "objs_kept new s s' \<longleftrightarrow> hm_get (sv_objs s') new = hm_get (sv_objs s) new \<and> registry_kept s s'"

lemma objs_kept_trans: "objs_kept n s s' \<Longrightarrow> objs_kept n s' s'' \<Longrightarrow> objs_kept n s s''"
  by (simp add: objs_kept_def registry_kept_def)

lemma objs_kept_drain_one: "objs_kept n s (drain_one p conn s)"
  by (simp add: objs_kept_def drain_one_def registry_kept_def Let_def upd_proxy_def split: option.split)

lemma objs_kept_drain: "objs_kept n s (drain_pending p s)"
  unfolding drain_pending_def
  by (rule fold_inv [where P = "objs_kept n s"])
     (rule objs_kept_trans [OF _ objs_kept_drain_one], assumption, simp add: objs_kept_def)

lemma objs_kept_cleanup_proxies: "objs_kept n s (fold (cleanup_proxy sid) ps s)"
proof (rule fold_inv [where P = "objs_kept n s"])
  fix p s'
  assume "objs_kept n s s'"
  moreover have "objs_kept n s' (cleanup_proxy sid p s')"
    unfolding cleanup_proxy_def Let_def
    by (rule objs_kept_trans [OF objs_kept_drain]) (simp add: objs_kept_def registry_kept_def audit_def)
  ultimately show "objs_kept n s (cleanup_proxy sid p s')" by (rule objs_kept_trans)
qed (simp add: objs_kept_def)

lemma cleanup_session_effect:
  assumes c: "hm_get (sv_objs s) old = Some c" "cs_device_id c = Some did" and new: "new \<noteq> old"
  shows "hm_get (sv_objs (cleanup_session old s)) new = hm_get (sv_objs s) new"
    and "sv_registry (cleanup_session old s) = snd (unregister did (sv_registry s))"
    and "sv_sessions (cleanup_session old s) = removeAll old (sv_sessions s)"
proof -
  define s1 where "s1 = audit (DeviceOffline (cs_addr c) did)
     ((upd_session old (\<lambda>c. c\<lparr>cs_device_id := None\<rparr>) (drop_session old s))
       \<lparr>sv_registry := snd (unregister did (sv_registry (upd_session old (\<lambda>c. c\<lparr>cs_device_id := None\<rparr>) (drop_session old s))))\<rparr>)"
  define s2 where "s2 = upd_session old (\<lambda>c. c\<lparr>cs_tasks := []\<rparr>) (s1\<lparr>sv_aborted := sv_aborted s1 @ cs_tasks c\<rparr>)"
  define s3 where "s3 = fold (cleanup_proxy old) (map snd (cs_proxies c)) s2"
  have s2: "hm_get (sv_objs s2) new = hm_get (sv_objs s) new"
    "sv_registry s2 = snd (unregister did (sv_registry s))" "sv_sessions s2 = removeAll old (sv_sessions s)"
    using new by (auto simp: s2_def s1_def upd_session_def audit_def drop_session_def split: option.split)
  have s3: "objs_kept new s2 s3" unfolding s3_def by (rule objs_kept_cleanup_proxies)
  have "cleanup_session old s =
    (case (sv_rendezvous s3, cs_punch_conn c) of
       (Some rz, Some conn) \<Rightarrow> s3\<lparr>sv_rendezvous := Some (cleanup_conn conn rz)\<rparr> | _ \<Rightarrow> s3)"
    by (simp only: cleanup_session_def c option.case Let_def s1_def s2_def s3_def)
  then have "objs_kept new s3 (cleanup_session old s)"
    by (auto simp: objs_kept_def registry_kept_def split: option.split prod.split)
  with s3 have "objs_kept new s2 (cleanup_session old s)" by (rule objs_kept_trans)
  then show "hm_get (sv_objs (cleanup_session old s)) new = hm_get (sv_objs s) new"
    "sv_registry (cleanup_session old s) = snd (unregister did (sv_registry s))"
    "sv_sessions (cleanup_session old s) = removeAll old (sv_sessions s)"
    using s2 by (simp_all add: objs_kept_def registry_kept_def)
qed

text \<open>
  The clean-up of an old session takes a reconnected device off line. A device has registered
  again through a new session, which is in the table and whose channel the registry holds; when the
  old session is cleaned up the device disappears from the registry all the same, tunnels to it are
  refused, and no heartbeat of the new session brings it back.
\<close>
theorem stale_cleanup:
  assumes "hm_get (sv_objs s) old = Some c" and "cs_device_id c = Some did"
    and "hm_get (sv_objs s) new = Some c'" and "cs_device_id c' = Some did" and "new \<noteq> old"
    and "hm_get (reg_devices (sv_registry s)) did = Some e" and "de_ctrl_tx e = cs_control_tx c'"
    and "new \<in> set (sv_sessions s)"
  shows "let s' = cleanup_session old s; s'' = snd (session_tick now new s')
     in new \<in> set (sv_sessions s'') \<and> session_device new s'' = Some did
      \<and> \<not> is_online did (sv_registry s') \<and> \<not> is_online did (sv_registry s'')
      \<and> fst (register_tunnel ser conn did peer stream (sv_registry s'') chans) = Inl (DeviceUnavailable did, stream)"
proof -
  note eff = cleanup_session_effect [OF assms(1,2,5)]
  have reg: "hm_get (reg_devices (sv_registry (cleanup_session old s))) did = None"
    by (simp add: eff(2) unregister_def)
  then show ?thesis
    using assms(3,4,5,8)
    by (simp add: Let_def session_tick_def eff heartbeat_def is_online_def hm_has_def session_device_def
        register_tunnel_def send_tunnel_request_def unregister_def)
qed

section \<open>Tunnel connections in flight\<close>

text \<open>
  The tasks of controllers between their stretches: those that have passed the limits, and those
  that wait for the device. At most \<open>c\<close> tasks are between the limits and the registration at
  the same time; the rest of the server does not touch the counters.
\<close>

record tunnel_sys =
  tn_srv :: server
  tn_admitted :: "(string \<times> string \<times> nat) list"
  tn_waiting :: "(u64 \<times> string \<times> string) list"

definition targets :: "tunnel_sys \<Rightarrow> string list" where
  "targets s = map (fst \<circ> snd) (tn_waiting s) @ map fst (tn_admitted s)"

definition counters_kept :: "server \<Rightarrow> server \<Rightarrow> bool" where
  "counters_kept s s' \<longleftrightarrow> sv_cfg s' = sv_cfg s \<and> sv_pending_tunnels s' = sv_pending_tunnels s \<and>
     sv_pending_by_target s' = sv_pending_by_target s"

inductive tunnel_run :: "srv_env \<Rightarrow> nat \<Rightarrow> server_config \<Rightarrow> tunnel_sys \<Rightarrow> bool" for env c cfg where
  tn_start: "tunnel_run env c cfg \<lparr>tn_srv = server_bind cfg rz, tn_admitted = [], tn_waiting = []\<rparr>"
| tn_admit:
    "tunnel_run env c cfg s \<Longrightarrow> length (tn_admitted s) < c \<Longrightarrow>
     tunnel_admit env now stream addr target peer (tn_srv s) = (out, TunnelAdmitted target peer stream, srv) \<Longrightarrow>
     tunnel_run env c cfg (s\<lparr>tn_srv := srv, tn_admitted := (target, peer, stream) # tn_admitted s\<rparr>)"
| tn_refused:
    "tunnel_run env c cfg s \<Longrightarrow> tunnel_admit env now stream addr target peer (tn_srv s) = (out, TunnelDone, srv) \<Longrightarrow>
     tunnel_run env c cfg (s\<lparr>tn_srv := srv\<rparr>)"
| tn_wait:
    "tunnel_run env c cfg s \<Longrightarrow> (target, peer, stream) \<in> set (tn_admitted s) \<Longrightarrow>
     tunnel_register env conn target peer stream (tn_srv s) = (out, TunnelWaiting conn target peer, srv) \<Longrightarrow>
     tunnel_run env c cfg (s\<lparr>tn_srv := srv, tn_admitted := remove1 (target, peer, stream) (tn_admitted s),
       tn_waiting := (conn, target, peer) # tn_waiting s\<rparr>)"
| tn_unavailable:
    "tunnel_run env c cfg s \<Longrightarrow> (target, peer, stream) \<in> set (tn_admitted s) \<Longrightarrow>
     tunnel_register env conn target peer stream (tn_srv s) = (out, TunnelDone, srv) \<Longrightarrow>
     tunnel_run env c cfg (s\<lparr>tn_srv := srv, tn_admitted := remove1 (target, peer, stream) (tn_admitted s)\<rparr>)"
| tn_paired:
    "tunnel_run env c cfg s \<Longrightarrow> (conn, target, peer) \<in> set (tn_waiting s) \<Longrightarrow>
     tunnel_paired env conn target peer pair (tn_srv s) = (out, srv) \<Longrightarrow>
     tunnel_run env c cfg (s\<lparr>tn_srv := srv, tn_waiting := remove1 (conn, target, peer) (tn_waiting s)\<rparr>)"
| tn_other:
    "tunnel_run env c cfg s \<Longrightarrow> counters_kept (tn_srv s) srv \<Longrightarrow> tunnel_run env c cfg (s\<lparr>tn_srv := srv\<rparr>)"

definition waiting_for :: "string \<Rightarrow> tunnel_sys \<Rightarrow> nat" where
  "waiting_for t s = count_list (map (fst \<circ> snd) (tn_waiting s)) t"

definition tunnels_ok :: "nat \<Rightarrow> server_config \<Rightarrow> tunnel_sys \<Rightarrow> bool" where
  "tunnels_ok c cfg s \<longleftrightarrow>
     sv_cfg (tn_srv s) = cfg \<and> sv_pending_tunnels (tn_srv s) = length (tn_waiting s) \<and>
     (\<forall>t. hm_get (sv_pending_by_target (tn_srv s)) t = (if waiting_for t s = 0 then None else Some (waiting_for t s))) \<and>
     length (tn_waiting s) + length (tn_admitted s) \<le> cfg_max_pending_tunnels cfg + c - 1 \<and>
     (\<forall>t. count_list (targets s) t \<le> cfg_max_pending_per_target cfg + c - 1) \<and> length (tn_admitted s) \<le> c"

lemma tunnel_admit_cases:
  assumes "tunnel_admit env now stream addr target peer s = (out, ph, s')"
  shows "counters_kept s s' \<and> (ph = TunnelDone \<or> ph = TunnelAdmitted target peer stream \<and>
     sv_pending_tunnels s < cfg_max_pending_tunnels (sv_cfg s) \<and>
     pending_of target s < cfg_max_pending_per_target (sv_cfg s))"
  using assms
  by (auto simp: tunnel_admit_def counters_kept_def Let_def audit_def pending_of_def not_le
      split: prod.splits if_splits)

lemma tunnel_register_cases:
  assumes "tunnel_register env conn target peer stream s = (out, ph, s')"
  shows "ph = TunnelDone \<and> counters_kept s s' \<or>
    ph = TunnelWaiting conn target peer \<and> sv_cfg s' = sv_cfg s \<and>
     sv_pending_tunnels s' = sv_pending_tunnels s + 1 \<and>
     sv_pending_by_target s' = hm_put target (pending_of target s + 1) (sv_pending_by_target s)"
  using assms
  by (auto simp: tunnel_register_def counters_kept_def audit_def register_tunnel_def
      split: sum.splits prod.splits)

lemma tunnel_paired_cases:
  assumes "tunnel_paired env conn target peer pair s = (out, s')"
  shows "counters_kept (release_pending target s) s'"
  using assms
  by (auto simp: tunnel_paired_def Let_def counters_kept_def audit_def split: option.splits if_splits)

lemma count_map_remove1:
  assumes "x \<in> set xs"
  shows "count_list (map f xs) t = count_list (map f (remove1 x xs)) t + (if f x = t then 1 else 0)"
proof -
  obtain ys zs where "xs = ys @ x # zs" "x \<notin> set ys" using split_list_first [OF assms] by blast
  then show ?thesis by (simp add: remove1_append)
qed

lemma length_remove1_Suc: "x \<in> set xs \<Longrightarrow> Suc (length (remove1 x xs)) = length xs"
  using length_pos_if_in_set [of x xs] by (simp add: length_remove1)

lemma count_targets:
  "count_list (targets s) t = waiting_for t s + count_list (map fst (tn_admitted s)) t"
  by (simp add: targets_def waiting_for_def)

lemma tunnels_okI:
  assumes "sv_cfg (tn_srv s) = cfg" and "sv_pending_tunnels (tn_srv s) = length (tn_waiting s)"
    and "\<And>t. hm_get (sv_pending_by_target (tn_srv s)) t = (if waiting_for t s = 0 then None else Some (waiting_for t s))"
    and "length (tn_waiting s) + length (tn_admitted s) \<le> cfg_max_pending_tunnels cfg + c - 1"
    and "\<And>t. waiting_for t s + count_list (map fst (tn_admitted s)) t \<le> cfg_max_pending_per_target cfg + c - 1"
    and "length (tn_admitted s) \<le> c"
  shows "tunnels_ok c cfg s"
  unfolding tunnels_ok_def count_targets using assms by iprover

lemma tunnels_okD:
  assumes "tunnels_ok c cfg s"
  shows "sv_cfg (tn_srv s) = cfg" and "sv_pending_tunnels (tn_srv s) = length (tn_waiting s)"
    and "hm_get (sv_pending_by_target (tn_srv s)) t = (if waiting_for t s = 0 then None else Some (waiting_for t s))"
    and "length (tn_waiting s) + length (tn_admitted s) \<le> cfg_max_pending_tunnels cfg + c - 1"
    and "waiting_for t s + count_list (map fst (tn_admitted s)) t \<le> cfg_max_pending_per_target cfg + c - 1"
    and "length (tn_admitted s) \<le> c"
  using assms unfolding tunnels_ok_def count_targets by iprover+

lemma tunnels_ok_pending: "tunnels_ok c cfg s \<Longrightarrow> pending_of t (tn_srv s) = waiting_for t s"
  using tunnels_okD(3) [of c cfg s t] by (simp add: pending_of_def hm_or_insert_def split: if_splits)

lemma tunnels_ok_kept:
  assumes "tunnels_ok c cfg s" and "counters_kept (tn_srv s) srv"
  shows "tunnels_ok c cfg (s\<lparr>tn_srv := srv\<rparr>)"
  using assms by (simp add: tunnels_ok_def counters_kept_def targets_def waiting_for_def)

lemma waiting_for_upd:
  "waiting_for t (s\<lparr>tn_srv := srv, tn_admitted := a\<rparr>) = waiting_for t s"
  "waiting_for t (s\<lparr>tn_srv := srv, tn_admitted := a, tn_waiting := (conn, target, peer) # tn_waiting s\<rparr>)
     = (if target = t then 1 else 0) + waiting_for t s"
  "(conn, target, peer) \<in> set (tn_waiting s) \<Longrightarrow>
     waiting_for t s = waiting_for t (s\<lparr>tn_srv := srv, tn_waiting := remove1 (conn, target, peer) (tn_waiting s)\<rparr>)
       + (if target = t then 1 else 0)"
  using count_map_remove1 [of "(conn, target, peer)" "tn_waiting s" "fst \<circ> snd" t]
  by (simp_all add: waiting_for_def)

lemma tunnels_ok_admit:
  assumes ok: "tunnels_ok c cfg s" and len: "length (tn_admitted s) < c"
    and step: "tunnel_admit env now stream addr target peer (tn_srv s) = (out, TunnelAdmitted target peer stream, srv)"
  shows "tunnels_ok c cfg (s\<lparr>tn_srv := srv, tn_admitted := (target, peer, stream) # tn_admitted s\<rparr>)"
proof -
  from tunnel_admit_cases [OF step]
  have kept: "counters_kept (tn_srv s) srv"
    and room: "length (tn_waiting s) < cfg_max_pending_tunnels cfg"
      "waiting_for target s < cfg_max_pending_per_target cfg"
    using tunnels_okD(1,2) [OF ok] tunnels_ok_pending [OF ok, of target] by auto
  have "count_list (map fst (tn_admitted s)) target \<le> length (tn_admitted s)"
    using count_le_length [of "map fst (tn_admitted s)" target] by simp
  then show ?thesis
    using kept room len tunnels_okD [OF ok]
    by (intro tunnels_okI) (auto simp: counters_kept_def waiting_for_upd)
qed

lemma tunnels_ok_wait:
  assumes ok: "tunnels_ok c cfg s" and mem: "(target, peer, stream) \<in> set (tn_admitted s)"
    and step: "tunnel_register env conn target peer stream (tn_srv s) = (out, TunnelWaiting conn target peer, srv)"
  shows "tunnels_ok c cfg (s\<lparr>tn_srv := srv, tn_admitted := remove1 (target, peer, stream) (tn_admitted s),
       tn_waiting := (conn, target, peer) # tn_waiting s\<rparr>)"
proof -
  let ?s' = "s\<lparr>tn_srv := srv, tn_admitted := remove1 (target, peer, stream) (tn_admitted s),
       tn_waiting := (conn, target, peer) # tn_waiting s\<rparr>"
  have srv: "sv_cfg srv = cfg" "sv_pending_tunnels srv = length (tn_waiting s) + 1"
    "sv_pending_by_target srv = hm_put target (waiting_for target s + 1) (sv_pending_by_target (tn_srv s))"
    using tunnel_register_cases [OF step] tunnels_okD(1,2) [OF ok] tunnels_ok_pending [OF ok] by auto
  have len: "Suc (length (remove1 (target, peer, stream) (tn_admitted s))) = length (tn_admitted s)"
    by (rule length_remove1_Suc [OF mem])
  show ?thesis
  proof (rule tunnels_okI)
    fix t
    show "hm_get (sv_pending_by_target (tn_srv ?s')) t = (if waiting_for t ?s' = 0 then None else Some (waiting_for t ?s'))"
      using tunnels_okD(3) [OF ok, of t] by (simp add: srv waiting_for_upd)
    show "waiting_for t ?s' + count_list (map fst (tn_admitted ?s')) t \<le> cfg_max_pending_per_target cfg + c - 1"
      using tunnels_okD(5) [OF ok, of t] count_map_remove1 [OF mem, of fst t] by (simp add: waiting_for_upd split: if_splits)
  qed (use srv len tunnels_okD(4,6) [OF ok] in \<open>auto\<close>)
qed

lemma tunnels_ok_paired:
  assumes ok: "tunnels_ok c cfg s" and mem: "(conn, target, peer) \<in> set (tn_waiting s)"
    and step: "tunnel_paired env conn target peer pair (tn_srv s) = (out, srv)"
  shows "tunnels_ok c cfg (s\<lparr>tn_srv := srv, tn_waiting := remove1 (conn, target, peer) (tn_waiting s)\<rparr>)"
proof -
  let ?s' = "s\<lparr>tn_srv := srv, tn_waiting := remove1 (conn, target, peer) (tn_waiting s)\<rparr>"
  note less = waiting_for_upd(3) [OF mem, where srv = srv]
  have pos: "waiting_for target s = Suc (waiting_for target ?s')" using less [of target] by simp
  have len: "Suc (length (remove1 (conn, target, peer) (tn_waiting s))) = length (tn_waiting s)"
    by (rule length_remove1_Suc [OF mem])
  have get: "hm_get (sv_pending_by_target (tn_srv s)) target = Some (Suc (waiting_for target ?s'))"
    using tunnels_okD(3) [OF ok, of target] pos by simp
  have srv: "sv_cfg srv = cfg" "sv_pending_tunnels srv = length (tn_waiting s) - 1"
    "sv_pending_by_target srv = (if waiting_for target ?s' = 0 then hm_del target (sv_pending_by_target (tn_srv s))
       else hm_put target (waiting_for target ?s') (sv_pending_by_target (tn_srv s)))"
    using tunnel_paired_cases [OF step] tunnels_okD(1,2) [OF ok]
    by (simp_all add: counters_kept_def release_pending_def Let_def get split: if_splits)
  show ?thesis
  proof (rule tunnels_okI)
    fix t
    show "hm_get (sv_pending_by_target (tn_srv ?s')) t = (if waiting_for t ?s' = 0 then None else Some (waiting_for t ?s'))"
      using tunnels_okD(3) [OF ok, of t] less [of t] srv(3) by (cases "t = target") auto
    show "waiting_for t ?s' + count_list (map fst (tn_admitted ?s')) t \<le> cfg_max_pending_per_target cfg + c - 1"
      using tunnels_okD(5) [OF ok, of t] less [of t] by simp
  qed (use srv len tunnels_okD(4,6) [OF ok] in \<open>auto\<close>)
qed

lemma tunnels_ok_unavailable:
  assumes ok: "tunnels_ok c cfg s" and mem: "(target, peer, stream) \<in> set (tn_admitted s)"
    and kept: "counters_kept (tn_srv s) srv"
  shows "tunnels_ok c cfg (s\<lparr>tn_srv := srv, tn_admitted := remove1 (target, peer, stream) (tn_admitted s)\<rparr>)"
proof (rule tunnels_okI)
  let ?s' = "s\<lparr>tn_srv := srv, tn_admitted := remove1 (target, peer, stream) (tn_admitted s)\<rparr>"
  show "hm_get (sv_pending_by_target (tn_srv ?s')) t = (if waiting_for t ?s' = 0 then None else Some (waiting_for t ?s'))" for t
    using tunnels_okD(3) [OF ok, of t] kept by (simp add: waiting_for_upd counters_kept_def)
  show "waiting_for t ?s' + count_list (map fst (tn_admitted ?s')) t \<le> cfg_max_pending_per_target cfg + c - 1" for t
    using tunnels_okD(5) [OF ok, of t] count_map_remove1 [OF mem, of fst t] by (simp add: waiting_for_upd)
qed (use kept tunnels_okD(1,2,4,6) [OF ok] mem in \<open>auto simp: counters_kept_def length_remove1\<close>)

lemma tunnels_ok_run: "tunnel_run env c cfg s \<Longrightarrow> 0 < c \<Longrightarrow> tunnels_ok c cfg s"
proof (induction rule: tunnel_run.induct)
  case (tn_start rz)
  then show ?case by (simp add: tunnels_ok_def server_bind_def waiting_for_def targets_def)
next
  case (tn_admit s now stream addr target peer out srv)
  then show ?case by (simp add: tunnels_ok_admit)
next
  case (tn_refused s now stream addr target peer out srv)
  then show ?case using tunnel_admit_cases tunnels_ok_kept by blast
next
  case (tn_wait s target peer stream conn out srv)
  then show ?case by (simp add: tunnels_ok_wait)
next
  case (tn_unavailable s target peer stream conn out srv)
  then show ?case using tunnel_register_cases [OF tn_unavailable.hyps(3)] by (simp add: tunnels_ok_unavailable)
next
  case (tn_paired s conn target peer pair out srv)
  then show ?case by (simp add: tunnels_ok_paired)
next
  case (tn_other s srv)
  then show ?case by (simp add: tunnels_ok_kept)
qed

text \<open>
  The limits on pending tunnels (S-03). In every run both counters equal the number of
  controllers that wait for their device, in total and per target, and the entry of a target with
  none is gone; and if at most \<open>c\<close> tasks are between their check and their registration at a time,
  no more than the limit plus \<open>c - 1\<close> controllers wait, in total and per target.
\<close>
theorem tunnels_counted:
  assumes "tunnel_run env c cfg s" and "0 < c"
  shows "sv_pending_tunnels (tn_srv s) = length (tn_waiting s)
       \<and> hm_get (sv_pending_by_target (tn_srv s)) t = (if waiting_for t s = 0 then None else Some (waiting_for t s))
       \<and> length (tn_waiting s) \<le> cfg_max_pending_tunnels cfg + c - 1
       \<and> waiting_for t s \<le> cfg_max_pending_per_target cfg + c - 1"
  using tunnels_okD(2,4) [OF tunnels_ok_run [OF assms]] tunnels_okD(3,5) [OF tunnels_ok_run [OF assms], of t] by auto

section \<open>Examples\<close>

definition demo_env :: srv_env where
  "demo_env = \<lparr>se_ser = (\<lambda>_. Inr [1]), se_de = (\<lambda>_. Inl ''bad''),
     se_rv = demo_codec, se_ext = None, se_de_resolve = (\<lambda>_. Inl ''bad''), se_ser_info = (\<lambda>_. Inr [2]),
     se_sign = (\<lambda>b. b), se_ser_payload = (\<lambda>_. [3]), se_dir_valid = (\<lambda>_ _. False), se_directory = None,
     se_ser_request = demo_ser, se_ser_resp = (\<lambda>_. Inr [4])\<rparr>"

definition demo_tn_cfg :: server_config where
  "demo_tn_cfg = server_config_default\<lparr>cfg_max_pending_per_target := 1, cfg_tunnel_conn_rate_limit := tunnel_conn_default\<rparr>"

definition demo_tn_srv :: server where
  "demo_tn_srv = (server_bind demo_tn_cfg None)\<lparr>sv_registry := rs_reg demo_online, sv_chans := demo_chans\<rparr>"

lemma tunnel_admit_allowed:
  assumes "check_connect now (sa_ip addr) (sv_tunnel_conn_limiter s) = (Allowed, rl)"
    and "sv_pending_tunnels s < cfg_max_pending_tunnels (sv_cfg s)"
    and "pending_of target s < cfg_max_pending_per_target (sv_cfg s)"
  shows "tunnel_admit env now stream addr target peer s =
     ([], TunnelAdmitted target peer stream, s\<lparr>sv_tunnel_conn_limiter := rl\<rparr>)"
  using assms by (simp add: tunnel_admit_def pending_of_def)

lemma tunnel_register_ok:
  assumes "hm_get (reg_devices (sv_registry s)) target = Some e" and "chan_live (de_ctrl_tx e) (sv_chans s)"
    and "encode_extension (se_ser_request env) TYPE_TUNNEL_REQUEST \<lparr>tr_from_peer = peer, tr_conn_id = conn\<rparr> = Inr f"
  shows "\<exists>srv. tunnel_register env conn target peer stream s = ([], TunnelWaiting conn target peer, srv)
     \<and> reg_devices (sv_registry srv) = reg_devices (sv_registry s) \<and> chan_live (de_ctrl_tx e) (sv_chans srv)"
proof -
  obtain ch where ch: "hm_get (sv_chans s) (de_ctrl_tx e) = Some ch" "ch_open ch"
    using assms(2) by (auto simp: chan_live_def split: option.splits)
  show ?thesis
    using assms(1,3) ch
    by (simp add: tunnel_register_def register_tunnel_def send_tunnel_request_def chan_send_def insert_tunnel_def
        chan_live_def)
qed

lemma demo_env_encodes:
  "\<exists>f. encode_extension (se_ser_request demo_env) TYPE_TUNNEL_REQUEST \<lparr>tr_from_peer = ''a'', tr_conn_id = c\<rparr> = Inr f"
  by (simp add: demo_env_def encode_extension_def demo_ser_def str_bytes_def)

lemma demo_connect_allowed:
  "fst (check_connect 0 (sa_ip demo_addr) (sv_tunnel_conn_limiter demo_tn_srv)) = Allowed"
  "fst (check_connect 0 (sa_ip demo_addr) (snd (check_connect 0 (sa_ip demo_addr) (sv_tunnel_conn_limiter demo_tn_srv)))) = Allowed"
proof -
  have "sv_tunnel_conn_limiter demo_tn_srv = with_config tunnel_conn_default"
    by (simp add: demo_tn_srv_def server_bind_def demo_tn_cfg_def)
  then show "fst (check_connect 0 (sa_ip demo_addr) (sv_tunnel_conn_limiter demo_tn_srv)) = Allowed"
    "fst (check_connect 0 (sa_ip demo_addr) (snd (check_connect 0 (sa_ip demo_addr) (sv_tunnel_conn_limiter demo_tn_srv)))) = Allowed"
    by (simp_all add: check_connect_def with_config_def bucket_check_def hm_or_insert_def bucket_new_def Let_def
        tunnel_conn_default_def maybe_prune_def MAX_BUCKETS_def)
qed

lemma demo_tn_srv_facts:
  "sv_cfg demo_tn_srv = demo_tn_cfg" "sv_pending_tunnels demo_tn_srv = 0" "pending_of t demo_tn_srv = 0"
  "hm_get (reg_devices (sv_registry demo_tn_srv)) ''pc'' = Some (demo_entry ''pc'' ''k'' 1)"
  "chan_live (de_ctrl_tx (demo_entry ''pc'' ''k'' 1)) (sv_chans demo_tn_srv)"
  "cfg_max_pending_tunnels demo_tn_cfg = 256" "cfg_max_pending_per_target demo_tn_cfg = 1"
  by (simp_all add: demo_tn_srv_def server_bind_def pending_of_def hm_or_insert_def demo_online_def demo_entry_def
      demo_chans_def chan_live_def demo_tn_cfg_def server_config_default_def DEFAULT_MAX_PENDING_TUNNELS_def)

text \<open>
  The limits on pending tunnels can be exceeded. With a limit of one controller per target, two
  tasks that both pass the check before either of them registers both wait for the same device.
\<close>
theorem tunnel_limit_race:
  "\<exists>s. tunnel_run demo_env 2 demo_tn_cfg s \<and> cfg_max_pending_per_target demo_tn_cfg = 1 \<and>
     waiting_for ''pc'' s = 2 \<and> length (tn_waiting s) = 2"
proof -
  let ?run = "tunnel_run demo_env 2 demo_tn_cfg"
  let ?check = "check_connect 0 (sa_ip demo_addr)"
  define rl1 where "rl1 = snd (?check (sv_tunnel_conn_limiter demo_tn_srv))"
  define rl2 where "rl2 = snd (?check rl1)"
  have c1: "?check (sv_tunnel_conn_limiter demo_tn_srv) = (Allowed, rl1)" and c2: "?check rl1 = (Allowed, rl2)"
    using demo_connect_allowed by (simp_all add: rl1_def rl2_def prod_eq_iff)
  define srv1 where "srv1 = demo_tn_srv\<lparr>sv_tunnel_conn_limiter := rl1\<rparr>"
  define srv2 where "srv2 = srv1\<lparr>sv_tunnel_conn_limiter := rl2\<rparr>"
  note facts = demo_tn_srv_facts
  have a1: "tunnel_admit demo_env 0 5 demo_addr ''pc'' ''a'' demo_tn_srv = ([], TunnelAdmitted ''pc'' ''a'' 5, srv1)"
    unfolding srv1_def by (rule tunnel_admit_allowed [OF c1]) (simp_all add: facts)
  have a2: "tunnel_admit demo_env 0 6 demo_addr ''pc'' ''a'' srv1 = ([], TunnelAdmitted ''pc'' ''a'' 6, srv2)"
    unfolding srv2_def
    by (rule tunnel_admit_allowed) (use c2 facts in \<open>simp_all add: srv1_def pending_of_def\<close>)
  obtain f7 where f7: "encode_extension (se_ser_request demo_env) TYPE_TUNNEL_REQUEST \<lparr>tr_from_peer = ''a'', tr_conn_id = 7\<rparr> = Inr f7"
    using demo_env_encodes by blast
  obtain f8 where f8: "encode_extension (se_ser_request demo_env) TYPE_TUNNEL_REQUEST \<lparr>tr_from_peer = ''a'', tr_conn_id = 8\<rparr> = Inr f8"
    using demo_env_encodes by blast
  have dev2: "hm_get (reg_devices (sv_registry srv2)) ''pc'' = Some (demo_entry ''pc'' ''k'' 1)"
    and live2: "chan_live (de_ctrl_tx (demo_entry ''pc'' ''k'' 1)) (sv_chans srv2)"
    using facts(4,5) by (simp_all add: srv1_def srv2_def)
  obtain srv3 where w1: "tunnel_register demo_env 7 ''pc'' ''a'' 5 srv2 = ([], TunnelWaiting 7 ''pc'' ''a'', srv3)"
    and dev3: "hm_get (reg_devices (sv_registry srv3)) ''pc'' = Some (demo_entry ''pc'' ''k'' 1)"
    and live3: "chan_live (de_ctrl_tx (demo_entry ''pc'' ''k'' 1)) (sv_chans srv3)"
    using tunnel_register_ok [OF dev2 live2 f7] dev2 by metis
  obtain srv4 where w2: "tunnel_register demo_env 8 ''pc'' ''a'' 6 srv3 = ([], TunnelWaiting 8 ''pc'' ''a'', srv4)"
    using tunnel_register_ok [OF dev3 live3 f8] by metis
  have "counters_kept (server_bind demo_tn_cfg None) demo_tn_srv"
    by (simp add: counters_kept_def demo_tn_srv_def server_bind_def)
  then have "?run \<lparr>tn_srv = demo_tn_srv, tn_admitted = [], tn_waiting = []\<rparr>"
    using tn_other [OF tn_start] by fastforce
  then have "?run \<lparr>tn_srv = srv1, tn_admitted = [(''pc'', ''a'', 5)], tn_waiting = []\<rparr>"
    using tn_admit [where stream = 5] a1 by fastforce
  then have "?run \<lparr>tn_srv = srv2, tn_admitted = [(''pc'', ''a'', 6), (''pc'', ''a'', 5)], tn_waiting = []\<rparr>"
    using tn_admit [where stream = 6] a2 by fastforce
  then have "?run \<lparr>tn_srv = srv3, tn_admitted = [(''pc'', ''a'', 6)], tn_waiting = [(7, ''pc'', ''a'')]\<rparr>"
    using tn_wait [where target = "''pc''" and peer = "''a''" and stream = 5] w1 by fastforce
  then have "?run \<lparr>tn_srv = srv4, tn_admitted = [], tn_waiting = [(8, ''pc'', ''a''), (7, ''pc'', ''a'')]\<rparr>"
    using tn_wait [where target = "''pc''" and peer = "''a''" and stream = 6] w2 by fastforce
  then show ?thesis by (intro exI conjI) (assumption, simp_all add: facts waiting_for_def)
qed

lemma demo_tn_run: "tunnel_run demo_env 1 demo_tn_cfg \<lparr>tn_srv = demo_tn_srv, tn_admitted = [], tn_waiting = []\<rparr>"
proof -
  have "counters_kept (server_bind demo_tn_cfg None) demo_tn_srv"
    by (simp add: counters_kept_def demo_tn_srv_def server_bind_def)
  then show ?thesis using tn_other [OF tn_start] by fastforce
qed

theorem tunnels_counted_witness:
  "hm_get (sv_pending_by_target demo_tn_srv) ''pc'' = None"
  using tunnels_counted [OF demo_tn_run, of "''pc''"] by (simp add: waiting_for_def)

text \<open>Device \<open>''pc''\<close> came back as session 1 while session 0 is still being cleaned up.\<close>

definition demo_back :: server where
  "demo_back = demo_tn_srv\<lparr>sv_objs :=
     [(0, (new_session 0 0 7 demo_addr)\<lparr>cs_device_id := Some ''pc''\<rparr>),
      (1, (new_session 0 1 1 demo_addr)\<lparr>cs_device_id := Some ''pc''\<rparr>)],
     sv_sessions := [0, 1]\<rparr>"

theorem stale_cleanup_witness:
  "is_online ''pc'' (sv_registry demo_back) \<and>
   (let s' = cleanup_session 0 demo_back; s'' = snd (session_tick 5 1 s')
    in 1 \<in> set (sv_sessions s'') \<and> session_device 1 s'' = Some ''pc'' \<and> \<not> is_online ''pc'' (sv_registry s''))"
proof
  show "is_online ''pc'' (sv_registry demo_back)"
    by (simp add: demo_back_def demo_tn_srv_def demo_online_def is_online_def hm_has_def)
  have "hm_get (sv_objs demo_back) 0 = Some ((new_session 0 0 7 demo_addr)\<lparr>cs_device_id := Some ''pc''\<rparr>)"
    "hm_get (sv_objs demo_back) 1 = Some ((new_session 0 1 1 demo_addr)\<lparr>cs_device_id := Some ''pc''\<rparr>)"
    "hm_get (reg_devices (sv_registry demo_back)) ''pc'' = Some (demo_entry ''pc'' ''k'' 1)"
    "1 \<in> set (sv_sessions demo_back)"
    using demo_tn_srv_facts(4) by (simp_all add: demo_back_def)
  from stale_cleanup [OF this(1) _ this(2) _ _ this(3) _ this(4), where now = 5]
  show "let s' = cleanup_session 0 demo_back; s'' = snd (session_tick 5 1 s')
    in 1 \<in> set (sv_sessions s'') \<and> session_device 1 s'' = Some ''pc'' \<and> \<not> is_online ''pc'' (sv_registry s'')"
    by (simp add: new_session_def demo_entry_def Let_def)
qed

end
