(* ===== verification/Media_Datagram.thy ===== *)
theory Media_Datagram
  imports Framing
begin

text \<open>
  Media frames over unreliable datagrams: fragmentation and the datagram header
  (\<^verbatim>\<open>media/src/transport/datagram.rs\<close>), the cipher's envelope (\<^verbatim>\<open>MediaCipher\<close> in
  \<^verbatim>\<open>media/src/transport/quic.rs\<close>) and the reassembly buffer
  (\<^verbatim>\<open>media/src/transport/reassembly.rs\<close>). The AEAD of the core crate and the QUIC connection are
  parameters. Encoded sizes are natural numbers; the 64-bit sums of the code are sums of lengths
  of buffers in memory and do not saturate.
\<close>

section \<open>Sending a frame\<close>

definition MAX_DATAGRAM_SIZE :: nat where "MAX_DATAGRAM_SIZE = 1200"
definition AEAD_OVERHEAD :: nat where "AEAD_OVERHEAD = 12 + 16"
definition FRAME_HEADER_SIZE :: nat where "FRAME_HEADER_SIZE = 15"

definition max_payload :: nat where
  "max_payload = MAX_DATAGRAM_SIZE - AEAD_OVERHEAD - FRAME_HEADER_SIZE"

datatype transport_error =
    TeQuic string
  | TeSecureChannel string
  | Crypto string
  | ShortDatagram nat nat
  | IncompleteFrame u64
  | ConnectionClosed string
  | TeIo string
  | TeHandshake string
  | InvalidFrame string
  | TeTimeout

unbundle bit_operations_syntax

definition fragment_flags :: "bool \<Rightarrow> bool \<Rightarrow> bool \<Rightarrow> u16" where
  "fragment_flags is_key is_last is_window_end =
     (if is_key then 0x01 else 0) OR (if is_last then 0x02 else 0) OR (if is_window_end then 0x04 else 0)"

definition fragments :: "bytes \<Rightarrow> bytes list" where
  "fragments nal_data = (if max_payload < length nal_data then chunks max_payload nal_data else [nal_data])"

text \<open>
  The plaintext of one datagram. The sender writes the identifier, index, count and flags, and
  the fragment; its \<open>kind\<close> argument is not written.
\<close>

definition fragment_plain :: "u64 \<Rightarrow> bool \<Rightarrow> bool \<Rightarrow> u16 \<Rightarrow> nat \<Rightarrow> bytes \<Rightarrow> bytes" where
  "fragment_plain frame_id is_key is_window_end count i chunk =
     le_u64 frame_id @ le_u16 (word_of_nat i) @ le_u16 count @
     le_u16 (fragment_flags is_key (Suc i = unat count) is_window_end) @ chunk"

text \<open>The loop: encrypt, send, stop at the first error. \<open>sent\<close> are the datagrams handed to the connection.\<close>

fun send_fragments :: "(bytes \<Rightarrow> transport_error + bytes) \<Rightarrow> (bytes \<Rightarrow> transport_error option) \<Rightarrow>
    bytes list \<Rightarrow> bytes list \<times> (transport_error + unit)" where
  "send_fragments encrypt send_datagram [] = ([], Inr ())"
| "send_fragments encrypt send_datagram (plain # plains) =
     (case encrypt plain of
        Inl e \<Rightarrow> ([], Inl e)
      | Inr ciphertext \<Rightarrow>
          (case send_datagram ciphertext of
             Some e \<Rightarrow> ([], Inl e)
           | None \<Rightarrow> (case send_fragments encrypt send_datagram plains of
                        (sent, r) \<Rightarrow> (ciphertext # sent, r))))"

definition frame_plains :: "u64 \<Rightarrow> bytes \<Rightarrow> bool \<Rightarrow> bool \<Rightarrow> bytes list" where
  "frame_plains frame_id nal_data is_key is_window_end =
     (let packets = fragments nal_data; count = word_of_nat (length packets)
      in map (\<lambda>(i, chunk). fragment_plain frame_id is_key is_window_end count i chunk) (enumerate 0 packets))"

definition send_encrypted_frame :: "(bytes \<Rightarrow> transport_error + bytes) \<Rightarrow> (bytes \<Rightarrow> transport_error option) \<Rightarrow>
    u64 \<Rightarrow> u8 \<Rightarrow> bytes \<Rightarrow> bool \<Rightarrow> bool \<Rightarrow> bytes list \<times> (transport_error + unit)" where
  "send_encrypted_frame encrypt send_datagram frame_id kind nal_data is_key is_window_end =
     send_fragments encrypt send_datagram (frame_plains frame_id nal_data is_key is_window_end)"

section \<open>Receiving a datagram\<close>

definition media_encrypt :: "(bytes \<Rightarrow> string + bytes \<times> bytes) \<Rightarrow> bytes \<Rightarrow> transport_error + bytes" where
  "media_encrypt seal plain =
     (case seal plain of Inl e \<Rightarrow> Inl (Crypto e) | Inr (nonce, ciphertext) \<Rightarrow> Inr (nonce @ ciphertext))"

definition media_decrypt :: "(bytes \<Rightarrow> bytes \<Rightarrow> string + bytes) \<Rightarrow> bytes \<Rightarrow> transport_error + bytes" where
  "media_decrypt open_seal data =
     (if length data < 12 then Inl (ShortDatagram (length data) 12)
      else case open_seal (take 12 data) (drop 12 data) of Inl e \<Rightarrow> Inl (Crypto e) | Inr p \<Rightarrow> Inr p)"

record datagram =
  dg_frame_id :: u64
  dg_packet_idx :: u16
  dg_total :: u16
  dg_kind :: u8
  dg_flags :: u16
  dg_payload :: bytes

definition parse_datagram :: "bytes \<Rightarrow> transport_error + datagram" where
  "parse_datagram plain =
     (if length plain < FRAME_HEADER_SIZE then Inl (ShortDatagram (length plain) FRAME_HEADER_SIZE)
      else Inr \<lparr>dg_frame_id = of_le_u64 (take 8 plain), dg_packet_idx = of_le_u16 (take 2 (drop 8 plain)),
                dg_total = of_le_u16 (take 2 (drop 10 plain)), dg_kind = plain ! 12,
                dg_flags = of_le_u16 (take 2 (drop 13 plain)), dg_payload = drop 15 plain\<rparr>)"

definition recv_encrypted_datagram :: "(bytes \<Rightarrow> transport_error + bytes) \<Rightarrow> transport_error + bytes \<Rightarrow>
    transport_error + datagram" where
  "recv_encrypted_datagram decrypt received =
     (case received of
        Inl e \<Rightarrow> Inl e
      | Inr data \<Rightarrow> (case decrypt data of Inl e \<Rightarrow> Inl e | Inr plain \<Rightarrow> parse_datagram plain))"

text \<open>With an AEAD that opens what it seals under 12-byte nonces, the envelope functions are inverse.\<close>

lemma media_decrypt_encrypt:
  assumes "\<And>p n c. seal p = Inr (n, c) \<Longrightarrow> length n = 12 \<and> open_seal n c = Inr p"
    and "media_encrypt seal p = Inr d"
  shows "media_decrypt open_seal d = Inr p"
proof -
  obtain n c where nc: "seal p = Inr (n, c)" "d = n @ c"
    using assms(2) by (auto simp: media_encrypt_def split: sum.splits)
  show ?thesis using assms(1) [OF nc(1)] nc(2) by (simp add: media_decrypt_def)
qed

section \<open>Reassembly\<close>

definition MAX_TOTAL_PACKETS :: u16 where "MAX_TOTAL_PACKETS = 64"
definition MAX_FRAME_BYTES :: nat where "MAX_FRAME_BYTES = 8 * 1024 * 1024"

record reassembly_buffer =
  rb_total_packets :: u16
  rb_packets :: "bytes option list"
  rb_received_bytes :: nat
  rb_flags :: u16
  rb_inserted_at :: instant

record frame_reassembly =
  fr_buffers :: "(u64, reassembly_buffer) hmap"
  fr_completed :: "u64 list"
  fr_max_pending :: nat
  fr_timeout :: duration

definition frame_reassembly_new :: frame_reassembly where
  "frame_reassembly_new = \<lparr>fr_buffers = [], fr_completed = [], fr_max_pending = 64, fr_timeout = millis 200\<rparr>"

definition with_timeout :: "duration \<Rightarrow> frame_reassembly \<Rightarrow> frame_reassembly" where
  "with_timeout timeout r = r\<lparr>fr_timeout := timeout\<rparr>"

definition with_max_pending :: "nat \<Rightarrow> frame_reassembly \<Rightarrow> frame_reassembly" where
  "with_max_pending mx r = r\<lparr>fr_max_pending := mx\<rparr>"

definition evict_oldest :: "(u64, reassembly_buffer) hmap \<Rightarrow> (u64, reassembly_buffer) hmap" where
  "evict_oldest m =
     (case min_by_key (\<lambda>(_, b). rb_inserted_at b) m of Some kv \<Rightarrow> hm_del (fst kv) m | None \<Rightarrow> m)"

definition opened_buffers :: "instant \<Rightarrow> u64 \<Rightarrow> u16 \<Rightarrow> u16 \<Rightarrow> frame_reassembly \<Rightarrow> (u64, reassembly_buffer) hmap" where
  "opened_buffers now frame_id count flags r =
     (if hm_has (fr_buffers r) frame_id then fr_buffers r
      else hm_put frame_id
             \<lparr>rb_total_packets = count, rb_packets = replicate (unat count) None, rb_received_bytes = 0, rb_flags = flags,
              rb_inserted_at = now\<rparr>
             (if fr_max_pending r \<le> length (fr_buffers r) then evict_oldest (fr_buffers r) else fr_buffers r))"

text \<open>Storing one piece; \<open>None\<close> when the frame grows beyond the byte limit.\<close>

definition store_piece :: "u16 \<Rightarrow> u16 \<Rightarrow> bytes \<Rightarrow> reassembly_buffer \<Rightarrow> reassembly_buffer option" where
  "store_piece packet_idx flags payload b0 =
     (let b = b0\<lparr>rb_flags := rb_flags b0 OR flags\<rparr>; i = unat packet_idx
      in if i < length (rb_packets b)
         then (let old = (case rb_packets b ! i of None \<Rightarrow> 0 | Some p \<Rightarrow> length p);
                   new_total = rb_received_bytes b + length payload - old
               in if MAX_FRAME_BYTES < new_total then None
                  else Some (b\<lparr>rb_received_bytes := new_total,
                               rb_packets := (rb_packets b)[i := Some payload]\<rparr>))
         else Some b)"

definition assembled :: "reassembly_buffer \<Rightarrow> bytes option" where
  "assembled b = (if None \<in> set (rb_packets b) then None else Some (concat (map the (rb_packets b))))"

definition add_packet :: "instant \<Rightarrow> u64 \<Rightarrow> u16 \<Rightarrow> u16 \<Rightarrow> u16 \<Rightarrow> bytes \<Rightarrow> frame_reassembly \<Rightarrow>
    (u64 \<times> u16 \<times> bytes) option \<times> frame_reassembly" where
  "add_packet now frame_id packet_idx count flags payload r =
     (if count = 0 \<or> MAX_TOTAL_PACKETS < count then (None, r)
      else if MAX_FRAME_BYTES < length payload then (None, r)
      else (let m = opened_buffers now frame_id count flags r
            in case hm_get m frame_id of
                 None \<Rightarrow> (None, r)
               | Some b0 \<Rightarrow>
                   (case store_piece packet_idx flags payload b0 of
                      None \<Rightarrow> (None, r\<lparr>fr_buffers := hm_del frame_id m\<rparr>)
                    | Some b \<Rightarrow>
                        (case assembled b of
                           Some data \<Rightarrow>
                             (Some (frame_id, rb_flags b, data),
                              r\<lparr>fr_buffers := hm_del frame_id m, fr_completed := fr_completed r @ [frame_id]\<rparr>)
                         | None \<Rightarrow> (None, r\<lparr>fr_buffers := hm_put frame_id b m\<rparr>)))))"

definition cleanup :: "instant \<Rightarrow> frame_reassembly \<Rightarrow> u64 list \<times> frame_reassembly" where
  "cleanup now r =
     (let expired = map fst (filter (\<lambda>(_, b). fr_timeout r \<le> now - rb_inserted_at b) (fr_buffers r));
          m = filter (\<lambda>(_, b). \<not> fr_timeout r \<le> now - rb_inserted_at b) (fr_buffers r)
      in (expired, r\<lparr>fr_buffers := m,
            fr_completed := dropWhile (\<lambda>id. id \<in> set expired \<or> \<not> hm_has m id) (fr_completed r)\<rparr>))"

definition fr_clear :: "frame_reassembly \<Rightarrow> frame_reassembly" where
  "fr_clear r = r\<lparr>fr_buffers := [], fr_completed := []\<rparr>"

definition pending_count :: "frame_reassembly \<Rightarrow> nat" where
  "pending_count r = length (fr_buffers r)"

definition is_completed :: "u64 \<Rightarrow> frame_reassembly \<Rightarrow> bool" where
  "is_completed frame_id r = (\<not> hm_has (fr_buffers r) frame_id)"

section \<open>The header as sent and as read\<close>

lemma fragment_flags_cases:
  "fragment_flags k l w \<in> {0, 1, 2, 3, 4, 5, 6, 7}"
  by (cases k; cases l; cases w) (simp_all add: fragment_flags_def)

lemma flags_bytes:
  "le_u16 (fragment_flags k l w) = [ucast (fragment_flags k l w), 0]"
proof -
  have "unat (fragment_flags k l w) < 256"
    using fragment_flags_cases [of k l w] by auto
  then show ?thesis by (simp add: le_u16_def numeral_2_eq_2 word_eq_iff_unsigned unsigned_ucast_eq take_bit_eq_mod)
qed

text \<open>
  The datagram header loses its kind. Whatever the cipher, as long as it decrypts what it
  encrypts: the sender leaves out the kind byte that the receiver expects in front of the flags.
  A received fragment has its identifier, index and count, but its kind is the sender's flag
  byte, its flags are the first data byte, and its payload lacks that byte; an empty fragment
  is rejected as too short.
\<close>
theorem datagram_kind_shift:
  assumes "\<And>p c. encrypt p = Inr c \<Longrightarrow> decrypt c = Inr p"
    and "encrypt (fragment_plain frame_id is_key is_window_end count i chunk) = Inr c"
  shows "recv_encrypted_datagram decrypt (Inr c) =
    (case chunk of
       [] \<Rightarrow> Inl (ShortDatagram 14 15)
     | b # rest \<Rightarrow> Inr \<lparr>dg_frame_id = frame_id, dg_packet_idx = word_of_nat i, dg_total = count,
         dg_kind = ucast (fragment_flags is_key (Suc i = unat count) is_window_end),
         dg_flags = word_of_nat (256 * unat b), dg_payload = rest\<rparr>)"
proof -
  let ?fl = "fragment_flags is_key (Suc i = unat count) is_window_end"
  have plain: "decrypt c = Inr (le_u64 frame_id @ le_u16 (word_of_nat i) @ le_u16 count @ [ucast ?fl, 0] @ chunk)"
    using assms by (simp add: fragment_plain_def flags_bytes)
  have nth: "(le_u64 frame_id @ le_u16 (word_of_nat i) @ le_u16 count @ [ucast ?fl, 0] @ chunk) ! 12 = ucast ?fl"
    by (simp add: nth_append)
  show ?thesis
  proof (cases chunk)
    case Nil
    then show ?thesis by (simp add: recv_encrypted_datagram_def plain parse_datagram_def FRAME_HEADER_SIZE_def)
  next
    case (Cons b rest)
    have "of_le_u16 [0, b] = word_of_nat (256 * unat b)" by (simp add: of_le_u16_def)
    then show ?thesis
      using nth
      by (simp add: recv_encrypted_datagram_def plain parse_datagram_def FRAME_HEADER_SIZE_def Cons)
  qed
qed

theorem datagram_kind_shift_witness:
  "recv_encrypted_datagram (\<lambda>c. Inr c) (Inr (fragment_plain 7 False False 1 0 [0xAB, 0xCD])) =
     Inr \<lparr>dg_frame_id = 7, dg_packet_idx = 0, dg_total = 1, dg_kind = 2,
          dg_flags = word_of_nat (256 * 171), dg_payload = [0xCD]\<rparr>"
  using datagram_kind_shift [of "\<lambda>p. Inr p" "\<lambda>c. Inr c" 7 False False 1 0 "[0xAB, 0xCD]"]
  by (simp add: fragment_flags_def)

section \<open>Reassembly is correct and bounded\<close>

definition add_datagram :: "instant \<Rightarrow> datagram \<Rightarrow> frame_reassembly \<Rightarrow> (u64 \<times> u16 \<times> bytes) option \<times> frame_reassembly" where
  "add_datagram now d r =
     add_packet now (dg_frame_id d) (dg_packet_idx d) (dg_total d) (dg_flags d) (dg_payload d) r"

definition add_datagrams :: "(instant \<times> datagram) list \<Rightarrow> frame_reassembly \<Rightarrow> frame_reassembly" where
  "add_datagrams ds r = fold (\<lambda>(now, d) r. snd (add_datagram now d r)) ds r"

lemma evict_oldest_props:
  "hm_ok m \<Longrightarrow> hm_ok (evict_oldest m)" "set (evict_oldest m) \<subseteq> set m"
  "m \<noteq> [] \<Longrightarrow> length (evict_oldest m) < length m"
proof -
  show "hm_ok m \<Longrightarrow> hm_ok (evict_oldest m)"
    by (simp add: evict_oldest_def split: option.split)
  show "set (evict_oldest m) \<subseteq> set m"
    by (auto simp: evict_oldest_def AList.delete_eq split: option.split)
  assume "m \<noteq> []"
  then obtain kv where kv: "min_by_key (\<lambda>(_, b). rb_inserted_at b) m = Some kv"
    by (cases "min_by_key (\<lambda>(_, b). rb_inserted_at b) m") auto
  have "fst kv \<in> fst ` set m" using min_by_key_mem [OF kv] by simp
  then show "length (evict_oldest m) < length m"
    by (simp add: evict_oldest_def kv length_hm_del_less)
qed

definition buffer_bytes :: "reassembly_buffer \<Rightarrow> nat" where
  "buffer_bytes b = sum_list (map (\<lambda>p. case p of None \<Rightarrow> 0 | Some d \<Rightarrow> length d) (rb_packets b))"

definition buffer_ok :: "reassembly_buffer \<Rightarrow> bool" where
  "buffer_ok b \<longleftrightarrow> length (rb_packets b) \<le> 64 \<and> rb_received_bytes b = buffer_bytes b \<and>
     buffer_bytes b \<le> MAX_FRAME_BYTES"

lemma sum_list_update_nat:
  fixes f :: "'a \<Rightarrow> nat"
  assumes "i < length xs"
  shows "sum_list (map f (xs[i := x])) = sum_list (map f xs) + f x - f (xs ! i)"
proof -
  have xs: "xs = take i xs @ xs ! i # drop (Suc i) xs" using assms by (rule id_take_nth_drop)
  have "sum_list (map f xs) = sum_list (map f (take i xs)) + (f (xs ! i) + sum_list (map f (drop (Suc i) xs)))"
    by (subst xs) (simp only: map_append sum_list_append list.map sum_list.Cons)
  then show ?thesis using assms by (simp add: upd_conv_take_nth_drop)
qed

lemma store_piece_ok [inv_intros]:
  "buffer_ok b0 \<Longrightarrow> store_piece idx flags payload b0 = Some b \<Longrightarrow> buffer_ok b"
  by (auto simp: store_piece_def buffer_ok_def buffer_bytes_def Let_def sum_list_update_nat
      split: if_splits option.splits)

definition reassembly_ok :: "frame_reassembly \<Rightarrow> bool" where
  "reassembly_ok r \<longleftrightarrow>
     hm_ok (fr_buffers r) \<and> length (fr_buffers r) \<le> max 1 (fr_max_pending r) \<and>
     (\<forall>(f, b) \<in> set (fr_buffers r). buffer_ok b)"

lemma opened_buffers_ok:
  assumes "reassembly_ok r" and "count \<le> MAX_TOTAL_PACKETS"
  shows "hm_ok (opened_buffers now f count flags r) \<and>
    length (opened_buffers now f count flags r) \<le> max 1 (fr_max_pending r) \<and>
    (\<forall>(f, b) \<in> set (opened_buffers now f count flags r). buffer_ok b)"
proof (cases "hm_has (fr_buffers r) f")
  case True
  then show ?thesis using assms(1) by (simp add: opened_buffers_def reassembly_ok_def)
next
  case False
  let ?m = "if fr_max_pending r \<le> length (fr_buffers r) then evict_oldest (fr_buffers r) else fr_buffers r"
  let ?b = "\<lparr>rb_total_packets = count, rb_packets = replicate (unat count) None, rb_received_bytes = 0, rb_flags = flags, rb_inserted_at = now\<rparr>"
  have "unat count \<le> 64" using assms(2) by (simp add: MAX_TOTAL_PACKETS_def word_le_nat_alt)
  then have new: "buffer_ok ?b" by (simp add: buffer_ok_def buffer_bytes_def sum_list_replicate)
  have m: "hm_ok ?m" "set ?m \<subseteq> set (fr_buffers r)"
    using assms(1) evict_oldest_props [of "fr_buffers r"] by (auto simp: reassembly_ok_def)
  have "Suc (length ?m) \<le> max 1 (fr_max_pending r)"
    using assms(1) evict_oldest_props(3) [of "fr_buffers r"]
    by (cases "fr_buffers r = []") (auto simp: reassembly_ok_def evict_oldest_def)
  then have "length (hm_put f ?b ?m) \<le> max 1 (fr_max_pending r)" by (simp add: length_hm_put)
  moreover have "\<forall>(g, b) \<in> set (hm_put f ?b ?m). buffer_ok b"
    using set_hm_put [of f ?b ?m] m(2) new assms(1) unfolding reassembly_ok_def by blast
  ultimately show ?thesis using False m(1) by (simp add: opened_buffers_def)
qed

lemma opened_buffers_has: "hm_get (opened_buffers now f count flags r) f \<noteq> None"
  by (auto simp: opened_buffers_def hm_has_def)

lemma add_packet_ok [inv_intros]:
  assumes "reassembly_ok r"
  shows "reassembly_ok (snd (add_packet now f idx count flags payload r))"
proof (cases "count = 0 \<or> MAX_TOTAL_PACKETS < count \<or> MAX_FRAME_BYTES < length payload")
  case True
  then show ?thesis using assms by (auto simp: add_packet_def)
next
  case False
  let ?m = "opened_buffers now f count flags r"
  have "count \<le> MAX_TOTAL_PACKETS" using False by auto
  from opened_buffers_ok [OF assms this, of now f flags]
  have m: "hm_ok ?m" "length ?m \<le> max 1 (fr_max_pending r)" "\<forall>(f, b) \<in> set ?m. buffer_ok b" by blast+
  obtain b0 where b0: "hm_get ?m f = Some b0" using opened_buffers_has by blast
  then have ok0: "buffer_ok b0" using m(3) by (auto dest: map_of_SomeD)
  have del: "reassembly_ok (r\<lparr>fr_buffers := hm_del f ?m, fr_completed := c\<rparr>)" for c
  proof -
    have "length (hm_del f ?m) \<le> max 1 (fr_max_pending r)" using m(2) length_hm_del_le [of f ?m] by linarith
    then show ?thesis using m(1,3) set_hm_del [of f ?m] by (auto simp: reassembly_ok_def)
  qed
  have put: "reassembly_ok (r\<lparr>fr_buffers := hm_put f b ?m\<rparr>)" if "buffer_ok b" for b
  proof -
    have "\<forall>(g, c) \<in> set (hm_put f b ?m). buffer_ok c"
      using set_hm_put [of f b ?m] that m(3) by blast
    then show ?thesis using m b0 by (simp add: reassembly_ok_def length_hm_put hm_has_def)
  qed
  show ?thesis
  proof (cases "store_piece idx flags payload b0")
    case None
    with False b0 del [of "fr_completed r"] show ?thesis by (simp add: add_packet_def)
  next
    case (Some b)
    with False b0 del put [OF store_piece_ok [OF ok0 Some]] show ?thesis
      by (simp add: add_packet_def Let_def split: option.split)
  qed
qed

lemma cleanup_ok [inv_intros]: "reassembly_ok r \<Longrightarrow> reassembly_ok (snd (cleanup now r))"
  by (auto simp: reassembly_ok_def cleanup_def Let_def intro: le_trans [OF length_filter_le])

text \<open>A receiver's life: packets arrive and timeouts are swept, at any instants, in any order.\<close>

datatype reassembly_event = Packet instant datagram | Sweep instant

definition reassembly_step :: "reassembly_event \<Rightarrow> frame_reassembly \<Rightarrow> frame_reassembly" where
  "reassembly_step e r =
     (case e of Packet now d \<Rightarrow> snd (add_datagram now d r) | Sweep now \<Rightarrow> snd (cleanup now r))"

lemma max_pending_frame [frame_simps, simp]:
  "fr_max_pending (snd (add_packet now f idx count flags payload r)) = fr_max_pending r"
  "fr_max_pending (snd (cleanup now r)) = fr_max_pending r"
  by (auto simp: add_packet_def cleanup_def Let_def split: option.split)

lemma reassembly_step_ok:
  "reassembly_ok r \<Longrightarrow> reassembly_ok (reassembly_step e r)"
  by (cases e) (simp_all add: reassembly_step_def add_datagram_def add_packet_ok cleanup_ok)

text \<open>
  Memory of the reassembly. However the network chooses packets, whatever the order of
  arrivals and sweeps, a new buffer never holds more than 64 frames, none with more than 64
  fragments or more than 8 MiB of data, and the byte counter of each frame is the sum of the
  fragments it stores.
\<close>
theorem reassembly_bounded:
  "pending_count (fold reassembly_step es frame_reassembly_new) \<le> 64 \<and>
   list_all (\<lambda>(f, b). length (rb_packets b) \<le> 64 \<and> rb_received_bytes b = buffer_bytes b \<and>
                buffer_bytes b \<le> 8 * 1024 * 1024)
     (fr_buffers (fold reassembly_step es frame_reassembly_new))"
proof -
  have "reassembly_ok (fold reassembly_step es r0) \<and> fr_max_pending (fold reassembly_step es r0) = fr_max_pending r0"
    if "reassembly_ok r0" for r0
    using that
  proof (induction es arbitrary: r0)
    case (Cons e es)
    moreover have "fr_max_pending (reassembly_step e r0) = fr_max_pending r0"
      by (cases e) (simp_all add: reassembly_step_def add_datagram_def)
    ultimately show ?case using reassembly_step_ok [of r0 e] by simp
  qed simp
  moreover have "reassembly_ok frame_reassembly_new" "fr_max_pending frame_reassembly_new = 64"
    by (simp_all add: reassembly_ok_def frame_reassembly_new_def)
  ultimately have "reassembly_ok (fold reassembly_step es frame_reassembly_new)"
      "fr_max_pending (fold reassembly_step es frame_reassembly_new) = 64" by metis+
  then show ?thesis
    by (auto simp: reassembly_ok_def pending_count_def buffer_ok_def MAX_FRAME_BYTES_def list_all_iff)
qed

subsection \<open>Any order of arrival\<close>

text \<open>
  The buffer of frame \<open>f\<close>, cut into \<open>cs\<close>, after the fragments with indices in \<open>seen\<close> have
  arrived with flags \<open>fl\<close> in total; \<open>K\<close> is a set of frame identifiers small enough for the
  buffer never to overflow.
\<close>

definition pieces :: "bytes list \<Rightarrow> nat set \<Rightarrow> bytes option list" where
  "pieces cs seen = map (\<lambda>i. if i \<in> seen then Some (cs ! i) else None) [0..<length cs]"

definition holds_frame :: "u64 \<Rightarrow> bytes list \<Rightarrow> nat set \<Rightarrow> u16 \<Rightarrow> frame_reassembly \<Rightarrow> bool" where
  "holds_frame f cs seen fl r \<longleftrightarrow>
     (if seen = {} then hm_get (fr_buffers r) f = None
      else \<exists>b. hm_get (fr_buffers r) f = Some b \<and> rb_flags b = fl \<and> rb_packets b = pieces cs seen)"

lemma length_pieces [simp]: "length (pieces cs seen) = length cs"
  by (simp add: pieces_def)

lemma pieces_empty: "replicate (length cs) None = pieces cs {}"
  by (simp add: pieces_def map_replicate_const)

lemma pieces_update: "i < length cs \<Longrightarrow> (pieces cs seen)[i := Some (cs ! i)] = pieces cs (insert i seen)"
  by (rule nth_equalityI) (auto simp: pieces_def nth_list_update)

lemma pieces_full: "None \<notin> set (pieces cs seen) \<longleftrightarrow> {..<length cs} \<subseteq> seen"
  by (auto simp: pieces_def image_iff)

lemma pieces_concat: "{..<length cs} \<subseteq> seen \<Longrightarrow> concat (map the (pieces cs seen)) = concat cs"
proof -
  assume "{..<length cs} \<subseteq> seen"
  then have "map the (pieces cs seen) = map (\<lambda>i. cs ! i) [0..<length cs]"
    by (auto simp: pieces_def)
  then show ?thesis by (simp add: map_nth)
qed

lemma pieces_bytes:
  "sum_list (map (\<lambda>p. case p of None \<Rightarrow> 0 | Some d \<Rightarrow> length d) (pieces cs seen)) \<le> length (concat cs)"
proof -
  have "sum_list (map (\<lambda>p. case p of None \<Rightarrow> 0 | Some d \<Rightarrow> length d) (pieces cs seen)) \<le>
      sum_list (map (\<lambda>i. length (cs ! i)) [0..<length cs])"
    unfolding pieces_def by (auto simp: o_def intro!: sum_list_mono)
  also have "map (\<lambda>i. length (cs ! i)) [0..<length cs] = map length cs"
    by (rule nth_equalityI) simp_all
  finally show ?thesis by (simp add: length_concat)
qed

definition within :: "u64 set \<Rightarrow> frame_reassembly \<Rightarrow> bool" where
  "within K r \<longleftrightarrow> reassembly_ok r \<and> finite K \<and> card K \<le> fr_max_pending r \<and> fst ` set (fr_buffers r) \<subseteq> K"

lemma opened_buffers_within:
  assumes "within K r" and "f \<in> K"
  shows "opened_buffers now f count flags r =
    (if hm_has (fr_buffers r) f then fr_buffers r
     else hm_put f \<lparr>rb_total_packets = count, rb_packets = replicate (unat count) None, rb_received_bytes = 0, rb_flags = flags,
            rb_inserted_at = now\<rparr> (fr_buffers r))"
proof (cases "hm_has (fr_buffers r) f")
  case False
  have "length (hm_put f undefined (fr_buffers r)) \<le> card K"
    using assms by (intro hm_keys_le) (auto simp: within_def reassembly_ok_def dom_update)
  then have "\<not> fr_max_pending r \<le> length (fr_buffers r)"
    using False assms(1) by (simp add: within_def length_hm_put)
  then show ?thesis by (simp add: opened_buffers_def)
qed (simp add: opened_buffers_def)

lemma add_packet_within:
  assumes w: "within K r" and f: "f \<in> K"
  shows "within K (snd (add_packet now f idx count flags payload r)) \<and>
    (g \<noteq> f \<longrightarrow> hm_get (fr_buffers (snd (add_packet now f idx count flags payload r))) g = hm_get (fr_buffers r) g) \<and>
    (\<forall>out. fst (add_packet now f idx count flags payload r) = Some out \<longrightarrow> fst out = f)"
proof -
  let ?m = "opened_buffers now f count flags r"
  have get: "hm_get ?m g = hm_get (fr_buffers r) g" if "g \<noteq> f" for g
    using that by (simp add: opened_buffers_within [OF w f])
  have keys: "fst ` set ?m \<subseteq> K"
    using w f by (auto simp: opened_buffers_within [OF w f] within_def dom_update)
  have "fst ` set (fr_buffers (snd (add_packet now f idx count flags payload r))) \<subseteq> K"
    using keys f w set_hm_del [of f ?m]
    by (auto simp: add_packet_def Let_def within_def dom_update split: option.split)
  moreover have "g \<noteq> f \<longrightarrow> hm_get (fr_buffers (snd (add_packet now f idx count flags payload r))) g = hm_get (fr_buffers r) g"
    using get by (auto simp: add_packet_def Let_def split: option.split)
  moreover have "\<forall>out. fst (add_packet now f idx count flags payload r) = Some out \<longrightarrow> fst out = f"
    by (auto simp: add_packet_def Let_def split: option.splits if_splits)
  ultimately show ?thesis using w add_packet_ok [of r] by (simp add: within_def)
qed

text \<open>One more fragment of the frame.\<close>

lemma store_piece_frame:
  assumes "rb_packets b0 = pieces cs seen" and "rb_received_bytes b0 = buffer_bytes b0"
    and "unat idx < length cs" and "length (concat cs) \<le> MAX_FRAME_BYTES"
  shows "\<exists>b. store_piece idx flags (cs ! unat idx) b0 = Some b \<and>
    rb_packets b = pieces cs (insert (unat idx) seen) \<and> rb_flags b = rb_flags b0 OR flags"
proof -
  let ?len = "\<lambda>p. case p of None \<Rightarrow> 0 | Some d \<Rightarrow> length d"
  have "buffer_bytes b0 + length (cs ! unat idx) - ?len (pieces cs seen ! unat idx) =
      sum_list (map ?len (pieces cs (insert (unat idx) seen)))"
    using sum_list_update_nat [of "unat idx" "pieces cs seen" ?len "Some (cs ! unat idx)"] assms(1,3)
    by (simp add: buffer_bytes_def pieces_update)
  also have "\<dots> \<le> MAX_FRAME_BYTES" using pieces_bytes assms(4) by (rule order_trans)
  finally show ?thesis
    using assms by (simp add: store_piece_def Let_def pieces_update)
qed

lemma add_packet_piece:
  fixes now :: instant and flags :: u16
  assumes w: "within K r" and f: "f \<in> K" and h: "holds_frame f cs seen fl r"
    and seen: "seen \<subseteq> {..<length cs}" "seen = {} \<longrightarrow> fl = 0"
    and cs: "0 < length cs" "length cs \<le> 64" "length (concat cs) \<le> MAX_FRAME_BYTES"
    and idx: "unat idx < length cs"
  defines "out \<equiv> add_packet now f idx (word_of_nat (length cs)) flags (cs ! unat idx) r"
  shows "if insert (unat idx) seen = {..<length cs}
    then fst out = Some (f, fl OR flags, concat cs)
    else fst out = None \<and> holds_frame f cs (insert (unat idx) seen) (fl OR flags) (snd out)"
proof -
  let ?count = "word_of_nat (length cs) :: u16" and ?p = "cs ! unat idx"
  let ?m = "opened_buffers now f ?count flags r" and ?seen = "insert (unat idx) seen"
  have count: "unat ?count = length cs" using cs(2) by (simp add: unat_of_nat)
  have "?count \<noteq> 0" "?count \<le> MAX_TOTAL_PACKETS"
    using cs(1,2) count by (auto simp: MAX_TOTAL_PACKETS_def word_le_nat_alt)
  moreover have "length ?p \<le> MAX_FRAME_BYTES"
    using cs(3) idx member_le_sum_list [of "length ?p" "map length cs"] by (simp add: length_concat)
  ultimately have guard: "\<not> (?count = 0 \<or> MAX_TOTAL_PACKETS < ?count)" "\<not> MAX_FRAME_BYTES < length ?p" by auto
  have "\<exists>b0. hm_get ?m f = Some b0 \<and> rb_packets b0 = pieces cs seen \<and>
      rb_received_bytes b0 = buffer_bytes b0 \<and> rb_flags b0 OR flags = fl OR flags"
  proof (cases "seen = {}")
    case True
    with h have "hm_get (fr_buffers r) f = None" by (simp add: holds_frame_def)
    then show ?thesis
      using True seen(2)
      by (simp add: opened_buffers_within [OF w f] hm_has_def count pieces_empty buffer_bytes_def pieces_def)
  next
    case False
    with h obtain b where b: "hm_get (fr_buffers r) f = Some b" "rb_flags b = fl" "rb_packets b = pieces cs seen"
      by (auto simp: holds_frame_def)
    have "buffer_ok b" using w b(1) by (auto simp: within_def reassembly_ok_def dest!: map_of_SomeD)
    with b show ?thesis by (simp add: opened_buffers_within [OF w f] hm_has_def buffer_ok_def)
  qed
  then obtain b0 where b0: "hm_get ?m f = Some b0" "rb_packets b0 = pieces cs seen"
    "rb_received_bytes b0 = buffer_bytes b0" "rb_flags b0 OR flags = fl OR flags" by blast
  obtain b where b: "store_piece idx flags ?p b0 = Some b" "rb_packets b = pieces cs ?seen" "rb_flags b = fl OR flags"
    using store_piece_frame [OF b0(2,3) idx cs(3), of flags] b0(4) by auto
  have full: "{..<length cs} \<subseteq> ?seen \<longleftrightarrow> ?seen = {..<length cs}" using seen(1) idx by auto
  have asm: "assembled b = (if ?seen = {..<length cs} then Some (concat cs) else None)"
  proof (cases "{..<length cs} \<subseteq> ?seen")
    case True
    then have "assembled b = Some (concat cs)"
      using pieces_full [of cs ?seen] pieces_concat [of cs ?seen] by (simp add: assembled_def b(2))
    with True full show ?thesis by simp
  next
    case False
    then have "assembled b = None" using pieces_full [of cs ?seen] by (simp add: assembled_def b(2))
    with False full show ?thesis by simp
  qed
  have out: "out = (case assembled b of
      Some data \<Rightarrow> (Some (f, rb_flags b, data), r\<lparr>fr_buffers := hm_del f ?m, fr_completed := fr_completed r @ [f]\<rparr>)
    | None \<Rightarrow> (None, r\<lparr>fr_buffers := hm_put f b ?m\<rparr>))"
    unfolding out_def add_packet_def if_not_P [OF guard(1)] if_not_P [OF guard(2)] Let_def b0(1) option.case b(1) ..
  show ?thesis
  proof (cases "?seen = {..<length cs}")
    case True
    then show ?thesis by (simp add: out asm b(3))
  next
    case False
    then have "holds_frame f cs ?seen (fl OR flags) (r\<lparr>fr_buffers := hm_put f b ?m\<rparr>)"
      by (simp add: holds_frame_def b(2,3))
    with False show ?thesis by (simp add: out asm)
  qed
qed

definition indices_of :: "u64 \<Rightarrow> (instant \<times> datagram) list \<Rightarrow> nat set" where
  "indices_of f ds = (\<lambda>(_, d). unat (dg_packet_idx d)) ` set (filter (\<lambda>(_, d). dg_frame_id d = f) ds)"

definition flags_of :: "u64 \<Rightarrow> (instant \<times> datagram) list \<Rightarrow> u16" where
  "flags_of f ds = fold (\<lambda>(_, d) fl. if dg_frame_id d = f then fl OR dg_flags d else fl) ds 0"

text \<open>A datagram that is either of another frame or a fragment of \<open>f\<close>, cut into \<open>cs\<close>.\<close>

definition fits :: "u64 \<Rightarrow> bytes list \<Rightarrow> datagram \<Rightarrow> bool" where
  "fits f cs d \<longleftrightarrow> dg_frame_id d = f \<longrightarrow>
     dg_total d = word_of_nat (length cs) \<and> unat (dg_packet_idx d) < length cs \<and>
     dg_payload d = cs ! unat (dg_packet_idx d)"

lemma indices_of_snoc:
  "indices_of f (ds @ [(t, d)]) = (if dg_frame_id d = f then insert (unat (dg_packet_idx d)) (indices_of f ds)
    else indices_of f ds)"
  by (auto simp: indices_of_def)

lemma flags_of_empty: "indices_of f ds = {} \<Longrightarrow> flags_of f ds = 0"
proof -
  assume "indices_of f ds = {}"
  then have "\<forall>x\<in>set ds. dg_frame_id (snd x) \<noteq> f" by (force simp: indices_of_def)
  then have "fold (\<lambda>(_, d) fl. if dg_frame_id d = f then fl OR dg_flags d else fl) ds a = a" for a :: u16
    by (induction ds arbitrary: a) (auto simp: split_def)
  then show ?thesis by (simp add: flags_of_def)
qed

lemma add_datagrams_frame:
  assumes cs: "0 < length cs" "length cs \<le> 64" "length (concat cs) \<le> MAX_FRAME_BYTES"
    and w: "within K r0" "hm_get (fr_buffers r0) f = None" "f \<in> K"
    and ds: "\<forall>(t, d)\<in>set ds. fits f cs d \<and> dg_frame_id d \<in> K" and part: "indices_of f ds \<noteq> {..<length cs}"
  shows "within K (add_datagrams ds r0) \<and> indices_of f ds \<subseteq> {..<length cs} \<and>
    holds_frame f cs (indices_of f ds) (flags_of f ds) (add_datagrams ds r0)"
  using ds part
proof (induction ds rule: rev_induct)
  case Nil
  then show ?case using w by (simp add: add_datagrams_def indices_of_def holds_frame_def)
next
  case (snoc x ds)
  obtain t d where x: "x = (t, d)" by force
  let ?r = "add_datagrams ds r0"
  have step: "add_datagrams (ds @ [(t, d)]) r0 = snd (add_datagram t d ?r)"
    by (simp add: add_datagrams_def x)
  have fit: "fits f cs d" "dg_frame_id d \<in> K" using snoc.prems(1) x by auto
  show ?case
  proof (cases "dg_frame_id d = f")
    case False
    with snoc x have ih: "within K ?r" "indices_of f ds \<subseteq> {..<length cs}"
        "holds_frame f cs (indices_of f ds) (flags_of f ds) ?r"
      by (auto simp: indices_of_snoc)
    have "flags_of f (ds @ [x]) = flags_of f ds" using False by (simp add: flags_of_def x)
    with ih False add_packet_within [OF ih(1) fit(2), of t "dg_packet_idx d" "dg_total d" "dg_flags d" "dg_payload d" f]
    show ?thesis by (simp add: step add_datagram_def x indices_of_snoc holds_frame_def)
  next
    case True
    have idx: "unat (dg_packet_idx d) < length cs" using fit(1) True by (simp add: fits_def)
    have "indices_of f ds \<noteq> {..<length cs}"
    proof
      assume *: "indices_of f ds = {..<length cs}"
      then have "indices_of f (ds @ [x]) = {..<length cs}"
        using idx True by (simp add: x indices_of_snoc insert_absorb)
      with snoc.prems(2) show False ..
    qed
    with snoc x have ih: "within K ?r" "indices_of f ds \<subseteq> {..<length cs}"
        "holds_frame f cs (indices_of f ds) (flags_of f ds) ?r"
      by auto
    have "insert (unat (dg_packet_idx d)) (indices_of f ds) \<noteq> {..<length cs}"
      using snoc.prems(2) True by (simp add: x indices_of_snoc)
    with add_packet_piece [OF ih(1) w(3) ih(3,2) _ cs idx, of t "dg_flags d"] flags_of_empty [of f ds]
      add_packet_within [OF ih(1) w(3), of t "dg_packet_idx d" "dg_total d" "dg_flags d" "dg_payload d"]
      fit(1) True ih(2) idx
    show ?thesis
      by (simp add: step add_datagram_def x indices_of_snoc fits_def flags_of_def)
  qed
qed

text \<open>
  C19. Fragments arrive in any order. Cut a frame into at most 64 fragments of at most 8 MiB
  together. Whatever the order of arrival, with any fragment repeated and the datagrams of up to
  63 other frames in between, every arrival before the last missing fragment gives nothing, and
  that one gives the frame: its identifier, the union of the flags, and exactly its bytes.
\<close>
theorem reassembly_any_order:
  assumes "0 < length cs" and "length cs \<le> 64" and "length (concat cs) \<le> 8 * 1024 * 1024"
    and "\<forall>(t, d)\<in>set (ds @ [(now, d)]). fits f cs d"
    and "card (dg_frame_id ` snd ` set (ds @ [(now, d)])) \<le> 64" and "dg_frame_id d = f"
    and "indices_of f ds \<noteq> {..<length cs}"
  shows "fst (add_datagram now d (add_datagrams ds frame_reassembly_new)) =
    (if indices_of f (ds @ [(now, d)]) = {..<length cs}
     then Some (f, flags_of f (ds @ [(now, d)]), concat cs) else None)"
proof -
  let ?K = "dg_frame_id ` snd ` set (ds @ [(now, d)])" and ?r = "add_datagrams ds frame_reassembly_new"
  have K: "within ?K frame_reassembly_new" "f \<in> ?K"
    using assms(5,6) by (auto simp: within_def reassembly_ok_def frame_reassembly_new_def)
  have "\<forall>(t, d)\<in>set ds. fits f cs d \<and> dg_frame_id d \<in> ?K" using assms(4) by force
  from add_datagrams_frame [OF assms(1,2) _ K(1) _ K(2) this assms(7)]
  have h: "within ?K ?r" "indices_of f ds \<subseteq> {..<length cs}"
      "holds_frame f cs (indices_of f ds) (flags_of f ds) ?r"
    using assms(3) by (auto simp: frame_reassembly_new_def MAX_FRAME_BYTES_def)
  have fit: "dg_total d = word_of_nat (length cs)" "unat (dg_packet_idx d) < length cs"
      "dg_payload d = cs ! unat (dg_packet_idx d)"
    using assms(4,6) by (auto simp: fits_def)
  have "length (concat cs) \<le> MAX_FRAME_BYTES" using assms(3) by (simp add: MAX_FRAME_BYTES_def)
  from add_packet_piece [OF h(1) K(2) h(3,2) _ assms(1,2) this fit(2), of now "dg_flags d"]
  show ?thesis
    using flags_of_empty [of f ds] fit(1,3) assms(6)
    by (simp add: add_datagram_def indices_of_snoc flags_of_def split: if_splits)
qed

text \<open>Two fragments, the second one first and twice, with a stray datagram in between.\<close>

definition demo_fragment :: "u64 \<Rightarrow> u16 \<Rightarrow> bytes \<Rightarrow> datagram" where
  "demo_fragment f i p = \<lparr>dg_frame_id = f, dg_packet_idx = i, dg_total = 2, dg_kind = 1,
     dg_flags = (if i = 1 then 2 else 0), dg_payload = p\<rparr>"

lemma demo_fragment_simps [simp]:
  "dg_frame_id (demo_fragment f i p) = f" "dg_packet_idx (demo_fragment f i p) = i"
  "dg_total (demo_fragment f i p) = 2" "dg_payload (demo_fragment f i p) = p"
  "dg_flags (demo_fragment f i p) = (if i = 1 then 2 else 0)"
  by (simp_all add: demo_fragment_def)

theorem reassembly_any_order_witness:
  "fst (add_datagram 3 (demo_fragment 5 0 [0xA])
     (add_datagrams [(0, demo_fragment 5 1 [0xB]), (1, demo_fragment 6 0 [0xC]), (2, demo_fragment 5 1 [0xB])]
       frame_reassembly_new)) = Some (5, 2, [0xA, 0xB])"
proof -
  let ?ds = "[(0, demo_fragment 5 1 [0xB]), (1, demo_fragment 6 0 [0xC]), (2, demo_fragment 5 1 [0xB])]"
  have two: "{..<length [[0xA :: u8], [0xB]]} = {0, 1}" by auto
  have "indices_of 5 ?ds = {1}" "indices_of 5 (?ds @ [(3, demo_fragment 5 0 [0xA])]) = {0, 1}"
    "flags_of 5 (?ds @ [(3, demo_fragment 5 0 [0xA])]) = 2"
    by (auto simp: indices_of_def flags_of_def)
  then show ?thesis
    using reassembly_any_order [of "[[0xA], [0xB]]" ?ds 3 "demo_fragment 5 0 [0xA]" 5] two
    by (simp add: fits_def card_insert_if)
qed

end
