(* ===== verification/Media_Quality.thy ===== *)
theory Media_Quality
  imports Prelude Complex_Main
begin

text \<open>
  What decides the quality of a media session: the loss detector
  (\<^verbatim>\<open>media/src/transport/loss_detection.rs\<close>), the sender's priority queue
  (\<^verbatim>\<open>media/src/transport/priority.rs\<close>) and the adaptive state machine
  (\<^verbatim>\<open>media/src/adaptive/state_machine.rs\<close>). A floating-point number is a rational or \<open>None\<close> for
  not-a-number; the code compares them with literals, which are the exact binary fractions of the
  doubles, and divides two counters, which is the exact quotient here. An infinite round-trip time
  compares as any number above the threshold. Counters of frames are natural numbers.
\<close>

section \<open>The loss detector\<close>

definition MAX_TRACKED_GAP :: nat where "MAX_TRACKED_GAP = 1024"
definition MAX_MISSING_FRAMES :: nat where "MAX_MISSING_FRAMES = 256"

record loss_stats =
  ls_loss_rate :: rat
  ls_total_received :: nat
  ls_total_lost :: nat
  ls_last_received :: u64

record loss_detector =
  ld_last_received :: u64
  ld_missing_frames :: "u64 list"
  ld_stats :: loss_stats
  ld_window_ms :: nat
  ld_window_start :: instant
  ld_window_total :: nat
  ld_window_lost :: nat

definition loss_stats_default :: loss_stats where
  "loss_stats_default = \<lparr>ls_loss_rate = 0, ls_total_received = 0, ls_total_lost = 0, ls_last_received = 0\<rparr>"

definition loss_detector_new :: "instant \<Rightarrow> nat \<Rightarrow> loss_detector" where
  "loss_detector_new now window_ms = \<lparr>ld_last_received = 0, ld_missing_frames = [], ld_stats = loss_stats_default,
     ld_window_ms = window_ms, ld_window_start = now, ld_window_total = 0, ld_window_lost = 0\<rparr>"

text \<open>The loop over the gap, which stops when the list is full.\<close>

fun register_missing :: "u64 list \<Rightarrow> loss_detector \<Rightarrow> loss_detector" where
  "register_missing [] d = d"
| "register_missing (m # ms) d =
     (if MAX_MISSING_FRAMES \<le> length (ld_missing_frames d) then d
      else register_missing ms (d\<lparr>ld_missing_frames := ld_missing_frames d @ [m],
                                  ld_window_lost := ld_window_lost d + 1\<rparr>))"

text \<open>The half-open range of identifiers \<^verbatim>\<open>(a + 1)..b\<close>.\<close>

definition between :: "u64 \<Rightarrow> u64 \<Rightarrow> u64 list" where
  "between a b = map word_of_nat [Suc (unat a)..<unat b]"

definition note_gap :: "u64 \<Rightarrow> loss_detector \<Rightarrow> loss_detector" where
  "note_gap frame_id d =
     (if 0 < ld_last_received d then
        (let gap = unat frame_id - unat (ld_last_received d)
         in if 1 < gap then
              (if MAX_TRACKED_GAP < gap then d\<lparr>ld_window_lost := ld_window_lost d + 1\<rparr>
               else register_missing (between (ld_last_received d) frame_id) d)
            else d)
      else d)"

definition record_frame :: "u64 \<Rightarrow> loss_detector \<Rightarrow> loss_detector" where
  "record_frame frame_id d0 =
     (let d = note_gap frame_id d0
      in d\<lparr>ld_last_received := frame_id, ld_window_total := ld_window_total d + 1,
           ld_stats := (ld_stats d)\<lparr>ls_total_received := ls_total_received (ld_stats d) + 1,
                                    ls_last_received := frame_id\<rparr>\<rparr>)"

definition window_rate :: "loss_detector \<Rightarrow> rat" where
  "window_rate d = (if 0 < ld_window_total d then of_nat (ld_window_lost d) / of_nat (ld_window_total d) else 0)"

definition generate_report :: "loss_detector \<Rightarrow> rat \<times> u64 \<times> u64 list" where
  "generate_report d = (window_rate d, ld_last_received d, take 64 (ld_missing_frames d))"

definition reset_window :: "instant \<Rightarrow> loss_detector \<Rightarrow> loss_detector" where
  "reset_window now d =
     d\<lparr>ld_stats := (ld_stats d)\<lparr>ls_loss_rate := window_rate d,
                                ls_total_lost := ls_total_lost (ld_stats d) + ld_window_lost d\<rparr>,
       ld_window_total := 0, ld_window_lost := 0, ld_window_start := now\<rparr>"

definition auto_reset :: "instant \<Rightarrow> loss_detector \<Rightarrow> loss_detector" where
  "auto_reset now d = (if millis (ld_window_ms d) \<le> now - ld_window_start d then reset_window now d else d)"

definition loss_rate :: "loss_detector \<Rightarrow> rat" where
  "loss_rate d =
     (if 0 < ld_window_total d then of_nat (ld_window_lost d) / of_nat (ld_window_total d)
      else ls_loss_rate (ld_stats d))"

definition ld_clear :: "instant \<Rightarrow> loss_detector \<Rightarrow> loss_detector" where
  "ld_clear now d = d\<lparr>ld_last_received := 0, ld_missing_frames := [], ld_stats := loss_stats_default,
     ld_window_total := 0, ld_window_lost := 0, ld_window_start := now\<rparr>"

section \<open>The priority queue\<close>

datatype packet_kind = VideoPacket | AudioPacket | InputEcho | Clipboard | FileTransfer | ControlPacket

datatype priority = InputPriority | AudioPriority | VideoPriority

fun from_packet_kind :: "packet_kind \<Rightarrow> priority" where
  "from_packet_kind VideoPacket = VideoPriority"
| "from_packet_kind AudioPacket = AudioPriority"
| "from_packet_kind InputEcho = InputPriority"
| "from_packet_kind Clipboard = AudioPriority"
| "from_packet_kind FileTransfer = AudioPriority"
| "from_packet_kind ControlPacket = InputPriority"

fun priority_index :: "priority \<Rightarrow> nat" where
  "priority_index InputPriority = 0"
| "priority_index AudioPriority = 1"
| "priority_index VideoPriority = 2"

record encoded_packet =
  ep_ts :: nat
  ep_kind :: packet_kind
  ep_data :: bytes
  ep_is_key :: bool

record priority_queue =
  pq_queues :: "encoded_packet list list"
  pq_max_len :: nat

definition priority_queue_new :: "nat \<Rightarrow> priority_queue" where
  "priority_queue_new max_len = \<lparr>pq_queues = [[], [], []], pq_max_len = max_len\<rparr>"

definition with_default_capacity :: priority_queue where
  "with_default_capacity = priority_queue_new 64"

definition set_max_len :: "nat \<Rightarrow> priority_queue \<Rightarrow> priority_queue" where
  "set_max_len max_len q = q\<lparr>pq_max_len := max_len\<rparr>"

definition kind_index :: "encoded_packet \<Rightarrow> nat" where
  "kind_index pkt = priority_index (from_packet_kind (ep_kind pkt))"

definition pq_push :: "encoded_packet \<Rightarrow> priority_queue \<Rightarrow> priority_queue" where
  "pq_push pkt q =
     (let idx = kind_index pkt; cur = pq_queues q ! idx;
          cur' = (if idx = priority_index VideoPriority \<and> 0 < pq_max_len q \<and> pq_max_len q \<le> length cur
                  then tl cur else cur)
      in q\<lparr>pq_queues := (pq_queues q)[idx := cur' @ [pkt]]\<rparr>)"

fun pop_first :: "'a list list \<Rightarrow> ('a \<times> 'a list list) option" where
  "pop_first [] = None"
| "pop_first ((x # xs) # qs) = Some (x, xs # qs)"
| "pop_first ([] # qs) = (case pop_first qs of None \<Rightarrow> None | Some (x, qs') \<Rightarrow> Some (x, [] # qs'))"

definition pop_next :: "priority_queue \<Rightarrow> encoded_packet option \<times> priority_queue" where
  "pop_next q =
     (case pop_first (pq_queues q) of
        None \<Rightarrow> (None, q)
      | Some (pkt, qs) \<Rightarrow> (Some pkt, q\<lparr>pq_queues := qs\<rparr>))"

definition drop_lowest :: "priority_queue \<Rightarrow> nat \<times> priority_queue" where
  "drop_lowest q =
     (case pq_queues q ! priority_index VideoPriority of
        [] \<Rightarrow> (0, q)
      | _ # rest \<Rightarrow> (1, q\<lparr>pq_queues := (pq_queues q)[priority_index VideoPriority := rest]\<rparr>))"

definition pq_len :: "priority_queue \<Rightarrow> nat" where
  "pq_len q = sum_list (map length (pq_queues q))"

definition pq_is_empty :: "priority_queue \<Rightarrow> bool" where
  "pq_is_empty q = list_all (\<lambda>xs. xs = []) (pq_queues q)"

definition len_of :: "priority \<Rightarrow> priority_queue \<Rightarrow> nat" where
  "len_of prio q = length (pq_queues q ! priority_index prio)"

definition pq_clear :: "priority_queue \<Rightarrow> priority_queue" where
  "pq_clear q = q\<lparr>pq_queues := map (\<lambda>_. []) (pq_queues q)\<rparr>"

section \<open>The adaptive state machine\<close>

type_synonym f64 = "rat option"

fun f64_gt :: "f64 \<Rightarrow> rat \<Rightarrow> bool" where
  "f64_gt (Some x) c = (c < x)" | "f64_gt None c = False"

fun f64_lt :: "f64 \<Rightarrow> rat \<Rightarrow> bool" where
  "f64_lt (Some x) c = (x < c)" | "f64_lt None c = False"

fun f64_ge :: "f64 \<Rightarrow> rat \<Rightarrow> bool" where
  "f64_ge (Some x) c = (c \<le> x)" | "f64_ge None c = False"

text \<open>The literals \<^verbatim>\<open>0.06\<close>, \<^verbatim>\<open>0.03\<close>, \<^verbatim>\<open>0.015\<close> and \<^verbatim>\<open>0.005\<close> of the code as the doubles they denote.\<close>

definition F0_06 :: rat where "F0_06 = 1080863910568919 / 18014398509481984"
definition F0_03 :: rat where "F0_03 = 1080863910568919 / 36028797018963968"
definition F0_015 :: rat where "F0_015 = 1080863910568919 / 72057594037927936"
definition F0_005 :: rat where "F0_005 = 5764607523034235 / 1152921504606846976"

definition HIGH_RTT_MS :: rat where "HIGH_RTT_MS = 100"

datatype network_state = Good | MildCongestion | SevereCongestion

fun network_state_name :: "network_state \<Rightarrow> string" where
  "network_state_name Good = ''Good''"
| "network_state_name MildCongestion = ''MildCongestion''"
| "network_state_name SevereCongestion = ''SevereCongestion''"

record network_sample =
  ns_loss_rate :: f64
  ns_rtt_ms :: f64
  ns_jitter_us :: f64
  ns_received_bitrate_bps :: f64
  ns_timestamp :: instant

record adaptive_machine =
  am_current :: network_state
  am_history :: "network_sample list"
  am_stable_count :: nat
  am_required_stable :: nat
  am_max_history :: nat
  am_previous_state :: network_state

definition adaptive_new :: adaptive_machine where
  "adaptive_new = \<lparr>am_current = Good, am_history = [], am_stable_count = 0, am_required_stable = 3,
     am_max_history = 30, am_previous_state = Good\<rparr>"

definition recent_samples :: "adaptive_machine \<Rightarrow> network_sample list" where
  "recent_samples m = take (am_required_stable m) (rev (am_history m))"

definition all_above :: "rat \<Rightarrow> network_sample list \<Rightarrow> bool" where
  "all_above threshold recent = list_all (\<lambda>s. f64_gt (ns_loss_rate s) threshold) recent"

definition all_high_rtt :: "network_sample list \<Rightarrow> bool" where
  "all_high_rtt recent = list_all (\<lambda>s. f64_ge (ns_rtt_ms s) HIGH_RTT_MS) recent"

definition all_healthy :: "rat \<Rightarrow> network_sample list \<Rightarrow> bool" where
  "all_healthy threshold recent =
     list_all (\<lambda>s. f64_lt (ns_loss_rate s) threshold \<and> f64_lt (ns_rtt_ms s) HIGH_RTT_MS) recent"

definition evaluate_downgrade :: "network_state \<Rightarrow> network_sample list \<Rightarrow> network_state option" where
  "evaluate_downgrade current recent =
     (case current of
        Good \<Rightarrow>
          if all_above F0_06 recent then Some SevereCongestion
          else if all_above F0_015 recent \<or> all_high_rtt recent then Some MildCongestion
          else None
      | MildCongestion \<Rightarrow> if all_above F0_06 recent then Some SevereCongestion else None
      | SevereCongestion \<Rightarrow> None)"

definition evaluate_upgrade :: "network_state \<Rightarrow> nat \<Rightarrow> network_sample list \<Rightarrow> (network_state \<times> nat) option" where
  "evaluate_upgrade current required recent =
     (case current of
        Good \<Rightarrow> None
      | MildCongestion \<Rightarrow> if all_healthy F0_005 recent then Some (Good, required) else None
      | SevereCongestion \<Rightarrow>
          if all_healthy F0_03 recent then Some (MildCongestion, required)
          else if all_healthy F0_005 recent then Some (Good, 5)
          else None)"

definition transition_to :: "network_state \<Rightarrow> adaptive_machine \<Rightarrow> adaptive_machine" where
  "transition_to target m = m\<lparr>am_previous_state := am_current m, am_current := target, am_stable_count := 0\<rparr>"

text \<open>\<^verbatim>\<open>while history.len() > max_history { pop_front }\<close> after one push.\<close>

definition push_history :: "network_sample \<Rightarrow> adaptive_machine \<Rightarrow> adaptive_machine" where
  "push_history s m =
     (let h = am_history m @ [s] in m\<lparr>am_history := drop (length h - am_max_history m) h\<rparr>)"

definition feed_sample :: "network_sample \<Rightarrow> adaptive_machine \<Rightarrow> bool \<times> adaptive_machine" where
  "feed_sample s m0 =
     (let m = push_history s m0;
          recent = recent_samples m;
          has_enough = (am_required_stable m \<le> length recent);
          count = am_stable_count m + 1
      in case (if has_enough then evaluate_downgrade (am_current m) recent else None) of
           Some target \<Rightarrow>
             if am_required_stable m \<le> count then (True, transition_to target (m\<lparr>am_stable_count := count\<rparr>))
             else (False, m\<lparr>am_stable_count := count\<rparr>)
         | None \<Rightarrow>
             (case (if has_enough then evaluate_upgrade (am_current m) (am_required_stable m) recent else None) of
                Some (target, needed) \<Rightarrow>
                  if needed \<le> count then (True, transition_to target (m\<lparr>am_stable_count := count\<rparr>))
                  else (False, m\<lparr>am_stable_count := count\<rparr>)
              | None \<Rightarrow> (False, m\<lparr>am_stable_count := 0\<rparr>)))"

definition am_reset :: "network_state \<Rightarrow> adaptive_machine \<Rightarrow> adaptive_machine" where
  "am_reset s m = m\<lparr>am_current := s, am_history := [], am_stable_count := 0, am_previous_state := s\<rparr>"

section \<open>What the loss detector counts\<close>

definition lost_ids :: "u64 list \<Rightarrow> u64 list" where
  "lost_ids ids = filter (\<lambda>i. i \<notin> set ids) (map word_of_nat [unat (hd ids)..<unat (last ids)])"

definition record_frames :: "u64 list \<Rightarrow> loss_detector \<Rightarrow> loss_detector" where
  "record_frames ids d = fold record_frame ids d"

lemma record_frames_simps [simp]:
  "record_frames [] d = d"
  "record_frames (i # ids) d = record_frames ids (record_frame i d)"
  "record_frames (ids @ ids') d = record_frames ids' (record_frames ids d)"
  by (simp_all add: record_frames_def)

lemma register_missing_eq:
  "register_missing ms d =
     d\<lparr>ld_missing_frames := ld_missing_frames d @ take (MAX_MISSING_FRAMES - length (ld_missing_frames d)) ms,
       ld_window_lost := ld_window_lost d + min (length ms) (MAX_MISSING_FRAMES - length (ld_missing_frames d))\<rparr>"
proof (induction ms arbitrary: d)
  case (Cons m ms)
  show ?case
  proof (cases "MAX_MISSING_FRAMES \<le> length (ld_missing_frames d)")
    case False
    then obtain k where "MAX_MISSING_FRAMES - length (ld_missing_frames d) = Suc k"
      by (metis Suc_diff_Suc not_le)
    moreover from this have "MAX_MISSING_FRAMES - Suc (length (ld_missing_frames d)) = k" by simp
    ultimately show ?thesis using False Cons.IH by simp
  qed simp
qed simp

lemma unat_u64: "unat (x :: u64) < 18446744073709551616"
  using unat_lt [of x] by simp

lemma unat_word_of_nat_u64: "n \<le> unat (b :: u64) \<Longrightarrow> unat (word_of_nat n :: u64) = n"
  using unat_u64 [of b] by (simp add: unsigned_of_nat take_bit_eq_mod)

lemma set_between: "set (between a b) = {i. a < i \<and> i < b}"
proof -
  have "set (between a b) = word_of_nat ` {Suc (unat a)..<unat b}" by (simp add: between_def)
  also have "\<dots> = {i. a < i \<and> i < b}"
  proof (intro equalityI subsetI)
    fix i :: u64 assume "i \<in> word_of_nat ` {Suc (unat a)..<unat b}"
    then obtain n where n: "i = word_of_nat n" "unat a < n" "n < unat b" by auto
    have "unat i = n" using n(3) by (simp add: n(1) unat_word_of_nat_u64 [of n b])
    with n show "i \<in> {i. a < i \<and> i < b}" by (simp add: word_less_nat_alt)
  next
    fix i :: u64 assume "i \<in> {i. a < i \<and> i < b}"
    then have "unat i \<in> {Suc (unat a)..<unat b}" by (simp add: word_less_nat_alt Suc_le_eq)
    moreover have "i = word_of_nat (unat i)" by simp
    ultimately show "i \<in> word_of_nat ` {Suc (unat a)..<unat b}" by blast
  qed
  finally show ?thesis .
qed

lemma sorted_wrt_le_last:
  assumes "sorted_wrt (<) (ids :: u64 list)" and "i \<in> set ids" shows "i \<le> last ids"
  using assms by (induction ids rule: rev_induct) (auto simp: sorted_wrt_append)

text \<open>One more frame adds the identifiers strictly between it and its predecessor.\<close>

lemma lost_ids_snoc:
  assumes sorted: "sorted_wrt (<) (ids @ [x])" and ne: "ids \<noteq> []"
  shows "lost_ids (ids @ [x]) = lost_ids ids @ between (last ids) x"
proof -
  let ?h = "unat (hd ids)" and ?l = "unat (last ids)"
  have srt: "sorted_wrt (<) ids" and lx: "last ids < x"
    using sorted ne by (auto simp: sorted_wrt_append)
  have hl: "?h \<le> ?l" using sorted_wrt_le_last [OF srt hd_in_set [OF ne]] by (simp add: word_le_nat_alt)
  have "?l < unat x" using lx by (simp add: word_less_nat_alt)
  then have "[?h..<unat x] = [?h..<?l] @ ?l # [Suc ?l..<unat x]"
    using hl by (metis le_add_diff_inverse less_imp_le_nat upt_add_eq_append upt_conv_Cons)
  then have split: "map word_of_nat [?h..<unat x]
      = (map word_of_nat [?h..<?l] @ last ids # between (last ids) x :: u64 list)"
    by (simp add: between_def)
  have "\<And>i. i \<in> set (map word_of_nat [?h..<?l]) \<Longrightarrow> i \<noteq> x"
  proof -
    fix i :: u64 assume "i \<in> set (map word_of_nat [?h..<?l])"
    then obtain n where "i = word_of_nat n" "n < ?l" by auto
    then have "unat i < ?l" 
      by (simp add: unat_word_of_nat_u64 [of n "last ids"])
    then show "i \<noteq> x" using lx by (auto simp: word_less_nat_alt)
  qed
  then have first: "filter (\<lambda>i. i \<notin> set (ids @ [x])) (map word_of_nat [?h..<?l]) = lost_ids ids"
    unfolding lost_ids_def by (intro filter_cong) auto
  have second: "filter (\<lambda>i. i \<notin> set (ids @ [x])) (between (last ids) x) = between (last ids) x"
    using sorted_wrt_le_last [OF srt] by (fastforce simp: filter_id_conv set_between)
  have "lost_ids (ids @ [x]) = filter (\<lambda>i. i \<notin> set (ids @ [x])) (map word_of_nat [?h..<unat x])"
    using ne by (simp add: lost_ids_def)
  also have "\<dots> = lost_ids ids @ between (last ids) x"
    unfolding split using first second ne by simp
  finally show ?thesis .
qed

lemma note_gap_eq:
  assumes "ld_last_received d < x" and "0 < ld_last_received d"
    and "unat x - unat (ld_last_received d) \<le> MAX_TRACKED_GAP"
  shows "note_gap x d = register_missing (between (ld_last_received d) x) d"
proof (cases "1 < unat x - unat (ld_last_received d)")
  case True then show ?thesis using assms by (simp add: note_gap_def)
next
  case False
  then have "between (ld_last_received d) x = []" by (simp add: between_def)
  with False show ?thesis using assms by (simp add: note_gap_def)
qed

lemma record_frame_fields [simp]:
  "ld_last_received (record_frame x d) = x"
  "ld_missing_frames (record_frame x d) = ld_missing_frames (note_gap x d)"
  "ld_window_lost (record_frame x d) = ld_window_lost (note_gap x d)"
  by (simp_all add: record_frame_def Let_def)

lemma note_gap_fields [simp]:
  "ld_window_total (note_gap x d) = ld_window_total d"
  "ld_stats (note_gap x d) = ld_stats d"
  by (simp_all add: note_gap_def register_missing_eq Let_def)

lemma record_frame_total [simp]: "ld_window_total (record_frame x d) = Suc (ld_window_total d)"
  by (simp add: record_frame_def Let_def)

lemma record_frames_total [simp]:
  "ld_window_total (record_frames ids d) = ld_window_total d + length ids"
  by (induction ids arbitrary: d) simp_all

lemma loss_detector_total [simp]: "ld_window_total (loss_detector_new t w) = 0"
  by (simp add: loss_detector_new_def)

lemma record_frames_last:
  "ids \<noteq> [] \<Longrightarrow> ld_last_received (record_frames ids d) = last ids"
  by (induction ids rule: rev_induct) simp_all

definition small_gaps :: "u64 list \<Rightarrow> bool" where
  "small_gaps ids = successively (\<lambda>a b. unat b - unat a \<le> MAX_TRACKED_GAP) ids"

lemma small_gaps_snoc:
  "small_gaps (ids @ [x]) = (small_gaps ids \<and> (ids = [] \<or> unat x - unat (last ids) \<le> MAX_TRACKED_GAP))"
  by (auto simp: small_gaps_def successively_append_iff)

text \<open>
  Frames that arrive in order, with no gap above 1024, from a fresh detector: the list holds
  exactly the identifiers skipped so far, oldest first, up to the 256th, and the window counts
  exactly the ones on the list.
\<close>
theorem loss_exact:
  assumes "sorted_wrt (<) ids" and "ids \<noteq> []" and "0 < hd ids" and "small_gaps ids"
  shows "ld_missing_frames (record_frames ids (loss_detector_new t w)) = take MAX_MISSING_FRAMES (lost_ids ids)
       \<and> ld_window_lost (record_frames ids (loss_detector_new t w)) = min MAX_MISSING_FRAMES (length (lost_ids ids))
       \<and> ld_window_total (record_frames ids (loss_detector_new t w)) = length ids"
  using assms
proof (induction ids rule: rev_induct)
  case (snoc x ids)
  let ?d = "record_frames ids (loss_detector_new t w)"
  show ?case
  proof (cases "ids = []")
    case True
    then show ?thesis by (simp add: note_gap_def loss_detector_new_def lost_ids_def)
  next
    case False
    have last: "ld_last_received ?d = last ids" using False by (rule record_frames_last)
    have srt: "sorted_wrt (<) ids" and lx: "last ids < x"
      using snoc.prems(1) False by (auto simp: sorted_wrt_append)
    have "0 < hd ids" using snoc.prems(3) False by simp
    also have "hd ids \<le> last ids" using sorted_wrt_le_last [OF srt hd_in_set [OF False]] .
    finally have pos: "0 < last ids" .
    have small: "small_gaps ids" "unat x - unat (last ids) \<le> MAX_TRACKED_GAP"
      using snoc.prems(4) False by (auto simp: small_gaps_snoc)
    have IH: "ld_missing_frames ?d = take MAX_MISSING_FRAMES (lost_ids ids)"
      "ld_window_lost ?d = min MAX_MISSING_FRAMES (length (lost_ids ids))"
      using snoc.IH [OF srt False _ small(1)] snoc.prems(3) False by auto
    have "note_gap x ?d = register_missing (between (last ids) x) ?d"
      using note_gap_eq [of ?d x] last lx pos small(2) by simp
    moreover have "MAX_MISSING_FRAMES - min (length (lost_ids ids)) MAX_MISSING_FRAMES
      = MAX_MISSING_FRAMES - length (lost_ids ids)" by simp
    ultimately show ?thesis
      using lost_ids_snoc [OF snoc.prems(1) False] IH
      by (auto simp: register_missing_eq loss_detector_total)
  qed
qed simp

theorem loss_exact_witness:
  "ld_missing_frames (record_frames [1, 2, 5, 7] (loss_detector_new 0 1000)) = take MAX_MISSING_FRAMES [3, 4, 6]
   \<and> ld_window_lost (record_frames [1, 2, 5, 7] (loss_detector_new 0 1000)) = 3"
proof -
  have "lost_ids [1, 2, 5, 7] = [3, 4, 6]"
    by (simp add: lost_ids_def upt_conv_Cons)
  then show ?thesis
    using loss_exact [of "[1, 2, 5, 7]" 0 1000]
    by (simp add: small_gaps_def MAX_TRACKED_GAP_def MAX_MISSING_FRAMES_def)
qed

text \<open>
  The list is never shortened: the only code that empties it is \<^verbatim>\<open>clear\<close>, for a new
  connection. Once it is full, no gap of at most 1024 is counted any more.
\<close>

lemma note_gap_full:
  assumes "MAX_MISSING_FRAMES \<le> length (ld_missing_frames d)"
    and "unat x - unat (ld_last_received d) \<le> MAX_TRACKED_GAP"
  shows "note_gap x d = d"
  using assms by (simp add: note_gap_def register_missing_eq Let_def)

lemma record_frames_full:
  assumes "MAX_MISSING_FRAMES \<le> length (ld_missing_frames d)"
    and "small_gaps (ld_last_received d # ids)"
  shows "ld_missing_frames (record_frames ids d) = ld_missing_frames d
       \<and> ld_window_lost (record_frames ids d) = ld_window_lost d"
  using assms
proof (induction ids arbitrary: d)
  case (Cons x ids)
  have gap: "unat x - unat (ld_last_received d) \<le> MAX_TRACKED_GAP" and rest: "small_gaps (x # ids)"
    using Cons.prems(2) by (auto simp: small_gaps_def)
  have full: "note_gap x d = d" using Cons.prems(1) gap by (rule note_gap_full)
  have "MAX_MISSING_FRAMES \<le> length (ld_missing_frames (record_frame x d))"
    using Cons.prems(1) by (simp add: full)
  then show ?case using Cons.IH [of "record_frame x d"] rest by (simp add: full)
qed simp

text \<open>
  After 256 lost frames the detector reports no loss: in every later window, whatever is lost
  in gaps of at most 1024 frames, the reported rate is 0, and the list of missing frames is still
  that of the first 256.
\<close>
theorem loss_blind:
  assumes "MAX_MISSING_FRAMES \<le> length (ld_missing_frames d)"
    and "small_gaps (ld_last_received d # ids)" and "ids \<noteq> []"
  shows "loss_rate (record_frames ids (reset_window now d)) = 0
       \<and> ls_loss_rate (ld_stats (reset_window now' (record_frames ids (reset_window now d)))) = 0
       \<and> ld_missing_frames (record_frames ids (reset_window now d)) = ld_missing_frames d"
proof -
  let ?d = "reset_window now d"
  have "ld_missing_frames (record_frames ids ?d) = ld_missing_frames ?d
      \<and> ld_window_lost (record_frames ids ?d) = ld_window_lost ?d"
    by (rule record_frames_full) (use assms(1,2) in \<open>simp_all add: reset_window_def\<close>)
  moreover have "0 < ld_window_total (record_frames ids ?d)" using assms(3) by simp
  ultimately show ?thesis
    by (simp add: loss_rate_def reset_window_def [of now d] window_rate_def reset_window_def [of now'])
qed

theorem loss_blind_witness:
  "loss_rate (record_frames [1000, 1900] (reset_window 5 (record_frames [1, 258] (loss_detector_new 0 1000)))) = 0"
proof -
  let ?d = "record_frames [1, 258] (loss_detector_new 0 1000)"
  have "note_gap 258 (record_frame 1 (loss_detector_new 0 1000))
      = register_missing (between 1 258) (record_frame 1 (loss_detector_new 0 1000))"
    using note_gap_eq [of "record_frame 1 (loss_detector_new 0 1000)" 258] by (simp add: MAX_TRACKED_GAP_def)
  then have full: "MAX_MISSING_FRAMES \<le> length (ld_missing_frames ?d)"
    by (simp add: register_missing_eq between_def MAX_MISSING_FRAMES_def)
  have "small_gaps (ld_last_received ?d # [1000, 1900])"
    by (simp add: small_gaps_def MAX_TRACKED_GAP_def)
  then show ?thesis using loss_blind [OF full, of "[1000, 1900]" 5 5] by simp
qed

section \<open>What the queue sends and what it drops\<close>

definition last_n :: "nat \<Rightarrow> 'a list \<Rightarrow> 'a list" where
  "last_n n xs = (if n = 0 then xs else drop (length xs - n) xs)"

definition of_class :: "nat \<Rightarrow> encoded_packet list \<Rightarrow> encoded_packet list" where
  "of_class i ps = filter (\<lambda>p. kind_index p = i) ps"

definition pq_pushes :: "encoded_packet list \<Rightarrow> priority_queue \<Rightarrow> priority_queue" where
  "pq_pushes ps q = fold pq_push ps q"

fun drain :: "nat \<Rightarrow> priority_queue \<Rightarrow> encoded_packet list" where
  "drain 0 q = []"
| "drain (Suc n) q = (case pop_next q of (None, _) \<Rightarrow> [] | (Some p, q') \<Rightarrow> p # drain n q')"

lemma kind_index_cases: "kind_index p = 0 \<or> kind_index p = 1 \<or> kind_index p = 2"
  by (cases "ep_kind p") (simp_all add: kind_index_def)

lemma of_class_snoc:
  "of_class i (ps @ [p]) = of_class i ps @ (if kind_index p = i then [p] else [])"
  by (simp add: of_class_def)

lemma last_n_snoc:
  "last_n n (xs @ [x]) =
     (if 0 < n \<and> n \<le> length (last_n n xs) then tl (last_n n xs) else last_n n xs) @ [x]"
proof (cases "n \<le> length xs \<and> 0 < n")
  case True
  then have "length xs + 1 - n = Suc (length xs - n)" by (simp add: Suc_diff_le)
  with True show ?thesis by (simp add: last_n_def drop_Suc tl_drop)
next
  case False
  then show ?thesis by (auto simp: last_n_def)
qed

lemma pq_pushes_eq:
  "pq_pushes ps (priority_queue_new m) =
     \<lparr>pq_queues = [of_class 0 ps, of_class 1 ps, last_n m (of_class 2 ps)], pq_max_len = m\<rparr>"
proof (induction ps rule: rev_induct)
  case Nil
  then show ?case by (simp add: pq_pushes_def priority_queue_new_def of_class_def last_n_def)
next
  case (snoc p ps)
  have "pq_pushes (ps @ [p]) (priority_queue_new m) = pq_push p (pq_pushes ps (priority_queue_new m))"
    by (simp add: pq_pushes_def)
  then show ?case
    using kind_index_cases [of p] by (auto simp: snoc.IH pq_push_def of_class_snoc last_n_snoc Let_def)
qed

lemma drain_eq:
  "drain n \<lparr>pq_queues = [a, b, c], pq_max_len = m\<rparr> = take n (a @ b @ c)"
proof (induction n arbitrary: a b c)
  case (Suc n)
  show ?case
    by (cases a; cases b; cases c) (simp_all add: pop_next_def Suc.IH)
qed simp

text \<open>
  Whatever is pushed to a fresh queue, in whatever order: it is drained input and control
  first, then audio, clipboard and file packets, then video, each class in the order of its pushes;
  only video is ever dropped, the oldest first, so that the last \<^verbatim>\<open>max_len\<close> video packets
  remain (all of them when the bound is 0).
\<close>
theorem pq_spec:
  "drain n (pq_pushes ps (priority_queue_new m))
     = take n (of_class 0 ps @ of_class 1 ps @ last_n m (of_class 2 ps))"
  by (simp add: pq_pushes_eq drain_eq)

section \<open>When the quality moves\<close>

definition feeds :: "network_sample list \<Rightarrow> adaptive_machine \<Rightarrow> adaptive_machine" where
  "feeds ss m = fold (\<lambda>s m. snd (feed_sample s m)) ss m"

definition congested :: "network_sample \<Rightarrow> bool" where
  "congested s = (f64_gt (ns_loss_rate s) F0_015 \<or> f64_ge (ns_rtt_ms s) HIGH_RTT_MS)"

definition severe :: "network_sample \<Rightarrow> bool" where
  "severe s = f64_gt (ns_loss_rate s) F0_06"

definition healthy :: "rat \<Rightarrow> network_sample \<Rightarrow> bool" where
  "healthy c s = (f64_lt (ns_loss_rate s) c \<and> f64_lt (ns_rtt_ms s) HIGH_RTT_MS)"

text \<open>What a list of samples must look like for a move between two states.\<close>

fun move_agrees :: "network_state \<Rightarrow> network_state \<Rightarrow> network_sample list \<Rightarrow> bool" where
  "move_agrees Good MildCongestion ss = list_all congested ss"
| "move_agrees Good SevereCongestion ss = (list_all congested ss \<and> list_all severe (take 3 (rev ss)))"
| "move_agrees MildCongestion SevereCongestion ss = list_all severe ss"
| "move_agrees MildCongestion Good ss = list_all (healthy F0_005) ss"
| "move_agrees SevereCongestion MildCongestion ss = list_all (healthy F0_03) ss"
| "move_agrees _ _ _ = False"

fun counting :: "network_state \<Rightarrow> network_sample list \<Rightarrow> bool" where
  "counting Good ss = list_all congested ss"
| "counting MildCongestion ss = (list_all severe ss \<or> list_all (healthy F0_005) ss)"
| "counting SevereCongestion ss = list_all (healthy F0_03) ss"

lemmas f64_literals = F0_06_def F0_03_def F0_015_def F0_005_def

lemma f64_gt_mono: "f64_gt x b \<Longrightarrow> a \<le> b \<Longrightarrow> f64_gt x a"
  by (cases x) auto

lemma f64_lt_mono: "f64_lt x a \<Longrightarrow> a \<le> b \<Longrightarrow> f64_lt x b"
  by (cases x) auto

lemma severe_congested: "severe s \<Longrightarrow> congested s"
  unfolding severe_def congested_def by (auto elim: f64_gt_mono simp: f64_literals)

lemma healthy_mono: "healthy F0_005 s \<Longrightarrow> healthy F0_03 s"
  unfolding healthy_def by (auto elim: f64_lt_mono simp: f64_literals)

lemma severe_not_healthy: "severe s \<Longrightarrow> \<not> healthy F0_005 s"
  by (cases "ns_loss_rate s") (auto simp: severe_def healthy_def f64_literals)

text \<open>What the machine keeps: its parameters, and what its counter has seen.\<close>

definition am_inv :: "adaptive_machine \<Rightarrow> bool" where
  "am_inv m =
     (am_required_stable m = 3 \<and> am_max_history m = 30 \<and> am_stable_count m < 3 \<and>
      (0 < am_stable_count m \<longrightarrow>
         am_stable_count m + 2 \<le> length (am_history m) \<and>
         counting (am_current m) (take (am_stable_count m + 2) (rev (am_history m)))))"

lemma take_rev_drop: "n \<le> k \<Longrightarrow> take n (rev (drop (length xs - k) xs)) = take n (rev xs)"
  by (simp add: rev_drop min_def)

lemma evaluate_downgrade_cases:
  assumes "evaluate_downgrade c recent = Some target"
  shows "(c = Good \<and> target = SevereCongestion \<and> list_all severe recent)
       \<or> (c = Good \<and> target = MildCongestion \<and> list_all congested recent)
       \<or> (c = MildCongestion \<and> target = SevereCongestion \<and> list_all severe recent)"
  using assms
  by (auto simp: evaluate_downgrade_def all_above_def all_high_rtt_def severe_def congested_def list_all_iff
           split: network_state.splits if_splits)

lemma evaluate_upgrade_cases:
  assumes "evaluate_upgrade c r recent = Some (target, needed)"
  shows "needed = r \<and>
       ((c = MildCongestion \<and> target = Good \<and> list_all (healthy F0_005) recent)
      \<or> (c = SevereCongestion \<and> target = MildCongestion \<and> list_all (healthy F0_03) recent))"
  using assms healthy_mono
  by (auto simp: evaluate_upgrade_def all_healthy_def healthy_def [symmetric] list_all_iff
           split: network_state.splits if_splits)

definition verdict :: "network_state \<Rightarrow> network_sample list \<Rightarrow> network_state option" where
  "verdict c W =
     (if length W < 3 then None
      else case evaluate_downgrade c W of
             Some t \<Rightarrow> Some t
           | None \<Rightarrow> map_option fst (evaluate_upgrade c 3 W))"

lemma feed_sample_verdict:
  assumes "am_inv m"
  shows "feed_sample s m =
     (let m1 = push_history s m
      in case verdict (am_current m) (take 3 (s # rev (am_history m))) of
           None \<Rightarrow> (False, m1\<lparr>am_stable_count := 0\<rparr>)
         | Some t \<Rightarrow> if 2 \<le> am_stable_count m then (True, transition_to t m1)
                    else (False, m1\<lparr>am_stable_count := Suc (am_stable_count m)\<rparr>))"
proof -
  have params: "am_required_stable m = 3" "am_max_history m = 30" using assms by (auto simp: am_inv_def)
  have recent: "recent_samples (push_history s m) = take 3 (s # rev (am_history m))"
    by (simp add: recent_samples_def push_history_def params Let_def take_rev_drop)
  have keep: "am_required_stable (push_history s m) = 3" "am_current (push_history s m) = am_current m"
    "am_stable_count (push_history s m) = am_stable_count m"
    by (simp_all add: push_history_def params Let_def)
  have again: "transition_to t (push_history s m\<lparr>am_stable_count := n\<rparr>) = transition_to t (push_history s m)" for t n
    by (simp add: transition_to_def)
  show ?thesis
    unfolding feed_sample_def Let_def recent keep verdict_def again
    by (auto split: option.splits dest: evaluate_upgrade_cases)
qed

lemma verdict_cases:
  assumes "verdict c W = Some t"
  shows "(c = Good \<and> t = SevereCongestion \<and> list_all severe W)
      \<or> (c = Good \<and> t = MildCongestion \<and> list_all congested W)
      \<or> (c = MildCongestion \<and> t = SevereCongestion \<and> list_all severe W)
      \<or> (c = MildCongestion \<and> t = Good \<and> list_all (healthy F0_005) W)
      \<or> (c = SevereCongestion \<and> t = MildCongestion \<and> list_all (healthy F0_03) W)"
proof (cases "evaluate_downgrade c W")
  case None
  then obtain n where "evaluate_upgrade c 3 W = Some (t, n)"
    using assms by (auto simp: verdict_def split: if_splits)
  from evaluate_upgrade_cases [OF this] show ?thesis by blast
next
  case (Some t')
  then have "t' = t" using assms by (simp add: verdict_def split: if_splits)
  with evaluate_downgrade_cases [OF Some] show ?thesis by blast
qed

text \<open>A verdict on a window that continues what the counter has seen.\<close>

lemma verdict_extends:
  assumes v: "verdict c (take 3 (s # R)) = Some t"
    and c: "0 < k \<longrightarrow> counting c (take (k + 2) R)"
  shows "2 \<le> length R \<and> counting c (take (k + 3) (s # R)) \<and> move_agrees c t (rev (take (k + 3) (s # R)))"
proof -
  let ?W = "take 3 (s # R)" and ?L = "take (k + 3) (s # R)"
  have "2 \<le> length R" using v by (auto simp: verdict_def split: if_splits)
  then obtain a b rs where R: "R = a # b # rs"
    by (metis (no_types, lifting) Suc_le_length_iff numeral_2_eq_2)
  define y where "y = take k rs"
  have L: "?L = s # a # b # y" and W: "?W = [s, a, b]"
    by (simp_all add: R y_def eval_nat_numeral)
  have seen: "k \<noteq> 0 \<Longrightarrow> counting c (a # b # y)" and empty: "k = 0 \<Longrightarrow> y = []"
    using c by (simp_all add: R y_def)
  have excl: "severe x \<Longrightarrow> healthy F0_005 x \<Longrightarrow> False" for x by (simp add: severe_not_healthy)
  have "counting c ?L \<and> move_agrees c t (rev ?L)"
  proof (cases "k = 0")
    case True
    show ?thesis
      using verdict_cases [OF v] unfolding L W empty [OF True]
      by (elim disjE conjE) (simp_all add: severe_congested)
  next
    case False
    show ?thesis
      using verdict_cases [OF v] seen [OF False] unfolding L W
      by (elim disjE conjE) (auto simp: severe_congested dest: excl)
  qed
  then show ?thesis using R by simp
qed

lemma take_rev_push:
  assumes "am_max_history m = 30" and "n \<le> 30"
  shows "take n (rev (am_history (push_history s m))) = take n (s # rev (am_history m))"
  using assms by (cases n) (simp_all add: push_history_def Let_def take_rev_drop)

lemma feed_step:
  assumes inv: "am_inv m"
  shows "am_inv (snd (feed_sample s m))
       \<and> (fst (feed_sample s m) \<longrightarrow>
            4 \<le> length (am_history m) \<and>
            move_agrees (am_current m) (am_current (snd (feed_sample s m)))
              (rev (take 5 (s # rev (am_history m)))))"
proof -
  define k where "k = am_stable_count m"
  define R where "R = rev (am_history m)"
  have k: "k < 3" "0 < k \<longrightarrow> counting (am_current m) (take (k + 2) R)"
    "0 < k \<longrightarrow> k + 2 \<le> length R"
    and par: "am_required_stable m = 3" "am_max_history m = 30"
    using inv by (auto simp: am_inv_def k_def R_def)
  have params: "am_required_stable (push_history s m) = 3" "am_max_history (push_history s m) = 30"
    "am_current (push_history s m) = am_current m"
    by (simp_all add: push_history_def par Let_def)
  have len: "length (am_history (push_history s m)) = min 30 (Suc (length R))"
    by (simp add: push_history_def par R_def Let_def)
  show ?thesis
  proof (cases "verdict (am_current m) (take 3 (s # R))")
    case None
    then show ?thesis
      using feed_sample_verdict [OF inv, of s] by (simp add: R_def am_inv_def params)
  next
    case (Some t)
    note ext = verdict_extends [OF Some k(2)]
    show ?thesis
    proof (cases "2 \<le> k")
      case True
      then have "k = 2" using k(1) by simp
      moreover have "feed_sample s m = (True, transition_to t (push_history s m))"
        using feed_sample_verdict [OF inv, of s] Some True by (simp add: R_def k_def)
      ultimately show ?thesis
        using ext k(3) by (simp add: am_inv_def transition_to_def params R_def)
    next
      case False
      then have "feed_sample s m = (False, push_history s m\<lparr>am_stable_count := Suc k\<rparr>)"
        using feed_sample_verdict [OF inv, of s] Some by (simp add: R_def k_def)
      moreover have "take (Suc k + 2) (rev (am_history (push_history s m))) = take (k + 3) (s # R)"
        using take_rev_push [OF par(2), of "Suc k + 2" s] k(1) by (simp add: R_def eval_nat_numeral)
      ultimately show ?thesis
        using ext k(3) False by (auto simp: am_inv_def params len)
    qed
  qed
qed

lemma feeds_simps [simp]:
  "feeds [] m = m"
  "feeds (ss @ [s]) m = snd (feed_sample s (feeds ss m))"
  "feeds (ss @ ss') m = feeds ss' (feeds ss m)"
  "feeds (s # ss) m = feeds ss (snd (feed_sample s m))"
  by (simp_all add: feeds_def)

lemma am_inv_new: "am_inv adaptive_new"
  by (simp add: am_inv_def adaptive_new_def)

lemma am_inv_feeds: "am_inv m \<Longrightarrow> am_inv (feeds ss m)"
  by (induction ss arbitrary: m) (simp_all add: feed_step)

lemma feed_sample_history: "am_history (snd (feed_sample s m)) = am_history (push_history s m)"
  by (simp add: feed_sample_def transition_to_def Let_def split: option.split prod.split)

lemma feeds_history:
  "am_history (feeds ss adaptive_new) = drop (length ss - 30) ss"
proof (induction ss rule: rev_induct)
  case Nil
  then show ?case by (simp add: adaptive_new_def)
next
  case (snoc s ss)
  have "am_max_history (feeds ss adaptive_new) = 30"
    using am_inv_feeds [OF am_inv_new] by (simp add: am_inv_def)
  moreover have "\<not> length ss \<le> 30 \<Longrightarrow> Suc (length ss - 30) = length ss - 29" by arith
  ultimately show ?case
    by (cases "length ss \<le> 30")
       (simp_all add: feed_sample_history push_history_def snoc.IH Let_def del: feeds_simps(3))
qed

text \<open>
  C24. The quality only moves when the last five samples agree. Whatever samples a machine has seen
  since its creation, if the next one makes it change its state, then at least five have been seen
  and the last five all justify the move: all congested to leave \<^verbatim>\<open>Good\<close> (the last three above
  6% to reach \<^verbatim>\<open>SevereCongestion\<close> at once), all above 6% from \<^verbatim>\<open>MildCongestion\<close> to
  \<^verbatim>\<open>SevereCongestion\<close>, all below 0.5% (3%) with a round trip below 100 ms to go one step
  back up. No other move exists: in particular none leads from \<^verbatim>\<open>SevereCongestion\<close> to
  \<^verbatim>\<open>Good\<close>, although the code has a branch for it.
\<close>
theorem switch_justified:
  assumes "feed_sample s (feeds ss adaptive_new) = (True, m')"
  shows "4 \<le> length ss
       \<and> move_agrees (am_current (feeds ss adaptive_new)) (am_current m') (rev (take 5 (rev (ss @ [s]))))"
proof -
  let ?m = "feeds ss adaptive_new"
  have "take 5 (s # rev (am_history ?m)) = take 5 (rev (ss @ [s]))"
    using take_rev_drop [of 4 30 ss] by (simp add: feeds_history eval_nat_numeral)
  moreover have "length (am_history ?m) \<le> length ss" by (simp add: feeds_history)
  ultimately show ?thesis
    using feed_step [OF am_inv_feeds [OF am_inv_new], of s ss] assms by simp
qed

definition sample_loss :: "rat \<Rightarrow> network_sample" where
  "sample_loss r = \<lparr>ns_loss_rate = Some r, ns_rtt_ms = Some 30, ns_jitter_us = Some 500,
     ns_received_bitrate_bps = Some 8000000, ns_timestamp = 0\<rparr>"

lemma severe_step:
  assumes inv: "am_inv m" and win: "list_all severe (take 3 (s # rev (am_history m)))"
    and len: "2 \<le> length (am_history m)"
  shows "am_current (snd (feed_sample s m)) = SevereCongestion
       \<or> am_current m \<noteq> SevereCongestion \<and> am_stable_count m < 2 \<and>
         am_current (snd (feed_sample s m)) = am_current m \<and>
         am_stable_count (snd (feed_sample s m)) = Suc (am_stable_count m)"
proof -
  let ?W = "take 3 (s # rev (am_history m))"
  have above: "all_above F0_06 ?W" using win by (simp add: all_above_def severe_def [abs_def])
  have down: "am_current m \<noteq> SevereCongestion \<Longrightarrow> verdict (am_current m) ?W = Some SevereCongestion"
    using above len by (cases "am_current m") (simp_all add: verdict_def evaluate_downgrade_def)
  have "am_current m = SevereCongestion \<Longrightarrow> verdict (am_current m) ?W = None"
  proof -
    assume c: "am_current m = SevereCongestion"
    have "\<not> healthy F0_03 s"
      using win by (cases "ns_loss_rate s") (auto simp: severe_def healthy_def f64_literals)
    then show ?thesis
      using c healthy_mono [of s]
      by (auto simp: verdict_def evaluate_downgrade_def evaluate_upgrade_def all_healthy_def healthy_def)
  qed
  then show ?thesis
    using down feed_sample_verdict [OF inv, of s]
    by (cases "am_current m = SevereCongestion") (auto simp: transition_to_def push_history_def Let_def)
qed

lemma severe_counts:
  assumes "list_all severe bad" and "2 \<le> length bad"
  shows "am_current (feeds (ss @ bad) adaptive_new) = SevereCongestion
       \<or> length bad \<le> am_stable_count (feeds (ss @ bad) adaptive_new) + 2"
  using assms
proof (induction bad rule: rev_induct)
  case (snoc s bad)
  let ?m = "feeds (ss @ bad) adaptive_new"
  have rec: "feeds (ss @ bad @ [s]) adaptive_new = snd (feed_sample s ?m)" by simp
  show ?case
  proof (cases "2 \<le> length bad")
    case True
    have inv: "am_inv ?m" by (rule am_inv_feeds [OF am_inv_new])
    have hist: "am_history ?m = drop (length (ss @ bad) - 30) (ss @ bad)" by (rule feeds_history)
    have "take 3 (s # rev (am_history ?m)) = take 3 (s # rev bad)"
      using take_rev_drop [of 2 30 "ss @ bad"] True unfolding hist by (simp add: eval_nat_numeral)
    then have "list_all severe (take 3 (s # rev (am_history ?m)))"
      using snoc.prems(1) by (auto simp: list_all_iff dest: in_set_takeD)
    moreover have "2 \<le> length (am_history ?m)" using True unfolding hist by simp
    ultimately show ?thesis
      using severe_step [OF inv, of s] snoc.IH snoc.prems(1) True unfolding rec by auto
  qed (use snoc.prems in simp)
qed simp

text \<open>
  Heavy loss is answered within five samples: whatever a machine has seen, after five more
  samples above 6% it is in \<^verbatim>\<open>SevereCongestion\<close>, and it stays there while the loss stays
  above 6%.
\<close>
theorem severe_within_five:
  assumes "list_all severe bad" and "5 \<le> length bad"
  shows "am_current (feeds (ss @ bad) adaptive_new) = SevereCongestion"
proof -
  have "am_stable_count (feeds (ss @ bad) adaptive_new) < 3"
    using am_inv_feeds [OF am_inv_new, of "ss @ bad"] unfolding am_inv_def by blast
  then show ?thesis using severe_counts [OF assms(1), of ss] assms(2) by linarith
qed

theorem severe_within_five_witness:
  "am_current (feeds ([sample_loss 0] @ replicate 5 (sample_loss (8 / 100))) adaptive_new) = SevereCongestion"
  by (rule severe_within_five) (simp_all add: list_all_iff sample_loss_def severe_def f64_literals)

text \<open>Four samples above 6% change nothing, the fifth moves straight to the last state.\<close>

lemma five_samples:
  "am_current (feeds (replicate 4 (sample_loss (8 / 100))) adaptive_new) = Good"
  "fst (feed_sample (sample_loss (8 / 100)) (feeds (replicate 4 (sample_loss (8 / 100))) adaptive_new))"
  by (simp_all add: eval_nat_numeral feeds_def feed_sample_def adaptive_new_def push_history_def recent_samples_def
      evaluate_downgrade_def all_above_def sample_loss_def f64_literals transition_to_def Let_def)

theorem switch_justified_witness:
  "4 \<le> length (replicate 4 (sample_loss (8 / 100)))
   \<and> move_agrees Good SevereCongestion (replicate 5 (sample_loss (8 / 100)))"
proof -
  let ?s = "sample_loss (8 / 100)" and ?m = "feeds (replicate 4 (sample_loss (8 / 100))) adaptive_new"
  obtain m' where step: "feed_sample ?s ?m = (True, m')"
    using five_samples(2) by (metis prod.collapse)
  have five: "replicate 4 ?s @ [?s] = replicate 5 ?s" by (simp add: eval_nat_numeral)
  have severe: "list_all severe (replicate 5 ?s)"
    by (simp add: list_all_iff severe_def sample_loss_def f64_literals)
  have "feeds (replicate 5 ?s) adaptive_new = m'" using step unfolding five [symmetric] by simp
  moreover have "am_stable_count (feeds ([] @ replicate 5 ?s) adaptive_new) < 3"
    using am_inv_feeds [OF am_inv_new] unfolding am_inv_def by blast
  ultimately have "am_current m' = SevereCongestion"
    using severe_counts [OF severe, of "[]"] by simp
  then show ?thesis
    using switch_justified [OF step] five_samples(1) by (simp add: eval_nat_numeral)
qed

end
