(* ===== verification/Core_Keys.thy ===== *)
theory Core_Keys
  imports Framing Known_Hosts
begin

text \<open>
  The key material of the core's handshake: \<^verbatim>\<open>crypto/x25519.rs\<close>, the operations of
  \<^verbatim>\<open>crypto/ed25519.rs\<close> and \<^verbatim>\<open>crypto/aead.rs\<close> the handshake uses, and the derivation of the
  answer to a challenge from \<^verbatim>\<open>crypto/handshake.rs\<close>. The crates that compute (SHA-2, HMAC, HKDF,
  base64, ed25519-dalek, x25519-dalek, AES-GCM) are the fields of \<open>crypto\<close>; random bytes are
  arguments. A byte array of fixed length is a list, and what relies on its length says so.
\<close>

section \<open>The libraries\<close>

text \<open>
  \<open>cy_point\<close> is \<^verbatim>\<open>VerifyingKey::from_bytes\<close>: the text of the error when 32 bytes are not a point.
  \<open>cy_hkdf\<close> takes salt, input key and info; sealing and opening take the key, the nonce, the text and the
  associated data.
\<close>

record crypto =
  cy_sha256 :: "bytes \<Rightarrow> bytes"
  cy_hmac :: "bytes \<Rightarrow> bytes \<Rightarrow> bytes"
  cy_hkdf :: "bytes \<Rightarrow> bytes \<Rightarrow> bytes \<Rightarrow> bytes"
  cy_b64_decode :: "string \<Rightarrow> string + bytes"
  cy_b64_encode :: "bytes \<Rightarrow> string"
  cy_point :: "bytes \<Rightarrow> string option"
  cy_public :: "bytes \<Rightarrow> bytes"
  cy_sign :: "bytes \<Rightarrow> bytes \<Rightarrow> bytes"
  cy_verify :: "bytes \<Rightarrow> bytes \<Rightarrow> bytes \<Rightarrow> bool"
  cy_x25519 :: "bytes \<Rightarrow> bytes \<Rightarrow> bytes"
  cy_seal :: "bytes \<Rightarrow> bytes \<Rightarrow> bytes \<Rightarrow> bytes \<Rightarrow> string + bytes"
  cy_open :: "bytes \<Rightarrow> bytes \<Rightarrow> bytes \<Rightarrow> bytes \<Rightarrow> bytes option"

section \<open>Identities\<close>

text \<open>An identity is its secret key.\<close>

definition public_key_base64 :: "crypto \<Rightarrow> bytes \<Rightarrow> string" where
  "public_key_base64 C sk = cy_b64_encode C (cy_public C sk)"

definition parse_public_key :: "crypto \<Rightarrow> string \<Rightarrow> string + bytes" where
  "parse_public_key C base64_key =
     (case cy_b64_decode C base64_key of
        Inl e \<Rightarrow> Inl (''Invalid public key data: '' @ e)
      | Inr b \<Rightarrow>
          if length b \<noteq> 32 then Inl ''Invalid public key data: expected 32 bytes''
          else case cy_point C b of
                 Some e \<Rightarrow> Inl (''Invalid public key data: '' @ e)
               | None \<Rightarrow> Inr b)"

section \<open>Ephemeral keys\<close>

definition LOW_ORDER_POINTS :: "bytes list" where
  "LOW_ORDER_POINTS =
    [[0x00, 0x00, 0x00, 0x00, 0x00, 0x00, 0x00, 0x00, 0x00, 0x00, 0x00, 0x00, 0x00, 0x00, 0x00, 0x00,
      0x00, 0x00, 0x00, 0x00, 0x00, 0x00, 0x00, 0x00, 0x00, 0x00, 0x00, 0x00, 0x00, 0x00, 0x00, 0x00],
     [0x01, 0x00, 0x00, 0x00, 0x00, 0x00, 0x00, 0x00, 0x00, 0x00, 0x00, 0x00, 0x00, 0x00, 0x00, 0x00,
      0x00, 0x00, 0x00, 0x00, 0x00, 0x00, 0x00, 0x00, 0x00, 0x00, 0x00, 0x00, 0x00, 0x00, 0x00, 0x00],
     [0xe0, 0xeb, 0x7a, 0x7c, 0x3b, 0x41, 0xb8, 0xae, 0x16, 0x56, 0xe3, 0xfa, 0xf1, 0x9f, 0xc4, 0x6a,
      0xda, 0x09, 0x8d, 0xeb, 0x9c, 0x32, 0xb1, 0xfd, 0x86, 0x62, 0x05, 0x16, 0x5f, 0x49, 0xb8, 0x00],
     [0x5f, 0x9c, 0x95, 0xbc, 0xa3, 0x50, 0x8c, 0x24, 0xb1, 0xd0, 0xb1, 0x55, 0x9c, 0x83, 0xef, 0x5b,
      0x04, 0x44, 0x5c, 0xc4, 0x58, 0x1c, 0x8e, 0x86, 0xd8, 0x22, 0x4e, 0xdd, 0xd0, 0x9f, 0x11, 0x57],
     [0xec, 0xff, 0xff, 0xff, 0xff, 0xff, 0xff, 0xff, 0xff, 0xff, 0xff, 0xff, 0xff, 0xff, 0xff, 0xff,
      0xff, 0xff, 0xff, 0xff, 0xff, 0xff, 0xff, 0xff, 0xff, 0xff, 0xff, 0xff, 0xff, 0xff, 0xff, 0x7f],
     [0xed, 0xff, 0xff, 0xff, 0xff, 0xff, 0xff, 0xff, 0xff, 0xff, 0xff, 0xff, 0xff, 0xff, 0xff, 0xff,
      0xff, 0xff, 0xff, 0xff, 0xff, 0xff, 0xff, 0xff, 0xff, 0xff, 0xff, 0xff, 0xff, 0xff, 0xff, 0x7f],
     [0xee, 0xff, 0xff, 0xff, 0xff, 0xff, 0xff, 0xff, 0xff, 0xff, 0xff, 0xff, 0xff, 0xff, 0xff, 0xff,
      0xff, 0xff, 0xff, 0xff, 0xff, 0xff, 0xff, 0xff, 0xff, 0xff, 0xff, 0xff, 0xff, 0xff, 0xff, 0x7f],
     [0xd9, 0xff, 0xff, 0xff, 0xff, 0xff, 0xff, 0xff, 0xff, 0xff, 0xff, 0xff, 0xff, 0xff, 0xff, 0xff,
      0xff, 0xff, 0xff, 0xff, 0xff, 0xff, 0xff, 0xff, 0xff, 0xff, 0xff, 0xff, 0xff, 0xff, 0xff, 0xff],
     [0xda, 0xff, 0xff, 0xff, 0xff, 0xff, 0xff, 0xff, 0xff, 0xff, 0xff, 0xff, 0xff, 0xff, 0xff, 0xff,
      0xff, 0xff, 0xff, 0xff, 0xff, 0xff, 0xff, 0xff, 0xff, 0xff, 0xff, 0xff, 0xff, 0xff, 0xff, 0xff],
     [0xdb, 0xff, 0xff, 0xff, 0xff, 0xff, 0xff, 0xff, 0xff, 0xff, 0xff, 0xff, 0xff, 0xff, 0xff, 0xff,
      0xff, 0xff, 0xff, 0xff, 0xff, 0xff, 0xff, 0xff, 0xff, 0xff, 0xff, 0xff, 0xff, 0xff, 0xff, 0xff],
     [0xcd, 0xeb, 0x7a, 0x7c, 0x3b, 0x41, 0xb8, 0xae, 0x16, 0x56, 0xe3, 0xfa, 0xf1, 0x9f, 0xc4, 0x6a,
      0xda, 0x09, 0x8d, 0xeb, 0x9c, 0x32, 0xb1, 0xfd, 0x86, 0x62, 0x05, 0x16, 0x5f, 0x49, 0xb8, 0x80],
     [0x4c, 0x9c, 0x95, 0xbc, 0xa3, 0x50, 0x8c, 0x24, 0xb1, 0xd0, 0xb1, 0x55, 0x9c, 0x83, 0xef, 0x5b,
      0x04, 0x44, 0x5c, 0xc4, 0x58, 0x1c, 0x8e, 0x86, 0xd8, 0x22, 0x4e, 0xdd, 0xd0, 0x9f, 0x11, 0xd7],
     [0x00, 0x00, 0x00, 0x00, 0x00, 0x00, 0x00, 0x00, 0x00, 0x00, 0x00, 0x00, 0x00, 0x00, 0x00, 0x00,
      0x00, 0x00, 0x00, 0x00, 0x00, 0x00, 0x00, 0x00, 0x00, 0x00, 0x00, 0x00, 0x00, 0x00, 0x00, 0x80],
     [0x01, 0x00, 0x00, 0x00, 0x00, 0x00, 0x00, 0x00, 0x00, 0x00, 0x00, 0x00, 0x00, 0x00, 0x00, 0x00,
      0x00, 0x00, 0x00, 0x00, 0x00, 0x00, 0x00, 0x00, 0x00, 0x00, 0x00, 0x00, 0x00, 0x00, 0x00, 0x80],
     [0xec, 0xff, 0xff, 0xff, 0xff, 0xff, 0xff, 0xff, 0xff, 0xff, 0xff, 0xff, 0xff, 0xff, 0xff, 0xff,
      0xff, 0xff, 0xff, 0xff, 0xff, 0xff, 0xff, 0xff, 0xff, 0xff, 0xff, 0xff, 0xff, 0xff, 0xff, 0xff],
     [0xe0, 0xeb, 0x7a, 0x7c, 0x3b, 0x41, 0xb8, 0xae, 0x16, 0x56, 0xe3, 0xfa, 0xf1, 0x9f, 0xc4, 0x6a,
      0xda, 0x09, 0x8d, 0xeb, 0x9c, 0x32, 0xb1, 0xfd, 0x86, 0x62, 0x05, 0x16, 0x5f, 0x49, 0xb8, 0x80],
     [0x5f, 0x9c, 0x95, 0xbc, 0xa3, 0x50, 0x8c, 0x24, 0xb1, 0xd0, 0xb1, 0x55, 0x9c, 0x83, 0xef, 0x5b,
      0x04, 0x44, 0x5c, 0xc4, 0x58, 0x1c, 0x8e, 0x86, 0xd8, 0x22, 0x4e, 0xdd, 0xd0, 0x9f, 0x11, 0xd7]]"

definition all_zero :: "bytes \<Rightarrow> bool" where
  "all_zero b = list_all (\<lambda>x. x = 0) b"

definition X25519_BASEPOINT_BYTES :: bytes where
  "X25519_BASEPOINT_BYTES = 9 # replicate 31 0"

definition clamp :: "bytes \<Rightarrow> bytes" where
  "clamp b = (let b = b[0 := and (b ! 0) 248]; b = b[31 := and (b ! 31) 127] in b[31 := or (b ! 31) 64])"

record ephemeral =
  es_secret :: bytes
  es_public :: bytes

definition ephemeral_new :: "crypto \<Rightarrow> bytes \<Rightarrow> ephemeral" where
  "ephemeral_new C random =
     (let s = clamp random in \<lparr>es_secret = s, es_public = cy_x25519 C s X25519_BASEPOINT_BYTES\<rparr>)"

definition diffie_hellman_bytes :: "crypto \<Rightarrow> ephemeral \<Rightarrow> bytes \<Rightarrow> string + bytes" where
  "diffie_hellman_bytes C es peer =
     (let shared = cy_x25519 C (es_secret es) peer
      in if all_zero shared then Inl ''ECDH key exchange failed'' else Inr shared)"

definition parse_x25519_key :: "bytes \<Rightarrow> string + bytes" where
  "parse_x25519_key b =
     (if all_zero b then
        Inl (''Invalid public key: all-zero public key is a low-order point (RFC 7748 '' @ map char_of [0xC2, 0xA7 :: nat] @ ''6)'')
      else if b \<in> set LOW_ORDER_POINTS then
        Inl (''Invalid public key: peer public key is a low-order point (RFC 7748 '' @ map char_of [0xC2, 0xA7 :: nat] @ ''6)'')
      else Inr b)"

definition derive_session_key :: "crypto \<Rightarrow> bytes \<Rightarrow> bytes" where
  "derive_session_key C shared =
     cy_hkdf C (str_bytes ''KirinDesk-session-key'') shared (str_bytes ''session-encryption-key'')"

definition compute_session_key :: "crypto \<Rightarrow> ephemeral \<Rightarrow> bytes \<Rightarrow> string + bytes" where
  "compute_session_key C es peer =
     (case diffie_hellman_bytes C es peer of
        Inl e \<Rightarrow> Inl e
      | Inr shared \<Rightarrow> Inr (derive_session_key C shared))"

section \<open>Sealing\<close>

text \<open>\<^verbatim>\<open>AeadCipher::encrypt\<close> draws the twelve bytes of the nonce.\<close>

definition encrypt :: "crypto \<Rightarrow> bytes \<Rightarrow> bytes \<Rightarrow> bytes \<Rightarrow> bytes \<Rightarrow> string + (bytes \<times> bytes)" where
  "encrypt C key nonce aad plaintext =
     (case cy_seal C key nonce plaintext aad of
        Inl e \<Rightarrow> Inl (''Encryption failed: '' @ e)
      | Inr ct \<Rightarrow> Inr (nonce, ct))"

definition decrypt :: "crypto \<Rightarrow> bytes \<Rightarrow> bytes \<Rightarrow> bytes \<Rightarrow> bytes \<Rightarrow> string + bytes" where
  "decrypt C key nonce aad ciphertext =
     (case cy_open C key nonce ciphertext aad of
        None \<Rightarrow> Inl ''Decryption failed: ciphertext tampered or wrong key''
      | Some p \<Rightarrow> Inr p)"

definition encrypt_simple :: "crypto \<Rightarrow> bytes \<Rightarrow> bytes \<Rightarrow> bytes \<Rightarrow> string + (bytes \<times> bytes)" where
  "encrypt_simple C key nonce plaintext = encrypt C key nonce [] plaintext"

definition decrypt_simple :: "crypto \<Rightarrow> bytes \<Rightarrow> bytes \<Rightarrow> bytes \<Rightarrow> string + bytes" where
  "decrypt_simple C key nonce ciphertext = decrypt C key nonce [] ciphertext"

section \<open>Answers to a challenge\<close>

record challenge_answer =
  ca_nonce :: bytes
  ca_response :: bytes

definition challenge_derive_from_key :: "crypto \<Rightarrow> bytes \<Rightarrow> bytes \<Rightarrow> bytes \<Rightarrow> bytes \<Rightarrow> bytes" where
  "challenge_derive_from_key C key nonce client_x25519_pub client_nonce =
     cy_hmac C key (str_bytes ''KIRIN-CHR1'' @ nonce @ client_x25519_pub @ client_nonce)"

definition challenge_response :: "crypto \<Rightarrow> string \<Rightarrow> bytes \<Rightarrow> bytes \<Rightarrow> bytes \<Rightarrow> bytes" where
  "challenge_response C code nonce client_x25519_pub client_nonce =
     challenge_derive_from_key C (cy_sha256 C (str_bytes code)) nonce client_x25519_pub client_nonce"

section \<open>The blacklist of low-order points\<close>

lemma of_le_bytes_less: "of_le_bytes b < 256 ^ length b"
proof (induction b)
  case (Cons x b)
  have "unat x < 256" by (rule unat_u8)
  with Cons show ?case by simp
qed simp

lemma of_le_bytes_inject: "length a = length b \<Longrightarrow> of_le_bytes a = of_le_bytes b \<Longrightarrow> a = b"
proof (induction rule: list_induct2)
  case (Cons x xs y ys)
  have less: "unat x < 256" "unat y < 256" by (rule unat_u8)+
  from Cons.prems have eq: "unat x + 256 * of_le_bytes xs = unat y + 256 * of_le_bytes ys" by simp
  have "(unat x + 256 * of_le_bytes xs) mod 256 = unat x" "(unat y + 256 * of_le_bytes ys) mod 256 = unat y"
    using less by simp_all
  then have "unat x = unat y" using eq by simp
  with eq have "of_le_bytes xs = of_le_bytes ys" by simp
  with \<open>unat x = unat y\<close> Cons.IH have "x = y" "xs = ys" by (simp_all add: word_unat_eq_iff)
  then show ?case by simp
qed simp

text \<open>The prime of the field, and the five coordinates of low order below it.\<close>

definition p25519 :: nat where "p25519 = 2 ^ 255 - 19"

definition low_order_coordinates :: "nat list" where
  "low_order_coordinates = [0, 1,
     325606250916557431795983626356110631294008115727848805560023387167927233504,
     39382357235489614581723060781553021112529911719440698176882885853963445705823,
     p25519 - 1]"

lemma low_order_values:
  "map of_le_bytes LOW_ORDER_POINTS = [0,
     1,
     325606250916557431795983626356110631294008115727848805560023387167927233504,
     39382357235489614581723060781553021112529911719440698176882885853963445705823,
     57896044618658097711785492504343953926634992332820282019728792003956564819948,
     57896044618658097711785492504343953926634992332820282019728792003956564819949,
     57896044618658097711785492504343953926634992332820282019728792003956564819950,
     115792089237316195423570985008687907853269984665640564039457584007913129639897,
     115792089237316195423570985008687907853269984665640564039457584007913129639898,
     115792089237316195423570985008687907853269984665640564039457584007913129639899,
     58221650869574655143581476130700064557929000448548130825288815391124492053453,
     97278401854147712293508553285896975039164904052260980196611677857920010525772,
     57896044618658097711785492504343953926634992332820282019728792003956564819968,
     57896044618658097711785492504343953926634992332820282019728792003956564819969,
     115792089237316195423570985008687907853269984665640564039457584007913129639916,
     58221650869574655143581476130700064557929000448548130825288815391124492053472,
     97278401854147712293508553285896975039164904052260980196611677857920010525791]"
  by (simp add: LOW_ORDER_POINTS_def)

lemma low_order_lengths: "list_all (\<lambda>b. length b = 32) LOW_ORDER_POINTS"
  by (simp add: LOW_ORDER_POINTS_def)

lemma below_3p: "n < 256 ^ 32 \<Longrightarrow> n div p25519 \<le> 2"
proof -
  assume "n < 256 ^ 32"
  then have "n < 3 * p25519" by (simp add: p25519_def)
  then show ?thesis by (simp add: div_less_iff_less_mult less_Suc_eq_le [symmetric] p25519_def)
qed

lemma low_order_set:
  assumes "n < 256 ^ 32"
  shows "n \<in> set (map of_le_bytes LOW_ORDER_POINTS) \<longleftrightarrow>
    n mod p25519 \<in> set low_order_coordinates \<or> 2 ^ 255 \<le> n \<and> n - 2 ^ 255 \<in> set low_order_coordinates"
proof
  assume "n \<in> set (map of_le_bytes LOW_ORDER_POINTS)"
  then show "n mod p25519 \<in> set low_order_coordinates \<or> 2 ^ 255 \<le> n \<and> n - 2 ^ 255 \<in> set low_order_coordinates"
    unfolding low_order_values by (auto simp: low_order_coordinates_def p25519_def)
next
  assume h: "n mod p25519 \<in> set low_order_coordinates \<or> 2 ^ 255 \<le> n \<and> n - 2 ^ 255 \<in> set low_order_coordinates"
  show "n \<in> set (map of_le_bytes LOW_ORDER_POINTS)"
  proof (cases "n mod p25519 \<in> set low_order_coordinates")
    case True
    define r where "r = n mod p25519"
    define k where "k = n div p25519"
    have n: "n = p25519 * k + r" by (simp add: r_def k_def)
    have "k = 0 \<or> k = 1 \<or> k = 2" using below_3p [OF assms] by (auto simp: k_def)
    moreover have "r \<in> set low_order_coordinates" using True by (simp add: r_def)
    ultimately show ?thesis
      using n assms unfolding low_order_values by (elim disjE) (auto simp: low_order_coordinates_def p25519_def)
  next
    case False
    with h have "n = 2 ^ 255 + (n - 2 ^ 255)" "n - 2 ^ 255 \<in> set low_order_coordinates" by auto
    then show ?thesis
      unfolding low_order_values by (auto simp: low_order_coordinates_def p25519_def)
  qed
qed

text \<open>
  What the blacklist refuses. Among the keys of 32 bytes, \<^verbatim>\<open>parse_public_key\<close> refuses exactly the
  encodings, canonical or not, of the five coordinates of low order, and these coordinates with
  bit 255 set; in particular a canonical key is refused only if it is one of the five.
\<close>
theorem blacklist_exact:
  assumes "length b = 32"
  shows "(parse_x25519_key b = Inr b \<longleftrightarrow>
      of_le_bytes b mod p25519 \<notin> set low_order_coordinates \<and>
      \<not> (2 ^ 255 \<le> of_le_bytes b \<and> of_le_bytes b - 2 ^ 255 \<in> set low_order_coordinates))
    \<and> (of_le_bytes b < p25519 \<and> parse_x25519_key b \<noteq> Inr b \<longrightarrow> of_le_bytes b \<in> set low_order_coordinates)"
proof -
  have less: "of_le_bytes b < 256 ^ 32" using of_le_bytes_less [of b] assms by simp
  have zero: "all_zero b \<Longrightarrow> b \<in> set LOW_ORDER_POINTS"
  proof -
    assume "all_zero b"
    then have "b = replicate 32 0"
      using assms by (intro replicate_eqI) (auto simp: all_zero_def list_all_iff)
    then have "b = hd LOW_ORDER_POINTS" by (simp add: LOW_ORDER_POINTS_def numeral_eq_Suc)
    moreover have "LOW_ORDER_POINTS \<noteq> []" by (simp add: LOW_ORDER_POINTS_def)
    ultimately show ?thesis by (metis hd_in_set)
  qed
  have "b \<in> set LOW_ORDER_POINTS \<longleftrightarrow> of_le_bytes b \<in> set (map of_le_bytes LOW_ORDER_POINTS)"
    using low_order_lengths assms by (auto simp: list_all_iff dest!: of_le_bytes_inject [rotated])
  then have iff: "parse_x25519_key b = Inr b \<longleftrightarrow> of_le_bytes b \<notin> set (map of_le_bytes LOW_ORDER_POINTS)"
    using zero by (auto simp: parse_x25519_key_def)
  show ?thesis
    unfolding iff low_order_set [OF less] by (auto simp: p25519_def)
qed

theorem blacklist_exact_witness:
  "parse_x25519_key X25519_BASEPOINT_BYTES = Inr X25519_BASEPOINT_BYTES"
proof -
  have v: "of_le_bytes X25519_BASEPOINT_BYTES = 9"
  proof -
    have "of_le_bytes (replicate n 0) = 0" for n by (induction n) simp_all
    then show ?thesis by (simp add: X25519_BASEPOINT_BYTES_def)
  qed
  have "length X25519_BASEPOINT_BYTES = 32" by (simp add: X25519_BASEPOINT_BYTES_def)
  from blacklist_exact [OF this] show ?thesis
    unfolding v by (simp add: low_order_coordinates_def p25519_def)
qed

text \<open>The top bit is not part of the coordinate: the crate masks it when it reads a point.\<close>

definition masked_point :: bytes where
  "masked_point = 0xed # replicate 31 0xff"

text \<open>
  The blacklist does not cover every low-order point as the ladder reads it. The key
  \<^verbatim>\<open>ed ff .. ff\<close> passes, and without its bit 255 it is the prime itself, the point of order two;
  such a key is only caught by the test for an all-zero secret.
\<close>
lemma blacklist_misses_masked:
  "parse_x25519_key masked_point = Inr masked_point \<and>
   length masked_point = 32 \<and> of_le_bytes masked_point mod 2 ^ 255 = p25519"
proof -
  have len: "length masked_point = 32" by (simp add: masked_point_def)
  have v: "of_le_bytes masked_point = 115792089237316195423570985008687907853269984665640564039457584007913129639917"
  proof -
    have m: "masked_point = [0xed, 0xff, 0xff, 0xff, 0xff, 0xff, 0xff, 0xff, 0xff, 0xff, 0xff, 0xff, 0xff, 0xff, 0xff, 0xff,
      0xff, 0xff, 0xff, 0xff, 0xff, 0xff, 0xff, 0xff, 0xff, 0xff, 0xff, 0xff, 0xff, 0xff, 0xff, 0xff]"
      by (simp add: masked_point_def numeral_eq_Suc)
    show ?thesis unfolding m by simp
  qed
  show ?thesis
    using blacklist_exact [OF len] len unfolding v by (simp add: low_order_coordinates_def p25519_def)
qed

end
