(* ===== verification/Core_TempMode.thy ===== *)
theory Core_TempMode
  imports Core_Keys
begin

text \<open>
  The temporary connection window, \<^verbatim>\<open>core/src/connection/temp_mode.rs\<close>: a random code with a time to
  live, kept as hashes in a state file, and the guard against a clock that is set back. The state
  file is what serde reads back from it; whether writing and removing it succeeds is an argument, and so
  are the random indices. A call reads the wall clock (seconds) and the monotonic clock once.
  Seconds of 64 bits are naturals with the saturation written out.
\<close>

section \<open>State\<close>

definition U64_MAX :: nat where "U64_MAX = 2 ^ 64 - 1"
definition U32_MAX :: nat where "U32_MAX = 2 ^ 32 - 1"

definition sat_add64 :: "nat \<Rightarrow> nat \<Rightarrow> nat" where
  "sat_add64 a b = min (a + b) U64_MAX"

definition CODE_CHARSET :: string where "CODE_CHARSET = ''ABCDEFGHJKLMNPQRSTUVWXYZ23456789''"
definition CODE_LEN :: nat where "CODE_LEN = 10"
definition CLOCK_BACKWARD_TOLERANCE_SECS :: nat where "CLOCK_BACKWARD_TOLERANCE_SECS = 5"
definition CLOCK_DRIFT_CAP_SECS :: nat where "CLOCK_DRIFT_CAP_SECS = 60"

record temp_mode_file =
  tf_expires_at :: nat
  tf_code_sha256 :: string
  tf_code_key_sha256 :: string

datatype state_file = NoFile | Unreadable | Stored temp_mode_file

datatype temp_mode_error = TmIoError | TmNoCacheDir | TmCorruptState | TmSerialize string

record temp_mode_state =
  tms_expires_at :: nat
  tms_remaining_secs :: nat

record clock =
  ck_wall :: nat
  ck_mono :: instant

record clock_anchor =
  an_mono :: instant
  an_wall :: nat
  an_max_wall :: nat
  an_poisoned :: bool

text \<open>The file of one manager and the process-wide table of anchors.\<close>

record temp_sys =
  ts_path :: string
  ts_file :: state_file
  ts_clocks :: "(string, clock_anchor) hmap"

section \<open>The guard of the clock\<close>

definition new_anchor :: "clock \<Rightarrow> clock_anchor" where
  "new_anchor ck = \<lparr>an_mono = ck_mono ck, an_wall = ck_wall ck, an_max_wall = ck_wall ck, an_poisoned = False\<rparr>"

definition mono_elapsed_secs :: "clock \<Rightarrow> clock_anchor \<Rightarrow> nat" where
  "mono_elapsed_secs ck a = (ck_mono ck - an_mono a) div 1000000000"

definition anchor_check :: "clock \<Rightarrow> clock_anchor \<Rightarrow> bool \<times> clock_anchor" where
  "anchor_check ck a =
     (if an_poisoned a then (False, a)
      else if sat_add64 (ck_wall ck) CLOCK_BACKWARD_TOLERANCE_SECS < an_max_wall a then
        (False, a\<lparr>an_poisoned := True\<rparr>)
      else if sat_add64 (ck_wall ck - an_wall a) CLOCK_DRIFT_CAP_SECS < mono_elapsed_secs ck a then
        (False, a\<lparr>an_poisoned := True\<rparr>)
      else (True, a\<lparr>an_max_wall := max (an_max_wall a) (ck_wall ck)\<rparr>))"

definition window_clock_healthy :: "clock \<Rightarrow> temp_sys \<Rightarrow> bool \<times> temp_sys" where
  "window_clock_healthy ck s =
     (case anchor_check ck (hm_or_insert (new_anchor ck) (ts_clocks s) (ts_path s)) of
        (ok, a) \<Rightarrow> (ok, s\<lparr>ts_clocks := hm_put (ts_path s) a (ts_clocks s)\<rparr>))"

definition reset_window_clock :: "temp_sys \<Rightarrow> temp_sys" where
  "reset_window_clock s = s\<lparr>ts_clocks := hm_del (ts_path s) (ts_clocks s)\<rparr>"

section \<open>Codes and hashes\<close>

definition to_hex :: "bytes \<Rightarrow> string" where
  "to_hex b = concat (map hex_byte b)"

definition digit16 :: "char \<Rightarrow> nat option" where
  "digit16 c =
     (let n = of_char c :: nat
      in if 48 \<le> n \<and> n \<le> 57 then Some (n - 48)
         else if 97 \<le> n \<and> n \<le> 102 then Some (n - 87)
         else if 65 \<le> n \<and> n \<le> 70 then Some (n - 55)
         else None)"

fun from_hex :: "string \<Rightarrow> bytes option" where
  "from_hex [] = Some []"
| "from_hex [c] = None"
| "from_hex (c # d # cs) =
     (case (digit16 c, digit16 d, from_hex cs) of
        (Some hi, Some lo, Some out) \<Rightarrow> Some (of_nat (hi * 16 + lo) # out)
      | _ \<Rightarrow> None)"

definition generate_code :: "nat list \<Rightarrow> string" where
  "generate_code random = map ((!) CODE_CHARSET) (take CODE_LEN random)"

definition salted_hash :: "crypto \<Rightarrow> string \<Rightarrow> string \<Rightarrow> bytes" where
  "salted_hash C code path = cy_sha256 C (str_bytes code @ str_bytes path)"

section \<open>Operations\<close>

definition read_state_file :: "temp_sys \<Rightarrow> temp_mode_file option" where
  "read_state_file s = (case ts_file s of Stored f \<Rightarrow> Some f | _ \<Rightarrow> None)"

definition remove_ignoring :: "bool \<Rightarrow> temp_sys \<Rightarrow> temp_sys" where
  "remove_ignoring rm s = (if rm then s\<lparr>ts_file := NoFile\<rparr> else s)"

definition reap_expired :: "bool \<Rightarrow> clock \<Rightarrow> temp_sys \<Rightarrow> bool \<times> temp_sys" where
  "reap_expired rm ck s =
     (if ts_file s = NoFile then (False, s)
      else case read_state_file s of
             None \<Rightarrow> (True, remove_ignoring rm s)
           | Some st \<Rightarrow>
               if tf_expires_at st \<le> ck_wall ck then (True, remove_ignoring rm s) else (False, s))"

definition is_active :: "bool \<Rightarrow> clock \<Rightarrow> temp_sys \<Rightarrow> bool \<times> temp_sys" where
  "is_active rm ck s =
     (let s = snd (reap_expired rm ck s)
      in case read_state_file s of
           None \<Rightarrow> (False, s)
         | Some st \<Rightarrow>
             (case window_clock_healthy ck s of (ok, s) \<Rightarrow> (ok \<and> ck_wall ck < tf_expires_at st, s)))"

text \<open>\<open>fail\<close>: the state could not be serialised, or the file not written; writing replaces it atomically.\<close>

definition enable :: "crypto \<Rightarrow> nat list \<Rightarrow> nat \<Rightarrow> clock \<Rightarrow> temp_mode_error option \<Rightarrow> temp_sys \<Rightarrow>
    (temp_mode_error + string) \<times> temp_sys" where
  "enable C random ttl_secs ck fail s =
     (let code = generate_code random;
          s = reset_window_clock s;
          st = \<lparr>tf_expires_at = sat_add64 (ck_wall ck) ttl_secs,
                tf_code_sha256 = to_hex (salted_hash C code (ts_path s)),
                tf_code_key_sha256 = to_hex (cy_sha256 C (str_bytes code))\<rparr>
      in case fail of
           Some e \<Rightarrow> (Inl e, s)
         | None \<Rightarrow> (Inr code, s\<lparr>ts_file := Stored st\<rparr>))"

definition disable :: "bool \<Rightarrow> clock \<Rightarrow> temp_sys \<Rightarrow> (temp_mode_error + bool) \<times> temp_sys" where
  "disable rm ck s =
     (case is_active rm ck s of
        (was_active, s) \<Rightarrow>
          if ts_file s = NoFile then (Inr was_active, s)
          else if rm then (Inr was_active, s\<lparr>ts_file := NoFile\<rparr>) else (Inl TmIoError, s))"

definition consume :: "bool \<Rightarrow> temp_sys \<Rightarrow> bool \<times> temp_sys" where
  "consume rm s = (if ts_file s \<noteq> NoFile then (True, remove_ignoring rm s) else (False, s))"

definition verify_challenge :: "crypto \<Rightarrow> bool \<Rightarrow> clock \<Rightarrow> string \<Rightarrow> temp_sys \<Rightarrow> bool \<times> temp_sys" where
  "verify_challenge C rm ck code s =
     (case is_active rm ck s of
        (active, s) \<Rightarrow>
          (active \<and> (case Option.bind (read_state_file s) (\<lambda>st. from_hex (tf_code_sha256 st)) of
             None \<Rightarrow> False
           | Some stored \<Rightarrow>
               length stored = 32 \<and>
               foldl (\<lambda>diff (a, b). or diff (xor a b)) 0 (zip (salted_hash C code (ts_path s)) stored) = 0), s))"

definition verify_challenge_response :: "crypto \<Rightarrow> bool \<Rightarrow> clock \<Rightarrow> challenge_answer \<Rightarrow> bytes \<Rightarrow> bytes \<Rightarrow>
    temp_sys \<Rightarrow> bool \<times> temp_sys" where
  "verify_challenge_response C rm ck answer client_x25519_pub client_nonce s =
     (case is_active rm ck s of
        (active, s) \<Rightarrow>
          (active \<and> (case Option.bind (read_state_file s) (\<lambda>st. from_hex (tf_code_key_sha256 st)) of
             None \<Rightarrow> False
           | Some key \<Rightarrow>
               length key = 32 \<and>
               foldl (\<lambda>diff (a, b). or diff (xor a b)) 0
                 (zip (challenge_derive_from_key C key (ca_nonce answer) client_x25519_pub client_nonce)
                      (ca_response answer)) = 0), s))"

definition remaining_secs :: "clock \<Rightarrow> temp_sys \<Rightarrow> nat \<times> temp_sys" where
  "remaining_secs ck s =
     (case window_clock_healthy ck s of
        (ok, s) \<Rightarrow>
          (if \<not> ok then 0
           else case read_state_file s of
                  None \<Rightarrow> 0
                | Some st \<Rightarrow> min (tf_expires_at st - ck_wall ck) U32_MAX, s))"

definition window_state :: "clock \<Rightarrow> temp_sys \<Rightarrow> temp_mode_state option \<times> temp_sys" where
  "window_state ck s =
     (case window_clock_healthy ck s of
        (ok, s) \<Rightarrow>
          if \<not> ok then (None, s)
          else case read_state_file s of
                 None \<Rightarrow> (None, s)
               | Some st \<Rightarrow>
                   if tf_expires_at st \<le> ck_wall ck then (None, s)
                   else (case remaining_secs ck s of
                           (r, s) \<Rightarrow> (Some \<lparr>tms_expires_at = tf_expires_at st, tms_remaining_secs = r\<rparr>, s)))"

section \<open>Hexadecimal\<close>

lemma digit16_hex_digit: "n < 16 \<Longrightarrow> digit16 (hex_digit n) = Some n"
  by (auto simp: digit16_def hex_digit_def Let_def of_char_of)

lemma from_to_hex [simp]: "from_hex (to_hex b) = Some b"
proof (induction b)
  case Nil
  then show ?case by (simp add: to_hex_def)
next
  case (Cons x b)
  have "unat x div 16 < 16" using unat_u8 [of x] by (simp add: less_mult_imp_div_less)
  then have "digit16 (hex_digit (unat x div 16)) = Some (unat x div 16)"
    "digit16 (hex_digit (unat x mod 16)) = Some (unat x mod 16)"
    by (simp_all add: digit16_hex_digit)
  moreover have "of_nat (unat x div 16 * 16 + unat x mod 16) = x" by simp
  ultimately show ?case using Cons by (simp add: to_hex_def hex_byte_def)
qed

section \<open>The clock\<close>

lemma window_clock_healthy_frame [simp]:
  "ts_file (snd (window_clock_healthy ck s)) = ts_file s"
  "ts_path (snd (window_clock_healthy ck s)) = ts_path s"
  by (simp_all add: window_clock_healthy_def split: prod.split)

lemma anchor_fresh: "ck_wall ck \<le> U64_MAX \<Longrightarrow> anchor_check ck (new_anchor ck) = (True, new_anchor ck)"
  by (simp add: anchor_check_def new_anchor_def sat_add64_def mono_elapsed_secs_def not_less
      CLOCK_BACKWARD_TOLERANCE_SECS_def CLOCK_DRIFT_CAP_SECS_def)

lemma anchor_check_keeps:
  assumes "anchor_check ck a = (ok, a')"
  shows "an_mono a' = an_mono a" and "an_wall a' = an_wall a" and "an_max_wall a \<le> an_max_wall a'"
    and "an_poisoned a \<Longrightarrow> an_poisoned a'"
  using assms by (auto simp: anchor_check_def split: if_splits)

lemma anchor_check_ok:
  assumes "anchor_check ck a = (True, a')"
  shows "\<not> an_poisoned a" and "mono_elapsed_secs ck a \<le> ck_wall ck - an_wall a + CLOCK_DRIFT_CAP_SECS"
    and "min (ck_wall ck + CLOCK_BACKWARD_TOLERANCE_SECS) U64_MAX \<ge> an_max_wall a"
    and "ck_wall ck \<le> an_max_wall a'"
  using assms by (auto simp: anchor_check_def sat_add64_def not_less min_def split: if_splits)

text \<open>The operations other than opening a window, and what they do to the anchor.\<close>

datatype temp_op =
    OpActive clock
  | OpReap clock
  | OpDisable clock
  | OpConsume
  | OpVerify clock string
  | OpAnswer clock challenge_answer bytes bytes
  | OpRemaining clock
  | OpState clock

fun temp_exec :: "crypto \<Rightarrow> bool \<Rightarrow> temp_op \<Rightarrow> temp_sys \<Rightarrow> temp_sys" where
  "temp_exec C rm (OpActive ck) s = snd (is_active rm ck s)"
| "temp_exec C rm (OpReap ck) s = snd (reap_expired rm ck s)"
| "temp_exec C rm (OpDisable ck) s = snd (disable rm ck s)"
| "temp_exec C rm OpConsume s = snd (consume rm s)"
| "temp_exec C rm (OpVerify ck code) s = snd (verify_challenge C rm ck code s)"
| "temp_exec C rm (OpAnswer ck a x n) s = snd (verify_challenge_response C rm ck a x n s)"
| "temp_exec C rm (OpRemaining ck) s = snd (remaining_secs ck s)"
| "temp_exec C rm (OpState ck) s = snd (window_state ck s)"

definition temp_run :: "crypto \<Rightarrow> (bool \<times> temp_op) list \<Rightarrow> temp_sys \<Rightarrow> temp_sys" where
  "temp_run C ops s = fold (\<lambda>(rm, op). temp_exec C rm op) ops s"

definition anchor_of :: "temp_sys \<Rightarrow> clock_anchor option" where
  "anchor_of s = hm_get (ts_clocks s) (ts_path s)"

text \<open>An anchor stays where it was made, never lowers its highest reading and never heals; the file is kept or goes.\<close>

definition anchor_later :: "temp_sys \<Rightarrow> temp_sys \<Rightarrow> bool" where
  "anchor_later s s' \<longleftrightarrow> ts_path s' = ts_path s \<and> (ts_file s' = ts_file s \<or> ts_file s' = NoFile) \<and>
     (\<forall>a. anchor_of s = Some a \<longrightarrow> (\<exists>a'. anchor_of s' = Some a' \<and> an_mono a' = an_mono a \<and> an_wall a' = an_wall a \<and>
        an_max_wall a \<le> an_max_wall a' \<and> (an_poisoned a \<longrightarrow> an_poisoned a')))"

lemma anchor_later_refl [simp]: "anchor_later s s"
  by (simp add: anchor_later_def)

lemma anchor_later_trans: "anchor_later s s' \<Longrightarrow> anchor_later s' s'' \<Longrightarrow> anchor_later s s''"
  by (fastforce simp: anchor_later_def)

lemma anchor_later_file: "anchor_later s (s\<lparr>ts_file := NoFile\<rparr>)" "anchor_later s (remove_ignoring rm s)"
  by (simp_all add: anchor_later_def anchor_of_def remove_ignoring_def)

lemma anchor_later_healthy: "anchor_later s (snd (window_clock_healthy ck s))"
proof -
  obtain ok a where a: "anchor_check ck (hm_or_insert (new_anchor ck) (ts_clocks s) (ts_path s)) = (ok, a)"
    by (cases "anchor_check ck (hm_or_insert (new_anchor ck) (ts_clocks s) (ts_path s))")
  have "snd (window_clock_healthy ck s) = s\<lparr>ts_clocks := hm_put (ts_path s) a (ts_clocks s)\<rparr>"
    by (simp add: window_clock_healthy_def a)
  then show ?thesis
    using anchor_check_keeps [OF a] by (auto simp: anchor_later_def anchor_of_def hm_or_insert_def)
qed

lemma anchor_later_reap: "anchor_later s (snd (reap_expired rm ck s))"
  by (simp add: reap_expired_def anchor_later_file split: option.split)

lemma is_active_eq:
  "is_active rm ck s =
     (case read_state_file (snd (reap_expired rm ck s)) of
        None \<Rightarrow> (False, snd (reap_expired rm ck s))
      | Some st \<Rightarrow> (fst (window_clock_healthy ck (snd (reap_expired rm ck s))) \<and> ck_wall ck < tf_expires_at st,
                    snd (window_clock_healthy ck (snd (reap_expired rm ck s)))))"
  by (simp add: is_active_def Let_def split: option.split prod.split)

lemma anchor_later_active: "anchor_later s (snd (is_active rm ck s))"
  unfolding is_active_eq
  by (auto split: option.split intro: anchor_later_reap anchor_later_trans [OF anchor_later_reap anchor_later_healthy])

lemma snd_remaining_secs: "snd (remaining_secs ck s) = snd (window_clock_healthy ck s)"
  by (simp add: remaining_secs_def split: prod.split)

lemma snd_verify:
  "snd (verify_challenge C rm ck code s) = snd (is_active rm ck s)"
  "snd (verify_challenge_response C rm ck a x n s) = snd (is_active rm ck s)"
  by (simp_all add: verify_challenge_def verify_challenge_response_def split: prod.split)

lemma anchor_later_exec: "anchor_later s (temp_exec C rm op s)"
proof (cases op)
  case (OpDisable ck)
  then show ?thesis
    using anchor_later_active [of s rm ck]
    by (auto simp: disable_def split: prod.split intro: anchor_later_trans anchor_later_file)
next
  case (OpState ck)
  obtain ok s1 where w: "window_clock_healthy ck s = (ok, s1)" by (cases "window_clock_healthy ck s")
  obtain r s2 where r: "remaining_secs ck s1 = (r, s2)" by (cases "remaining_secs ck s1")
  have "s2 = snd (window_clock_healthy ck s1)" using snd_remaining_secs [of ck s1] r by simp
  with w r have "snd (window_state ck s) \<in> {snd (window_clock_healthy ck s), snd (window_clock_healthy ck (snd (window_clock_healthy ck s)))}"
    by (simp add: window_state_def split: option.split)
  then show ?thesis
    using OpState anchor_later_healthy [of s ck] anchor_later_trans [OF anchor_later_healthy anchor_later_healthy, of s ck ck]
    by auto
qed (use anchor_later_active [of s rm] anchor_later_healthy [of s] in
      \<open>auto simp: consume_def snd_verify snd_remaining_secs anchor_later_reap anchor_later_file\<close>)

lemma anchor_later_run: "anchor_later s (temp_run C ops s)"
  unfolding temp_run_def
proof (induction ops arbitrary: s)
  case (Cons x ops)
  obtain rm op where x: "x = (rm, op)" by (cases x)
  have "anchor_later (temp_exec C rm op s) (fold (\<lambda>(rm, op). temp_exec C rm op) ops (temp_exec C rm op s))"
    by (rule Cons.IH)
  with x show ?case by (simp add: anchor_later_trans [OF anchor_later_exec])
qed simp

lemma is_active_True:
  assumes "fst (is_active rm ck s)"
  shows "\<exists>st a'. ts_file s = Stored st \<and> ck_wall ck < tf_expires_at st \<and>
    anchor_check ck (hm_or_insert (new_anchor ck) (ts_clocks s) (ts_path s)) = (True, a') \<and>
    anchor_of (snd (is_active rm ck s)) = Some a'"
proof -
  let ?s1 = "snd (reap_expired rm ck s)"
  have act: "fst (window_clock_healthy ck ?s1) \<and> read_state_file ?s1 \<noteq> None"
    using assms by (auto simp: is_active_eq split: option.splits)
  then obtain st where st: "ts_file ?s1 = Stored st" by (auto simp: read_state_file_def split: state_file.splits)
  have s1: "?s1 = s"
    using st by (auto simp: reap_expired_def read_state_file_def remove_ignoring_def split: if_splits option.splits state_file.splits)
  obtain ok a' where a: "anchor_check ck (hm_or_insert (new_anchor ck) (ts_clocks s) (ts_path s)) = (ok, a')"
    by (cases "anchor_check ck (hm_or_insert (new_anchor ck) (ts_clocks s) (ts_path s))")
  show ?thesis
    using assms act st unfolding is_active_eq s1
    by (auto simp: read_state_file_def a window_clock_healthy_def anchor_of_def)
qed

text \<open>
  C6. A window cannot be stretched by setting the clock. Take any moment at which a window is active and
  what is called on it afterwards, up to the next \<^verbatim>\<open>enable\<close>, however the wall clock is moved. The process
  then holds one reference for the window, a pair of readings of the two clocks, which is this moment
  when it is the window's first observation and never changes afterwards. While the window is active,
  no more monotonic time has passed since the reference than the window had left at it plus the
  tolerated drift of 60 seconds. And a later reading more than five seconds below this moment's wall
  clock closes the window for good.
\<close>
theorem temp_window_bounded:
  assumes "fst (is_active rm0 ck0 s)"
  shows "let s1 = snd (is_active rm0 ck0 s)
    in \<exists>st a. ts_file s = Stored st \<and> anchor_of s1 = Some a
     \<and> (anchor_of s = None \<longrightarrow> an_mono a = ck_mono ck0 \<and> an_wall a = ck_wall ck0)
     \<and> (\<forall>ops. \<exists>a2. anchor_of (temp_run C ops s1) = Some a2 \<and> an_mono a2 = an_mono a \<and> an_wall a2 = an_wall a)
     \<and> (\<forall>ops rm ck. fst (is_active rm ck (temp_run C ops s1)) \<longrightarrow>
          (ck_mono ck - an_mono a) div 1000000000 \<le> tf_expires_at st - an_wall a + CLOCK_DRIFT_CAP_SECS)
     \<and> (\<forall>ops ops' rm rm' ck ck'. ck_wall ck' + CLOCK_BACKWARD_TOLERANCE_SECS < ck_wall ck0 \<longrightarrow>
          \<not> fst (is_active rm ck (temp_run C ops (snd (is_active rm' ck' (temp_run C ops' s1))))))"
proof -
  define s1 where "s1 = snd (is_active rm0 ck0 s)"
  from is_active_True [OF assms] obtain st a1 where st: "ts_file s = Stored st"
    and a1: "anchor_check ck0 (hm_or_insert (new_anchor ck0) (ts_clocks s) (ts_path s)) = (True, a1)" "anchor_of s1 = Some a1"
    by (auto simp: s1_def)
  note keep = anchor_check_keeps [OF a1(1)] anchor_check_ok(4) [OF a1(1)]
  have first: "an_mono a1 = ck_mono ck0 \<and> an_wall a1 = ck_wall ck0" if "anchor_of s = None"
    using that keep by (auto simp: anchor_of_def hm_or_insert_def new_anchor_def)
  have file1: "ts_file s1 = Stored st \<or> ts_file s1 = NoFile"
    using anchor_later_active [of s rm0 ck0] st by (auto simp: anchor_later_def s1_def)
  have later: "\<exists>a. anchor_of s2 = Some a \<and> an_mono a = an_mono a1 \<and> an_wall a = an_wall a1 \<and> ck_wall ck0 \<le> an_max_wall a"
    "ts_file s2 = Stored st \<or> ts_file s2 = NoFile" if "anchor_later s1 s2" for s2
    using that a1(2) keep file1 by (fastforce simp: anchor_later_def)+
  have bound: "(ck_mono ck - an_mono a1) div 1000000000 \<le> tf_expires_at st - an_wall a1 + CLOCK_DRIFT_CAP_SECS"
    if act: "fst (is_active rm ck (temp_run C ops s1))" for rm ck ops
  proof -
    from later [OF anchor_later_run, of C ops] is_active_True [OF act] obtain a a' where
      "anchor_check ck a = (True, a')" "an_mono a = an_mono a1" "an_wall a = an_wall a1" "ck_wall ck < tf_expires_at st"
      by (auto simp: anchor_of_def hm_or_insert_def)
    then show ?thesis
      using anchor_check_ok(2) [of ck a a'] by (simp add: mono_elapsed_secs_def)
  qed
  have closed: "\<not> fst (is_active rm ck (temp_run C ops s3))"
    if rolled: "ck_wall ck' + CLOCK_BACKWARD_TOLERANCE_SECS < ck_wall ck0"
      and s3: "s3 = snd (is_active rm' ck' (temp_run C ops' s1))" for s3 rm rm' ck ck' ops ops'
  proof
    assume act: "fst (is_active rm ck (temp_run C ops s3))"
    define s2 where "s2 = temp_run C ops' s1"
    from is_active_True [OF act] obtain st' where "ts_file (temp_run C ops s3) = Stored st'" by blast
    then have "ts_file s3 = Stored st'" using anchor_later_run [of s3 C ops] by (auto simp: anchor_later_def)
    then obtain st'' where reap: "read_state_file (snd (reap_expired rm' ck' s2)) = Some st''"
      unfolding s3 s2_def [symmetric] is_active_eq by (auto simp: read_state_file_def split: option.splits state_file.splits)
    let ?r = "snd (reap_expired rm' ck' s2)"
    have "anchor_later s1 ?r"
      unfolding s2_def by (rule anchor_later_trans [OF anchor_later_run anchor_later_reap])
    from later(1) [OF this] obtain a where a: "anchor_of ?r = Some a" "ck_wall ck0 \<le> an_max_wall a" by blast
    have "anchor_check ck' a = (False, a\<lparr>an_poisoned := True\<rparr>) \<or> anchor_check ck' a = (False, a) \<and> an_poisoned a"
      using a(2) rolled by (auto simp: anchor_check_def sat_add64_def)
    then have "\<exists>a'. anchor_of s3 = Some a' \<and> an_poisoned a'"
      using a(1) unfolding s3 s2_def [symmetric] is_active_eq reap
      by (auto simp: window_clock_healthy_def anchor_of_def hm_or_insert_def)
    then obtain a3 where a3: "anchor_of (temp_run C ops s3) = Some a3" "an_poisoned a3"
      using anchor_later_run [of s3 C ops] by (auto simp: anchor_later_def)
    from is_active_True [OF act] a3 show False
      by (auto simp: anchor_of_def hm_or_insert_def dest: anchor_check_ok(1))
  qed
  show ?thesis
    unfolding s1_def [symmetric] Let_def
    by (rule exI [of _ st], rule exI [of _ a1], intro conjI)
       (use st a1(2) first bound closed [OF _ refl] later(1) [OF anchor_later_run] in blast)+
qed

section \<open>What a window accepts\<close>

lemma verify_challenge_response_stored:
  assumes "ts_file s = Stored st" and "from_hex (tf_code_key_sha256 st) = Some key" and "length key = 32"
    and "anchor_of s = None" and "ck_wall ck \<le> U64_MAX"
    and "length (ca_response a) = length (challenge_derive_from_key C key (ca_nonce a) x n)"
  shows "fst (verify_challenge_response C rm ck a x n s) \<longleftrightarrow>
    ck_wall ck < tf_expires_at st \<and> ca_response a = challenge_derive_from_key C key (ca_nonce a) x n"
proof (cases "tf_expires_at st \<le> ck_wall ck")
  case True
  have "\<not> fst (is_active rm ck s)" using is_active_True [of rm ck s] True assms(1) by auto
  with True show ?thesis by (auto simp: verify_challenge_response_def split: prod.split)
next
  case False
  then have "reap_expired rm ck s = (False, s)" using assms(1) by (simp add: reap_expired_def read_state_file_def)
  moreover have "fst (window_clock_healthy ck s)"
    using assms(4,5) by (simp add: window_clock_healthy_def hm_or_insert_def anchor_of_def anchor_fresh)
  ultimately have "is_active rm ck s = (True, snd (window_clock_healthy ck s))"
    using assms(1) False by (simp add: is_active_eq read_state_file_def)
  then show ?thesis
    using assms(1,2,3) False xor_fold_eq [OF assms(6) [symmetric]]
    by (auto simp: verify_challenge_response_def read_state_file_def)
qed

text \<open>
  C7. What an opened window accepts. After \<^verbatim>\<open>enable\<close> the first answer that is checked passes if and only
  if the window has not run out and the answer is the response to that nonce, for that client's keys, of
  the very code that was handed out; a consumed or a disabled window accepts nothing.
\<close>
theorem opened_window_accepts:
  assumes "enable C random ttl ck0 None s = (Inr code, s1)" and "ck_wall ck \<le> U64_MAX"
    and "\<And>m. length (cy_sha256 C m) = 32" and "\<And>k m. length (cy_hmac C k m) = length (ca_response a)"
  shows "(fst (verify_challenge_response C rm ck a x n s1) \<longleftrightarrow>
      ck_wall ck < sat_add64 (ck_wall ck0) ttl \<and> ca_response a = challenge_response C code (ca_nonce a) x n)
    \<and> \<not> fst (verify_challenge_response C rm ck a x n (snd (consume True s1)))
    \<and> \<not> fst (verify_challenge_response C rm ck a x n (snd (disable True ck0 s1)))"
proof -
  have s1: "ts_file s1 = Stored \<lparr>tf_expires_at = sat_add64 (ck_wall ck0) ttl,
      tf_code_sha256 = to_hex (salted_hash C code (ts_path s)),
      tf_code_key_sha256 = to_hex (cy_sha256 C (str_bytes code))\<rparr>"
    and anchor: "anchor_of s1 = None"
    using assms(1) by (auto simp: enable_def Let_def reset_window_clock_def anchor_of_def)
  have gone: "\<not> fst (verify_challenge_response C rm ck a x n s')" if "ts_file s' = NoFile" for s'
    using that is_active_True [of rm ck s'] by (auto simp: verify_challenge_response_def split: prod.split)
  have "ts_file (snd (consume True s1)) = NoFile" "ts_file (snd (disable True ck0 s1)) = NoFile"
    by (auto simp: consume_def remove_ignoring_def disable_def split: prod.split)
  moreover have "fst (verify_challenge_response C rm ck a x n s1) \<longleftrightarrow>
      ck_wall ck < sat_add64 (ck_wall ck0) ttl \<and> ca_response a = challenge_response C code (ca_nonce a) x n"
    using verify_challenge_response_stored [OF s1 _ _ anchor assms(2), where C = C and key = "cy_sha256 C (str_bytes code)"]
      assms(3,4) by (simp add: challenge_response_def challenge_derive_from_key_def)
  ultimately show ?thesis using gone by blast
qed

section \<open>Examples\<close>

definition demo_cy :: crypto where
  "demo_cy = \<lparr>cy_sha256 = (\<lambda>m. take 32 (rev m @ replicate 32 0)), cy_hmac = (\<lambda>k m. take 32 (map2 (+) k m @ replicate 32 0)),
     cy_hkdf = (\<lambda>s i n. i), cy_b64_decode = (\<lambda>s. Inr (str_bytes s)), cy_b64_encode = map (\<lambda>x. char_of (unat x)),
     cy_point = (\<lambda>b. None), cy_public = (\<lambda>k. take 32 (k @ replicate 32 0)),
     cy_sign = (\<lambda>k m. take 64 (take 32 (k @ replicate 32 0) @ m @ replicate 64 0)),
     cy_verify = (\<lambda>k m s. s = take 64 (k @ m @ replicate 64 0)), cy_x25519 = map2 (*),
     cy_seal = (\<lambda>k n p a. Inr p), cy_open = (\<lambda>k n c a. Some c)\<rparr>"

definition demo_sys :: temp_sys where
  "demo_sys = \<lparr>ts_path = ''t'', ts_file = NoFile, ts_clocks = []\<rparr>"

definition demo_window :: temp_sys where
  "demo_window = snd (enable demo_cy [0, 1, 2, 3, 4, 5, 6, 7, 8, 9] 300 \<lparr>ck_wall = 1000, ck_mono = 0\<rparr> None demo_sys)"

lemma demo_window_eq:
  "\<exists>h k. demo_window = \<lparr>ts_path = ''t'', ts_file = Stored \<lparr>tf_expires_at = 1300, tf_code_sha256 = h, tf_code_key_sha256 = k\<rparr>,
     ts_clocks = []\<rparr>"
  by (simp add: demo_window_def demo_sys_def enable_def Let_def reset_window_clock_def sat_add64_def U64_MAX_def)

theorem opened_window_accepts_witness:
  "let a = \<lparr>ca_nonce = [7], ca_response = challenge_response demo_cy ''ABCDEFGHJK'' [7] [8] [9]\<rparr>
   in fst (verify_challenge_response demo_cy True \<lparr>ck_wall = 1299, ck_mono = 5\<rparr> a [8] [9] demo_window) \<and>
      \<not> fst (verify_challenge_response demo_cy True \<lparr>ck_wall = 1300, ck_mono = 5\<rparr> a [8] [9] demo_window)"
proof -
  have e: "enable demo_cy [0, 1, 2, 3, 4, 5, 6, 7, 8, 9] 300 \<lparr>ck_wall = 1000, ck_mono = 0\<rparr> None demo_sys
      = (Inr ''ABCDEFGHJK'', demo_window)"
    by (simp add: demo_window_def enable_def Let_def generate_code_def CODE_CHARSET_def CODE_LEN_def)
  have "length (cy_sha256 demo_cy m) = 32" "length (cy_hmac demo_cy k m) = 32" for k m
    by (simp_all add: demo_cy_def)
  moreover have "length (challenge_response demo_cy c n x y) = 32" for c n x y
    by (simp add: challenge_response_def challenge_derive_from_key_def demo_cy_def)
  ultimately show ?thesis
    using opened_window_accepts [OF e, where a = "\<lparr>ca_nonce = [7], ca_response = challenge_response demo_cy ''ABCDEFGHJK'' [7] [8] [9]\<rparr>"
        and x = "[8]" and n = "[9]" and ck = "\<lparr>ck_wall = 1299, ck_mono = 5\<rparr>" and rm = True]
      opened_window_accepts [OF e, where a = "\<lparr>ca_nonce = [7], ca_response = challenge_response demo_cy ''ABCDEFGHJK'' [7] [8] [9]\<rparr>"
        and x = "[8]" and n = "[9]" and ck = "\<lparr>ck_wall = 1300, ck_mono = 5\<rparr>" and rm = True]
    by (simp add: Let_def U64_MAX_def sat_add64_def)
qed

lemma demo_window_active: "fst (is_active True \<lparr>ck_wall = 1100, ck_mono = 0\<rparr> demo_window)"
proof -
  obtain h k where d: "demo_window = \<lparr>ts_path = ''t'', ts_file = Stored \<lparr>tf_expires_at = 1300, tf_code_sha256 = h,
      tf_code_key_sha256 = k\<rparr>, ts_clocks = []\<rparr>" using demo_window_eq by blast
  show ?thesis
    unfolding d by (simp add: is_active_eq reap_expired_def read_state_file_def window_clock_healthy_def hm_or_insert_def anchor_fresh U64_MAX_def)
qed

theorem temp_window_bounded_witness:
  "\<not> fst (is_active True \<lparr>ck_wall = 1200, ck_mono = 261000000000\<rparr> (snd (is_active True \<lparr>ck_wall = 1100, ck_mono = 0\<rparr> demo_window)))"
proof -
  obtain h k where d: "demo_window = \<lparr>ts_path = ''t'', ts_file = Stored \<lparr>tf_expires_at = 1300, tf_code_sha256 = h,
      tf_code_key_sha256 = k\<rparr>, ts_clocks = []\<rparr>" using demo_window_eq by blast
  have w: "anchor_of demo_window = None" "ts_file demo_window = Stored \<lparr>tf_expires_at = 1300, tf_code_sha256 = h,
      tf_code_key_sha256 = k\<rparr>" by (simp_all add: d anchor_of_def)
  let ?s1 = "snd (is_active True \<lparr>ck_wall = 1100, ck_mono = 0\<rparr> demo_window)"
  from temp_window_bounded [OF demo_window_active, of demo_cy, unfolded Let_def] obtain st and a :: clock_anchor
    where st: "ts_file demo_window = Stored st"
    and first: "anchor_of demo_window = None \<longrightarrow> an_mono a = ck_mono \<lparr>ck_wall = 1100, ck_mono = 0\<rparr> \<and>
      an_wall a = ck_wall \<lparr>ck_wall = 1100, ck_mono = 0\<rparr>"
    and b: "\<forall>ops rm ck. fst (is_active rm ck (temp_run demo_cy ops ?s1)) \<longrightarrow>
      (ck_mono ck - an_mono a) div 1000000000 \<le> tf_expires_at st - an_wall a + CLOCK_DRIFT_CAP_SECS"
    by (elim exE conjE) (rule that, assumption+)
  have "an_mono a = 0" "an_wall a = 1100" "tf_expires_at st = 1300" using w st first by auto
  with b [THEN spec, of "[]", THEN spec, of True, THEN spec, of "\<lparr>ck_wall = 1200, ck_mono = 261000000000\<rparr>"]
  show ?thesis by (auto simp: temp_run_def CLOCK_DRIFT_CAP_SECS_def)
qed

text \<open>
  An \<^verbatim>\<open>enable\<close> that fails revives a window the guard had closed. The anchor is dropped before the new
  state is written; when writing fails the old file stays, and with the clock still set back the old
  code is accepted again.
\<close>
theorem failed_enable_revives:
  "\<exists>s. let early = \<lparr>ck_wall = 1010, ck_mono = 100\<rparr>; s' = snd (enable demo_cy [0] 300 early (Some TmIoError) s)
     in \<not> fst (is_active True early s) \<and> fst (enable demo_cy [0] 300 early (Some TmIoError) s) = Inl TmIoError
      \<and> fst (is_active True early s')"
proof -
  obtain h k where d: "demo_window = \<lparr>ts_path = ''t'', ts_file = Stored \<lparr>tf_expires_at = 1300, tf_code_sha256 = h,
      tf_code_key_sha256 = k\<rparr>, ts_clocks = []\<rparr>" using demo_window_eq by blast
  show ?thesis
    by (rule exI [of _ "snd (is_active True \<lparr>ck_wall = 1100, ck_mono = 0\<rparr> demo_window)"])
       (simp add: d Let_def enable_def reset_window_clock_def is_active_eq reap_expired_def read_state_file_def
          window_clock_healthy_def hm_or_insert_def anchor_check_def new_anchor_def sat_add64_def U64_MAX_def
          mono_elapsed_secs_def CLOCK_BACKWARD_TOLERANCE_SECS_def CLOCK_DRIFT_CAP_SECS_def)
qed

end
