(* ===== verification/Core_Handshake.thy ===== *)
theory Core_Handshake
  imports Core_TempMode Strings
begin

text \<open>
  The handshake of the core, \<^verbatim>\<open>core/src/crypto/handshake.rs\<close>: messages, the version gate, the challenge round,
  the check of a client's first message, the client's and the server's exchange. Bincode is a
  parameter (\<open>hs_codec\<close>), and so is whether a message can be sent (\<open>net\<close>, from what was sent before). What arrives
  is data: \<open>hio_reads\<close> says how each \<^verbatim>\<open>receive_message\<close> ends. \<open>Silence\<close> is a peer that sends nothing; a read without
  a time limit then never returns, which the outcome \<open>HsNever\<close> stands for. \<open>HsPanicked\<close> is a panic.
  Random bytes are arguments; log lines are left out.
\<close>

section \<open>Errors\<close>

datatype io_kind = UnexpectedEof | ConnectionAborted | ConnectionReset | BrokenPipe | TimedOut | NotConnected | OtherIo string

datatype tcp_error = TcpBind | TcpConnect | TcpTimeout | MessageTooLarge nat nat | TcpIo io_kind

datatype hs_error =
    HsTcp tcp_error
  | HsIo io_kind
  | HsDns string
  | HsSignatureVerificationFailed
  | HsInvalidMessage string
  | HsTimeout
  | HsSerialization string
  | HsRejected string
  | HsTypeMismatch string string
  | HsServerKeyMismatch string string
  | HsUntrustedKey string
  | HsClientKeyMismatch string string
  | HsServerTooNew u32 u32
  | HsPanicked
  | HsNever

definition split_first :: "char \<Rightarrow> string \<Rightarrow> string" where
  "split_first c s = takeWhile (\<lambda>x. x \<noteq> c) s"

fun reject_code :: "hs_error \<Rightarrow> string option" where
  "reject_code (HsRejected msg) = Some (split_first (CHR ''|'') msg)"
| "reject_code _ = None"

section \<open>Pins\<close>

datatype core_reason = InternalLoopback | UserConfirmRequired
datatype pin_expectation = PinNone core_reason | PinExact bytes

definition exact_from_base64 :: "crypto \<Rightarrow> string \<Rightarrow> hs_error + pin_expectation" where
  "exact_from_base64 C base64_key =
     (case parse_public_key C base64_key of Inl e \<Rightarrow> Inl (HsDns e) | Inr k \<Rightarrow> Inr (PinExact k))"

fun resolve_base64 :: "crypto \<Rightarrow> bytes \<Rightarrow> pin_expectation \<Rightarrow> hs_error + string" where
  "resolve_base64 C sk (PinExact b) = Inr (cy_b64_encode C b)"
| "resolve_base64 C sk (PinNone InternalLoopback) = Inr (public_key_base64 C sk)"
| "resolve_base64 C sk (PinNone UserConfirmRequired) =
     Inl (HsUntrustedKey ''UserConfirmRequired has no server-side pin to resolve'')"

section \<open>Messages\<close>

definition PROTOCOL_VERSION :: u32 where "PROTOCOL_VERSION = 4"
definition PROTO_VER_LEGACY :: u32 where "PROTO_VER_LEGACY = 0"

text \<open>The layouts a first message had: each later one appends fields.\<close>

record legacy_init_v1 =
  hi_client_id :: string
  hi_client_domain :: string
  hi_client_device_type :: string
  hi_challenge :: string
  hi_client_ed25519_pub_base64 :: string
  hi_client_x25519_pub :: bytes
  hi_nonce :: bytes
  hi_signature :: bytes
  hi_supported_codecs :: "string list"

record legacy_init_v2 = legacy_init_v1 +
  hi_proto_ver :: u32
  hi_requested_max_width :: u32

record handshake_init = legacy_init_v2 +
  hi_client_os :: string
  hi_challenge_resp :: bytes

record legacy_response_v1 =
  hr_server_x25519_pub :: bytes
  hr_server_ed25519_pub_base64 :: string
  hr_signature :: bytes
  hr_selected_codec :: string
  hr_server_fingerprint :: string

record legacy_response_v2 = legacy_response_v1 +
  hr_proto_ver :: u32

record handshake_response = legacy_response_v2 +
  hr_server_os :: string

definition HANDSHAKE_CHALLENGE_MAGIC :: bytes where "HANDSHAKE_CHALLENGE_MAGIC = str_bytes ''KIRINCH1''"

record handshake_challenge =
  hc_magic :: bytes
  hc_nonce :: bytes

record handshake_challenge_resp =
  hcr_magic :: bytes
  hcr_response :: bytes

record handshake_reject =
  hj_code :: string
  hj_detail :: string

record hs_codec =
  ser_init :: "handshake_init \<Rightarrow> string + bytes"
  de_init :: "bytes \<Rightarrow> string + handshake_init"
  de_init_v2 :: "bytes \<Rightarrow> string + legacy_init_v2"
  de_init_v1 :: "bytes \<Rightarrow> string + legacy_init_v1"
  ser_response :: "handshake_response \<Rightarrow> string + bytes"
  de_response :: "bytes \<Rightarrow> string + handshake_response"
  de_response_v2 :: "bytes \<Rightarrow> string + legacy_response_v2"
  de_response_v1 :: "bytes \<Rightarrow> string + legacy_response_v1"
  ser_challenge :: "handshake_challenge \<Rightarrow> string + bytes"
  de_challenge :: "bytes \<Rightarrow> string + handshake_challenge"
  ser_challenge_resp :: "handshake_challenge_resp \<Rightarrow> string + bytes"
  de_challenge_resp :: "bytes \<Rightarrow> string + handshake_challenge_resp"
  ser_reject :: "handshake_reject \<Rightarrow> string + bytes"
  de_reject :: "bytes \<Rightarrow> string + handshake_reject"

definition parse_handshake_init :: "hs_codec \<Rightarrow> bytes \<Rightarrow> hs_error + handshake_init" where
  "parse_handshake_init B d =
     (case de_init B d of
        Inr init \<Rightarrow> Inr init
      | Inl _ \<Rightarrow>
          (case de_init_v2 B d of
             Inr l \<Rightarrow> Inr \<lparr>hi_client_id = hi_client_id l, hi_client_domain = hi_client_domain l,
               hi_client_device_type = hi_client_device_type l, hi_challenge = hi_challenge l,
               hi_client_ed25519_pub_base64 = hi_client_ed25519_pub_base64 l,
               hi_client_x25519_pub = hi_client_x25519_pub l, hi_nonce = hi_nonce l, hi_signature = hi_signature l,
               hi_supported_codecs = hi_supported_codecs l, hi_proto_ver = hi_proto_ver l,
               hi_requested_max_width = hi_requested_max_width l, hi_client_os = [], hi_challenge_resp = []\<rparr>
           | Inl _ \<Rightarrow>
               (case de_init_v1 B d of
                  Inr l \<Rightarrow> Inr \<lparr>hi_client_id = hi_client_id l, hi_client_domain = hi_client_domain l,
                    hi_client_device_type = hi_client_device_type l, hi_challenge = hi_challenge l,
                    hi_client_ed25519_pub_base64 = hi_client_ed25519_pub_base64 l,
                    hi_client_x25519_pub = hi_client_x25519_pub l, hi_nonce = hi_nonce l, hi_signature = hi_signature l,
                    hi_supported_codecs = hi_supported_codecs l, hi_proto_ver = PROTO_VER_LEGACY,
                    hi_requested_max_width = 0, hi_client_os = [], hi_challenge_resp = []\<rparr>
                | Inl e \<Rightarrow> Inl (HsInvalidMessage e))))"

definition parse_handshake_response :: "hs_codec \<Rightarrow> bytes \<Rightarrow> hs_error + handshake_response" where
  "parse_handshake_response B d =
     (case de_response B d of
        Inr r \<Rightarrow> Inr r
      | Inl _ \<Rightarrow>
          (case de_response_v2 B d of
             Inr l \<Rightarrow> Inr \<lparr>hr_server_x25519_pub = hr_server_x25519_pub l,
               hr_server_ed25519_pub_base64 = hr_server_ed25519_pub_base64 l, hr_signature = hr_signature l,
               hr_selected_codec = hr_selected_codec l, hr_server_fingerprint = hr_server_fingerprint l,
               hr_proto_ver = hr_proto_ver l, hr_server_os = []\<rparr>
           | Inl _ \<Rightarrow>
               (case de_response_v1 B d of
                  Inr l \<Rightarrow> Inr \<lparr>hr_server_x25519_pub = hr_server_x25519_pub l,
                    hr_server_ed25519_pub_base64 = hr_server_ed25519_pub_base64 l, hr_signature = hr_signature l,
                    hr_selected_codec = hr_selected_codec l, hr_server_fingerprint = hr_server_fingerprint l,
                    hr_proto_ver = PROTO_VER_LEGACY, hr_server_os = []\<rparr>
                | Inl e \<Rightarrow> Inl (HsInvalidMessage e))))"

section \<open>Codes, gates and negotiation\<close>

definition REJECT_CODE_ID_WHITELIST :: string where "REJECT_CODE_ID_WHITELIST = ''id_whitelist_denied''"
definition REJECT_CODE_CHALLENGE_MISMATCH :: string where "REJECT_CODE_CHALLENGE_MISMATCH = ''challenge_mismatch''"
definition REJECT_CODE_NICKNAME_MISMATCH :: string where "REJECT_CODE_NICKNAME_MISMATCH = ''nickname_mismatch''"
definition REJECT_CODE_CLIENT_KEY_MISMATCH :: string where "REJECT_CODE_CLIENT_KEY_MISMATCH = ''client_key_mismatch''"
definition REJECT_CODE_CREDENTIALS_REQUIRED :: string where "REJECT_CODE_CREDENTIALS_REQUIRED = ''credentials_required''"
definition REJECT_CODE_APPROVAL_DECLINED :: string where "REJECT_CODE_APPROVAL_DECLINED = ''approval_declined''"
definition REJECT_CODE_APPROVAL_TIMEOUT :: string where "REJECT_CODE_APPROVAL_TIMEOUT = ''approval_timeout''"
definition REJECT_CODE_UNATTENDED_UNKNOWN :: string where "REJECT_CODE_UNATTENDED_UNKNOWN = ''unattended_unknown''"
definition REJECT_CODE_MUTUAL_CONTROL :: string where "REJECT_CODE_MUTUAL_CONTROL = ''mutual_control_denied''"
definition REJECT_CODE_RATE_LIMITED :: string where "REJECT_CODE_RATE_LIMITED = ''rate_limited''"
definition REJECT_CODE_VERSION_MISMATCH :: string where "REJECT_CODE_VERSION_MISMATCH = ''version_mismatch''"

definition server_version_gate :: "u32 \<Rightarrow> u32 \<Rightarrow> bool" where
  "server_version_gate server_ver client_ver \<longleftrightarrow> client_ver \<noteq> server_ver"

definition client_version_gate :: "u32 \<Rightarrow> u32 \<Rightarrow> bool" where
  "client_version_gate client_ver server_ver \<longleftrightarrow> server_ver \<noteq> client_ver"

definition client_version_too_new :: "u32 \<Rightarrow> bool" where
  "client_version_too_new ver = server_version_gate PROTOCOL_VERSION ver"

fun handshake_error_reject_code :: "hs_error \<Rightarrow> string option" where
  "handshake_error_reject_code (HsClientKeyMismatch _ _) = Some REJECT_CODE_CLIENT_KEY_MISMATCH"
| "handshake_error_reject_code (HsInvalidMessage msg) =
     (if starts_with msg ''nickname mismatch'' then Some REJECT_CODE_NICKNAME_MISMATCH
      else if msg = ''challenge mismatch'' then Some REJECT_CODE_CHALLENGE_MISMATCH
      else if starts_with msg ''server requires credentials'' then Some REJECT_CODE_CREDENTIALS_REQUIRED
      else None)"
| "handshake_error_reject_code _ = None"

fun negotiate_codec :: "string list \<Rightarrow> string list \<Rightarrow> string" where
  "negotiate_codec [] server_codecs = []"
| "negotiate_codec (c # cs) server_codecs = (if c \<in> set server_codecs then c else negotiate_codec cs server_codecs)"

fun negotiate_codec_by_server_priority :: "string list \<Rightarrow> string list \<Rightarrow> string" where
  "negotiate_codec_by_server_priority [] client_codecs = []"
| "negotiate_codec_by_server_priority (c # cs) client_codecs =
     (if c \<in> set client_codecs then c else negotiate_codec_by_server_priority cs client_codecs)"

section \<open>Whitelists\<close>

definition domain_matches_whitelist :: "string \<Rightarrow> string \<Rightarrow> bool" where
  "domain_matches_whitelist domain pattern0 =
     (let pattern = trim pattern0
      in if pattern = [] then False
         else let base = (case strip_prefix ''*.'' pattern of Some b \<Rightarrow> b | None \<Rightarrow> pattern)
              in domain = base \<or> ends_with domain (''.'' @ base))"

definition id_matches_whitelist :: "string \<Rightarrow> string \<Rightarrow> bool" where
  "id_matches_whitelist device_id0 pattern0 =
     (let pattern = trim pattern0
      in if pattern = [] then False
         else let device_id = trim device_id0
              in if last pattern = CHR ''*'' \<and> butlast pattern \<noteq> [] then starts_with device_id (butlast pattern)
                 else device_id = pattern)"

definition id_whitelist_enforce_check :: "bool \<Rightarrow> string \<Rightarrow> string list \<Rightarrow> string + unit" where
  "id_whitelist_enforce_check enforce client_device_id allowed_ids =
     (if \<not> enforce then Inr ()
      else if list_ex (id_matches_whitelist client_device_id) allowed_ids then Inr ()
      else Inl client_device_id)"

definition id_whitelist_enforce_violation :: "bool \<Rightarrow> bool \<Rightarrow> string \<Rightarrow> string \<Rightarrow> string list \<Rightarrow> string option" where
  "id_whitelist_enforce_violation enforce bypass_active client_domain client_device_id allowed_ids =
     (if \<not> enforce \<or> bypass_active then None
      else if client_domain \<noteq> [] then None
      else case id_whitelist_enforce_check True client_device_id allowed_ids of Inl e \<Rightarrow> Some e | Inr _ \<Rightarrow> None)"

section \<open>Signature payloads\<close>

definition bar :: bytes where "bar = [124]"

definition build_sig_payload :: "bytes \<Rightarrow> bytes \<Rightarrow> string \<Rightarrow> string \<Rightarrow> string \<Rightarrow> u32 \<Rightarrow> string list \<Rightarrow> u32 \<Rightarrow> string \<Rightarrow> bytes" where
  "build_sig_payload x25519_pub nonce peer_id peer_domain device_type proto_ver supported_codecs requested_max_width client_os =
     x25519_pub @ nonce @ str_bytes peer_id @ bar @ str_bytes peer_domain @ bar @ str_bytes device_type @ bar @
     be32 proto_ver @ bar @ str_bytes (join '','' supported_codecs) @ bar @ be32 requested_max_width @ bar @ str_bytes client_os"

definition build_response_sig_payload :: "bytes \<Rightarrow> bytes \<Rightarrow> bytes \<Rightarrow> string \<Rightarrow> bytes" where
  "build_response_sig_payload server_x25519 client_x25519 nonce peer_id =
     server_x25519 @ client_x25519 @ nonce @ str_bytes peer_id"

definition init_sig_payload :: "handshake_init \<Rightarrow> bytes" where
  "init_sig_payload i =
     build_sig_payload (hi_client_x25519_pub i) (hi_nonce i) (hi_client_id i) (hi_client_domain i)
       (hi_client_device_type i) (hi_proto_ver i) (hi_supported_codecs i) (hi_requested_max_width i) (hi_client_os i)"

section \<open>The check of a first message\<close>

definition challenge_round_required :: "bool \<Rightarrow> clock \<Rightarrow> string \<Rightarrow> string \<Rightarrow> string option \<Rightarrow> temp_sys option \<Rightarrow>
    bool \<times> temp_sys option" where
  "challenge_round_required rm ck expected_client_key init_client_pub expected_challenge window =
     (if expected_client_key \<noteq> [] \<and> expected_client_key = init_client_pub then (False, window)
      else if (case expected_challenge of None \<Rightarrow> False | Some c \<Rightarrow> c \<noteq> []) then (True, window)
      else case window of
             None \<Rightarrow> (False, None)
           | Some w \<Rightarrow> (case is_active rm ck w of (active, w) \<Rightarrow> (active, Some w)))"

definition challenge_resp_matches_fixed :: "crypto \<Rightarrow> string \<Rightarrow> challenge_answer \<Rightarrow> handshake_init \<Rightarrow> bool" where
  "challenge_resp_matches_fixed C fixed_code answer init =
     (challenge_response C fixed_code (ca_nonce answer) (hi_client_x25519_pub init) (hi_nonce init) = ca_response answer)"

definition window_active :: "bool \<Rightarrow> clock \<Rightarrow> temp_sys option \<Rightarrow> bool \<times> temp_sys option" where
  "window_active rm ck window =
     (case window of
        None \<Rightarrow> (False, None)
      | Some w \<Rightarrow> (case is_active rm ck w of (active, w) \<Rightarrow> (active, Some w)))"

definition window_answered :: "crypto \<Rightarrow> bool \<Rightarrow> clock \<Rightarrow> challenge_answer option \<Rightarrow> handshake_init \<Rightarrow> temp_sys option \<Rightarrow>
    bool \<times> temp_sys option" where
  "window_answered C rm ck answer init window =
     (case (window, answer) of
        (Some w, Some a) \<Rightarrow>
          (case verify_challenge_response C rm ck a (hi_client_x25519_pub init) (hi_nonce init) w of (ok, w) \<Rightarrow> (ok, Some w))
      | _ \<Rightarrow> (False, window))"

definition verify_signature :: "crypto \<Rightarrow> handshake_init \<Rightarrow> hs_error + unit" where
  "verify_signature C init =
     (case parse_public_key C (hi_client_ed25519_pub_base64 init) of
        Inl e \<Rightarrow> Inl (HsDns e)
      | Inr client_pubkey \<Rightarrow>
          if length (hi_signature init) \<noteq> 64 then Inl (HsInvalidMessage ''signature error'')
          else if cy_verify C client_pubkey (init_sig_payload init) (hi_signature init) then Inr ()
          else Inl HsSignatureVerificationFailed)"

definition verify_server_init_inner :: "crypto \<Rightarrow> bool \<Rightarrow> clock \<Rightarrow> handshake_init \<Rightarrow> string \<Rightarrow> string option \<Rightarrow>
    string option \<Rightarrow> temp_sys option \<Rightarrow> bool \<Rightarrow> challenge_answer option \<Rightarrow> (hs_error + unit) \<times> temp_sys option" where
  "verify_server_init_inner C rm ck init expected_key expected_nickname expected_challenge window0 allow_no_credentials answer =
     (if expected_key \<noteq> [] \<and> expected_key \<noteq> hi_client_ed25519_pub_base64 init then
        (Inl (HsClientKeyMismatch expected_key (hi_client_ed25519_pub_base64 init)), window0)
      else if (case expected_nickname of None \<Rightarrow> False | Some e \<Rightarrow> e \<noteq> [] \<and> hi_client_id init \<noteq> e) then
        (Inl (HsInvalidMessage (''nickname mismatch: expected '' @ quoted (the expected_nickname) @ '', got '' @
           quoted (hi_client_id init))), window0)
      else
        (let fixed_expected = (case expected_challenge of None \<Rightarrow> None | Some s \<Rightarrow> if s \<noteq> [] then Some s else None);
             client_pinned = (expected_key \<noteq> [])
         in case window_active rm ck window0 of
              (temp_active, window) \<Rightarrow>
                (case (if client_pinned then (True, window)
                       else let fixed_ok = (case (fixed_expected, answer) of
                                              (Some f, Some a) \<Rightarrow> challenge_resp_matches_fixed C f a init
                                            | _ \<Rightarrow> False)
                            in case window_answered C rm ck answer init window of
                                 (temp_ok, window) \<Rightarrow>
                                   (case (fixed_expected \<noteq> None, temp_active) of
                                      (False, False) \<Rightarrow> allow_no_credentials
                                    | (True, False) \<Rightarrow> fixed_ok
                                    | (False, True) \<Rightarrow> temp_ok
                                    | (True, True) \<Rightarrow> fixed_ok \<or> temp_ok, window)) of
                   (challenge_ok, window) \<Rightarrow>
                     if \<not> challenge_ok then
                       (Inl (HsInvalidMessage
                          (if fixed_expected = None \<and> \<not> temp_active \<and> \<not> client_pinned
                           then ''server requires credentials: client unknown (no pinned key), no challenge code, and no temp window''
                           else ''challenge mismatch'')), window)
                     else (verify_signature C init, window))))"

definition verify_server_init_with_answer :: "crypto \<Rightarrow> bool \<Rightarrow> clock \<Rightarrow> handshake_init \<Rightarrow> string \<Rightarrow> string option \<Rightarrow>
    string option \<Rightarrow> bool \<Rightarrow> challenge_answer option \<Rightarrow> hs_error + unit" where
  "verify_server_init_with_answer C rm ck init expected_key expected_nickname expected_challenge allow_no_credentials answer =
     fst (verify_server_init_inner C rm ck init expected_key expected_nickname expected_challenge None allow_no_credentials answer)"

definition verify_server_init :: "crypto \<Rightarrow> bool \<Rightarrow> clock \<Rightarrow> handshake_init \<Rightarrow> string \<Rightarrow> string option \<Rightarrow>
    string option \<Rightarrow> bool \<Rightarrow> hs_error + unit" where
  "verify_server_init C rm ck init expected_key expected_nickname expected_challenge allow_no_credentials =
     verify_server_init_with_answer C rm ck init expected_key expected_nickname expected_challenge allow_no_credentials None"

end
