(* ===== verification/Core_Exchange.thy ===== *)
theory Core_Exchange
  imports Core_Handshake
begin

text \<open>
  The two sides of the handshake over a message stream, the rest of \<^verbatim>\<open>core/src/crypto/handshake.rs\<close>:
  the client's exchange with its pin, the server's reading, challenge round and response, and the
  servers built from them. The wrappers that only fix an argument or repackage the channel are
  instances of these definitions and have none of their own.
\<close>

section \<open>Streams of messages\<close>

datatype hs_read = Message bytes | ReadError tcp_error | Silence

record hs_io =
  hio_reads :: "hs_read list"
  hio_sent :: "bytes list"
  hio_window :: "temp_sys option"

type_synonym 'a hs = "hs_io \<Rightarrow> (hs_error + 'a) \<times> hs_io"

definition hret :: "'a \<Rightarrow> 'a hs" where "hret x = (\<lambda>io. (Inr x, io))"
definition hthrow :: "hs_error \<Rightarrow> 'a hs" where "hthrow e = (\<lambda>io. (Inl e, io))"
definition hlift :: "hs_error + 'a \<Rightarrow> 'a hs" where "hlift r = (\<lambda>io. (r, io))"

definition hbind :: "'a hs \<Rightarrow> ('a \<Rightarrow> 'b hs) \<Rightarrow> 'b hs" where
  "hbind m f = (\<lambda>io. case m io of (Inl e, io') \<Rightarrow> (Inl e, io') | (Inr x, io') \<Rightarrow> f x io')"

type_synonym net = "bytes list \<Rightarrow> tcp_error option"

definition hsend :: "net \<Rightarrow> bytes \<Rightarrow> unit hs" where
  "hsend net d = (\<lambda>io. case net (hio_sent io) of
     Some e \<Rightarrow> (Inl (HsTcp e), io)
   | None \<Rightarrow> (Inr (), io\<lparr>hio_sent := hio_sent io @ [d]\<rparr>))"

text \<open>\<open>timed\<close>: the read is under a time limit. A stream with nothing left is closed.\<close>

definition hreceive :: "bool \<Rightarrow> bytes hs" where
  "hreceive timed = (\<lambda>io. case hio_reads io of
     [] \<Rightarrow> (Inl (HsTcp (TcpIo UnexpectedEof)), io)
   | Message d # rs \<Rightarrow> (Inr d, io\<lparr>hio_reads := rs\<rparr>)
   | ReadError e # rs \<Rightarrow> (Inl (HsTcp e), io\<lparr>hio_reads := rs\<rparr>)
   | Silence # rs \<Rightarrow> (Inl (if timed then HsTimeout else HsNever), io\<lparr>hio_reads := rs\<rparr>))"

definition hserialize :: "string + bytes \<Rightarrow> bytes hs" where
  "hserialize r = hlift (case r of Inl e \<Rightarrow> Inl (HsSerialization e) | Inr d \<Rightarrow> Inr d)"

definition send_handshake_reject :: "hs_codec \<Rightarrow> net \<Rightarrow> string \<Rightarrow> string \<Rightarrow> unit hs" where
  "send_handshake_reject B net code detail = (\<lambda>io.
     (Inr (), case ser_reject B \<lparr>hj_code = code, hj_detail = detail\<rparr> of
                Inl _ \<Rightarrow> io
              | Inr d \<Rightarrow> snd (hsend net d io)))"

definition reject_if_client_too_new :: "hs_codec \<Rightarrow> net \<Rightarrow> handshake_init \<Rightarrow> bool hs" where
  "reject_if_client_too_new B net init =
     (if client_version_too_new (hi_proto_ver init) then
        hbind (send_handshake_reject B net REJECT_CODE_VERSION_MISMATCH
          (''client='' @ digits_of (unat (hi_proto_ver init)) @ '' server='' @ digits_of (unat PROTOCOL_VERSION)))
          (\<lambda>_. hret True)
      else hret False)"

record secure_channel =
  sc_key :: bytes
  sc_peer_id :: string
  sc_peer_domain :: string
  sc_peer_device_type :: string
  sc_selected_codec :: string
  sc_peer_os :: string

section \<open>The client\<close>

record client_cfg =
  cc_identity :: bytes
  cc_id :: string
  cc_domain :: string
  cc_device_type :: string
  cc_server_id :: string
  cc_pin :: pin_expectation
  cc_confirm :: "(string \<Rightarrow> bool) option"
  cc_challenge :: string
  cc_codecs :: "string list"
  cc_max_width :: u32
  cc_os :: string

definition client_init :: "crypto \<Rightarrow> client_cfg \<Rightarrow> ephemeral \<Rightarrow> bytes \<Rightarrow> handshake_init" where
  "client_init C cfg es nonce =
     \<lparr>hi_client_id = cc_id cfg, hi_client_domain = cc_domain cfg, hi_client_device_type = cc_device_type cfg,
      hi_challenge = [], hi_client_ed25519_pub_base64 = public_key_base64 C (cc_identity cfg),
      hi_client_x25519_pub = es_public es, hi_nonce = nonce,
      hi_signature = cy_sign C (cc_identity cfg)
        (build_sig_payload (es_public es) nonce (cc_id cfg) (cc_domain cfg) (cc_device_type cfg) PROTOCOL_VERSION
          (cc_codecs cfg) (cc_max_width cfg) (cc_os cfg)),
      hi_supported_codecs = cc_codecs cfg, hi_proto_ver = PROTOCOL_VERSION, hi_requested_max_width = cc_max_width cfg,
      hi_client_os = cc_os cfg, hi_challenge_resp = []\<rparr>"

text \<open>A challenge is a message that decodes as one and carries the magic bytes.\<close>

definition as_challenge :: "hs_codec \<Rightarrow> bytes \<Rightarrow> handshake_challenge option" where
  "as_challenge B d =
     (case de_challenge B d of
        Inl _ \<Rightarrow> None
      | Inr c \<Rightarrow> if hc_magic c = HANDSHAKE_CHALLENGE_MAGIC then Some c else None)"

definition answer_challenge :: "crypto \<Rightarrow> hs_codec \<Rightarrow> net \<Rightarrow> client_cfg \<Rightarrow> ephemeral \<Rightarrow> bytes \<Rightarrow> bytes \<Rightarrow> bytes hs" where
  "answer_challenge C B net cfg es nonce resp_data =
     (case as_challenge B resp_data of
        None \<Rightarrow> hret resp_data
      | Some chal \<Rightarrow>
          hbind (hserialize (ser_challenge_resp B \<lparr>hcr_magic = HANDSHAKE_CHALLENGE_MAGIC,
                   hcr_response = challenge_response C (cc_challenge cfg) (hc_nonce chal) (es_public es) nonce\<rparr>))
            (\<lambda>d. hbind (hsend net d) (\<lambda>_. hreceive False)))"

definition client_parse :: "hs_codec \<Rightarrow> bytes \<Rightarrow> hs_error + handshake_response" where
  "client_parse B resp_data =
     (case parse_handshake_response B resp_data of
        Inr r \<Rightarrow> Inr r
      | Inl resp_err \<Rightarrow>
          (case de_reject B resp_data of
             Inr reject \<Rightarrow> Inl (HsRejected (hj_code reject @ ''|'' @ hj_detail reject))
           | Inl _ \<Rightarrow> Inl resp_err))"

text \<open>\<^verbatim>\<open>&s[..s.len().min(16)]\<close> panics when byte 16 is inside a character.\<close>

definition char_boundary :: "nat \<Rightarrow> string \<Rightarrow> bool" where
  "char_boundary n s \<longleftrightarrow> n = 0 \<or> n = length s \<or> (n < length s \<and> \<not> (let b = of_char (s ! n) :: nat in 128 \<le> b \<and> b < 192))"

definition key_prefix :: "string \<Rightarrow> string option" where
  "key_prefix s = (let n = min (length s) 16 in if char_boundary n s then Some (take n s) else None)"

definition check_pin :: "crypto \<Rightarrow> client_cfg \<Rightarrow> string \<Rightarrow> hs_error + unit" where
  "check_pin C cfg server_pubkey_b64 =
     (case cc_pin cfg of
        PinExact expected \<Rightarrow>
          (case parse_public_key C server_pubkey_b64 of
             Inl e \<Rightarrow> Inl (HsDns e)
           | Inr server_key \<Rightarrow>
               if server_key \<noteq> expected then Inl (HsServerKeyMismatch (cy_b64_encode C expected) server_pubkey_b64)
               else Inr ())
      | PinNone InternalLoopback \<Rightarrow>
          (case parse_public_key C server_pubkey_b64 of
             Inl e \<Rightarrow> Inl (HsDns e)
           | Inr server_key \<Rightarrow>
               if server_key \<noteq> cy_public C (cc_identity cfg) then
                 Inl (HsServerKeyMismatch (public_key_base64 C (cc_identity cfg)) server_pubkey_b64)
               else Inr ())
      | PinNone UserConfirmRequired \<Rightarrow>
          (case cc_confirm cfg of
             None \<Rightarrow> Inl (HsUntrustedKey (''no pinned public key and no user confirmation callback '' @
               map char_of [0xE2, 0x80, 0x94 :: nat] @ '' refusing to trust network public key''))
           | Some confirm \<Rightarrow>
               if confirm server_pubkey_b64 then Inr ()
               else case key_prefix server_pubkey_b64 of
                      None \<Rightarrow> Inl HsPanicked
                    | Some p \<Rightarrow> Inl (HsUntrustedKey (''user declined fingerprint confirmation (server key '' @ p @ '')''))))"

definition client_accept :: "crypto \<Rightarrow> client_cfg \<Rightarrow> ephemeral \<Rightarrow> bytes \<Rightarrow> handshake_response \<Rightarrow>
    hs_error + (secure_channel \<times> u32)" where
  "client_accept C cfg es nonce r =
     (if client_version_gate PROTOCOL_VERSION (hr_proto_ver r) then
        Inl (HsServerTooNew (hr_proto_ver r) PROTOCOL_VERSION)
      else case check_pin C cfg (hr_server_ed25519_pub_base64 r) of
        Inl e \<Rightarrow> Inl e
      | Inr _ \<Rightarrow>
          (case parse_public_key C (hr_server_ed25519_pub_base64 r) of
             Inl e \<Rightarrow> Inl (HsDns e)
           | Inr server_pubkey \<Rightarrow>
               if length (hr_signature r) \<noteq> 64 then Inl (HsInvalidMessage ''signature error'')
               else if \<not> cy_verify C server_pubkey
                      (build_response_sig_payload (hr_server_x25519_pub r) (es_public es) nonce (cc_server_id cfg))
                      (hr_signature r)
               then Inl HsSignatureVerificationFailed
               else case parse_x25519_key (hr_server_x25519_pub r) of
                      Inl e \<Rightarrow> Inl (HsInvalidMessage (''invalid server X25519 public key: '' @ e))
                    | Inr peer \<Rightarrow>
                        (case compute_session_key C es peer of
                           Inl e \<Rightarrow> Inl (HsInvalidMessage (''X25519 key exchange failed: '' @ e))
                         | Inr key \<Rightarrow>
                             Inr (\<lparr>sc_key = key, sc_peer_id = cc_server_id cfg, sc_peer_domain = [],
                                   sc_peer_device_type = [], sc_selected_codec = hr_selected_codec r,
                                   sc_peer_os = hr_server_os r\<rparr>, hr_proto_ver r))))"

definition client_handshake :: "crypto \<Rightarrow> hs_codec \<Rightarrow> net \<Rightarrow> client_cfg \<Rightarrow> bytes \<Rightarrow> bytes \<Rightarrow> (secure_channel \<times> u32) hs" where
  "client_handshake C B net cfg random nonce =
     (let es = ephemeral_new C random
      in hbind (hserialize (ser_init B (client_init C cfg es nonce))) (\<lambda>d.
         hbind (hsend net d) (\<lambda>_.
         hbind (hreceive False) (\<lambda>d.
         hbind (answer_challenge C B net cfg es nonce d) (\<lambda>d.
         hbind (hlift (client_parse B d)) (\<lambda>r.
         hlift (client_accept C cfg es nonce r)))))))"

section \<open>The server\<close>

definition server_read_init :: "hs_codec \<Rightarrow> handshake_init hs" where
  "server_read_init B = hbind (hreceive True) (\<lambda>d. hlift (parse_handshake_init B d))"

definition server_challenge_round :: "hs_codec \<Rightarrow> net \<Rightarrow> bytes \<Rightarrow> challenge_answer hs" where
  "server_challenge_round B net nonce =
     hbind (hserialize (ser_challenge B \<lparr>hc_magic = HANDSHAKE_CHALLENGE_MAGIC, hc_nonce = nonce\<rparr>)) (\<lambda>d.
     hbind (hsend net d) (\<lambda>_.
     hbind (hreceive True) (\<lambda>d.
     hlift (case de_challenge_resp B d of
              Inl e \<Rightarrow> Inl (HsInvalidMessage (''invalid challenge response: '' @ e))
            | Inr resp \<Rightarrow>
                if hcr_magic resp \<noteq> HANDSHAKE_CHALLENGE_MAGIC then
                  Inl (HsInvalidMessage ''challenge response magic mismatch'')
                else Inr \<lparr>ca_nonce = nonce, ca_response = hcr_response resp\<rparr>))))"

definition server_response :: "crypto \<Rightarrow> bytes \<Rightarrow> string \<Rightarrow> string \<Rightarrow> ephemeral \<Rightarrow> handshake_init \<Rightarrow> string \<Rightarrow> handshake_response" where
  "server_response C sk server_id os es init selected_codec =
     \<lparr>hr_server_x25519_pub = es_public es, hr_server_ed25519_pub_base64 = public_key_base64 C sk,
      hr_signature = cy_sign C sk (build_response_sig_payload (es_public es) (hi_client_x25519_pub init) (hi_nonce init) server_id),
      hr_selected_codec = selected_codec, hr_server_fingerprint = fingerprint (cy_sha256 C) (public_key_base64 C sk),
      hr_proto_ver = PROTOCOL_VERSION, hr_server_os = os\<rparr>"

text \<open>\<open>server_handshake_inner_generic\<close>, which \<^verbatim>\<open>server_handshake_respond_generic\<close> forwards to.\<close>

definition server_respond :: "crypto \<Rightarrow> hs_codec \<Rightarrow> net \<Rightarrow> bytes \<Rightarrow> string \<Rightarrow> string \<Rightarrow> bytes \<Rightarrow> handshake_init \<Rightarrow> string \<Rightarrow>
    secure_channel hs" where
  "server_respond C B net sk server_id os random init selected_codec =
     (let es = ephemeral_new C random
      in case parse_x25519_key (hi_client_x25519_pub init) of
           Inl e \<Rightarrow> hthrow (HsInvalidMessage (''invalid client X25519 public key: '' @ e))
         | Inr peer \<Rightarrow>
             hbind (hserialize (ser_response B (server_response C sk server_id os es init selected_codec))) (\<lambda>d.
             hbind (hsend net d) (\<lambda>_.
             (case compute_session_key C es peer of
                Inl e \<Rightarrow> hthrow (HsInvalidMessage (''X25519 key exchange failed: '' @ e))
              | Inr key \<Rightarrow>
                  hret \<lparr>sc_key = key, sc_peer_id = hi_client_id init, sc_peer_domain = hi_client_domain init,
                        sc_peer_device_type = hi_client_device_type init, sc_selected_codec = selected_codec,
                        sc_peer_os = hi_client_os init\<rparr>))))"

text \<open>The challenge round, when one is required, and the check, on the window in the stream's state.\<close>

definition maybe_challenge :: "hs_codec \<Rightarrow> net \<Rightarrow> bool \<Rightarrow> clock \<Rightarrow> bytes \<Rightarrow> string \<Rightarrow> string option \<Rightarrow> bool \<Rightarrow>
    handshake_init \<Rightarrow> challenge_answer option hs" where
  "maybe_challenge B net rm ck chal_nonce expected_key expected_challenge has_window init = (\<lambda>io.
     case challenge_round_required rm ck expected_key (hi_client_ed25519_pub_base64 init) expected_challenge
            (if has_window then hio_window io else None) of
       (required, w) \<Rightarrow>
         let io = (if has_window then io\<lparr>hio_window := w\<rparr> else io)
         in if required then hbind (server_challenge_round B net chal_nonce) (\<lambda>a. hret (Some a)) io
            else (Inr None, io))"

definition check_init :: "crypto \<Rightarrow> bool \<Rightarrow> clock \<Rightarrow> handshake_init \<Rightarrow> string \<Rightarrow> string option \<Rightarrow> string option \<Rightarrow> bool \<Rightarrow>
    challenge_answer option \<Rightarrow> unit hs" where
  "check_init C rm ck init expected_key expected_nickname expected_challenge has_window answer = (\<lambda>io.
     case verify_server_init_inner C rm ck init expected_key expected_nickname expected_challenge
            (if has_window then hio_window io else None) False answer of
       (r, w) \<Rightarrow> (r, if has_window then io\<lparr>hio_window := w\<rparr> else io))"

record server_cfg =
  vc_identity :: bytes
  vc_server_id :: string
  vc_nickname :: "string option"
  vc_challenge :: "string option"
  vc_os :: string

text \<open>\<open>server_handshake_verified_with_nickname_generic\<close>: no version gate, no whitelist, no window.\<close>

definition server_handshake_verified :: "crypto \<Rightarrow> hs_codec \<Rightarrow> net \<Rightarrow> bool \<Rightarrow> clock \<Rightarrow> server_cfg \<Rightarrow> string \<Rightarrow> bytes \<Rightarrow> bytes \<Rightarrow>
    secure_channel hs" where
  "server_handshake_verified C B net rm ck cfg client_key chal_nonce random =
     hbind (server_read_init B) (\<lambda>init.
     hbind (maybe_challenge B net rm ck chal_nonce client_key (vc_challenge cfg) False init) (\<lambda>answer.
     hbind (check_init C rm ck init client_key (vc_nickname cfg) (vc_challenge cfg) False answer) (\<lambda>_.
     server_respond C B net (vc_identity cfg) (vc_server_id cfg) (vc_os cfg) random init [])))"

datatype whitelist_decision = WlAccepted | WlNeedsApproval string string string

definition is_whitelisted :: "string list \<Rightarrow> string list \<Rightarrow> handshake_init \<Rightarrow> bool" where
  "is_whitelisted allowed_domains allowed_ids init \<longleftrightarrow>
     list_ex (domain_matches_whitelist (hi_client_domain init)) allowed_domains \<or>
     list_ex (id_matches_whitelist (hi_client_id init)) allowed_ids"

definition server_handshake_check :: "hs_codec \<Rightarrow> string list \<Rightarrow> string list \<Rightarrow> bool \<Rightarrow> (whitelist_decision \<times> handshake_init) hs" where
  "server_handshake_check B allowed_domains allowed_ids temp_mode =
     hbind (hreceive False) (\<lambda>d.
     hbind (hlift (case de_init B d of Inl e \<Rightarrow> Inl (HsInvalidMessage e) | Inr i \<Rightarrow> Inr i)) (\<lambda>init.
     hret (if temp_mode \<or> is_whitelisted allowed_domains allowed_ids init then WlAccepted
           else WlNeedsApproval (hi_client_id init) (hi_client_domain init) (hi_client_device_type init), init)))"

datatype verified_decision = Accepted secure_channel | AcceptedEx secure_channel u32 | DecisionRejected string

definition version_rejected_text :: "handshake_init \<Rightarrow> string" where
  "version_rejected_text init =
     ''client protocol version '' @ digits_of (unat (hi_proto_ver init)) @ '' too new (server supports <= '' @
     digits_of (unat PROTOCOL_VERSION) @ '')''"

definition whitelist_rejected_text :: "handshake_init \<Rightarrow> string" where
  "whitelist_rejected_text init =
     ''domain '' @ quoted (hi_client_domain init) @ '' and id '' @ quoted (hi_client_id init) @
     '' not in whitelist (headless: no GUI approval)''"

definition server_handshake_with_whitelist :: "crypto \<Rightarrow> hs_codec \<Rightarrow> net \<Rightarrow> bool \<Rightarrow> clock \<Rightarrow> server_cfg \<Rightarrow> string list \<Rightarrow>
    string list \<Rightarrow> bool \<Rightarrow> string \<Rightarrow> bytes \<Rightarrow> bytes \<Rightarrow> verified_decision hs" where
  "server_handshake_with_whitelist C B net rm ck cfg allowed_domains allowed_ids temp_mode client_key chal_nonce random =
     hbind (server_read_init B) (\<lambda>init.
     hbind (reject_if_client_too_new B net init) (\<lambda>rejected.
     if rejected then hret (DecisionRejected (version_rejected_text init))
     else if \<not> temp_mode \<and> \<not> is_whitelisted allowed_domains allowed_ids init then
       hret (DecisionRejected (whitelist_rejected_text init))
     else
       hbind (maybe_challenge B net rm ck chal_nonce client_key (vc_challenge cfg) False init) (\<lambda>answer.
       hbind (check_init C rm ck init client_key (vc_nickname cfg) (vc_challenge cfg) False answer) (\<lambda>_.
       hbind (server_respond C B net (vc_identity cfg) (vc_server_id cfg) (vc_os cfg) random init []) (\<lambda>ch.
       hret (Accepted ch))))))"

end
