(* ===== verification/Core_Handshake_Facts.thy ===== *)
theory Core_Handshake_Facts
  imports Core_Exchange
begin

text \<open>
  What the handshake guarantees: to a server that accepts a client, to a client that accepts a server, to two
  honest sides; what the signed payloads cover; and where the code falls short.
\<close>

section \<open>Streams\<close>

lemma hret_eq [simp]: "hret x io = (r, io') \<longleftrightarrow> r = Inr x \<and> io' = io"
  by (auto simp: hret_def)

lemma hthrow_Inr [simp]: "hthrow e io \<noteq> (Inr y, io')"
  by (simp add: hthrow_def)

lemma hlift_Inr [simp]: "hlift r io = (Inr x, io') \<longleftrightarrow> r = Inr x \<and> io' = io"
  by (auto simp: hlift_def)

lemma sum_case_Inr: "(case r of Inl e \<Rightarrow> Inl (f e) | Inr x \<Rightarrow> g x) = Inr y \<longleftrightarrow> (\<exists>x. r = Inr x \<and> g x = Inr y)"
  by (cases r) simp_all

lemma if_Inr: "(if b then Inl e else r) = Inr y \<longleftrightarrow> \<not> b \<and> r = Inr y"
  by simp

lemma hbind_Inr: "hbind m f io = (Inr y, io') \<longleftrightarrow> (\<exists>x io1. m io = (Inr x, io1) \<and> f x io1 = (Inr y, io'))"
  by (auto simp: hbind_def split: prod.splits sum.splits)

lemma hbind_run: "m io = (Inr x, io1) \<Longrightarrow> hbind m f io = f x io1"
  by (simp add: hbind_def)

lemma hsend_Inr: "hsend net d io = (Inr u, io') \<longleftrightarrow> net (hio_sent io) = None \<and> io' = io\<lparr>hio_sent := hio_sent io @ [d]\<rparr>"
  by (auto simp: hsend_def split: option.splits)

lemma hreceive_Inr: "hreceive timed io = (Inr d, io') \<longleftrightarrow>
    (\<exists>rs. hio_reads io = Message d # rs \<and> io' = io\<lparr>hio_reads := rs\<rparr>)"
  by (auto simp: hreceive_def split: list.splits hs_read.splits)

lemma hserialize_Inr: "hserialize r io = (Inr d, io') \<longleftrightarrow> r = Inr d \<and> io' = io"
  by (auto simp: hserialize_def split: sum.splits)

lemmas hs_Inr = hbind_Inr hsend_Inr hreceive_Inr hserialize_Inr sum_case_Inr if_Inr

lemma es_secret_new [simp]: "es_secret (ephemeral_new C random) = clamp random"
  by (simp add: ephemeral_new_def Let_def)

section \<open>A client that is accepted\<close>

lemma verify_signature_Inr:
  "verify_signature C init = Inr u \<longleftrightarrow>
     (\<exists>k. parse_public_key C (hi_client_ed25519_pub_base64 init) = Inr k \<and> length (hi_signature init) = 64 \<and>
          cy_verify C k (init_sig_payload init) (hi_signature init))"
  by (auto simp: verify_signature_def split: sum.splits if_splits)

text \<open>An answer that satisfies the fixed code or the window.\<close>

definition answered :: "crypto \<Rightarrow> bool \<Rightarrow> clock \<Rightarrow> handshake_init \<Rightarrow> string option \<Rightarrow> temp_sys option \<Rightarrow> challenge_answer \<Rightarrow> bool" where
  "answered C rm ck init expected_challenge window a \<longleftrightarrow>
     (\<exists>c. expected_challenge = Some c \<and> c \<noteq> [] \<and>
        ca_response a = challenge_response C c (ca_nonce a) (hi_client_x25519_pub init) (hi_nonce init)) \<or>
     (\<exists>w. window = Some w \<and> fst (is_active rm ck w) \<and>
        fst (verify_challenge_response C rm ck a (hi_client_x25519_pub init) (hi_nonce init) (snd (is_active rm ck w))))"

lemma window_active_eq:
  "window_active rm ck None = (False, None)"
  "window_active rm ck (Some w) = (fst (is_active rm ck w), Some (snd (is_active rm ck w)))"
  by (simp_all add: window_active_def split: prod.split)

lemma verify_inner_Inr:
  assumes "verify_server_init_inner C rm ck init key nick chal window allow answer = (Inr u, window')"
  shows "(key = [] \<or> key = hi_client_ed25519_pub_base64 init) \<and>
    (\<forall>n. nick = Some n \<longrightarrow> n = [] \<or> hi_client_id init = n) \<and>
    (key = [] \<longrightarrow> allow \<or> (\<exists>a. answer = Some a \<and> answered C rm ck init chal window a)) \<and>
    verify_signature C init = Inr u"
proof -
  have cases: "verify_signature C init = Inr u"
    "key \<noteq> [] \<Longrightarrow> key = hi_client_ed25519_pub_base64 init"
    "\<And>n. nick = Some n \<Longrightarrow> n = [] \<or> hi_client_id init = n"
    using assms by (auto simp: verify_server_init_inner_def Let_def split: if_splits prod.splits option.splits)
  moreover have "allow \<or> (\<exists>a. answer = Some a \<and> answered C rm ck init chal window a)" if "key = []"
  proof (cases window)
    case None
    then show ?thesis
      using assms that
      by (auto simp: verify_server_init_inner_def Let_def window_active_eq window_answered_def answered_def
          challenge_resp_matches_fixed_def split: if_splits prod.splits option.splits)
  next
    case (Some w)
    then show ?thesis
      using assms that
      by (auto simp: verify_server_init_inner_def Let_def window_active_eq window_answered_def answered_def
          challenge_resp_matches_fixed_def split: if_splits prod.splits option.splits bool.splits)
  qed
  ultimately show ?thesis by blast
qed

definition challenge_taken :: "hs_codec \<Rightarrow> bytes \<Rightarrow> challenge_answer \<Rightarrow> hs_io \<Rightarrow> hs_io \<Rightarrow> bool" where
  "challenge_taken B n a io io1 \<longleftrightarrow> ca_nonce a = n \<and>
     (\<exists>d rs resp m. hio_reads io = Message d # rs \<and> hio_reads io1 = rs \<and> de_challenge_resp B d = Inr resp \<and>
        hcr_response resp = ca_response a \<and>
        ser_challenge B \<lparr>hc_magic = HANDSHAKE_CHALLENGE_MAGIC, hc_nonce = n\<rparr> = Inr m \<and> hio_sent io1 = hio_sent io @ [m])"

lemma server_challenge_round_Inr:
  "server_challenge_round B net n io = (Inr a, io1) \<Longrightarrow> challenge_taken B n a io io1 \<and> hio_window io1 = hio_window io"
  by (auto simp: server_challenge_round_def hs_Inr challenge_taken_def)

lemma maybe_challenge_Inr:
  assumes "maybe_challenge B net rm ck n key chal hw init io = (Inr ans, io1)"
  shows "case ans of None \<Rightarrow> hio_reads io1 = hio_reads io \<and> hio_sent io1 = hio_sent io
    | Some a \<Rightarrow> challenge_taken B n a io io1"
proof -
  obtain req w where c: "challenge_round_required rm ck key (hi_client_ed25519_pub_base64 init) chal
      (if hw then hio_window io else None) = (req, w)"
    by (cases "challenge_round_required rm ck key (hi_client_ed25519_pub_base64 init) chal
      (if hw then hio_window io else None)")
  define io0 where "io0 = (if hw then io\<lparr>hio_window := w\<rparr> else io)"
  have io0: "hio_reads io0 = hio_reads io" "hio_sent io0 = hio_sent io" by (simp_all add: io0_def)
  have m: "maybe_challenge B net rm ck n key chal hw init io =
      (if req then hbind (server_challenge_round B net n) (\<lambda>a. hret (Some a)) io0 else (Inr None, io0))"
    by (simp add: maybe_challenge_def c io0_def Let_def)
  show ?thesis
  proof (cases req)
    case True
    then obtain a where "server_challenge_round B net n io0 = (Inr a, io1)" "ans = Some a"
      using assms m by (auto simp: hbind_Inr)
    then show ?thesis
      using server_challenge_round_Inr [of B net n io0 a io1] io0 by (simp add: challenge_taken_def)
  next
    case False
    then show ?thesis using assms m io0 by simp
  qed
qed

lemma check_init_Inr:
  assumes "check_init C rm ck init key nick chal hw answer io = (Inr u, io1)"
  shows "hio_reads io1 = hio_reads io \<and> hio_sent io1 = hio_sent io \<and>
    (\<exists>w'. verify_server_init_inner C rm ck init key nick chal (if hw then hio_window io else None) False answer = (Inr u, w'))"
  using assms by (auto simp: check_init_def split: prod.splits)

lemma server_respond_Inr:
  assumes "server_respond C B net sk server_id os random init codec io = (Inr ch, io')"
  shows "\<exists>m shared. hio_sent io' = hio_sent io @ [m] \<and> hio_reads io' = hio_reads io \<and>
    ser_response B (server_response C sk server_id os (ephemeral_new C random) init codec) = Inr m \<and>
    parse_x25519_key (hi_client_x25519_pub init) = Inr (hi_client_x25519_pub init) \<and>
    cy_x25519 C (clamp random) (hi_client_x25519_pub init) = shared \<and> \<not> all_zero shared \<and>
    ch = \<lparr>sc_key = derive_session_key C shared, sc_peer_id = hi_client_id init, sc_peer_domain = hi_client_domain init,
          sc_peer_device_type = hi_client_device_type init, sc_selected_codec = codec, sc_peer_os = hi_client_os init\<rparr>"
proof -
  obtain peer where peer: "parse_x25519_key (hi_client_x25519_pub init) = Inr peer"
    using assms by (cases "parse_x25519_key (hi_client_x25519_pub init)") (auto simp: server_respond_def Let_def)
  then have eq: "peer = hi_client_x25519_pub init" by (auto simp: parse_x25519_key_def split: if_splits)
  show ?thesis
    using assms peer
    by (auto simp: server_respond_def hs_Inr eq compute_session_key_def diffie_hellman_bytes_def ephemeral_new_def Let_def
        split: if_splits)
qed

text \<open>
  C1. A channel the server opens is with a client it has authenticated. The client's first message carries a
  valid signature, by the key it declares, over its own ephemeral key, nonce, identifiers and
  capabilities. Either that key is the one bound to the client; or the message this connection sent
  first was a challenge with its fresh nonce, and the client's next message answers that nonce with the
  configured non-empty code, over the client's ephemeral key and nonce. The session key comes from the
  server's fresh secret and the signed ephemeral key. That key has passed the code's own list of refused
  points, which is not every point of low order, and the secret shared through it is not all zero.
\<close>
theorem verified_channel:
  assumes "server_handshake_verified C B net rm ck cfg client_key chal_nonce random io = (Inr ch, io')"
  shows "\<exists>d rs init k. hio_reads io = Message d # rs \<and> parse_handshake_init B d = Inr init \<and>
      parse_public_key C (hi_client_ed25519_pub_base64 init) = Inr k \<and>
      cy_verify C k (init_sig_payload init) (hi_signature init) \<and> sc_peer_id ch = hi_client_id init \<and>
      (\<forall>n. vc_nickname cfg = Some n \<longrightarrow> n = [] \<or> hi_client_id init = n) \<and>
      (if client_key \<noteq> [] then hi_client_ed25519_pub_base64 init = client_key
       else \<exists>c m final d' rs' resp. vc_challenge cfg = Some c \<and> c \<noteq> [] \<and>
              ser_challenge B \<lparr>hc_magic = HANDSHAKE_CHALLENGE_MAGIC, hc_nonce = chal_nonce\<rparr> = Inr m \<and>
              hio_sent io' = hio_sent io @ [m, final] \<and> rs = Message d' # rs' \<and>
              de_challenge_resp B d' = Inr resp \<and>
              hcr_response resp = challenge_response C c chal_nonce (hi_client_x25519_pub init) (hi_nonce init)) \<and>
      parse_x25519_key (hi_client_x25519_pub init) = Inr (hi_client_x25519_pub init) \<and>
      \<not> all_zero (cy_x25519 C (clamp random) (hi_client_x25519_pub init)) \<and>
      sc_key ch = derive_session_key C (cy_x25519 C (clamp random) (hi_client_x25519_pub init))"
proof -
  from assms obtain init io1 ans io2 u io3 where
    r: "server_read_init B io = (Inr init, io1)"
    and m: "maybe_challenge B net rm ck chal_nonce client_key (vc_challenge cfg) False init io1 = (Inr ans, io2)"
    and c: "check_init C rm ck init client_key (vc_nickname cfg) (vc_challenge cfg) False ans io2 = (Inr u, io3)"
    and s: "server_respond C B net (vc_identity cfg) (vc_server_id cfg) (vc_os cfg) random init [] io3 = (Inr ch, io')"
    by (auto simp: server_handshake_verified_def hbind_Inr)
  from r obtain d rs where d: "hio_reads io = Message d # rs" "parse_handshake_init B d = Inr init" "hio_reads io1 = rs"
    "hio_sent io1 = hio_sent io"
    by (auto simp: server_read_init_def hs_Inr)
  from check_init_Inr [OF c] obtain w' where sent: "hio_sent io3 = hio_sent io2" and
    "verify_server_init_inner C rm ck init client_key (vc_nickname cfg) (vc_challenge cfg) None False ans = (Inr u, w')"
    by auto
  note v = verify_inner_Inr [OF this(2)]
  from server_respond_Inr [OF s] obtain final where final: "hio_sent io' = hio_sent io3 @ [final]" by blast
  have chal: "\<exists>c m final d' rs' resp. vc_challenge cfg = Some c \<and> c \<noteq> [] \<and>
      ser_challenge B \<lparr>hc_magic = HANDSHAKE_CHALLENGE_MAGIC, hc_nonce = chal_nonce\<rparr> = Inr m \<and>
      hio_sent io' = hio_sent io @ [m, final] \<and> rs = Message d' # rs' \<and> de_challenge_resp B d' = Inr resp \<and>
      hcr_response resp = challenge_response C c chal_nonce (hi_client_x25519_pub init) (hi_nonce init)"
    if "client_key = []"
  proof -
    from v that obtain a where a: "ans = Some a" "answered C rm ck init (vc_challenge cfg) None a" by blast
    with maybe_challenge_Inr [OF m] have "challenge_taken B chal_nonce a io1 io2" by simp
    with a(2) show ?thesis by (auto simp: challenge_taken_def answered_def d(3,4) final sent)
  qed
  show ?thesis
  proof (cases "client_key = []")
    case True
    from v server_respond_Inr [OF s] d(1,2) chal [OF True] True show ?thesis
      by (auto simp: verify_signature_Inr)
  next
    case False
    with v server_respond_Inr [OF s] d(1,2) show ?thesis by (auto simp: verify_signature_Inr)
  qed
qed

section \<open>A server that is accepted\<close>

lemma check_pin_Inr:
  "check_pin C cfg key64 = Inr u \<Longrightarrow>
     (case cc_pin cfg of
        PinExact k \<Rightarrow> parse_public_key C key64 = Inr k
      | PinNone InternalLoopback \<Rightarrow> parse_public_key C key64 = Inr (cy_public C (cc_identity cfg))
      | PinNone UserConfirmRequired \<Rightarrow> \<exists>confirm. cc_confirm cfg = Some confirm \<and> confirm key64)"
  by (auto simp: check_pin_def split: pin_expectation.splits core_reason.splits sum.splits option.splits if_splits)

lemma client_accept_Inr:
  assumes "client_accept C cfg es nonce r = Inr (ch, ver)"
  shows "\<exists>k shared. check_pin C cfg (hr_server_ed25519_pub_base64 r) = Inr () \<and>
    hr_proto_ver r = PROTOCOL_VERSION \<and> ver = PROTOCOL_VERSION \<and>
    parse_public_key C (hr_server_ed25519_pub_base64 r) = Inr k \<and> length (hr_signature r) = 64 \<and>
    cy_verify C k (build_response_sig_payload (hr_server_x25519_pub r) (es_public es) nonce (cc_server_id cfg)) (hr_signature r) \<and>
    parse_x25519_key (hr_server_x25519_pub r) = Inr (hr_server_x25519_pub r) \<and>
    cy_x25519 C (es_secret es) (hr_server_x25519_pub r) = shared \<and> \<not> all_zero shared \<and>
    ch = \<lparr>sc_key = derive_session_key C shared, sc_peer_id = cc_server_id cfg, sc_peer_domain = [],
          sc_peer_device_type = [], sc_selected_codec = hr_selected_codec r, sc_peer_os = hr_server_os r\<rparr>"
proof -
  have par: "peer = p" if "parse_x25519_key p = Inr peer" for p peer
    using that by (auto simp: parse_x25519_key_def split: if_splits)
  show ?thesis
    using assms
    by (auto simp: client_accept_def client_version_gate_def compute_session_key_def diffie_hellman_bytes_def Let_def
        split: if_splits sum.splits dest!: par)
qed

text \<open>
  C2. A channel the client opens is with the server it expected. The response carries a valid signature over
  the server's ephemeral key and this connection's own ephemeral key, nonce and the dialled
  identifier, by a key that is the pinned one, or the client's own for a loop back, or one the user has
  confirmed; the server speaks exactly this version; and the session key comes from the client's
  fresh secret and the signed ephemeral key.
\<close>
theorem client_channel:
  assumes "client_handshake C B net cfg random nonce io = (Inr (ch, ver), io')"
  shows "\<exists>r k. parse_public_key C (hr_server_ed25519_pub_base64 r) = Inr k \<and>
      cy_verify C k (build_response_sig_payload (hr_server_x25519_pub r) (es_public (ephemeral_new C random)) nonce
        (cc_server_id cfg)) (hr_signature r) \<and>
      (\<exists>d. Message d \<in> set (hio_reads io) \<and> parse_handshake_response B d = Inr r) \<and>
      (case cc_pin cfg of
         PinExact pin \<Rightarrow> k = pin
       | PinNone InternalLoopback \<Rightarrow> k = cy_public C (cc_identity cfg)
       | PinNone UserConfirmRequired \<Rightarrow>
           \<exists>confirm. cc_confirm cfg = Some confirm \<and> confirm (hr_server_ed25519_pub_base64 r)) \<and>
      ver = 4 \<and> hr_proto_ver r = 4 \<and>
      sc_key ch = derive_session_key C (cy_x25519 C (clamp random) (hr_server_x25519_pub r)) \<and>
      parse_x25519_key (hr_server_x25519_pub r) = Inr (hr_server_x25519_pub r)"
proof -
  let ?es = "ephemeral_new C random"
  from assms obtain m0 d1 rs d2 io3 r where
    first: "hio_reads io = Message d1 # rs" and
    ans: "answer_challenge C B net cfg ?es nonce d1 (io\<lparr>hio_sent := hio_sent io @ [m0], hio_reads := rs\<rparr>) = (Inr d2, io3)" and
    parse: "client_parse B d2 = Inr r" and acc: "client_accept C cfg ?es nonce r = Inr (ch, ver)"
    unfolding client_handshake_def Let_def hs_Inr hlift_Inr by clarsimp
  have d2: "Message d2 \<in> set (hio_reads io)"
    using ans first by (auto simp: answer_challenge_def hs_Inr split: option.splits)
  have "parse_handshake_response B d2 = Inr r"
    using parse by (auto simp: client_parse_def split: sum.splits)
  moreover obtain k where k: "parse_public_key C (hr_server_ed25519_pub_base64 r) = Inr k"
    using client_accept_Inr [OF acc] by blast
  moreover have "case cc_pin cfg of
       PinExact pin \<Rightarrow> k = pin
     | PinNone InternalLoopback \<Rightarrow> k = cy_public C (cc_identity cfg)
     | PinNone UserConfirmRequired \<Rightarrow> \<exists>confirm. cc_confirm cfg = Some confirm \<and> confirm (hr_server_ed25519_pub_base64 r)"
    using client_accept_Inr [OF acc] k check_pin_Inr [of C cfg "hr_server_ed25519_pub_base64 r" "()"]
    by (auto split: pin_expectation.splits core_reason.splits)
  ultimately show ?thesis
    using d2 client_accept_Inr [OF acc]
    by (intro exI [of _ r] exI [of _ k]) (auto simp: PROTOCOL_VERSION_def)
qed

section \<open>Two honest sides\<close>

text \<open>
  A client that holds the code and expects the server's key, and a server that requires the code and knows
  no key for the client. \<open>libs_agree\<close> states what the run needs of the crates: Diffie-Hellman commutes,
  signatures made with a key verify under it, a public key survives base64.
\<close>

definition libs_agree :: "crypto \<Rightarrow> bool" where
  "libs_agree C \<longleftrightarrow>
     (\<forall>a b. cy_x25519 C a (cy_x25519 C b X25519_BASEPOINT_BYTES) = cy_x25519 C b (cy_x25519 C a X25519_BASEPOINT_BYTES)) \<and>
     (\<forall>sk m. cy_verify C (cy_public C sk) m (cy_sign C sk m) \<and> length (cy_sign C sk m) = 64) \<and>
     (\<forall>sk. parse_public_key C (public_key_base64 C sk) = Inr (cy_public C sk))"

lemma libs_agreeD:
  assumes "libs_agree C"
  shows "cy_x25519 C a (cy_x25519 C b X25519_BASEPOINT_BYTES) = cy_x25519 C b (cy_x25519 C a X25519_BASEPOINT_BYTES)"
    and "cy_verify C (cy_public C sk) m (cy_sign C sk m)" and "length (cy_sign C sk m) = 64"
    and "parse_public_key C (public_key_base64 C sk) = Inr (cy_public C sk)"
  using assms by (auto simp: libs_agree_def)

text \<open>The four messages of the run, and that bincode reads back what it wrote.\<close>

definition run_messages :: "crypto \<Rightarrow> hs_codec \<Rightarrow> client_cfg \<Rightarrow> server_cfg \<Rightarrow> bytes \<Rightarrow> bytes \<Rightarrow> bytes \<Rightarrow> bytes \<Rightarrow>
    bytes \<Rightarrow> bytes \<Rightarrow> bytes \<Rightarrow> bytes \<Rightarrow> bool" where
  "run_messages C B cc vc crand cnonce srand snonce m1 m2 m3 m4 \<longleftrightarrow>
     (let ces = ephemeral_new C crand; ses = ephemeral_new C srand; init = client_init C cc ces cnonce;
          chal = \<lparr>hc_magic = HANDSHAKE_CHALLENGE_MAGIC, hc_nonce = snonce\<rparr>;
          resp = \<lparr>hcr_magic = HANDSHAKE_CHALLENGE_MAGIC,
                  hcr_response = challenge_response C (cc_challenge cc) snonce (es_public ces) cnonce\<rparr>;
          r = server_response C (vc_identity vc) (vc_server_id vc) (vc_os vc) ses init []
      in ser_init B init = Inr m1 \<and> de_init B m1 = Inr init \<and>
         ser_challenge B chal = Inr m2 \<and> de_challenge B m2 = Inr chal \<and>
         ser_challenge_resp B resp = Inr m3 \<and> de_challenge_resp B m3 = Inr resp \<and>
         ser_response B r = Inr m4 \<and> de_response B m4 = Inr r)"

lemma client_run:
  assumes libs: "libs_agree C" and msgs: "run_messages C B cc vc crand cnonce srand snonce m1 m2 m3 m4"
    and pin: "cc_pin cc = PinExact (cy_public C (vc_identity vc))" and dial: "cc_server_id cc = vc_server_id vc"
    and spub: "parse_x25519_key (es_public (ephemeral_new C srand)) = Inr (es_public (ephemeral_new C srand))"
    and shared: "\<not> all_zero (cy_x25519 C (clamp crand) (es_public (ephemeral_new C srand)))"
  shows "client_handshake C B (\<lambda>_. None) cc crand cnonce \<lparr>hio_reads = [Message m2, Message m4], hio_sent = [], hio_window = None\<rparr>
    = (Inr (\<lparr>sc_key = derive_session_key C (cy_x25519 C (clamp crand) (es_public (ephemeral_new C srand))),
             sc_peer_id = vc_server_id vc, sc_peer_domain = [], sc_peer_device_type = [], sc_selected_codec = [],
             sc_peer_os = vc_os vc\<rparr>, PROTOCOL_VERSION),
       \<lparr>hio_reads = [], hio_sent = [m1, m3], hio_window = None\<rparr>)"
proof -
  define ses where "ses = ephemeral_new C srand"
  define ces where "ces = ephemeral_new C crand"
  define r where "r = server_response C (vc_identity vc) (vc_server_id vc) (vc_os vc) ses (client_init C cc ces cnonce) []"
  have secret: "es_secret ces = clamp crand" by (simp add: ces_def ephemeral_new_def Let_def)
  have acc: "client_accept C cc ces cnonce r = Inr (\<lparr>sc_key = derive_session_key C (cy_x25519 C (clamp crand) (es_public ses)),
      sc_peer_id = vc_server_id vc, sc_peer_domain = [], sc_peer_device_type = [], sc_selected_codec = [],
      sc_peer_os = vc_os vc\<rparr>, PROTOCOL_VERSION)"
    using spub shared
    by (simp add: client_accept_def r_def server_response_def client_version_gate_def check_pin_def pin dial
        libs_agreeD [OF libs] compute_session_key_def diffie_hellman_bytes_def secret ses_def [symmetric] client_init_def Let_def)
  have "as_challenge B m2 = Some \<lparr>hc_magic = HANDSHAKE_CHALLENGE_MAGIC, hc_nonce = snonce\<rparr>"
    using msgs by (simp add: run_messages_def as_challenge_def Let_def)
  moreover have "client_parse B m4 = Inr r"
    using msgs by (simp add: run_messages_def client_parse_def parse_handshake_response_def Let_def r_def ses_def ces_def)
  ultimately show ?thesis
    using msgs acc
    by (simp add: client_handshake_def hbind_def hserialize_def hlift_def hsend_def hreceive_def answer_challenge_def
        run_messages_def Let_def ces_def [symmetric] ses_def [symmetric])
qed

lemma server_run:
  assumes libs: "libs_agree C" and msgs: "run_messages C B cc vc crand cnonce srand snonce m1 m2 m3 m4"
    and code: "vc_challenge vc = Some (cc_challenge cc)" "cc_challenge cc \<noteq> []"
    and nick: "vc_nickname vc = None \<or> vc_nickname vc = Some (cc_id cc)"
    and cpub: "parse_x25519_key (es_public (ephemeral_new C crand)) = Inr (es_public (ephemeral_new C crand))"
    and shared: "\<not> all_zero (cy_x25519 C (clamp srand) (es_public (ephemeral_new C crand)))"
  shows "server_handshake_verified C B (\<lambda>_. None) rm ck vc [] snonce srand
      \<lparr>hio_reads = [Message m1, Message m3], hio_sent = [], hio_window = None\<rparr>
    = (Inr \<lparr>sc_key = derive_session_key C (cy_x25519 C (clamp srand) (es_public (ephemeral_new C crand))),
            sc_peer_id = cc_id cc, sc_peer_domain = cc_domain cc, sc_peer_device_type = cc_device_type cc,
            sc_selected_codec = [], sc_peer_os = cc_os cc\<rparr>,
       \<lparr>hio_reads = [], hio_sent = [m2, m4], hio_window = None\<rparr>)"
proof -
  define ces where "ces = ephemeral_new C crand"
  define init where "init = client_init C cc ces cnonce"
  have fields: "hi_client_id init = cc_id cc" "hi_client_x25519_pub init = es_public ces" "hi_nonce init = cnonce"
    "hi_client_domain init = cc_domain cc" "hi_client_device_type init = cc_device_type cc" "hi_client_os init = cc_os cc"
    by (simp_all add: init_def client_init_def)
  have sig: "verify_signature C init = Inr ()"
    by (simp add: verify_signature_def init_def client_init_def init_sig_payload_def libs_agreeD [OF libs])
  have nick': "\<not> (case vc_nickname vc of None \<Rightarrow> False | Some e \<Rightarrow> e \<noteq> [] \<and> hi_client_id init \<noteq> e)"
    using nick by (auto simp: fields)
  have "verify_server_init_inner C rm ck init [] (vc_nickname vc) (vc_challenge vc) None False
      (Some \<lparr>ca_nonce = snonce, ca_response = challenge_response C (cc_challenge cc) snonce (es_public ces) cnonce\<rparr>) = (Inr (), None)"
    using nick' sig code
    by (simp add: verify_server_init_inner_def window_active_eq window_answered_def challenge_resp_matches_fixed_def fields Let_def)
  then show ?thesis
    using msgs cpub shared code
    by (simp add: server_handshake_verified_def server_read_init_def hbind_def hserialize_def hlift_def hsend_def hreceive_def
        hret_def maybe_challenge_def challenge_round_required_def server_challenge_round_def check_init_def server_respond_def
        parse_handshake_init_def run_messages_def Let_def ces_def [symmetric] init_def [symmetric] fields
        compute_session_key_def diffie_hellman_bytes_def)
qed

text \<open>
  C3. Two honest sides that hold the same code reach each other. The client that pins the server's key and
  the server that asks for the code exchange exactly four messages, and both end with a channel under the
  same key, each naming the other.
\<close>
theorem honest_handshake:
  assumes "libs_agree C" and "run_messages C B cc vc crand cnonce srand snonce m1 m2 m3 m4"
    and "cc_pin cc = PinExact (cy_public C (vc_identity vc))" and "cc_server_id cc = vc_server_id vc"
    and "vc_challenge vc = Some (cc_challenge cc)" and "cc_challenge cc \<noteq> []"
    and "vc_nickname vc = None \<or> vc_nickname vc = Some (cc_id cc)"
    and "parse_x25519_key (es_public (ephemeral_new C crand)) = Inr (es_public (ephemeral_new C crand))"
    and "parse_x25519_key (es_public (ephemeral_new C srand)) = Inr (es_public (ephemeral_new C srand))"
    and "\<not> all_zero (cy_x25519 C (clamp crand) (es_public (ephemeral_new C srand)))"
  shows "\<exists>ch ch' io io'.
     client_handshake C B (\<lambda>_. None) cc crand cnonce \<lparr>hio_reads = [Message m2, Message m4], hio_sent = [], hio_window = None\<rparr>
       = (Inr (ch, PROTOCOL_VERSION), io) \<and>
     server_handshake_verified C B (\<lambda>_. None) rm ck vc [] snonce srand
       \<lparr>hio_reads = [Message m1, Message m3], hio_sent = [], hio_window = None\<rparr> = (Inr ch', io') \<and>
     hio_sent io = [m1, m3] \<and> hio_sent io' = [m2, m4] \<and> sc_key ch = sc_key ch' \<and>
     sc_peer_id ch = vc_server_id vc \<and> sc_peer_id ch' = cc_id cc"
proof -
  have same: "cy_x25519 C (clamp srand) (es_public (ephemeral_new C crand)) =
      cy_x25519 C (clamp crand) (es_public (ephemeral_new C srand))"
    using libs_agreeD(1) [OF assms(1)] by (simp add: ephemeral_new_def Let_def)
  show ?thesis
    using client_run [OF assms(1,2,3,4,9,10)] server_run [OF assms(1,2,5,6,7,8), of rm ck] assms(10)
    by (simp add: same)
qed

section \<open>An example run\<close>

lemma str_bytes_chars: "str_bytes (map (\<lambda>x. char_of (unat x)) b) = b"
proof -
  have "of_char (char_of (unat x)) = x" for x :: u8
  proof -
    have "of_char (char_of (unat x)) = (of_nat (of_char (char_of (unat x)) :: nat) :: u8)"
      by (simp only: of_nat_of_char)
    also have "\<dots> = of_nat (unat x mod 256)" by (simp only: of_char_of)
    finally show ?thesis using unat_u8 [of x] by simp
  qed
  then show ?thesis by (induction b) (simp_all add: str_bytes_def)
qed

lemma demo_libs: "libs_agree demo_cy"
proof -
  have "map2 (*) a (map2 (*) b c) = map2 (*) b (map2 (*) a (c :: bytes))" for a b c
    by (rule nth_equalityI) (auto simp: ac_simps)
  moreover have "parse_public_key demo_cy (public_key_base64 demo_cy sk) = Inr (cy_public demo_cy sk)" for sk
  proof -
    have "cy_b64_decode demo_cy (cy_b64_encode demo_cy b) = Inr b" for b by (simp add: demo_cy_def str_bytes_chars)
    moreover have "length (cy_public demo_cy sk) = 32" "cy_point demo_cy b = None" for b by (simp_all add: demo_cy_def)
    ultimately show ?thesis by (simp add: parse_public_key_def public_key_base64_def)
  qed
  moreover have "cy_x25519 demo_cy = map2 (*)" by (simp add: demo_cy_def)
  moreover have "cy_verify demo_cy (cy_public demo_cy sk) m (cy_sign demo_cy sk m)" "length (cy_sign demo_cy sk m) = 64" for sk m
    by (simp_all add: demo_cy_def)
  ultimately show ?thesis unfolding libs_agree_def by metis
qed

definition demo_rand :: bytes where "demo_rand = 8 # replicate 31 0"

definition demo_pub :: bytes where "demo_pub = 72 # replicate 31 0"

lemma demo_clamp: "clamp demo_rand = 8 # replicate 30 0 @ [64]"
  by (simp add: clamp_def demo_rand_def numeral_eq_Suc Let_def)

lemma demo_ephemeral: "es_public (ephemeral_new demo_cy demo_rand) = demo_pub"
  unfolding ephemeral_new_def Let_def demo_clamp
  by (simp add: demo_cy_def X25519_BASEPOINT_BYTES_def demo_pub_def numeral_eq_Suc)

lemma demo_pub_ok: "parse_x25519_key demo_pub = Inr demo_pub"
proof -
  have "of_le_bytes (replicate n 0) = 0" for n by (induction n) simp_all
  then have v: "of_le_bytes demo_pub = 72" by (simp add: demo_pub_def)
  have "72 mod p25519 = 72" by (simp add: p25519_def)
  then have "72 mod p25519 \<notin> set low_order_coordinates" by (simp add: low_order_coordinates_def p25519_def)
  moreover have "demo_pub \<notin> set LOW_ORDER_POINTS"
    using low_order_set [of 72] calculation v by (force simp: image_iff)
  ultimately show ?thesis by (simp add: parse_x25519_key_def all_zero_def demo_pub_def)
qed

lemma demo_shared: "\<not> all_zero (cy_x25519 demo_cy (clamp demo_rand) demo_pub)"
  unfolding demo_clamp by (simp add: demo_cy_def demo_pub_def all_zero_def)

definition demo_cc :: client_cfg where
  "demo_cc = \<lparr>cc_identity = [7], cc_id = ''c'', cc_domain = [], cc_device_type = ''d'', cc_server_id = ''s'',
     cc_pin = PinExact (cy_public demo_cy [9]), cc_confirm = None, cc_challenge = ''code'', cc_codecs = [''h264''],
     cc_max_width = 0, cc_os = ''linux''\<rparr>"

definition demo_vc :: server_cfg where
  "demo_vc = \<lparr>vc_identity = [9], vc_server_id = ''s'', vc_nickname = None, vc_challenge = Some ''code'', vc_os = ''linux''\<rparr>"

definition demo_first :: handshake_init where
  "demo_first = client_init demo_cy demo_cc (ephemeral_new demo_cy demo_rand) [5]"

definition demo_last :: handshake_response where
  "demo_last = server_response demo_cy [9] ''s'' ''linux'' (ephemeral_new demo_cy demo_rand) demo_first []"

definition demo_answer :: handshake_challenge_resp where
  "demo_answer = \<lparr>hcr_magic = HANDSHAKE_CHALLENGE_MAGIC, hcr_response = challenge_response demo_cy ''code'' [6] demo_pub [5]\<rparr>"

definition demo_bincode :: hs_codec where
  "demo_bincode = \<lparr>ser_init = (\<lambda>_. Inr [1]), de_init = (\<lambda>d. if d = [1] then Inr demo_first else Inl ''init''),
     de_init_v2 = (\<lambda>_. Inl ''init''), de_init_v1 = (\<lambda>_. Inl ''init''),
     ser_response = (\<lambda>_. Inr [4]), de_response = (\<lambda>d. if d = [4] then Inr demo_last else Inl ''response''),
     de_response_v2 = (\<lambda>_. Inl ''response''), de_response_v1 = (\<lambda>_. Inl ''response''),
     ser_challenge = (\<lambda>_. Inr [2]),
     de_challenge = (\<lambda>d. if d = [2] then Inr \<lparr>hc_magic = HANDSHAKE_CHALLENGE_MAGIC, hc_nonce = [6]\<rparr> else Inl ''challenge''),
     ser_challenge_resp = (\<lambda>_. Inr [3]), de_challenge_resp = (\<lambda>d. if d = [3] then Inr demo_answer else Inl ''answer''),
     ser_reject = (\<lambda>_. Inr [0]), de_reject = (\<lambda>_. Inl ''reject'')\<rparr>"

lemma demo_messages: "run_messages demo_cy demo_bincode demo_cc demo_vc demo_rand [5] demo_rand [6] [1] [2] [3] [4]"
  by (simp add: run_messages_def demo_bincode_def Let_def demo_first_def demo_last_def demo_answer_def demo_ephemeral
      demo_vc_def) (simp add: demo_cc_def)

lemmas demo_run_facts = demo_libs demo_messages demo_ephemeral demo_pub_ok demo_shared

lemma demo_client_run:
  "\<exists>ch io. client_handshake demo_cy demo_bincode (\<lambda>_. None) demo_cc demo_rand [5]
     \<lparr>hio_reads = [Message [2], Message [4]], hio_sent = [], hio_window = None\<rparr> = (Inr (ch, PROTOCOL_VERSION), io)"
  using client_run [OF demo_libs demo_messages] demo_run_facts by (simp add: demo_cc_def demo_vc_def)

lemma demo_server_run:
  "\<exists>ch io. server_handshake_verified demo_cy demo_bincode (\<lambda>_. None) True \<lparr>ck_wall = 0, ck_mono = 0\<rparr> demo_vc [] [6] demo_rand
     \<lparr>hio_reads = [Message [1], Message [3]], hio_sent = [], hio_window = None\<rparr> = (Inr ch, io)"
  using server_run [OF demo_libs demo_messages, of True "\<lparr>ck_wall = 0, ck_mono = 0\<rparr>"] demo_run_facts
  by (simp add: demo_cc_def demo_vc_def)

theorem honest_handshake_witness:
  "\<exists>ch ch' io io'.
     client_handshake demo_cy demo_bincode (\<lambda>_. None) demo_cc demo_rand [5]
       \<lparr>hio_reads = [Message [2], Message [4]], hio_sent = [], hio_window = None\<rparr> = (Inr (ch, PROTOCOL_VERSION), io) \<and>
     server_handshake_verified demo_cy demo_bincode (\<lambda>_. None) True \<lparr>ck_wall = 0, ck_mono = 0\<rparr> demo_vc [] [6] demo_rand
       \<lparr>hio_reads = [Message [1], Message [3]], hio_sent = [], hio_window = None\<rparr> = (Inr ch', io') \<and> sc_key ch = sc_key ch'"
proof -
  have "cc_pin demo_cc = PinExact (cy_public demo_cy (vc_identity demo_vc))" "cc_server_id demo_cc = vc_server_id demo_vc"
    "vc_challenge demo_vc = Some (cc_challenge demo_cc)" "cc_challenge demo_cc \<noteq> []"
    "vc_nickname demo_vc = None \<or> vc_nickname demo_vc = Some (cc_id demo_cc)"
    by (simp_all add: demo_cc_def demo_vc_def)
  from honest_handshake [OF demo_libs demo_messages this, of True "\<lparr>ck_wall = 0, ck_mono = 0\<rparr>"]
  show ?thesis by (auto simp: demo_run_facts)
qed

theorem verified_channel_witness:
  "hcr_response demo_answer = challenge_response demo_cy ''code'' [6] (hi_client_x25519_pub demo_first) (hi_nonce demo_first)"
proof -
  obtain ch io where run: "server_handshake_verified demo_cy demo_bincode (\<lambda>_. None) True \<lparr>ck_wall = 0, ck_mono = 0\<rparr>
      demo_vc [] [6] demo_rand \<lparr>hio_reads = [Message [1], Message [3]], hio_sent = [], hio_window = None\<rparr> = (Inr ch, io)"
    using demo_server_run by blast
  have "parse_handshake_init demo_bincode [1] = Inr demo_first" "de_challenge_resp demo_bincode [3] = Inr demo_answer"
    "vc_challenge demo_vc = Some ''code''"
    by (simp_all add: parse_handshake_init_def demo_bincode_def demo_vc_def)
  then show ?thesis using verified_channel [OF run] by auto
qed

theorem client_channel_witness:
  "\<exists>k. cc_pin demo_cc = PinExact k \<and> parse_public_key demo_cy (hr_server_ed25519_pub_base64 demo_last) = Inr k"
proof -
  obtain ch io where run: "client_handshake demo_cy demo_bincode (\<lambda>_. None) demo_cc demo_rand [5]
      \<lparr>hio_reads = [Message [2], Message [4]], hio_sent = [], hio_window = None\<rparr> = (Inr (ch, PROTOCOL_VERSION), io)"
    using demo_client_run by blast
  have "parse_handshake_response demo_bincode [2] = Inl (HsInvalidMessage ''response'')"
    "parse_handshake_response demo_bincode [4] = Inr demo_last"
    by (simp_all add: parse_handshake_response_def demo_bincode_def)
  then show ?thesis using client_channel [OF run] by (auto simp: demo_cc_def)
qed

section \<open>What the signatures cover\<close>

lemma of_char_inject: "(of_char c :: u8) = of_char d \<longleftrightarrow> c = d"
proof
  have unat: "unat (of_char e :: u8) = of_char e" for e
  proof -
    have "(of_char e :: nat) < 256" using nat_of_char_less_256 by simp
    then have "unat (of_nat (of_char e :: nat) :: u8) = of_char e" by (simp add: unsigned_of_nat take_bit_nat_eq_self del: of_nat_of_char)
    then show ?thesis by (simp only: of_nat_of_char)
  qed
  assume "(of_char c :: u8) = of_char d"
  then have "(of_char c :: nat) = of_char d" using unat [of c] unat [of d] by metis
  then show "c = d" by simp
qed simp

lemma str_bytes_inject [simp]: "str_bytes s = str_bytes t \<longleftrightarrow> s = t"
  by (auto simp: str_bytes_def inj_map_eq_map inj_def of_char_inject)

lemma bar_in_str_bytes: "124 \<in> set (str_bytes s) \<longleftrightarrow> CHR ''|'' \<in> set s"
proof -
  have "(124 :: u8) = of_char (CHR ''|'')" by simp
  then show ?thesis by (auto simp: str_bytes_def of_char_inject simp del: of_char_Char)
qed

lemma split_at: "c \<notin> set xs \<Longrightarrow> c \<notin> set xs' \<Longrightarrow> xs @ c # ys = xs' @ c # ys' \<longleftrightarrow> xs = xs' \<and> ys = ys'"
proof (induction xs arbitrary: xs')
  case Nil
  then show ?case by (cases xs') auto
next
  case (Cons x xs)
  then show ?case by (cases xs') auto
qed

lemma set_join: "set (join '','' ss) \<subseteq> insert (CHR '','') (\<Union>(set ` set ss))"
  by (induction "'',''" ss rule: join.induct) auto

lemma join_Cons: "join '','' (s # ss) = (if ss = [] then s else s @ CHR '','' # join '','' ss)"
  by (cases ss) simp_all

lemma join_inject:
  assumes "\<forall>s\<in>set xs. s \<noteq> [] \<and> CHR '','' \<notin> set s" and "\<forall>s\<in>set ys. s \<noteq> [] \<and> CHR '','' \<notin> set s"
    and "join '','' xs = join '','' ys"
  shows "xs = ys"
  using assms
proof (induction xs arbitrary: ys)
  case Nil
  then show ?case by (cases ys) (auto simp: join_Cons split: if_splits)
next
  case (Cons x xs)
  show ?case
  proof (cases ys)
    case Nil
    with Cons.prems show ?thesis by (auto simp: join_Cons split: if_splits)
  next
    case (Cons y ys')
    have comma: "CHR '','' \<notin> set x" "CHR '','' \<notin> set y" using Cons.prems \<open>ys = y # ys'\<close> by auto
    have eq: "(if xs = [] then x else x @ CHR '','' # join '','' xs) = (if ys' = [] then y else y @ CHR '','' # join '','' ys')"
      using Cons.prems(3) \<open>ys = y # ys'\<close> by (simp add: join_Cons)
    have "x = y \<and> (xs = [] \<longleftrightarrow> ys' = []) \<and> join '','' xs = join '','' ys'"
    proof (cases "xs = []"; cases "ys' = []")
      assume "xs \<noteq> []" "ys' \<noteq> []"
      with eq split_at [OF comma] show ?thesis by simp
    qed (use eq comma in \<open>auto split: if_splits\<close>)
    with Cons.IH [of ys'] Cons.prems(1,2) \<open>ys = y # ys'\<close> show ?thesis by simp
  qed
qed

text \<open>No field of the message that the payload ends with a bar contains one, and the codecs are names.\<close>

definition plain_fields :: "handshake_init \<Rightarrow> bool" where
  "plain_fields i \<longleftrightarrow> length (hi_client_x25519_pub i) = 32 \<and> length (hi_nonce i) = 32 \<and>
     CHR ''|'' \<notin> set (hi_client_id i) \<and> CHR ''|'' \<notin> set (hi_client_domain i) \<and> CHR ''|'' \<notin> set (hi_client_device_type i) \<and>
     (\<forall>s\<in>set (hi_supported_codecs i). s \<noteq> [] \<and> CHR '','' \<notin> set s \<and> CHR ''|'' \<notin> set s)"

lemma be32_inject [simp]: "be32 a = be32 b \<longleftrightarrow> a = b"
  using of_be32_be32 by (metis be32_cases list.inject)

text \<open>
  C8. The client's signature binds every declared field. For messages without a bar in the identifier, the
  domain, the type and the codec names, the signed bytes determine the ephemeral key, the nonce, the
  identity, the version, the codecs, the width and the system: nothing can be stripped or altered.
\<close>
theorem signed_fields_bound:
  assumes "plain_fields i" and "plain_fields i'" and "init_sig_payload i = init_sig_payload i'"
  shows "hi_client_x25519_pub i = hi_client_x25519_pub i' \<and> hi_nonce i = hi_nonce i' \<and> hi_client_id i = hi_client_id i' \<and>
    hi_client_domain i = hi_client_domain i' \<and> hi_client_device_type i = hi_client_device_type i' \<and>
    hi_proto_ver i = hi_proto_ver i' \<and> hi_supported_codecs i = hi_supported_codecs i' \<and>
    hi_requested_max_width i = hi_requested_max_width i' \<and> hi_client_os i = hi_client_os i'"
proof -
  have nobar: "124 \<notin> set (str_bytes (hi_client_id j))" "124 \<notin> set (str_bytes (hi_client_domain j))"
    "124 \<notin> set (str_bytes (hi_client_device_type j))" "124 \<notin> set (str_bytes (join '','' (hi_supported_codecs j)))"
    if "plain_fields j" for j
    using that set_join [of "hi_supported_codecs j"] by (auto simp: plain_fields_def bar_in_str_bytes)
  have lens: "length (hi_client_x25519_pub i) = length (hi_client_x25519_pub i')" "length (hi_nonce i) = length (hi_nonce i')"
    using assms(1,2) by (simp_all add: plain_fields_def)
  have all: "hi_client_x25519_pub i = hi_client_x25519_pub i' \<and> hi_nonce i = hi_nonce i' \<and> hi_client_id i = hi_client_id i' \<and>
    hi_client_domain i = hi_client_domain i' \<and> hi_client_device_type i = hi_client_device_type i' \<and>
    hi_proto_ver i = hi_proto_ver i' \<and> join '','' (hi_supported_codecs i) = join '','' (hi_supported_codecs i') \<and>
    hi_requested_max_width i = hi_requested_max_width i' \<and> hi_client_os i = hi_client_os i'"
    using assms(3) lens
    by (simp add: init_sig_payload_def build_sig_payload_def bar_def split_at nobar [OF assms(1)] nobar [OF assms(2)])
  moreover have "hi_supported_codecs i = hi_supported_codecs i'"
    by (rule join_inject) (use assms(1,2) all in \<open>auto simp: plain_fields_def\<close>)
  ultimately show ?thesis by blast
qed

definition demo_full :: handshake_init where
  "demo_full = demo_first\<lparr>hi_client_x25519_pub := replicate 32 1, hi_nonce := replicate 32 2\<rparr>"

theorem signed_fields_bound_witness:
  "init_sig_payload (demo_full\<lparr>hi_proto_ver := 3\<rparr>) \<noteq> init_sig_payload demo_full"
proof
  assume "init_sig_payload (demo_full\<lparr>hi_proto_ver := 3\<rparr>) = init_sig_payload demo_full"
  moreover have "plain_fields demo_full" "plain_fields (demo_full\<lparr>hi_proto_ver := 3\<rparr>)"
    by (simp_all add: demo_full_def plain_fields_def demo_first_def client_init_def demo_cc_def)
  ultimately have "hi_proto_ver (demo_full\<lparr>hi_proto_ver := 3\<rparr>) = hi_proto_ver demo_full"
    using signed_fields_bound by blast
  then show False by (simp add: demo_full_def demo_first_def client_init_def PROTOCOL_VERSION_def)
qed

text \<open>With a bar inside a field the same bytes are the signature's for two different identities.\<close>

lemma signature_ambiguous:
  "init_sig_payload (i\<lparr>hi_client_id := ''office|corp'', hi_client_domain := ''example''\<rparr>) =
   init_sig_payload (i\<lparr>hi_client_id := ''office'', hi_client_domain := ''corp|example''\<rparr>)"
  by (simp add: init_sig_payload_def build_sig_payload_def bar_def str_bytes_def)

text \<open>
  The server's signature does not cover what it says about itself. Whoever carries a response that the
  client accepts may replace the selected codec, the system and the fingerprint in it at will: the client
  accepts it all the same and takes the new values into the channel.
\<close>
theorem response_extras_unsigned:
  "client_accept C cfg es nonce (r\<lparr>hr_selected_codec := codec, hr_server_fingerprint := fp, hr_server_os := os\<rparr>) =
     map_sum id (\<lambda>(ch, ver). (ch\<lparr>sc_selected_codec := codec, sc_peer_os := os\<rparr>, ver)) (client_accept C cfg es nonce r)"
  by (simp add: client_accept_def Let_def split: sum.split)

text \<open>
  Declining a key can panic the client. The text for a declined key cuts the server's string at byte 16
  before the string has been checked to be base64; a string with a two-byte character there ends the
  client's task with a panic instead of the error.
\<close>
theorem decline_panics:
  "\<exists>key. length key = 17 \<and> (\<forall>C cfg. cc_pin cfg = PinNone UserConfirmRequired \<and> cc_confirm cfg = Some (\<lambda>_. False) \<longrightarrow>
     check_pin C cfg key = Inl HsPanicked)"
  by (rule exI [of _ "replicate 15 (CHR ''A'') @ [CHR 0xC3, CHR 0xA9]"])
     (simp add: check_pin_def key_prefix_def char_boundary_def numeral_eq_Suc)

text \<open>
  A client with an uncovered low-order key gets the server's response. With the key the blacklist
  misses, for which the ladder returns zero, the server sends its key and its signature, and fails
  only afterwards.
\<close>
theorem masked_key_gets_response:
  assumes "cy_x25519 C (clamp random) masked_point = replicate 32 0" and "hi_client_x25519_pub init = masked_point"
    and "ser_response B (server_response C sk server_id os (ephemeral_new C random) init codec) = Inr m"
    and "net (hio_sent io) = None"
  shows "server_respond C B net sk server_id os random init codec io =
    (Inl (HsInvalidMessage ''X25519 key exchange failed: ECDH key exchange failed''), io\<lparr>hio_sent := hio_sent io @ [m]\<rparr>)"
  using assms blacklist_misses_masked
  by (simp add: server_respond_def hbind_def hserialize_def hlift_def hsend_def hthrow_def Let_def compute_session_key_def
      diffie_hellman_bytes_def all_zero_def list_all_iff)

section \<open>Whitelists and versions\<close>

text \<open>
  What a domain pattern matches, and what it should not. A pattern that is not blank matches its base and
  every domain below it; the base of \<^verbatim>\<open>*.\<close> is empty, so this pattern admits every client without a
  domain, which all clients in identifier mode are.
\<close>
theorem domain_pattern_exact:
  "domain_matches_whitelist domain pattern \<longleftrightarrow> trim pattern \<noteq> [] \<and>
     (let base = (if starts_with (trim pattern) ''*.'' then drop 2 (trim pattern) else trim pattern)
      in domain = base \<or> (\<exists>sub. domain = sub @ ''.'' @ base))
   \<and> domain_matches_whitelist [] ''*.''"
proof -
  have ends: "ends_with d p \<longleftrightarrow> (\<exists>sub. d = sub @ p)" for d p
    by (auto simp: ends_with_def) (metis append_take_drop_id)
  have "domain_matches_whitelist [] ''*.''"
    by (simp add: domain_matches_whitelist_def trim_def is_white_def strip_prefix_def starts_with_def)
  moreover have "domain_matches_whitelist domain pattern \<longleftrightarrow> trim pattern \<noteq> [] \<and>
     (let base = (if starts_with (trim pattern) ''*.'' then drop 2 (trim pattern) else trim pattern)
      in domain = base \<or> (\<exists>sub. domain = sub @ ''.'' @ base))"
    by (simp add: domain_matches_whitelist_def ends Let_def strip_prefix_def numeral_2_eq_2)
  ultimately show ?thesis by blast
qed

text \<open>
  Old clients are read and refused. A message only the oldest layout decodes has version 0, and one only
  the second layout decodes keeps its own; either way every version but 4 is answered with the code for a
  version mismatch, never with the server's keys.
\<close>
theorem old_versions_refused:
  assumes "parse_handshake_init B d = Inr init"
  shows "((\<forall>i. de_init B d \<noteq> Inr i) \<and> (\<forall>i. de_init_v2 B d \<noteq> Inr i) \<longrightarrow> hi_proto_ver init = 0)
    \<and> fst (reject_if_client_too_new B net init io) = Inr (hi_proto_ver init \<noteq> 4)
    \<and> (hi_proto_ver init \<noteq> 4 \<longrightarrow> hio_sent (snd (reject_if_client_too_new B net init io)) \<in>
         {hio_sent io} \<union> {hio_sent io @ [m] | m. ser_reject B \<lparr>hj_code = REJECT_CODE_VERSION_MISMATCH,
            hj_detail = ''client='' @ digits_of (unat (hi_proto_ver init)) @ '' server='' @ digits_of 4\<rparr> = Inr m})"
  using assms
  by (auto simp: parse_handshake_init_def PROTO_VER_LEGACY_def reject_if_client_too_new_def client_version_too_new_def
      server_version_gate_def PROTOCOL_VERSION_def hbind_def hret_def send_handshake_reject_def hsend_def
      split: sum.splits option.splits)

theorem old_versions_refused_witness:
  "fst (reject_if_client_too_new demo_bincode (\<lambda>_. None) demo_first
     \<lparr>hio_reads = [], hio_sent = [], hio_window = None\<rparr>) = Inr False"
proof -
  have "parse_handshake_init demo_bincode [1] = Inr demo_first" by (simp add: parse_handshake_init_def demo_bincode_def)
  from old_versions_refused [OF this, of "\<lambda>_. None" "\<lparr>hio_reads = [], hio_sent = [], hio_window = None\<rparr>"]
  show ?thesis by (simp add: demo_first_def client_init_def PROTOCOL_VERSION_def)
qed

text \<open>The example crypto with a ladder that masks the top bit on the missed key.\<close>

theorem masked_key_gets_response_witness:
  "hio_sent (snd (server_respond (demo_cy\<lparr>cy_x25519 := (\<lambda>s u. if u = masked_point then replicate 32 0 else u)\<rparr>)
     demo_bincode (\<lambda>_. None) [9] ''s'' ''linux'' demo_rand (demo_first\<lparr>hi_client_x25519_pub := masked_point\<rparr>) []
     \<lparr>hio_reads = [], hio_sent = [], hio_window = None\<rparr>)) = [[4]]"
  by (subst masked_key_gets_response [where m = "[4]"]) (simp_all add: demo_bincode_def)

end
