(* ===== verification/Core_Channel.thy ===== *)
theory Core_Channel
  imports Core_Exchange
begin

text \<open>
  The encrypted channel after the handshake: \<^verbatim>\<open>SecureChannel\<close>, its two halves from
  \<^verbatim>\<open>core/src/crypto/handshake.rs\<close>, and the length-prefixed messages of \<^verbatim>\<open>core/src/network/tcp.rs\<close>. What the
  reading half sees of its stream is a list of events: a read returns a chunk, or fails, or the caller
  drops the call while it waits (\<open>Dropped\<close>); a stream with nothing left is at its end.
\<close>

section \<open>Messages with a length\<close>

definition DEFAULT_MAX_MESSAGE :: nat where "DEFAULT_MAX_MESSAGE = 16 * 1024 * 1024"
definition MAX_CHANNEL_FRAME_LEN :: nat where "MAX_CHANNEL_FRAME_LEN = DEFAULT_MAX_MESSAGE + 64"

definition send_message :: "bytes \<Rightarrow> bytes" where
  "send_message d = be32 (of_nat (length d)) @ d"

fun prefix_len :: "bytes \<Rightarrow> nat" where
  "prefix_len (a # b # c # d # _) = unat (of_be32 a b c d)"
| "prefix_len _ = 0"

text \<open>The result and what is left of the stream.\<close>

definition read_length_prefixed :: "nat \<Rightarrow> bytes \<Rightarrow> (tcp_error + bytes) \<times> bytes" where
  "read_length_prefixed max_len s =
     (if length s < 4 then (Inl (TcpIo UnexpectedEof), [])
      else let len = prefix_len s; s = drop 4 s
           in if max_len < len then (Inl (MessageTooLarge len max_len), s)
              else if length s < len then (Inl (TcpIo UnexpectedEof), [])
              else (Inr (take len s), drop len s))"

definition receive_message :: "bytes \<Rightarrow> (tcp_error + bytes) \<times> bytes" where
  "receive_message s = read_length_prefixed DEFAULT_MAX_MESSAGE s"

section \<open>The whole channel\<close>

text \<open>Sending, also by \<^verbatim>\<open>SecureChannelWriter\<close>: the bytes written.\<close>

definition channel_send :: "crypto \<Rightarrow> bytes \<Rightarrow> bytes \<Rightarrow> bytes \<Rightarrow> hs_error + bytes" where
  "channel_send C key nonce plaintext =
     (case encrypt_simple C key nonce plaintext of
        Inl e \<Rightarrow> Inl (HsInvalidMessage e)
      | Inr (n, ciphertext) \<Rightarrow> (let packet = n @ ciphertext in Inr (be32 (of_nat (length packet)) @ packet)))"

definition open_packet :: "crypto \<Rightarrow> bytes \<Rightarrow> bytes \<Rightarrow> hs_error + bytes" where
  "open_packet C key packet =
     (if length packet < 12 then Inl (HsInvalidMessage ''packet too short'')
      else case decrypt_simple C key (take 12 packet) (drop 12 packet) of
             Inl _ \<Rightarrow> Inl (HsInvalidMessage ''decryption failed'')
           | Inr p \<Rightarrow> Inr p)"

definition channel_receive :: "crypto \<Rightarrow> bytes \<Rightarrow> bytes \<Rightarrow> (hs_error + bytes) \<times> bytes" where
  "channel_receive C key s =
     (case read_length_prefixed MAX_CHANNEL_FRAME_LEN s of
        (Inl e, s) \<Rightarrow> (Inl (HsTcp e), s)
      | (Inr packet, s) \<Rightarrow> (open_packet C key packet, s))"

section \<open>The reading half\<close>

datatype chunk = Chunk bytes | ChunkError io_kind | Dropped

record channel_reader =
  rd_buf :: bytes
  rd_pkt_len :: "nat option"

definition reader_new :: channel_reader where
  "reader_new = \<lparr>rd_buf = [], rd_pkt_len = None\<rparr>"

datatype call_outcome = Done "hs_error + bytes" | Cancelled

definition want_more :: "channel_reader \<Rightarrow> bool" where
  "want_more r = (case rd_pkt_len r of None \<Rightarrow> length (rd_buf r) < 4 | Some tot \<Rightarrow> length (rd_buf r) < tot)"

function reader_receive :: "crypto \<Rightarrow> bytes \<Rightarrow> chunk list \<Rightarrow> channel_reader \<Rightarrow> call_outcome \<times> chunk list \<times> channel_reader" where
  "reader_receive C key cs r =
     (if want_more r then
        (case cs of
           [] \<Rightarrow> (Done (Inl (HsIo UnexpectedEof)), [], r)
         | Dropped # cs \<Rightarrow> (Cancelled, cs, r)
         | ChunkError k # cs \<Rightarrow> (Done (Inl (HsIo k)), cs, r)
         | Chunk b # cs \<Rightarrow>
             if b = [] then (Done (Inl (HsIo UnexpectedEof)), cs, r)
             else reader_receive C key cs (r\<lparr>rd_buf := rd_buf r @ b\<rparr>))
      else case rd_pkt_len r of
             None \<Rightarrow>
               (let len = prefix_len (rd_buf r)
                in if MAX_CHANNEL_FRAME_LEN < len then (Done (Inl (HsTcp (MessageTooLarge len MAX_CHANNEL_FRAME_LEN))), cs, r)
                   else reader_receive C key cs (r\<lparr>rd_pkt_len := Some (4 + len)\<rparr>))
           | Some tot \<Rightarrow>
               (let msg = take tot (rd_buf r)
                in (Done (open_packet C key (drop 4 msg)), cs, \<lparr>rd_buf = drop tot (rd_buf r), rd_pkt_len = None\<rparr>)))"
  by pat_completeness auto
termination
  by (relation "measures [\<lambda>(C, key, cs, r). length cs, \<lambda>(C, key, cs, r). if rd_pkt_len r = None then 1 else 0]") auto

declare reader_receive.simps [simp del]

lemma reader_steps:
  "want_more r \<Longrightarrow> reader_receive C key [] r = (Done (Inl (HsIo UnexpectedEof)), [], r)"
  "want_more r \<Longrightarrow> reader_receive C key (Dropped # cs) r = (Cancelled, cs, r)"
  "want_more r \<Longrightarrow> reader_receive C key (ChunkError k # cs) r = (Done (Inl (HsIo k)), cs, r)"
  "want_more r \<Longrightarrow> reader_receive C key (Chunk [] # cs) r = (Done (Inl (HsIo UnexpectedEof)), cs, r)"
  "want_more r \<Longrightarrow> b \<noteq> [] \<Longrightarrow> reader_receive C key (Chunk b # cs) r = reader_receive C key cs (r\<lparr>rd_buf := rd_buf r @ b\<rparr>)"
  "\<not> want_more r \<Longrightarrow> rd_pkt_len r = None \<Longrightarrow> MAX_CHANNEL_FRAME_LEN < prefix_len (rd_buf r) \<Longrightarrow>
     reader_receive C key cs r = (Done (Inl (HsTcp (MessageTooLarge (prefix_len (rd_buf r)) MAX_CHANNEL_FRAME_LEN))), cs, r)"
  "\<not> want_more r \<Longrightarrow> rd_pkt_len r = None \<Longrightarrow> \<not> MAX_CHANNEL_FRAME_LEN < prefix_len (rd_buf r) \<Longrightarrow>
     reader_receive C key cs r = reader_receive C key cs (r\<lparr>rd_pkt_len := Some (4 + prefix_len (rd_buf r))\<rparr>)"
  "\<not> want_more r \<Longrightarrow> rd_pkt_len r = Some tot \<Longrightarrow>
     reader_receive C key cs r = (Done (open_packet C key (drop 4 (take tot (rd_buf r)))), cs, \<lparr>rd_buf = drop tot (rd_buf r), rd_pkt_len = None\<rparr>)"
  by (simp_all add: reader_receive.simps [of C key _ r] Let_def)

section \<open>The two readers agree\<close>

text \<open>
  What a reader has still to deliver, and that a remembered length is the one at the front of the buffer.
\<close>

fun chunk_bytes :: "chunk \<Rightarrow> bytes" where
  "chunk_bytes (Chunk b) = b"
| "chunk_bytes _ = []"

definition still_to_come :: "chunk list \<Rightarrow> channel_reader \<Rightarrow> bytes" where
  "still_to_come cs r = rd_buf r @ concat (map chunk_bytes cs)"

definition reader_ok :: "channel_reader \<Rightarrow> bool" where
  "reader_ok r \<longleftrightarrow> (case rd_pkt_len r of None \<Rightarrow> True
     | Some tot \<Rightarrow> 4 \<le> length (rd_buf r) \<and> tot = 4 + prefix_len (rd_buf r) \<and> prefix_len (rd_buf r) \<le> MAX_CHANNEL_FRAME_LEN)"

definition flowing :: "chunk list \<Rightarrow> bool" where
  "flowing cs \<longleftrightarrow> (\<forall>c\<in>set cs. c = Dropped \<or> (\<exists>b. c = Chunk b \<and> b \<noteq> []))"

lemma prefix_len_append: "4 \<le> length s \<Longrightarrow> prefix_len (s @ t) = prefix_len s"
  by (auto simp: numeral_eq_Suc Suc_le_length_iff)

lemma prefix_len_send: "length d < 2 ^ 32 \<Longrightarrow> prefix_len (be32 (of_nat (length d)) @ t) = length d"
proof -
  assume "length d < 2 ^ 32"
  then have "unat (of_nat (length d) :: u32) = length d" by (simp add: unsigned_of_nat take_bit_nat_eq_self)
  moreover obtain a b c e where "be32 (of_nat (length d)) = [a, b, c, e]" "of_be32 a b c e = of_nat (length d)"
    by (rule be32_cases)
  ultimately show ?thesis by simp
qed

text \<open>An end of the stream is reported as \<^verbatim>\<open>Io\<close> by the half and as \<^verbatim>\<open>Tcp\<close> by the whole channel.\<close>

definition same_outcome :: "hs_error + bytes \<Rightarrow> hs_error + bytes \<Rightarrow> bool" where
  "same_outcome x y \<longleftrightarrow> x = y \<or> x = Inl (HsIo UnexpectedEof) \<and> y = Inl (HsTcp (TcpIo UnexpectedEof))"

lemma reader_receive_agrees:
  "reader_ok r \<Longrightarrow> flowing cs \<Longrightarrow> reader_receive C key cs r = (out, cs', r') \<Longrightarrow>
   reader_ok r' \<and> flowing cs' \<and>
   (case out of
      Cancelled \<Rightarrow> still_to_come cs' r' = still_to_come cs r \<and> length cs' < length cs
    | Done x \<Rightarrow> \<exists>y rest. channel_receive C key (still_to_come cs r) = (y, rest) \<and> same_outcome x y \<and>
        (\<forall>p. x = Inr p \<longrightarrow> still_to_come cs' r' = rest))"
proof (induction C key cs r arbitrary: out cs' r' rule: reader_receive.induct)
  case (1 C key cs r)
  show ?case
  proof (cases "want_more r")
    case True
    show ?thesis
    proof (cases cs)
      case Nil
      have res: "out = Done (Inl (HsIo UnexpectedEof))" "cs' = []" "r' = r"
        using "1.prems"(3) True by (simp_all add: Nil reader_steps)
      have "channel_receive C key (rd_buf r) = (Inl (HsTcp (TcpIo UnexpectedEof)), [])"
        using True "1.prems"(1)
        by (auto simp: channel_receive_def read_length_prefixed_def want_more_def reader_ok_def Let_def split: option.splits)
      then show ?thesis
        using res "1.prems"(1,2) by (simp add: Nil same_outcome_def still_to_come_def)
    next
      case (Cons c cs1)
      with "1.prems"(2) have fl: "flowing cs1" and c: "c = Dropped \<or> (\<exists>b. c = Chunk b \<and> b \<noteq> [])"
        by (auto simp: flowing_def)
      show ?thesis
      proof (cases "c = Dropped")
        case True
        then have "out = Cancelled" "cs' = cs1" "r' = r"
          using "1.prems"(3) \<open>want_more r\<close> by (simp_all add: Cons reader_steps)
        with True Cons "1.prems"(1) fl show ?thesis by (simp add: still_to_come_def)
      next
        case False
        with c obtain b where b: "c = Chunk b" "b \<noteq> []" by blast
        let ?r = "r\<lparr>rd_buf := rd_buf r @ b\<rparr>"
        have ok: "reader_ok ?r"
          using "1.prems"(1) prefix_len_append [of "rd_buf r" b] by (auto simp: reader_ok_def split: option.splits)
        have step: "reader_receive C key cs1 ?r = (out, cs', r')"
          using "1.prems"(3) \<open>want_more r\<close> Cons b by (simp add: reader_steps)
        have same: "still_to_come cs1 ?r = still_to_come cs r" using Cons b by (simp add: still_to_come_def)
        from "1.IH"(1) [OF \<open>want_more r\<close> Cons b(1) b(2) ok fl step] Cons show ?thesis
          by (auto simp: same split: call_outcome.splits)
      qed
    qed
  next
    case enough: False
    show ?thesis
    proof (cases "rd_pkt_len r")
      case None
      with enough have four: "4 \<le> length (rd_buf r)" by (simp add: want_more_def)
      then have pl: "prefix_len (still_to_come cs r) = prefix_len (rd_buf r)"
        by (simp add: still_to_come_def prefix_len_append)
      show ?thesis
      proof (cases "MAX_CHANNEL_FRAME_LEN < prefix_len (rd_buf r)")
        case True
        have res: "out = Done (Inl (HsTcp (MessageTooLarge (prefix_len (rd_buf r)) MAX_CHANNEL_FRAME_LEN)))" "cs' = cs" "r' = r"
          using reader_steps(6) [OF enough None True, of C key cs] "1.prems"(3) by auto
        have "\<not> length (still_to_come cs r) < 4" using four by (simp add: still_to_come_def)
        then have "channel_receive C key (still_to_come cs r) =
            (Inl (HsTcp (MessageTooLarge (prefix_len (rd_buf r)) MAX_CHANNEL_FRAME_LEN)), drop 4 (still_to_come cs r))"
          using True by (simp add: channel_receive_def read_length_prefixed_def pl Let_def)
        with res "1.prems"(1,2) show ?thesis by (simp add: same_outcome_def)
      next
        case False
        let ?r = "r\<lparr>rd_pkt_len := Some (4 + prefix_len (rd_buf r))\<rparr>"
        have step: "reader_receive C key cs ?r = (out, cs', r')"
          using "1.prems"(3) enough None False by (simp add: reader_steps)
        have ok: "reader_ok ?r" using four False by (simp add: reader_ok_def)
        have same: "still_to_come cs ?r = still_to_come cs r" by (simp add: still_to_come_def)
        from "1.IH"(2) [OF enough None refl False ok "1.prems"(2) step, unfolded same] show ?thesis .
      qed
    next
      case (Some tot)
      with "1.prems"(1) have t: "4 \<le> length (rd_buf r)" "tot = 4 + prefix_len (rd_buf r)"
        "prefix_len (rd_buf r) \<le> MAX_CHANNEL_FRAME_LEN" by (auto simp: reader_ok_def)
      have full: "tot \<le> length (rd_buf r)" using enough Some by (simp add: want_more_def)
      have res: "out = Done (open_packet C key (drop 4 (take tot (rd_buf r))))" "cs' = cs"
        "r' = \<lparr>rd_buf = drop tot (rd_buf r), rd_pkt_len = None\<rparr>"
        using "1.prems"(3) enough Some by (simp_all add: reader_steps)
      have pl: "prefix_len (still_to_come cs r) = prefix_len (rd_buf r)"
        using t(1) by (simp add: still_to_come_def prefix_len_append)
      have "channel_receive C key (still_to_come cs r) =
          (open_packet C key (drop 4 (take tot (rd_buf r))), drop tot (rd_buf r) @ concat (map chunk_bytes cs))"
      proof -
        have n: "\<not> length (still_to_come cs r) < 4" "\<not> length (drop 4 (still_to_come cs r)) < prefix_len (rd_buf r)"
          "take (prefix_len (rd_buf r)) (drop 4 (still_to_come cs r)) = drop 4 (take tot (rd_buf r))"
          "drop (prefix_len (rd_buf r)) (drop 4 (still_to_come cs r)) = drop tot (rd_buf r) @ concat (map chunk_bytes cs)"
          using t full by (auto simp: still_to_come_def take_drop add.commute)
        have "read_length_prefixed MAX_CHANNEL_FRAME_LEN (still_to_come cs r) =
            (Inr (drop 4 (take tot (rd_buf r))), drop tot (rd_buf r) @ concat (map chunk_bytes cs))"
          unfolding read_length_prefixed_def Let_def pl using t(3) by (simp add: n del: length_drop drop_drop)
        then show ?thesis by (simp add: channel_receive_def)
      qed
      with res "1.prems"(2) show ?thesis by (simp add: reader_ok_def same_outcome_def still_to_come_def)
    qed
  qed
qed

text \<open>
  C5. The reading half reads what the whole channel would. Take a network that cuts the stream into any
  non-empty chunks and reports no read error, and a caller that may have dropped earlier calls anywhere.
  One call then returns what \<^verbatim>\<open>SecureChannel::receive\<close> would return on the bytes still to come, with one
  difference: where those bytes end too early the whole channel reports the end of file as a TCP error
  and the half may report it as an I/O error of its own. A message it returns leaves the same bytes as
  the whole channel leaves, and a dropped call loses nothing.
\<close>
theorem reader_equivalent:
  assumes "reader_ok r" and "flowing cs" and "reader_receive C key cs r = (out, cs', r')"
  shows "reader_ok r' \<and> flowing cs' \<and>
   (case out of
      Cancelled \<Rightarrow> still_to_come cs' r' = still_to_come cs r
    | Done x \<Rightarrow> (let (y, rest) = channel_receive C key (still_to_come cs r) in
        (x = y \<or> x = Inl (HsIo UnexpectedEof) \<and> y = Inl (HsTcp (TcpIo UnexpectedEof))) \<and>
        (\<forall>p. x = Inr p \<longrightarrow> still_to_come cs' r' = rest)))"
  using reader_receive_agrees [OF assms] by (auto simp: same_outcome_def split: call_outcome.splits)

section \<open>Delivery\<close>

text \<open>The results of successive calls.\<close>

fun reader_calls :: "crypto \<Rightarrow> bytes \<Rightarrow> nat \<Rightarrow> chunk list \<Rightarrow> channel_reader \<Rightarrow> call_outcome list" where
  "reader_calls C key 0 cs r = []"
| "reader_calls C key (Suc n) cs r =
     (case reader_receive C key cs r of (out, cs', r') \<Rightarrow> out # reader_calls C key n cs' r')"

fun delivered :: "call_outcome list \<Rightarrow> (hs_error + bytes) list" where
  "delivered [] = []"
| "delivered (Done x # os) = x # delivered os"
| "delivered (Cancelled # os) = delivered os"

definition drops :: "chunk list \<Rightarrow> nat" where
  "drops cs = length (filter (\<lambda>c. c = Dropped) cs)"

text \<open>What the cipher must do: open what it sealed under the same nonce of twelve bytes.\<close>

definition seals :: "crypto \<Rightarrow> bytes \<Rightarrow> bytes \<Rightarrow> bytes \<Rightarrow> bool" where
  "seals C key nonce p \<longleftrightarrow> length nonce = 12 \<and>
     (\<forall>ct. cy_seal C key nonce p [] = Inr ct \<longrightarrow> cy_open C key nonce ct [] = Some p)"

text \<open>
  The packet, the nonce and what the cipher made of the message, is within the receiver's limit. The
  sender does not check this.
\<close>

definition packet_fits :: "crypto \<Rightarrow> bytes \<Rightarrow> bytes \<Rightarrow> bytes \<Rightarrow> bool" where
  "packet_fits C key nonce p \<longleftrightarrow>
     (case encrypt_simple C key nonce p of Inl _ \<Rightarrow> True | Inr (n, ct) \<Rightarrow> length n + length ct \<le> MAX_CHANNEL_FRAME_LEN)"

lemma read_length_prefixed_send:
  assumes "length d < 2 ^ 32" and "length d \<le> n"
  shows "read_length_prefixed n (be32 (of_nat (length d)) @ d @ rest) = (Inr d, rest)"
  using assms prefix_len_send [OF assms(1), of "d @ rest"] by (simp add: read_length_prefixed_def Let_def)

lemma channel_roundtrip_one:
  assumes "seals C key nonce p" and "packet_fits C key nonce p" and "channel_send C key nonce p = Inr frame"
  shows "channel_receive C key (frame @ rest) = (Inr p, rest)"
proof -
  from assms(3) obtain ct where "cy_seal C key nonce p [] = Inr ct"
    by (auto simp: channel_send_def encrypt_simple_def encrypt_def split: sum.splits)
  with assms(1,2) have ct: "cy_seal C key nonce p [] = Inr ct" "cy_open C key nonce ct [] = Some p"
    "length nonce = 12" "length ct + 12 \<le> MAX_CHANNEL_FRAME_LEN"
    by (auto simp: seals_def packet_fits_def encrypt_simple_def encrypt_def)
  define packet where "packet = nonce @ ct"
  have len: "length packet < 2 ^ 32" "length packet \<le> MAX_CHANNEL_FRAME_LEN"
    using ct by (simp_all add: packet_def MAX_CHANNEL_FRAME_LEN_def DEFAULT_MAX_MESSAGE_def)
  have "open_packet C key packet = Inr p"
    using ct by (simp add: packet_def open_packet_def decrypt_simple_def decrypt_def)
  then have "channel_receive C key ((be32 (of_nat (length packet)) @ packet) @ rest) = (Inr p, rest)"
    using read_length_prefixed_send [OF len] by (simp add: channel_receive_def)
  moreover have "channel_send C key nonce p = Inr (be32 (of_nat (length packet)) @ packet)"
    using ct(1) by (simp add: channel_send_def encrypt_simple_def encrypt_def Let_def packet_def)
  ultimately show ?thesis using assms(3) by simp
qed

fun send_all_sealed :: "crypto \<Rightarrow> bytes \<Rightarrow> (bytes \<times> bytes) list \<Rightarrow> hs_error + bytes" where
  "send_all_sealed C key [] = Inr []"
| "send_all_sealed C key ((nonce, p) # ps) =
     (case channel_send C key nonce p of
        Inl e \<Rightarrow> Inl e
      | Inr frame \<Rightarrow> (case send_all_sealed C key ps of Inl e \<Rightarrow> Inl e | Inr w \<Rightarrow> Inr (frame @ w)))"

lemma reader_receive_drops:
  "reader_receive C key cs r = (out, cs', r') \<Longrightarrow>
     drops cs = drops cs' + (if out = Cancelled then 1 else 0)"
proof (induction C key cs r arbitrary: out cs' r' rule: reader_receive.induct)
  case (1 C key cs r)
  show ?case
  proof (cases "want_more r")
    case True
    show ?thesis
    proof (cases cs)
      case Nil
      then show ?thesis using "1.prems" True by (auto simp: reader_steps)
    next
      case (Cons c cs1)
      show ?thesis
      proof (cases c)
        case (Chunk b)
        show ?thesis
        proof (cases "b = []")
          case True
          then show ?thesis
            using "1.prems" \<open>want_more r\<close> Cons Chunk by (auto simp: reader_steps drops_def)
        next
          case False
          then have "reader_receive C key cs1 (r\<lparr>rd_buf := rd_buf r @ b\<rparr>) = (out, cs', r')"
            using "1.prems" \<open>want_more r\<close> Cons Chunk by (simp add: reader_steps)
          from "1.IH"(1) [OF True Cons Chunk False this] show ?thesis by (simp add: Cons Chunk drops_def)
        qed
      qed (use "1.prems" True Cons in \<open>auto simp: reader_steps drops_def\<close>)
    qed
  next
    case False
    show ?thesis
    proof (cases "rd_pkt_len r")
      case None
      show ?thesis
      proof (cases "MAX_CHANNEL_FRAME_LEN < prefix_len (rd_buf r)")
        case True
        then show ?thesis using "1.prems" False None by (auto simp: reader_steps)
      next
        case small: False
        then have "reader_receive C key cs (r\<lparr>rd_pkt_len := Some (4 + prefix_len (rd_buf r))\<rparr>) = (out, cs', r')"
          using "1.prems" False None by (simp add: reader_steps)
        from "1.IH"(2) [OF False None refl small this] show ?thesis .
      qed
    next
      case (Some tot)
      then show ?thesis using "1.prems" False by (auto simp: reader_steps)
    qed
  qed
qed

lemma reader_calls_deliver:
  assumes "list_all (\<lambda>(nonce, p). seals C key nonce p \<and> packet_fits C key nonce p) ps"
    and "send_all_sealed C key ps = Inr wire" and "reader_ok r" and "flowing cs" and "still_to_come cs r = wire"
  shows "\<exists>n \<le> length ps + drops cs. delivered (reader_calls C key n cs r) = map (Inr \<circ> snd) ps"
  using assms
proof (induction "length ps + drops cs" arbitrary: ps wire cs r rule: less_induct)
  case less
  show ?case
  proof (cases ps)
    case Nil
    then show ?thesis by (intro exI [of _ 0]) simp
  next
    case (Cons np ps1)
    obtain nonce p where np: "np = (nonce, p)" by (cases np)
    with less.prems(1) Cons have seal: "seals C key nonce p" "packet_fits C key nonce p"
      and rest: "list_all (\<lambda>(nonce, p). seals C key nonce p \<and> packet_fits C key nonce p) ps1"
      by auto
    from less.prems(2) Cons np obtain frame w where f: "channel_send C key nonce p = Inr frame"
      and w: "send_all_sealed C key ps1 = Inr w" "wire = frame @ w" by (auto split: sum.splits)
    note received = channel_roundtrip_one [OF seal f]
    obtain out cs' r' where step: "reader_receive C key cs r = (out, cs', r')" by (cases "reader_receive C key cs r") auto
    note agree = reader_receive_agrees [OF less.prems(3,4) step]
    show ?thesis
    proof (cases out)
      case Cancelled
      with agree less.prems(5) have "still_to_come cs' r' = wire" "reader_ok r'" "flowing cs'" by auto
      moreover have "length ps + drops cs' < length ps + drops cs" "drops cs = Suc (drops cs')"
        using reader_receive_drops [OF step] Cancelled by auto
      ultimately obtain n where "n \<le> length ps + drops cs'" "delivered (reader_calls C key n cs' r') = map (Inr \<circ> snd) ps"
        using less.hyps [of ps cs' wire r'] less.prems(1,2) by blast
      with step Cancelled \<open>drops cs = Suc (drops cs')\<close> show ?thesis by (intro exI [of _ "Suc n"]) simp
    next
      case (Done x)
      with agree less.prems(5) received w(2) have x: "x = Inr p" "still_to_come cs' r' = w" "reader_ok r'" "flowing cs'"
        by (auto simp: same_outcome_def)
      have "drops cs' = drops cs" using reader_receive_drops [OF step] Done by simp
      with less.hyps [of ps1 cs' w r'] rest w(1) x Cons obtain n where
        "n \<le> length ps1 + drops cs" "delivered (reader_calls C key n cs' r') = map (Inr \<circ> snd) ps1" by auto
      with step Done x(1) Cons np show ?thesis by (intro exI [of _ "Suc n"]) simp
    qed
  qed
qed

text \<open>
  C4. The channel delivers. Assume a cipher that opens what it sealed, nonces of twelve bytes, and messages
  whose packets are within the receiver's limit (the sender does not check that, and a larger packet
  breaks the channel). What one side sends is then received by the other in order and unaltered, over any
  network that reports no error, however it cuts the bytes and however often the reader is dropped in
  the middle of a call and called again. Each message and each dropped call takes one call.
\<close>
theorem channel_delivers:
  assumes "\<forall>(nonce, p) \<in> set ps. seals C key nonce p" and "\<forall>(nonce, p) \<in> set ps. packet_fits C key nonce p"
    and "send_all_sealed C key ps = Inr wire" and "flowing cs" and "concat (map chunk_bytes cs) = wire"
  shows "\<exists>n \<le> length ps + drops cs. delivered (reader_calls C key n cs reader_new) = map (Inr \<circ> snd) ps"
proof -
  have "list_all (\<lambda>(nonce, p). seals C key nonce p \<and> packet_fits C key nonce p) ps"
    using assms(1,2) by (auto simp: list_all_iff)
  from reader_calls_deliver [OF this assms(3) _ assms(4), of reader_new] assms(5) show ?thesis
    by (simp add: reader_ok_def reader_new_def still_to_come_def)
qed

section \<open>Examples\<close>

definition demo_frames :: "(bytes \<times> bytes) list" where
  "demo_frames = [(replicate 12 1, [10, 11]), (replicate 12 2, [])]"

lemma demo_seals:
  "\<forall>(nonce, p) \<in> set demo_frames. seals demo_cy [] nonce p" "\<forall>(nonce, p) \<in> set demo_frames. packet_fits demo_cy [] nonce p"
  by (simp_all add: demo_frames_def seals_def packet_fits_def encrypt_simple_def encrypt_def demo_cy_def
      MAX_CHANNEL_FRAME_LEN_def DEFAULT_MAX_MESSAGE_def)

lemma demo_wire: "\<exists>wire. send_all_sealed demo_cy [] demo_frames = Inr wire \<and> wire \<noteq> []"
  by (simp add: demo_frames_def channel_send_def encrypt_simple_def encrypt_def demo_cy_def Let_def)

text \<open>The whole wire in one chunk, after a call that was dropped at once.\<close>

theorem channel_delivers_witness:
  "\<exists>wire n. n \<le> 3 \<and> delivered (reader_calls demo_cy [] n [Dropped, Chunk wire] reader_new) = [Inr [10, 11], Inr []]"
proof -
  obtain wire where w: "send_all_sealed demo_cy [] demo_frames = Inr wire" "wire \<noteq> []" using demo_wire by blast
  have "flowing [Dropped, Chunk wire]" "concat (map chunk_bytes [Dropped, Chunk wire]) = wire"
    using w(2) by (simp_all add: flowing_def)
  from channel_delivers [OF demo_seals w(1) this] obtain n where
    "n \<le> 3" "delivered (reader_calls demo_cy [] n [Dropped, Chunk wire] reader_new) = [Inr [10, 11], Inr []]"
    by (auto simp: demo_frames_def drops_def numeral_3_eq_3)
  then show ?thesis by blast
qed

theorem reader_equivalent_witness:
  "\<exists>wire out cs' r'. reader_receive demo_cy [] [Chunk wire] reader_new = (out, cs', r') \<and> reader_ok r' \<and> wire \<noteq> []"
proof -
  obtain wire where w: "send_all_sealed demo_cy [] demo_frames = Inr wire" "wire \<noteq> []" using demo_wire by blast
  obtain out cs' r' where run: "reader_receive demo_cy [] [Chunk wire] reader_new = (out, cs', r')"
    by (cases "reader_receive demo_cy [] [Chunk wire] reader_new") auto
  have "reader_ok reader_new" "flowing [Chunk wire]" using w(2) by (simp_all add: reader_ok_def reader_new_def flowing_def)
  from reader_equivalent [OF this run] run w(2) show ?thesis by blast
qed

end
