(* ===== verification/Device_Ids.thy ===== *)
theory Device_Ids
  imports Relay_Registry Core_Handshake
begin

text \<open>
  Device identifiers: how a device derives its own from a stable source of the system
  (\<^verbatim>\<open>utils/src/device.rs\<close>), and how the desktop (\<^verbatim>\<open>ui/src/lib.rs\<close>) and the mobile client
  (\<^verbatim>\<open>mobile/src/orchestration.rs\<close>) bring what a user types into the form the relay knows. SHA-256 is a
  parameter and gives 32 bytes. Trimming and lower case are those of ASCII, which is all the identifiers
  here contain.
\<close>

unbundle bit_operations_syntax

section \<open>Deriving an identifier\<close>

definition CROCKFORD_B32 :: string where
  "CROCKFORD_B32 = ''0000000089ABCDEFGHJKMNPQRSTVWXYZ''"

definition DEVICE_ID_V2_LEN :: nat where "DEVICE_ID_V2_LEN = 10"

definition id_is_auto :: "string \<Rightarrow> bool" where
  "id_is_auto device_id = (let t = trim device_id in t = [] \<or> t = ''default-device'')"

definition device_id_v2_shape_ok :: "string \<Rightarrow> bool" where
  "device_id_v2_shape_ok i =
     (let has_digit = list_ex is_ascii_digit i;
          has_alpha = list_ex is_ascii_alphabetic i;
          all_hex = (i \<noteq> [] \<and> list_all is_ascii_hexdigit i)
      in has_digit \<and> has_alpha \<and> \<not> all_hex)"

text \<open>The five bits from bit \<open>5 * i\<close> of the digest, most significant first.\<close>

definition symbol_value :: "bytes \<Rightarrow> nat \<Rightarrow> u32" where
  "symbol_value digest i =
     (let bit = i * 5; byte = bit div 8; rem = bit mod 8
      in if rem \<le> 3 then ucast (drop_bit (3 - rem) (digest ! byte) AND 0x1F)
         else let hi = digest ! byte AND (push_bit (8 - rem) 1 - 1);
                  need = 5 - (8 - rem)
              in push_bit need (ucast hi) OR ucast (drop_bit (8 - need) (digest ! Suc byte)))"

definition crockford_b32_prefix :: "bytes \<Rightarrow> nat \<Rightarrow> string" where
  "crockford_b32_prefix digest len = map (\<lambda>i. CROCKFORD_B32 ! unat (symbol_value digest i)) [0..<len]"

definition derive_device_id_v2_once :: "(bytes \<Rightarrow> bytes) \<Rightarrow> string \<Rightarrow> nat \<Rightarrow> string" where
  "derive_device_id_v2_once sha stable_source counter =
     crockford_b32_prefix
       (sha (str_bytes ''kirin-desk/device-id/v2'' @ [0] @ str_bytes stable_source @ [0] @ be32 (of_nat counter)))
       DEVICE_ID_V2_LEN"

text \<open>The loop over the counter; \<^const>\<open>None\<close> is the failed assertion after 4096 rounds.\<close>

function derive_from :: "(bytes \<Rightarrow> bytes) \<Rightarrow> string \<Rightarrow> nat \<Rightarrow> string option" where
  "derive_from sha stable_source counter =
     (let i = derive_device_id_v2_once sha stable_source counter
      in if device_id_v2_shape_ok i then Some i
         else if Suc counter \<le> 4096 then derive_from sha stable_source (Suc counter)
         else None)"
  by pat_completeness auto
termination
  by (relation "measure (\<lambda>(_, _, c). 4097 - c)") auto

declare derive_from.simps [simp del]

definition derive_device_id_v2 :: "(bytes \<Rightarrow> bytes) \<Rightarrow> string \<Rightarrow> string option" where
  "derive_device_id_v2 sha stable_source = derive_from sha stable_source 0"

text \<open>
  The stable source of the operating system may be missing; then the host name is used, read from the
  environment or a file.
\<close>

definition fallback_hostname :: "string \<Rightarrow> string \<Rightarrow> string" where
  "fallback_hostname env_host etc_hostname =
     (let host = (if env_host = [] then trim etc_hostname else env_host)
      in if host = [] then ''kirindesk-local'' else host)"

definition system_device_id :: "(bytes \<Rightarrow> bytes) \<Rightarrow> string option \<Rightarrow> string \<Rightarrow> string \<Rightarrow> string option" where
  "system_device_id sha stable_source env_host etc_hostname =
     (case stable_source of
        Some src \<Rightarrow> derive_device_id_v2 sha src
      | None \<Rightarrow> derive_device_id_v2 sha (''hostname:'' @ fallback_hostname env_host etc_hostname))"

definition effective_device_id :: "string option \<Rightarrow> string \<Rightarrow> string option" where
  "effective_device_id system configured = (if id_is_auto configured then system else Some configured)"

definition registration_device_id :: "string option \<Rightarrow> string option \<Rightarrow> string \<Rightarrow> string option" where
  "registration_device_id system explicit device_id =
     (case map_option trim explicit of
        Some s \<Rightarrow> if s \<noteq> [] then Some s else effective_device_id system device_id
      | None \<Rightarrow> effective_device_id system device_id)"

section \<open>What a user types\<close>

definition is_separator :: "char \<Rightarrow> bool" where
  "is_separator c \<longleftrightarrow> c \<in> {CHR '':'', CHR '' '', CHR 0x09, CHR 0x0D, CHR 0x0A}"

definition is_fingerprint_shaped :: "string \<Rightarrow> bool" where
  "is_fingerprint_shaped s =
     (let stripped = filter (\<lambda>c. \<not> is_separator c) s
      in length stripped = 64 \<and> list_all is_ascii_hexdigit stripped)"

definition is_short_code_shaped :: "string \<Rightarrow> bool" where
  "is_short_code_shaped s =
     (let t = trim s in length t = DEVICE_SHORT_CODE_LEN \<and> list_all is_ascii_hexdigit t)"

text \<open>\<^verbatim>\<open>is_short_code_shaped_input\<close> of the mobile client also drops white space inside.\<close>

definition is_short_code_shaped_input :: "string \<Rightarrow> bool" where
  "is_short_code_shaped_input s =
     (let t = filter (\<lambda>c. c \<notin> {CHR '' '', CHR 0x09, CHR 0x0D, CHR 0x0A}) (trim s)
      in length t = DEVICE_SHORT_CODE_LEN \<and> list_all is_ascii_hexdigit t)"

definition one_case :: "string \<Rightarrow> bool" where
  "one_case t \<longleftrightarrow> \<not> (list_ex is_ascii_lower t \<and> list_ex is_ascii_upper t)"

definition normalize_device_id_input :: "string \<Rightarrow> string" where
  "normalize_device_id_input raw =
     (let t = trim raw
      in if is_fingerprint_shaped t then
           join '':'' (chunks 4 (map to_ascii_lower (filter (\<lambda>c. \<not> is_separator c) t)))
         else if is_short_code_shaped t \<and> one_case t then map to_ascii_lower t
         else t)"

definition is_short_code_connection_input :: "string \<Rightarrow> bool" where
  "is_short_code_connection_input device_id \<longleftrightarrow>
     is_short_code_shaped device_id \<and> \<not> is_fingerprint_shaped device_id \<and> device_id = map to_ascii_lower device_id"

definition mobile_normalize :: "string \<Rightarrow> string" where
  "mobile_normalize raw =
     (let t = trim raw
      in if is_fingerprint_device_id t then
           join '':'' (chunks 4 (map to_ascii_lower (filter (\<lambda>c. \<not> is_separator c) t)))
         else if is_short_code_shaped_input t \<and> one_case t then map to_ascii_lower t
         else t)"

definition mobile_short_code_input :: "string \<Rightarrow> bool" where
  "mobile_short_code_input device_id \<longleftrightarrow>
     is_short_code_shaped_input device_id \<and> \<not> is_fingerprint_device_id device_id \<and>
     device_id = map to_ascii_lower device_id"

section \<open>Generated identifiers\<close>

lemma joined_bits:
  fixes x y :: u8
  assumes "4 \<le> r" "r < 8"
  shows "take_bit 5 (push_bit (r - 3) (ucast (x AND mask (8 - r)) :: u32) OR ucast (drop_bit (8 - (r - 3)) y)) =
    push_bit (r - 3) (ucast (x AND mask (8 - r))) OR ucast (drop_bit (8 - (r - 3)) y)"
proof (rule bit_word_eqI)
  fix n
  have "bit y (8 - (r - 3) + n) \<Longrightarrow> n < 5" using assms bit_imp_le_length [of y "8 - (r - 3) + n"] by auto
  then show "bit (take_bit 5 (push_bit (r - 3) (ucast (x AND mask (8 - r)) :: u32) OR ucast (drop_bit (8 - (r - 3)) y))) n =
      bit (push_bit (r - 3) (ucast (x AND mask (8 - r)) :: u32) OR ucast (drop_bit (8 - (r - 3)) y)) n"
    using assms by (auto simp: bit_simps)
qed

lemma symbol_value_less: "unat (symbol_value digest i) < 32"
proof -
  have "take_bit 5 (symbol_value digest i) = symbol_value digest i"
  proof (cases "(i * 5) mod 8 \<le> 3")
    case True
    have m: "(0x1F :: u8) = mask 5" by (simp add: mask_eq_exp_minus_1)
    from True show ?thesis
      by (intro bit_word_eqI) (auto simp: symbol_value_def Let_def bit_simps m)
  next
    case False
    have m: "(push_bit k 1 - 1 :: u8) = mask k" for k by (simp add: mask_eq_exp_minus_1 push_bit_of_1)
    have "5 - (8 - (i * 5) mod 8) = (i * 5) mod 8 - 3" using False by simp
    with False show ?thesis
      unfolding symbol_value_def Let_def m by (simp only: if_False) (rule joined_bits, auto)
  qed
  then have "unat (symbol_value digest i) = take_bit 5 (unat (symbol_value digest i))"
    by (metis unsigned_take_bit_eq)
  also have "\<dots> < 32" by (simp add: take_bit_eq_mod)
  finally show ?thesis .
qed

lemma symbol_in_charset: "CROCKFORD_B32 ! unat (symbol_value digest i) \<in> set CROCKFORD_B32"
  using symbol_value_less [of digest i] by (intro nth_mem) (simp add: CROCKFORD_B32_def)

lemma charset_alphanumeric: "c \<in> set CROCKFORD_B32 \<Longrightarrow> is_ascii_alphanumeric c"
  by (auto simp: CROCKFORD_B32_def is_ascii_alphanumeric_def is_ascii_digit_def is_ascii_upper_def
      less_eq_char_def)

lemma derive_from_Some:
  "derive_from sha src n = Some i \<Longrightarrow> device_id_v2_shape_ok i \<and> (\<exists>c \<le> max n 4096. i = derive_device_id_v2_once sha src c)"
proof (induction sha src n rule: derive_from.induct)
  case (1 sha src n)
  show ?case
  proof (cases "device_id_v2_shape_ok (derive_device_id_v2_once sha src n)")
    case True
    with "1.prems" have "i = derive_device_id_v2_once sha src n" by (simp add: derive_from.simps [of sha src n])
    with True show ?thesis by (auto intro: max.cobounded1)
  next
    case False
    with "1.prems" have "Suc n \<le> 4096" "derive_from sha src (Suc n) = Some i"
      by (auto simp: derive_from.simps [of sha src n] Let_def split: if_splits)
    with "1.IH" [OF refl False] show ?thesis by auto
  qed
qed

lemma list_ex_not_all: "list_ex P xs \<Longrightarrow> (\<And>x. P x \<Longrightarrow> \<not> Q x) \<Longrightarrow> \<not> list_all Q xs"
  by (auto simp: list_ex_iff list_all_iff)

lemma once_charset: "set (derive_device_id_v2_once sha src c) \<subseteq> set CROCKFORD_B32"
  using symbol_in_charset by (auto simp: derive_device_id_v2_once_def crockford_b32_prefix_def)

lemma once_length: "length (derive_device_id_v2_once sha src c) = 10"
  by (simp add: derive_device_id_v2_once_def crockford_b32_prefix_def DEVICE_ID_V2_LEN_def)

lemma alphanumeric_not_separator: "is_ascii_alphanumeric c \<Longrightarrow> \<not> is_separator c"
  by (auto simp: is_ascii_alphanumeric_def is_ascii_digit_def is_ascii_upper_def is_separator_def less_eq_char_def)

section \<open>Typed identifiers\<close>

lemma filter_join:
  "\<not> P CHR '':'' \<Longrightarrow> filter P (join '':'' ss) = concat (map (filter P) ss)"
  by (induction "'':''" ss rule: join.induct) auto

lemma set_join_subset: "set (join '':'' ss) \<subseteq> insert CHR '':'' (\<Union>(set ` set ss))"
  by (induction "'':''" ss rule: join.induct) auto

lemma is_fingerprint_device_id_eq: "is_fingerprint_device_id s = is_fingerprint_shaped s"
  by (simp add: is_fingerprint_device_id_def is_fingerprint_shaped_def is_separator_def)

lemma fingerprint_shaped_length: "is_fingerprint_shaped s \<Longrightarrow> 64 \<le> length s"
  using length_filter_le [of "\<lambda>c. \<not> is_separator c" s] by (simp add: is_fingerprint_shaped_def Let_def)

lemma hex_plain: "list_all is_ascii_hexdigit s \<Longrightarrow> trim s = s"
  by (rule trim_plain) (auto simp: list_all_iff dest: hexdigit_alphanumeric alphanumeric_not_white)

text \<open>Lower-case digits in groups of four, as the relay registers a key.\<close>

definition grouped :: "string \<Rightarrow> string" where
  "grouped h = join '':'' (chunks 4 h)"

lemma grouped_facts:
  assumes "list_all is_lower_hex h"
  shows "trim (grouped h) = grouped h" and "filter (\<lambda>c. \<not> is_separator c) (grouped h) = h"
    and "filter (\<lambda>c. c \<noteq> CHR '':'') (grouped h) = h"
proof -
  have "(\<Union>(set ` set (chunks 4 h))) = set h" by (simp flip: set_concat)
  then have "set (grouped h) \<subseteq> insert CHR '':'' (set h)"
    using set_join_subset [of "chunks 4 h"] by (simp add: grouped_def)
  moreover have "\<not> is_white CHR '':''" by (simp add: is_white_def)
  moreover have h: "is_ascii_alphanumeric c" if "c \<in> set h" for c
    using assms that by (auto simp: list_all_iff dest: lower_hex_hexdigit hexdigit_alphanumeric)
  ultimately show "trim (grouped h) = grouped h"
    by (intro trim_plain) (auto simp: list_all_iff dest: alphanumeric_not_white)
  have keep: "filter P (grouped h) = h" if "\<not> P CHR '':''" "\<And>c. c \<in> set h \<Longrightarrow> P c" for P
  proof -
    have "filter P (grouped h) = concat (map (filter P) (chunks 4 h))"
      using that(1) by (simp add: grouped_def filter_join)
    also have "\<dots> = filter P (concat (chunks 4 h))" by (simp only: filter_concat)
    also have "\<dots> = h" using that(2) by (simp add: filter_id_conv)
    finally show ?thesis .
  qed
  show "filter (\<lambda>c. \<not> is_separator c) (grouped h) = h"
  proof (rule keep)
    show "\<not> \<not> is_separator CHR '':''" by (simp add: is_separator_def)
  qed (use h alphanumeric_not_separator in blast)
  have "\<not> is_ascii_alphanumeric CHR '':''"
    by (simp add: is_ascii_alphanumeric_def is_ascii_digit_def is_ascii_upper_def less_eq_char_def)
  then show "filter (\<lambda>c. c \<noteq> CHR '':'') (grouped h) = h"
    using h by (intro keep) auto
qed

lemma lower_hex_same: "list_all is_lower_hex h \<Longrightarrow> map to_ascii_lower h = h"
  by (auto simp: list_all_iff is_lower_hex_def is_ascii_digit_def to_ascii_lower_def is_ascii_upper_def
      less_eq_char_def intro!: map_idI)

lemma normalize_cases:
  obtains (Fingerprint) h where "list_all is_lower_hex h" "length h = 64" "is_fingerprint_shaped (trim s)"
      "h = map to_ascii_lower (filter (\<lambda>c. \<not> is_separator c) (trim s))" "normalize_device_id_input s = grouped h"
  | (Short) "\<not> is_fingerprint_shaped (trim s)" "is_short_code_shaped (trim s)" "one_case (trim s)"
      "normalize_device_id_input s = map to_ascii_lower (trim s)"
  | (Other) "\<not> is_fingerprint_shaped (trim s)" "\<not> (is_short_code_shaped (trim s) \<and> one_case (trim s))"
      "normalize_device_id_input s = trim s"
proof (cases "is_fingerprint_shaped (trim s)")
  case True
  let ?h = "map to_ascii_lower (filter (\<lambda>c. \<not> is_separator c) (trim s))"
  have "list_all is_lower_hex ?h" "length ?h = 64"
    using True by (auto simp: is_fingerprint_shaped_def Let_def list_all_iff intro: lower_hexdigit)
  with True show ?thesis
    by (intro Fingerprint [of ?h]) (simp_all add: normalize_device_id_input_def grouped_def Let_def)
next
  case False
  show ?thesis
  proof (cases "is_short_code_shaped (trim s) \<and> one_case (trim s)")
    case True
    with False show ?thesis by (intro Short) (simp_all add: normalize_device_id_input_def Let_def)
  next
    case no: False
    with False have "normalize_device_id_input s = trim s"
      unfolding normalize_device_id_input_def Let_def by (simp only: if_False)
    with False no show ?thesis by (intro Other)
  qed
qed

lemma normalize_grouped:
  assumes "list_all is_lower_hex h" "length h = 64"
  shows "normalize_device_id_input (grouped h) = grouped h"
proof -
  have "is_fingerprint_shaped (grouped h)"
    using assms by (simp add: is_fingerprint_shaped_def Let_def grouped_facts list_all_iff lower_hex_hexdigit)
  then show ?thesis
    using assms by (simp add: normalize_device_id_input_def grouped_facts lower_hex_same Let_def) (simp add: grouped_def)
qed

lemma normalize_idem: "normalize_device_id_input (normalize_device_id_input s) = normalize_device_id_input s"
proof (cases rule: normalize_cases [of s])
  case (Fingerprint h)
  show ?thesis unfolding Fingerprint(5) by (rule normalize_grouped [OF Fingerprint(1,2)])
next
  case Short
  let ?t = "map to_ascii_lower (trim s)"
  have hex: "list_all is_ascii_hexdigit (trim s)" "length (trim s) = 10"
    using Short(2) by (simp_all add: is_short_code_shaped_def Let_def DEVICE_SHORT_CODE_LEN_def)
  then have low: "list_all is_lower_hex ?t" by (auto simp: list_all_iff intro: lower_hexdigit)
  then have "list_all is_ascii_hexdigit ?t" by (auto simp: list_all_iff lower_hex_hexdigit)
  then have "trim ?t = ?t" by (rule hex_plain)
  moreover have "\<not> is_fingerprint_shaped ?t" using fingerprint_shaped_length [of ?t] hex(2) by auto
  moreover have "map to_ascii_lower ?t = ?t" using low by (rule lower_hex_same)
  ultimately show ?thesis using Short(4) by (simp add: normalize_device_id_input_def Let_def del: map_map)
next
  case Other
  then show ?thesis by (simp add: normalize_device_id_input_def Let_def)
qed

lemma fingerprint_grouped:
  assumes "length (sha (str_bytes pk)) = 32"
  shows "\<exists>h. fingerprint sha pk = grouped h \<and> list_all is_lower_hex h \<and> length h = 64"
proof -
  let ?h = "concat (map hex_byte (sha (str_bytes pk)))"
  have "is_lower_hex (hex_digit n)" if "n < 16" for n
    using that by (auto simp: hex_digit_def is_lower_hex_def is_ascii_digit_def less_eq_char_def)
  then have "list_all is_lower_hex ?h"
    by (auto simp: list_all_iff hex_byte_def unat_div unat_u8 less_mult_imp_div_less [of _ 16 16])
  moreover have "length (concat (map hex_byte bs)) = 2 * length bs" for bs
    by (induction bs) (simp_all add: hex_byte_def)
  ultimately show ?thesis
    using assms by (intro exI [of _ ?h]) (simp add: fingerprint_def grouped_def Let_def)
qed

section \<open>Properties\<close>

text \<open>
  C27. A generated identifier is never taken for a short code. Whatever the stable source, it has ten
  letters and digits, with at least one of each and not all hexadecimal; the relay accepts it and does not
  read it as the short form of a fingerprint, neither client offers it as one, and the desktop's clean-up of
  typed identifiers leaves it as it is.
\<close>
theorem generated_id_unambiguous:
  assumes "derive_device_id_v2 sha stable_source = Some i"
  shows "length i = DEVICE_ID_V2_LEN \<and> device_id_v2_shape_ok i \<and> validate_device_id i \<and> \<not> is_short_code i \<and>
    \<not> is_short_code_connection_input i \<and> \<not> mobile_short_code_input i \<and> normalize_device_id_input i = i"
proof -
  obtain c where ok: "device_id_v2_shape_ok i" and i: "i = derive_device_id_v2_once sha stable_source c"
    using assms derive_from_Some by (force simp: derive_device_id_v2_def)
  have len: "length i = 10" by (simp add: i once_length)
  have alnum: "list_all is_ascii_alphanumeric i"
    using once_charset [of sha stable_source c] charset_alphanumeric by (auto simp: i list_all_iff)
  then have trim: "trim i = i"
    by (intro trim_plain) (auto simp: list_all_iff dest: alphanumeric_not_white)
  have mixed: "\<not> list_all is_ascii_hexdigit i" using ok len by (auto simp: device_id_v2_shape_ok_def Let_def)
  moreover have "filter (\<lambda>c. c \<notin> {CHR '' '', CHR 0x09, CHR 0x0D, CHR 0x0A}) i = i"
    using alnum alphanumeric_not_separator by (fastforce simp: list_all_iff filter_id_conv is_separator_def)
  moreover have "\<not> is_fingerprint_shaped i" using fingerprint_shaped_length [of i] len by auto
  moreover have "validate_device_id i"
    using alnum len by (auto simp: validate_device_id_def list_all_iff MAX_DEVICE_ID_LEN_def)
  moreover have "\<not> is_short_code i" using mixed lower_hex_hexdigit by (fastforce simp: is_short_code_def list_all_iff)
  ultimately show ?thesis
    using ok len trim
    by (simp add: DEVICE_ID_V2_LEN_def is_short_code_connection_input_def mobile_short_code_input_def
        is_short_code_shaped_def is_short_code_shaped_input_def normalize_device_id_input_def Let_def)
qed

text \<open>
  A fingerprint may be typed in any way. Whatever colons, blanks and letter case a user puts into the
  64 digits of a key's fingerprint, both clients turn it into the form under which the key is registered; and
  cleaning up twice changes nothing.
\<close>
theorem typed_fingerprint_canonical:
  assumes "length (sha (str_bytes pk)) = 32"
    and "map to_ascii_lower (filter (\<lambda>c. \<not> is_separator c) (trim s)) = filter (\<lambda>c. c \<noteq> CHR '':'') (fingerprint sha pk)"
  shows "normalize_device_id_input s = fingerprint sha pk \<and> mobile_normalize s = fingerprint sha pk \<and>
    normalize_device_id_input (fingerprint sha pk) = fingerprint sha pk"
proof -
  obtain h where h: "fingerprint sha pk = grouped h" "list_all is_lower_hex h" "length h = 64"
    using fingerprint_grouped [of sha pk] assms(1) by blast
  let ?t = "filter (\<lambda>c. \<not> is_separator c) (trim s)"
  have low: "map to_ascii_lower ?t = h" using assms(2) h by (simp add: grouped_facts)
  then have "length ?t = 64" using h(3) by (metis length_map)
  moreover have "is_ascii_hexdigit c" if "is_lower_hex (to_ascii_lower c)" for c
    using that by (auto simp: to_ascii_lower_def is_ascii_hexdigit_def is_ascii_upper_def is_lower_hex_def is_ascii_digit_def
        less_eq_char_def split: if_splits)
  moreover have "\<forall>c\<in>set ?t. is_lower_hex (to_ascii_lower c)"
    using h(2) by (auto simp flip: low simp: list_all_iff)
  ultimately have "is_fingerprint_shaped (trim s)"
    by (auto simp: is_fingerprint_shaped_def Let_def list_all_iff)
  then show ?thesis
    using low normalize_grouped [OF h(2,3)] h(1)
    by (simp add: normalize_device_id_input_def mobile_normalize_def is_fingerprint_device_id_eq Let_def grouped_def)
qed

text \<open>
  The mobile client lets a blank into a short code. It takes ten digits with white space inside for a short
  code but keeps the white space, so what it then offers as a short code is none for the relay; the desktop does
  not take such an input for a short code.
\<close>
theorem mobile_short_code_keeps_blank:
  "mobile_short_code_input (mobile_normalize ''A1B2C 3D4E5'') \<and> \<not> is_short_code (mobile_normalize ''A1B2C 3D4E5'') \<and>
   \<not> is_short_code_connection_input (normalize_device_id_input ''A1B2C 3D4E5'')"
  by code_simp

text \<open>
  Eight of the 32 values share the symbol 0, and the digits 1 to 7 never occur in an identifier.
\<close>
lemma charset_collapses: "card (set CROCKFORD_B32) = 25 \<and> CHR ''1'' \<notin> set CROCKFORD_B32 \<and> CHR ''7'' \<notin> set CROCKFORD_B32"
  by (simp add: CROCKFORD_B32_def)

section \<open>Examples\<close>

text \<open>A digest whose first symbols are eight times Z, then X and 0.\<close>

definition demo_sha :: "bytes \<Rightarrow> bytes" where
  "demo_sha b = [0xFF, 0xFF, 0xFF, 0xFF, 0xFF, 0xE9] @ replicate 26 0x4A"

theorem generated_id_unambiguous_witness:
  "\<exists>i. derive_device_id_v2 demo_sha ''windows:volume-serial:0001'' = Some i \<and> normalize_device_id_input i = i"
proof -
  have "derive_device_id_v2_once demo_sha src 0 = ''ZZZZZZZZX0''" for src
    by (simp add: derive_device_id_v2_once_def demo_sha_def)  code_simp
  then have "derive_device_id_v2 demo_sha src = Some ''ZZZZZZZZX0''" for src
    by (simp add: derive_device_id_v2_def derive_from.simps [of _ _ 0]) code_simp
  with generated_id_unambiguous [OF this] show ?thesis by blast
qed

theorem typed_fingerprint_canonical_witness:
  "normalize_device_id_input (map (\<lambda>c. if c = CHR ''f'' then CHR ''F'' else c) (fingerprint (\<lambda>_. replicate 32 0xFA) []) @ '' '') =
     fingerprint (\<lambda>_. replicate 32 0xFA) []"
  by (rule typed_fingerprint_canonical [THEN conjunct1]) (simp, code_simp)

end
