(* ===== verification/Dns_Provider.thy ===== *)
theory Dns_Provider
  imports Relay_Protocol "HOL-Library.List_Lexorder" "HOL-Library.Product_Lexorder"
begin

text \<open>
  The interface to a DNS service, \<^verbatim>\<open>dns/src/provider\<close>: the uniform records of \<^verbatim>\<open>record.rs\<close>, the laws the
  documentation of the trait \<^verbatim>\<open>Provider\<close> in \<^verbatim>\<open>mod.rs\<close> promises, as a locale, and the in-memory provider of
  \<^verbatim>\<open>mock.rs\<close>, which interprets it. The providers that talk to a vendor over HTTP are not modelled.
\<close>

section \<open>Records\<close>

datatype dns_type = RtA | RtAAAA | RtCNAME | RtMX | RtTXT | RtSRV | RtNS

fun dns_type_index :: "dns_type \<Rightarrow> nat" where
  "dns_type_index RtA = 0"
| "dns_type_index RtAAAA = 1"
| "dns_type_index RtCNAME = 2"
| "dns_type_index RtMX = 3"
| "dns_type_index RtTXT = 4"
| "dns_type_index RtSRV = 5"
| "dns_type_index RtNS = 6"

lemma dns_type_index_inject [simp]: "dns_type_index s = dns_type_index t \<longleftrightarrow> s = t"
  by (cases s; cases t) simp_all

text \<open>The derived order of the Rust enumeration.\<close>

instantiation dns_type :: linorder
begin

definition less_eq_dns_type :: "dns_type \<Rightarrow> dns_type \<Rightarrow> bool" where
  "less_eq_dns_type s t \<longleftrightarrow> dns_type_index s \<le> dns_type_index t"

definition less_dns_type :: "dns_type \<Rightarrow> dns_type \<Rightarrow> bool" where
  "less_dns_type s t \<longleftrightarrow> dns_type_index s < dns_type_index t"

instance
  by standard (auto simp: less_eq_dns_type_def less_dns_type_def)

end

fun rtype_str :: "dns_type \<Rightarrow> string" where
  "rtype_str RtA = ''A''"
| "rtype_str RtAAAA = ''AAAA''"
| "rtype_str RtCNAME = ''CNAME''"
| "rtype_str RtMX = ''MX''"
| "rtype_str RtTXT = ''TXT''"
| "rtype_str RtSRV = ''SRV''"
| "rtype_str RtNS = ''NS''"

definition to_ascii_upper :: "char \<Rightarrow> char" where
  "to_ascii_upper c = (if CHR ''a'' \<le> c \<and> c \<le> CHR ''z'' then char_of (of_char c - 32 :: nat) else c)"

definition rtype_from_str :: "string \<Rightarrow> dns_type option" where
  "rtype_from_str s =
     (let u = map to_ascii_upper s
      in if u = ''A'' then Some RtA
         else if u = ''AAAA'' then Some RtAAAA
         else if u = ''CNAME'' then Some RtCNAME
         else if u = ''MX'' then Some RtMX
         else if u = ''TXT'' then Some RtTXT
         else if u = ''SRV'' then Some RtSRV
         else if u = ''NS'' then Some RtNS
         else None)"

datatype dns_data =
    Plain string
  | Mx (mx_priority: u16) (mx_exchange: string)
  | Srv (srv_priority: u16) (srv_weight: u16) (srv_port: u16) (srv_target: string)

record dns_record =
  dr_name :: string
  dr_rtype :: dns_type
  dr_ttl :: u32
  dr_data :: dns_data

fun to_display_string :: "dns_data \<Rightarrow> string" where
  "to_display_string (Plain s) = s"
| "to_display_string (Mx priority exchange) = digits_of (unat priority) @ '' '' @ exchange"
| "to_display_string (Srv priority weight port target) =
     digits_of (unat priority) @ '' '' @ digits_of (unat weight) @ '' '' @ digits_of (unat port) @ '' '' @
     (if target \<noteq> [] \<and> last target = CHR ''.'' then target else target @ ''.'')"

datatype provider_error =
    PAuth string
  | PInvalidParameter string
  | PNotFound string
  | PRateLimited "u64 option"
  | PServer u16 string
  | PNetwork string
  | PJson string
  | PUnsupported string
  | POther string

record provider_caps =
  cap_srv :: bool
  cap_ns :: bool
  cap_ttl :: bool
  cap_rename :: bool

definition caps_all :: provider_caps where
  "caps_all = \<lparr>cap_srv = True, cap_ns = True, cap_ttl = True, cap_rename = True\<rparr>"

section \<open>The interface\<close>

text \<open>
  The operations a manager calls, with the state of the service threaded through them. A query names the
  domain and, when given, the record name and type.
\<close>

record 's dns_ops =
  dns_query :: "string \<Rightarrow> string option \<Rightarrow> dns_type option \<Rightarrow> 's \<Rightarrow> provider_error + dns_record list"
  dns_upsert :: "string \<Rightarrow> dns_record \<Rightarrow> 's \<Rightarrow> (provider_error + unit) \<times> 's"
  dns_delete :: "string \<Rightarrow> string \<Rightarrow> dns_type \<Rightarrow> 's \<Rightarrow> (provider_error + unit) \<times> 's"

text \<open>
  What publishing rests on, for the records \<open>held\<close> under a domain, name and type. A query for a name and a
  type returns what is held. Writing where nothing is held creates one record with the data written,
  possibly with a TTL of the service's own, and leaves every other name and type alone. The trait
  documents this (a write creates the record or updates it, and keeps the others), and it says nothing
  of a write that fails.
\<close>

locale dns_publisher =
  fixes ops :: "'s dns_ops"
    and held :: "'s \<Rightarrow> string \<Rightarrow> string \<Rightarrow> dns_type \<Rightarrow> dns_record set"
    and service_ok :: "'s \<Rightarrow> bool"
  assumes answers_held: "service_ok s \<Longrightarrow> dns_query ops d (Some n) (Some t) s = Inr rs \<Longrightarrow> set rs = held s d n t"
    and upsert_created: "service_ok s \<Longrightarrow> dns_upsert ops d r s = (Inr u, s') \<Longrightarrow> held s d (dr_name r) (dr_rtype r) = {} \<Longrightarrow>
      \<exists>q. held s' d (dr_name r) (dr_rtype r) = {q} \<and> dr_data q = dr_data r"
    and upsert_elsewhere: "service_ok s \<Longrightarrow> dns_upsert ops d r s = (Inr u, s') \<Longrightarrow>
      (d', n', t') \<noteq> (d, dr_name r, dr_rtype r) \<Longrightarrow> held s' d' n' t' = held s d' n' t'"
    and upsert_well: "service_ok s \<Longrightarrow> dns_upsert ops d r s = (Inr u, s') \<Longrightarrow> service_ok s'"
begin

lemma created_answer:
  assumes "service_ok s" and "dns_upsert ops d r s = (Inr u, s')" and "held s d (dr_name r) (dr_rtype r) = {}"
    and "held s'' d (dr_name r) (dr_rtype r) = held s' d (dr_name r) (dr_rtype r)" and "service_ok s''"
    and "dns_query ops d (Some (dr_name r)) (Some (dr_rtype r)) s'' = Inr rs"
  shows "rs \<noteq> [] \<and> (\<forall>q\<in>set rs. dr_data q = dr_data r)"
proof -
  obtain q where "set rs = {q}" "dr_data q = dr_data r"
    using upsert_created [OF assms(1-3)] answers_held [OF assms(5,6)] assms(4) by auto
  then show ?thesis by (cases rs) auto
qed

end

text \<open>
  The stronger contract of the in-memory provider, which the automatic updates are measured against: writing
  leaves every other record of the same name and type alone, deleting removes all of the name and type,
  neither touches any other name or type, and a write that fails changes nothing. The trait documents
  all but the last. Of the providers over the network not all keep it: two overwrite the first record
  of the name and type in place (\<^verbatim>\<open>aliyun/mod.rs\<close> and \<^verbatim>\<open>dnspod/client.rs\<close>).
\<close>

locale dns_service =
  fixes ops :: "'s dns_ops"
    and held :: "'s \<Rightarrow> string \<Rightarrow> string \<Rightarrow> dns_type \<Rightarrow> dns_record set"
    and service_ok :: "'s \<Rightarrow> bool"
  assumes query_held: "service_ok s \<Longrightarrow> dns_query ops d (Some n) (Some t) s = Inr rs \<Longrightarrow> set rs = held s d n t"
    and upsert_held: "service_ok s \<Longrightarrow> dns_upsert ops d r s = (Inr u, s') \<Longrightarrow>
      held s' d (dr_name r) (dr_rtype r) = insert r {q \<in> held s d (dr_name r) (dr_rtype r). dr_data q \<noteq> dr_data r}"
    and upsert_other: "service_ok s \<Longrightarrow> dns_upsert ops d r s = (x, s') \<Longrightarrow>
      (d', n', t') \<noteq> (d, dr_name r, dr_rtype r) \<Longrightarrow> held s' d' n' t' = held s d' n' t'"
    and upsert_failed: "service_ok s \<Longrightarrow> dns_upsert ops d r s = (Inl e, s') \<Longrightarrow> held s' = held s"
    and upsert_ok: "service_ok s \<Longrightarrow> dns_upsert ops d r s = (x, s') \<Longrightarrow> service_ok s'"
    and delete_held: "service_ok s \<Longrightarrow> dns_delete ops d n t s = (Inr u, s') \<Longrightarrow> held s' d n t = {}"
    and delete_other: "service_ok s \<Longrightarrow> dns_delete ops d n t s = (x, s') \<Longrightarrow>
      (d', n', t') \<noteq> (d, n, t) \<Longrightarrow> held s' d' n' t' = held s d' n' t'"
    and delete_ok: "service_ok s \<Longrightarrow> dns_delete ops d n t s = (x, s') \<Longrightarrow> service_ok s'"
begin

lemma upsert_present:
  "service_ok s \<Longrightarrow> dns_upsert ops d r s = (Inr u, s') \<Longrightarrow> r \<in> held s' d (dr_name r) (dr_rtype r)"
  using upsert_held by blast

lemma upsert_keeps:
  assumes "service_ok s" and "dns_upsert ops d r s = (Inr u, s')"
    and "q \<in> held s d (dr_name r) (dr_rtype r)" and "dr_data q \<noteq> dr_data r"
  shows "q \<in> held s' d (dr_name r) (dr_rtype r)"
  using upsert_held [OF assms(1,2)] assms(3,4) by blast

lemma held_changed:
  assumes "service_ok s" and "dns_upsert ops d r s = (x, s')" and "held s' d' n' t' \<noteq> held s d' n' t'"
  shows "d' = d \<and> n' = dr_name r \<and> t' = dr_rtype r \<and> x = Inr ()"
  using assms upsert_other [OF assms(1,2)] upsert_failed [OF assms(1)] by (cases x) auto

end

sublocale dns_service \<subseteq> publisher: dns_publisher ops held service_ok
proof unfold_locales
  fix s d r u s'
  assume "service_ok s" "dns_upsert ops d r s = (Inr u, s')" "held s d (dr_name r) (dr_rtype r) = {}"
  then show "\<exists>q. held s' d (dr_name r) (dr_rtype r) = {q} \<and> dr_data q = dr_data r"
    using upsert_held by auto
qed (use query_held upsert_other upsert_ok in blast)+

section \<open>The in-memory provider\<close>

record mock_state =
  mk_domains :: "string list"
  mk_records :: "(string \<times> dns_type \<times> string, dns_record list) hmap"
  mk_upserts :: nat
  mk_deletes :: nat
  mk_caps :: provider_caps

definition mock_new :: mock_state where
  "mock_new = \<lparr>mk_domains = [], mk_records = [], mk_upserts = 0, mk_deletes = 0, mk_caps = caps_all\<rparr>"

definition mock_list :: "mock_state \<Rightarrow> string \<Rightarrow> dns_type \<Rightarrow> string \<Rightarrow> dns_record list" where
  "mock_list s d t n = (case hm_get (mk_records s) (d, t, n) of Some rs \<Rightarrow> rs | None \<Rightarrow> [])"

definition seed_record :: "string \<Rightarrow> dns_record \<Rightarrow> mock_state \<Rightarrow> mock_state" where
  "seed_record d r s =
     (let rs = mock_list s d (dr_rtype r) (dr_name r);
          rs' = (if list_ex (\<lambda>q. dr_data q = dr_data r) rs then rs else rs @ [r])
      in s\<lparr>mk_records := hm_put (d, dr_rtype r, dr_name r) rs' (mk_records s)\<rparr>)"

definition records_of :: "mock_state \<Rightarrow> string \<Rightarrow> dns_type \<Rightarrow> string \<Rightarrow> dns_record list" where
  "records_of s d t n = mock_list s d t n"

definition mock_query :: "string \<Rightarrow> string option \<Rightarrow> dns_type option \<Rightarrow> mock_state \<Rightarrow> provider_error + dns_record list" where
  "mock_query d n t s =
     (let kept = filter (\<lambda>((d', t', n'), _). d' = d \<and> (case t of None \<Rightarrow> True | Some t \<Rightarrow> t = t') \<and>
                   (case n of None \<Rightarrow> True | Some n \<Rightarrow> n' = n)) (mk_records s)
      in Inr (sort_key (\<lambda>r. (dr_rtype r, dr_name r, to_display_string (dr_data r))) (concat (map snd kept))))"

text \<open>
  The three arms of the match on the data look for a record with the same data, update its time to live or
  append the new record.
\<close>

fun update_same_data :: "dns_record \<Rightarrow> dns_record list \<Rightarrow> dns_record list" where
  "update_same_data r [] = [r]"
| "update_same_data r (q # qs) =
     (if dr_data q = dr_data r then q\<lparr>dr_ttl := dr_ttl r, dr_data := dr_data r\<rparr> # qs else q # update_same_data r qs)"

definition mock_upsert :: "string \<Rightarrow> dns_record \<Rightarrow> mock_state \<Rightarrow> (provider_error + unit) \<times> mock_state" where
  "mock_upsert d r s =
     (if \<not> cap_srv (mk_caps s) \<and> dr_rtype r = RtSRV then (Inl (PUnsupported ''SRV''), s)
      else (Inr (), s\<lparr>mk_upserts := mk_upserts s + 1,
              mk_records := hm_put (d, dr_rtype r, dr_name r)
                (update_same_data r (mock_list s d (dr_rtype r) (dr_name r))) (mk_records s)\<rparr>))"

definition mock_delete :: "string \<Rightarrow> string \<Rightarrow> dns_type \<Rightarrow> mock_state \<Rightarrow> (provider_error + unit) \<times> mock_state" where
  "mock_delete d n t s =
     (let s = s\<lparr>mk_deletes := mk_deletes s + 1\<rparr>
      in if hm_has (mk_records s) (d, t, n) then (Inr (), s\<lparr>mk_records := hm_del (d, t, n) (mk_records s)\<rparr>)
         else (Inl (PNotFound (rtype_str t @ '' '' @ n @ ''.'' @ d)), s))"

definition mock_ops :: "mock_state dns_ops" where
  "mock_ops = \<lparr>dns_query = mock_query, dns_upsert = mock_upsert, dns_delete = mock_delete\<rparr>"

text \<open>
  The invariant: the records of a key carry its name and type, and no two of them have the same data.
\<close>

definition mock_ok :: "mock_state \<Rightarrow> bool" where
  "mock_ok s \<longleftrightarrow> hm_ok (mk_records s) \<and>
     (\<forall>d t n. list_all (\<lambda>r. dr_name r = n \<and> dr_rtype r = t) (mock_list s d t n) \<and>
        distinct (map dr_data (mock_list s d t n)))"

definition mock_held :: "mock_state \<Rightarrow> string \<Rightarrow> string \<Rightarrow> dns_type \<Rightarrow> dns_record set" where
  "mock_held s d n t = set (mock_list s d t n)"

lemma set_update_same_data:
  "distinct (map dr_data rs) \<Longrightarrow> list_all (\<lambda>q. dr_name q = dr_name r \<and> dr_rtype q = dr_rtype r) rs \<Longrightarrow>
   set (update_same_data r rs) = insert r {q \<in> set rs. dr_data q \<noteq> dr_data r}"
proof (induction r rs rule: update_same_data.induct)
  case (2 r q qs)
  show ?case
  proof (cases "dr_data q = dr_data r")
    case True
    with 2(2) have new: "dr_data r \<notin> dr_data ` set qs" by simp
    have "q\<lparr>dr_ttl := dr_ttl r, dr_data := dr_data r\<rparr> = r" using 2(3) by simp
    then have "update_same_data r (q # qs) = r # qs" by (simp add: True)
    moreover have "dr_data p \<noteq> dr_data r" if "p \<in> set qs" for p using new that by (metis image_eqI)
    ultimately show ?thesis using True by auto
  next
    case False
    with 2 show ?thesis by auto
  qed
qed auto

lemma map_data_update_same_data:
  "map dr_data (update_same_data r rs) = (if dr_data r \<in> dr_data ` set rs then map dr_data rs else map dr_data rs @ [dr_data r])"
  by (induction r rs rule: update_same_data.induct) auto

lemma mock_okD:
  assumes "mock_ok s"
  shows "list_all (\<lambda>r. dr_name r = n \<and> dr_rtype r = t) (mock_list s d t n)" and "distinct (map dr_data (mock_list s d t n))"
  using assms by (simp_all add: mock_ok_def)

lemma mock_list_put:
  "mock_list (s\<lparr>mk_upserts := u, mk_records := hm_put (d, t, n) rs (mk_records s)\<rparr>) d' t' n' =
     (if d' = d \<and> t' = t \<and> n' = n then rs else mock_list s d' t' n')"
  by (auto simp: mock_list_def)

lemma mock_query_key:
  assumes "mock_ok s"
  shows "mock_query d (Some n) (Some t) s = Inr (sort_key (\<lambda>r. (dr_rtype r, dr_name r, to_display_string (dr_data r)))
    (mock_list s d t n))"
proof -
  let ?P = "\<lambda>((d', t', n'), _). d' = d \<and> t = t' \<and> n' = n"
  have ok: "hm_ok (mk_records s)" using assms by (simp add: mock_ok_def)
  have "concat (map snd (filter ?P m)) = (case hm_get m (d, t, n) of Some rs \<Rightarrow> rs | None \<Rightarrow> [])"
    if "hm_ok m" for m :: "(string \<times> dns_type \<times> string, dns_record list) hmap"
    using that
  proof (induction m)
    case (Cons kv m)
    obtain k rs where kv: "kv = (k, rs)" by (cases kv)
    from Cons.prems have m: "hm_ok m" and new: "k \<notin> fst ` set m" by (simp_all add: hm_ok_def kv)
    show ?case
    proof (cases "k = (d, t, n)")
      case True
      with new have "filter ?P m = []" by (force simp: filter_empty_conv)
      with True show ?thesis by (simp add: kv)
    next
      case False
      then have "\<not> ?P kv" by (auto simp: kv)
      with False Cons.IH [OF m] show ?thesis by (auto simp: kv)
    qed
  qed simp
  with ok show ?thesis by (simp add: mock_query_def mock_list_def Let_def case_prod_beta)
qed

lemma mock_ok_upsert:
  assumes "mock_ok s" and "mock_upsert d r s = (x, s')"
  shows "mock_ok s'"
proof (cases x)
  case (Inl e)
  with assms show ?thesis by (auto simp: mock_upsert_def split: if_splits)
next
  case (Inr u)
  let ?rs = "mock_list s d (dr_rtype r) (dr_name r)"
  from assms(2) Inr have s': "s' = s\<lparr>mk_upserts := mk_upserts s + 1,
      mk_records := hm_put (d, dr_rtype r, dr_name r) (update_same_data r ?rs) (mk_records s)\<rparr>"
    by (auto simp: mock_upsert_def split: if_splits)
  have "list_all (\<lambda>q. dr_name q = dr_name r \<and> dr_rtype q = dr_rtype r) (update_same_data r ?rs)"
    using set_update_same_data [OF mock_okD(2,1) [OF assms(1)]] mock_okD(1) [OF assms(1)]
    by (auto simp: list_all_iff)
  moreover have "distinct (map dr_data (update_same_data r ?rs))"
    using mock_okD(2) [OF assms(1)] by (auto simp: map_data_update_same_data)
  ultimately show ?thesis
    using assms(1) by (auto simp: s' mock_ok_def mock_list_put)
qed

lemma mock_ok_delete:
  assumes "mock_ok s" and "mock_delete d n t s = (x, s')"
  shows "mock_ok s'" and "(d', t', n') \<noteq> (d, t, n) \<Longrightarrow> mock_list s' d' t' n' = mock_list s d' t' n'"
    and "x = Inr u \<Longrightarrow> mock_list s' d t n = []"
  using assms by (auto simp: mock_delete_def mock_ok_def mock_list_def Let_def split: if_splits option.splits)

text \<open>The mock keeps what the interface promises.\<close>

interpretation mock: dns_service mock_ops mock_held mock_ok
proof unfold_locales
  fix s d n t rs
  assume "mock_ok s" "dns_query mock_ops d (Some n) (Some t) s = Inr rs"
  then show "set rs = mock_held s d n t" by (auto simp: mock_ops_def mock_query_key mock_held_def)
next
  fix s d r u s'
  assume s: "mock_ok s" and u: "dns_upsert mock_ops d r s = (Inr u, s')"
  from u have "mock_list s' d (dr_rtype r) (dr_name r) = update_same_data r (mock_list s d (dr_rtype r) (dr_name r))"
    by (auto simp: mock_ops_def mock_upsert_def mock_list_put split: if_splits)
  then show "mock_held s' d (dr_name r) (dr_rtype r) =
      insert r {q \<in> mock_held s d (dr_name r) (dr_rtype r). dr_data q \<noteq> dr_data r}"
    using set_update_same_data [OF mock_okD(2,1) [OF s]] by (simp add: mock_held_def)
next
  fix s d r x s' d' n' t'
  assume "mock_ok s" "dns_upsert mock_ops d r s = (x, s')" "(d', n', t') \<noteq> (d, dr_name r, dr_rtype r)"
  then show "mock_held s' d' n' t' = mock_held s d' n' t'"
    by (auto simp: mock_ops_def mock_upsert_def mock_held_def mock_list_put split: if_splits)
next
  fix s d r e s'
  assume "mock_ok s" "dns_upsert mock_ops d r s = (Inl e, s')"
  then show "mock_held s' = mock_held s" by (auto simp: mock_ops_def mock_upsert_def split: if_splits)
next
  fix s d r x s'
  assume "mock_ok s" "dns_upsert mock_ops d r s = (x, s')"
  then show "mock_ok s'" by (simp add: mock_ops_def mock_ok_upsert)
next
  fix s d n t u s'
  assume "mock_ok s" "dns_delete mock_ops d n t s = (Inr u, s')"
  then show "mock_held s' d n t = {}" by (auto simp: mock_ops_def mock_held_def dest: mock_ok_delete(3))
next
  fix s d n t x s' d' n' t'
  assume "mock_ok s" "dns_delete mock_ops d n t s = (x, s')" "(d', n', t') \<noteq> (d, n, t)"
  then show "mock_held s' d' n' t' = mock_held s d' n' t'"
    using mock_ok_delete(2) [of s d n t x s' d' t' n'] by (auto simp: mock_ops_def mock_held_def)
next
  fix s d n t x s'
  assume "mock_ok s" "dns_delete mock_ops d n t s = (x, s')"
  then show "mock_ok s'" by (simp add: mock_ops_def mock_ok_delete(1))
qed

lemma mock_ok_new: "mock_ok mock_new"
  by (simp add: mock_ok_def mock_new_def mock_list_def hm_ok_def)

end
