(* ===== verification/Dns_Records.thy ===== *)
theory Dns_Records
  imports Dns_Provider Strings NetAddr
begin

text \<open>
  What a device publishes under its name, on the interface of \<^verbatim>\<open>Dns_Provider\<close>: the checks of names
  (\<^verbatim>\<open>dns/src/validate.rs\<close>), the metadata record with the public key (\<^verbatim>\<open>txt.rs\<close>), the service record with the
  port (\<^verbatim>\<open>srv.rs\<close>) and the IPv4 address (\<^verbatim>\<open>a.rs\<close>). JSON and base64 are parameters.
\<close>

section \<open>Names\<close>

definition MAX_HOSTNAME_LEN :: nat where "MAX_HOSTNAME_LEN = 253"
definition MAX_LABEL_LEN :: nat where "MAX_LABEL_LEN = 63"
definition DNS_MAX_DEVICE_ID_LEN :: nat where "DNS_MAX_DEVICE_ID_LEN = 128"
definition MAX_RECORD_DATA_LEN :: nat where "MAX_RECORD_DATA_LEN = 4096"
definition MAX_PUBLIC_KEY_LEN :: nat where "MAX_PUBLIC_KEY_LEN = 128"

definition validate_label :: "string \<Rightarrow> bool" where
  "validate_label label \<longleftrightarrow> label \<noteq> [] \<and> length label \<le> MAX_LABEL_LEN \<and>
     \<not> starts_with label ''-'' \<and> \<not> ends_with label ''-'' \<and>
     list_all (\<lambda>b. is_ascii_alphanumeric b \<or> b = CHR ''-'') label"

text \<open>The last label must not be all digits; the loop returns at the first bad label.\<close>

definition validate_hostname :: "string \<Rightarrow> bool" where
  "validate_hostname name0 =
     (let name = (if ends_with name0 ''.'' then butlast name0 else name0)
      in if name = [] \<or> MAX_HOSTNAME_LEN < length name then False
         else let labels = split_on CHR ''.'' name
              in list_all validate_label labels \<and> \<not> list_all is_ascii_digit (last labels))"

definition validate_record_name :: "string \<Rightarrow> bool" where
  "validate_record_name name =
     (if name = [] \<or> MAX_HOSTNAME_LEN < length name then False
      else list_all (\<lambda>label. label \<noteq> [] \<and> length label \<le> MAX_LABEL_LEN \<and>
             list_all (\<lambda>b. is_ascii_alphanumeric b \<or> b = CHR ''_'' \<or> b = CHR ''-'') label) (split_on CHR ''.'' name))"

definition dns_validate_device_id :: "string \<Rightarrow> bool" where
  "dns_validate_device_id device_id \<longleftrightarrow>
     device_id \<noteq> [] \<and> length device_id \<le> DNS_MAX_DEVICE_ID_LEN \<and>
     list_all (\<lambda>b. is_ascii_alphanumeric b \<or> b = CHR '':'' \<or> b = CHR ''_'' \<or> b = CHR ''-'') device_id"

definition bad_device_id :: "string \<Rightarrow> provider_error" where
  "bad_device_id device_id =
     PInvalidParameter (''invalid device_id '' @ quoted device_id @ '' (charset [a-zA-Z0-9:_-], len 1..=128, no '' @
       quoted ''.'' @ '' allowed)'')"

definition validate_context :: "string \<Rightarrow> string \<Rightarrow> provider_error + unit" where
  "validate_context device_id domain =
     (if \<not> dns_validate_device_id device_id then Inl (bad_device_id device_id)
      else if \<not> validate_hostname domain then
        Inl (PInvalidParameter (''invalid domain '' @ quoted domain @ '' (must be an RFC 1123 hostname)''))
      else Inr ())"

section \<open>The metadata record\<close>

record device_meta =
  dm_key :: string
  dm_proto :: string
  dm_ver :: string
  dm_device_type :: string

record meta_codec =
  meta_to_txt :: "device_meta \<Rightarrow> string"
  meta_from_txt :: "string \<Rightarrow> device_meta option"
  meta_b64 :: "string \<Rightarrow> bytes option"

definition meta_new :: "string \<Rightarrow> device_meta" where
  "meta_new public_key_base64 =
     \<lparr>dm_key = ''ed25519:'' @ public_key_base64, dm_proto = ''ip6desk'', dm_ver = ''1'', dm_device_type = ''desktop''\<rparr>"

definition meta_new_server :: "string \<Rightarrow> device_meta" where
  "meta_new_server public_key_base64 =
     \<lparr>dm_key = ''ed25519:'' @ public_key_base64, dm_proto = ''ip6desk'', dm_ver = ''1'', dm_device_type = ''server''\<rparr>"

definition raw_public_key :: "device_meta \<Rightarrow> string option" where
  "raw_public_key m = strip_prefix ''ed25519:'' (dm_key m)"

definition is_valid_ed25519_pubkey_b64 :: "meta_codec \<Rightarrow> string \<Rightarrow> bool" where
  "is_valid_ed25519_pubkey_b64 J k = (case meta_b64 J k of Some b \<Rightarrow> length b = 32 | None \<Rightarrow> False)"

definition key_too_long :: "device_meta \<Rightarrow> bool" where
  "key_too_long m = (case raw_public_key m of None \<Rightarrow> True | Some k \<Rightarrow> MAX_PUBLIC_KEY_LEN < length k)"

definition validate_device_and_key :: "meta_codec \<Rightarrow> string \<Rightarrow> device_meta \<Rightarrow> provider_error + unit" where
  "validate_device_and_key J device_id meta =
     (if \<not> dns_validate_device_id device_id then Inl (bad_device_id device_id)
      else if key_too_long meta then
        Inl (PInvalidParameter (''public key exceeds '' @ digits_of MAX_PUBLIC_KEY_LEN @ '' chars (got '' @
          digits_of (length (dm_key meta)) @ '')''))
      else if MAX_RECORD_DATA_LEN < length (meta_to_txt J meta) then
        Inl (PInvalidParameter (''TXT record data exceeds '' @ digits_of MAX_RECORD_DATA_LEN @ '' bytes''))
      else Inr ())"

definition txt_record :: "meta_codec \<Rightarrow> string \<Rightarrow> device_meta \<Rightarrow> u32 \<Rightarrow> dns_record" where
  "txt_record J device_id meta ttl =
     \<lparr>dr_name = device_id, dr_rtype = RtTXT, dr_ttl = ttl, dr_data = Plain (meta_to_txt J meta)\<rparr>"

definition txt_register :: "meta_codec \<Rightarrow> 's dns_ops \<Rightarrow> string \<Rightarrow> string \<Rightarrow> device_meta \<Rightarrow> u32 \<Rightarrow> 's \<Rightarrow>
    (provider_error + unit) \<times> 's" where
  "txt_register J ops domain device_id meta ttl s =
     (case validate_device_and_key J device_id meta of
        Inl e \<Rightarrow> (Inl e, s)
      | Inr _ \<Rightarrow> dns_upsert ops domain (txt_record J device_id meta ttl) s)"

text \<open>What a query makes of the first record it gets.\<close>

definition txt_parse :: "meta_codec \<Rightarrow> dns_data \<Rightarrow> provider_error + device_meta" where
  "txt_parse J data =
     (case data of
        Plain text \<Rightarrow>
          (case meta_from_txt J text of
             None \<Rightarrow> Inl (PInvalidParameter (''Failed to parse device metadata from TXT: '' @ text))
           | Some meta \<Rightarrow>
               if key_too_long meta then
                 Inl (PInvalidParameter (''public key exceeds '' @ digits_of MAX_PUBLIC_KEY_LEN @ '' chars (got '' @
                   digits_of (case raw_public_key meta of None \<Rightarrow> 0 | Some k \<Rightarrow> length k) @ '')''))
               else if (case raw_public_key meta of None \<Rightarrow> True | Some k \<Rightarrow> \<not> is_valid_ed25519_pubkey_b64 J k) then
                 Inl (PInvalidParameter
                   (''public key is not a valid Ed25519 key (base64 must decode to 32 bytes, got '' @
                     quoted (case raw_public_key meta of None \<Rightarrow> [] | Some k \<Rightarrow> k) @ '')''))
               else Inr meta)
      | other \<Rightarrow>
          Inl (PInvalidParameter (''Failed to parse device metadata from TXT: unexpected data shape '' @
            quoted (to_display_string other))))"

definition txt_query :: "meta_codec \<Rightarrow> 's dns_ops \<Rightarrow> string \<Rightarrow> string \<Rightarrow> 's \<Rightarrow> provider_error + device_meta" where
  "txt_query J ops domain device_id s =
     (if \<not> dns_validate_device_id device_id then Inl (bad_device_id device_id)
      else case dns_query ops domain (Some device_id) (Some RtTXT) s of
        Inl e \<Rightarrow> Inl e
      | Inr [] \<Rightarrow> Inl (PNotFound (''TXT '' @ device_id @ ''.'' @ domain))
      | Inr (r # _) \<Rightarrow> txt_parse J (dr_data r))"

definition txt_remove :: "'s dns_ops \<Rightarrow> string \<Rightarrow> string \<Rightarrow> 's \<Rightarrow> (provider_error + unit) \<times> 's" where
  "txt_remove ops domain device_id s =
     (if \<not> dns_validate_device_id device_id then (Inl (bad_device_id device_id), s)
      else dns_delete ops domain device_id RtTXT s)"

section \<open>The service record\<close>

record srv_info =
  sv_priority :: u16
  sv_weight :: u16
  sv_port_no :: u16
  sv_target :: string

definition srv_record_name :: "string \<Rightarrow> string" where
  "srv_record_name device_id = ''_remote._tcp.'' @ device_id"

definition srv_record :: "string \<Rightarrow> u16 \<Rightarrow> string \<Rightarrow> u32 \<Rightarrow> dns_record" where
  "srv_record device_id port target ttl =
     \<lparr>dr_name = srv_record_name device_id, dr_rtype = RtSRV, dr_ttl = ttl, dr_data = Srv 0 1 port target\<rparr>"

definition srv_register :: "'s dns_ops \<Rightarrow> string \<Rightarrow> string \<Rightarrow> u16 \<Rightarrow> string \<Rightarrow> u32 \<Rightarrow> 's \<Rightarrow> (provider_error + unit) \<times> 's" where
  "srv_register ops domain device_id port target ttl s =
     (case validate_context device_id domain of
        Inl e \<Rightarrow> (Inl e, s)
      | Inr _ \<Rightarrow>
          if \<not> validate_hostname target then
            (Inl (PInvalidParameter (''invalid SRV target '' @ quoted target @ '' (must be an RFC 1123 hostname)'')), s)
          else dns_upsert ops domain (srv_record device_id port target ttl) s)"

fun srv_parse_all :: "dns_record list \<Rightarrow> provider_error + srv_info list" where
  "srv_parse_all [] = Inr []"
| "srv_parse_all (r # rs) =
     (case dr_data r of
        Srv p w port t \<Rightarrow>
          (case srv_parse_all rs of
             Inl e \<Rightarrow> Inl e
           | Inr is \<Rightarrow> Inr (\<lparr>sv_priority = p, sv_weight = w, sv_port_no = port, sv_target = t\<rparr> # is))
      | other \<Rightarrow> Inl (PInvalidParameter (''Failed to parse SRV data: '' @ to_display_string other)))"

definition srv_query :: "'s dns_ops \<Rightarrow> string \<Rightarrow> string \<Rightarrow> 's \<Rightarrow> provider_error + srv_info list" where
  "srv_query ops domain device_id s =
     (case validate_context device_id domain of
        Inl e \<Rightarrow> Inl e
      | Inr _ \<Rightarrow>
          (case dns_query ops domain (Some (srv_record_name device_id)) (Some RtSRV) s of
             Inl e \<Rightarrow> Inl e
           | Inr rs \<Rightarrow> srv_parse_all rs))"

definition srv_get_port :: "'s dns_ops \<Rightarrow> string \<Rightarrow> string \<Rightarrow> 's \<Rightarrow> provider_error + u16" where
  "srv_get_port ops domain device_id s =
     (case srv_query ops domain device_id s of
        Inl e \<Rightarrow> Inl e
      | Inr [] \<Rightarrow> Inl (PNotFound (''SRV _remote._tcp.'' @ device_id @ ''.'' @ domain))
      | Inr (i # _) \<Rightarrow> Inr (sv_port_no i))"

definition srv_remove :: "'s dns_ops \<Rightarrow> string \<Rightarrow> string \<Rightarrow> 's \<Rightarrow> (provider_error + unit) \<times> 's" where
  "srv_remove ops domain device_id s =
     (case validate_context device_id domain of
        Inl e \<Rightarrow> (Inl e, s)
      | Inr _ \<Rightarrow> dns_delete ops domain (srv_record_name device_id) RtSRV s)"

section \<open>Addresses\<close>

text \<open>The display of addresses: dotted decimal, and RFC 5952 for IPv6 with the mapped form in dotted decimal.\<close>

definition show_v4 :: "u8 \<Rightarrow> u8 \<Rightarrow> u8 \<Rightarrow> u8 \<Rightarrow> string" where
  "show_v4 a b c d = digits_of (unat a) @ ''.'' @ digits_of (unat b) @ ''.'' @ digits_of (unat c) @ ''.'' @ digits_of (unat d)"

fun hex_of :: "nat \<Rightarrow> string" where
  "hex_of n = (let dig = (\<lambda>n. if n < 10 then char_of (48 + n) else char_of (87 + n))
               in if n < 16 then [dig n] else hex_of (n div 16) @ [dig (n mod 16)])"

declare hex_of.simps [simp del]

text \<open>The first longest run of zero segments, as position and length.\<close>

fun zero_run :: "nat \<Rightarrow> nat \<times> nat \<Rightarrow> nat \<times> nat \<Rightarrow> u16 list \<Rightarrow> nat \<times> nat" where
  "zero_run i current longest [] = longest"
| "zero_run i (start, len) (lstart, llen) (x # xs) =
     (if x = 0 then
        (let current = (if len = 0 then (i, 1) else (start, Suc len))
         in zero_run (Suc i) current (if llen < snd current then current else (lstart, llen)) xs)
      else zero_run (Suc i) (0, 0) (lstart, llen) xs)"

fun colon_hex :: "u16 list \<Rightarrow> string" where
  "colon_hex [] = []"
| "colon_hex [x] = hex_of (unat x)"
| "colon_hex (x # y # xs) = hex_of (unat x) @ '':'' @ colon_hex (y # xs)"

definition show_v6 :: "u16 list \<Rightarrow> string" where
  "show_v6 segs =
     (case zero_run 0 (0, 0) (0, 0) segs of
        (start, len) \<Rightarrow>
          if 1 < len then colon_hex (take start segs) @ ''::'' @ colon_hex (drop (start + len) segs)
          else colon_hex segs)"

fun show_ip :: "ip_addr \<Rightarrow> string" where
  "show_ip (V4 a b c d) = show_v4 a b c d"
| "show_ip (V6 a b c d e f g h) =
     (case to_ipv4_mapped (V6 a b c d e f g h) of
        Some (V4 w x y z) \<Rightarrow> ''::ffff:'' @ show_v4 w x y z
      | _ \<Rightarrow> show_v6 [a, b, c, d, e, f, g, h])"

definition ip_type :: "ip_addr \<Rightarrow> dns_type" where
  "ip_type ip = (case ip of V4 _ _ _ _ \<Rightarrow> RtA | V6 _ _ _ _ _ _ _ _ \<Rightarrow> RtAAAA)"

definition addr_record :: "string \<Rightarrow> ip_addr \<Rightarrow> u32 \<Rightarrow> dns_record" where
  "addr_record device_id ip ttl =
     \<lparr>dr_name = device_id, dr_rtype = ip_type ip, dr_ttl = ttl, dr_data = Plain (show_ip ip)\<rparr>"

lemma addr_record_sels [simp]:
  "dr_name (addr_record device_id ip ttl) = device_id" "dr_rtype (addr_record device_id ip ttl) = ip_type ip"
  by (simp_all add: addr_record_def)

text \<open>\<^verbatim>\<open>AManager\<close> and \<^verbatim>\<open>AaaaManager\<close> differ in the type of the record and the address only.\<close>

definition addr_register :: "'s dns_ops \<Rightarrow> string \<Rightarrow> string \<Rightarrow> ip_addr \<Rightarrow> u32 \<Rightarrow> 's \<Rightarrow> (provider_error + unit) \<times> 's" where
  "addr_register ops domain device_id ip ttl s =
     (if \<not> dns_validate_device_id device_id then (Inl (bad_device_id device_id), s)
      else dns_upsert ops domain (addr_record device_id ip ttl) s)"

definition addr_remove :: "'s dns_ops \<Rightarrow> string \<Rightarrow> string \<Rightarrow> dns_type \<Rightarrow> 's \<Rightarrow> (provider_error + unit) \<times> 's" where
  "addr_remove ops domain device_id t s =
     (if \<not> dns_validate_device_id device_id then (Inl (bad_device_id device_id), s)
      else dns_delete ops domain device_id t s)"

text \<open>Reading an IPv4 address back: four decimal octets without leading zeros.\<close>

definition parse_octet :: "string \<Rightarrow> nat option" where
  "parse_octet s =
     (if s = [] \<or> 3 < length s \<or> \<not> list_all is_ascii_digit s \<or> (1 < length s \<and> hd s = CHR ''0'') then None
      else let n = foldl (\<lambda>n c. n * 10 + (of_char c - 48)) 0 s in if n < 256 then Some n else None)"

definition parse_v4 :: "string \<Rightarrow> ip_addr option" where
  "parse_v4 s =
     (case map parse_octet (split_on CHR ''.'' s) of
        [Some a, Some b, Some c, Some d] \<Rightarrow> Some (V4 (of_nat a) (of_nat b) (of_nat c) (of_nat d))
      | _ \<Rightarrow> None)"

fun v4_parse_all :: "dns_record list \<Rightarrow> provider_error + ip_addr list" where
  "v4_parse_all [] = Inr []"
| "v4_parse_all (r # rs) =
     (case dr_data r of
        Plain t \<Rightarrow>
          (case parse_v4 t of
             None \<Rightarrow> Inl (PInvalidParameter (''Failed to parse IPv4 address '' @ quoted t @ '': invalid IPv4 address syntax''))
           | Some ip \<Rightarrow> (case v4_parse_all rs of Inl e \<Rightarrow> Inl e | Inr ips \<Rightarrow> Inr (ip # ips)))
      | other \<Rightarrow> Inl (PInvalidParameter (''Failed to parse IPv4 address '' @ quoted (to_display_string other) @
          '': unexpected data shape'')))"

definition a_query :: "'s dns_ops \<Rightarrow> string \<Rightarrow> string \<Rightarrow> 's \<Rightarrow> provider_error + ip_addr list" where
  "a_query ops domain device_id s =
     (if \<not> dns_validate_device_id device_id then Inl (bad_device_id device_id)
      else case dns_query ops domain (Some device_id) (Some RtA) s of
        Inl e \<Rightarrow> Inl e
      | Inr rs \<Rightarrow> v4_parse_all rs)"

definition get_ipv4 :: "'s dns_ops \<Rightarrow> string \<Rightarrow> string \<Rightarrow> 's \<Rightarrow> provider_error + ip_addr" where
  "get_ipv4 ops domain device_id s =
     (case a_query ops domain device_id s of
        Inl e \<Rightarrow> Inl e
      | Inr [] \<Rightarrow> Inl (PNotFound (''A '' @ device_id @ ''.'' @ domain))
      | Inr (ip # _) \<Rightarrow> Inr ip)"

section \<open>What is published can be found\<close>

lemma of_char_digit: "d < 10 \<Longrightarrow> (of_char (char_of (48 + d) :: char) :: nat) = 48 + d" for d :: nat
  by (simp add: of_char_of take_bit_eq_mod)

lemma digit_char:
  fixes d :: nat
  assumes "d < 10"
  shows "is_ascii_digit (char_of (48 + d))" and "char_of (48 + d) \<noteq> CHR ''.''" and "0 < d \<Longrightarrow> char_of (48 + d) \<noteq> CHR ''0''"
proof -
  show "is_ascii_digit (char_of (48 + d))"
    using assms of_char_digit [OF assms] by (simp add: is_ascii_digit_def less_eq_char_def)
  have "c \<noteq> x" if "(of_char c :: nat) \<noteq> of_char x" for c x :: char using that by auto
  with of_char_digit [OF assms] show "char_of (48 + d) \<noteq> CHR ''.''" and "0 < d \<Longrightarrow> char_of (48 + d) \<noteq> CHR ''0''"
    by force+
qed

lemma decimal_digits: "n = n div 100 * 100 + n div 10 mod 10 * 10 + n mod 10" for n :: nat
proof -
  have "n div 10 = n div 100 * 10 + n div 10 mod 10"
    using div_mult_mod_eq [of "n div 10" 10] by (simp add: div_mult2_eq [symmetric])
  moreover have "n = n div 10 * 10 + n mod 10" by simp
  ultimately show ?thesis by linarith
qed

lemma digits_of_small:
  "n < 10 \<Longrightarrow> digits_of n = [char_of (48 + n)]"
  "10 \<le> n \<Longrightarrow> n < 100 \<Longrightarrow> digits_of n = [char_of (48 + n div 10), char_of (48 + n mod 10)]"
  "100 \<le> n \<Longrightarrow> n < 1000 \<Longrightarrow>
     digits_of n = [char_of (48 + n div 100), char_of (48 + n div 10 mod 10), char_of (48 + n mod 10)]"
proof -
  show small: "digits_of n = [char_of (48 + n)]" if "n < 10" for n
    using that by (simp add: digits_of.simps [of n])
  show two: "digits_of n = [char_of (48 + n div 10), char_of (48 + n mod 10)]" if "10 \<le> n" "n < 100" for n
    using that small [of "n div 10"] by (simp add: digits_of.simps [of n])
  show "digits_of n = [char_of (48 + n div 100), char_of (48 + n div 10 mod 10), char_of (48 + n mod 10)]"
    if "100 \<le> n" "n < 1000"
  proof -
    have "n div 10 div 10 = n div 100" by (simp add: div_mult2_eq)
    then show ?thesis using that two [of "n div 10"] by (simp add: digits_of.simps [of n])
  qed
qed

lemma octet_digits_nat:
  assumes "n < 256"
  shows "parse_octet (digits_of n) = Some n" "CHR ''.'' \<notin> set (digits_of n)"
proof -
  have d: "n mod 10 < 10" "n div 10 mod 10 < 10" by simp_all
  consider "n < 10" | "10 \<le> n" "n < 100" | "100 \<le> n" "n < 256" using assms by linarith
  then have "parse_octet (digits_of n) = Some n \<and> CHR ''.'' \<notin> set (digits_of n)"
  proof cases
    case 1
    then show ?thesis
      using digit_char(1,2) [of n] of_char_digit [of n] by (simp add: digits_of_small parse_octet_def)
  next
    case 2
    then have "n div 10 < 10" "0 < n div 10" by simp_all
    then show ?thesis
      using 2 digit_char [of "n div 10"] digit_char [OF d(1)] of_char_digit [of "n div 10"] of_char_digit [OF d(1)]
      by (simp add: digits_of_small parse_octet_def)
  next
    case 3
    let ?a = "char_of (48 + n div 100)" and ?b = "char_of (48 + n div 10 mod 10)" and ?c = "char_of (48 + n mod 10)"
    have h: "n div 100 < 10" "0 < n div 100" using 3 by simp_all
    note a = digit_char [OF h(1)] and b = digit_char [OF d(2)] and c = digit_char [OF d(1)]
    have v: "((0 * 10 + (of_char ?a - 48)) * 10 + (of_char ?b - 48)) * 10 + (of_char ?c - 48) = n"
      unfolding of_char_digit [OF h(1)] of_char_digit [OF d(1)] of_char_digit [OF d(2)]
      using decimal_digits [of n] by simp
    show ?thesis
      unfolding digits_of_small(3) [of n, OF 3(1) order.strict_trans [OF 3(2)], simplified] parse_octet_def
        foldl_Cons foldl_Nil v
      using 3 a b c h by simp
  qed
  then show "parse_octet (digits_of n) = Some n" "CHR ''.'' \<notin> set (digits_of n)" by simp_all
qed

lemma octet_digits:
  "parse_octet (digits_of (unat (b :: u8))) = Some (unat b)" "CHR ''.'' \<notin> set (digits_of (unat b))"
  using octet_digits_nat [of "unat b"] unat_u8 [of b] by simp_all

lemma parse_show_v4: "parse_v4 (show_v4 a b c d) = Some (V4 a b c d)"
  by (simp add: parse_v4_def show_v4_def split_on_append split_on_piece octet_digits)

lemma show_v4_inject [simp]: "show_v4 a b c d = show_v4 w x y z \<longleftrightarrow> a = w \<and> b = x \<and> c = y \<and> d = z"
  by (metis parse_show_v4 option.inject ip_addr.inject(1))

lemma raw_key_new [simp]: "raw_public_key (meta_new k) = Some k"
  by (simp add: raw_public_key_def meta_new_def strip_prefix_def starts_with_def)

context dns_service
begin

lemma upsert_query:
  assumes "service_ok s" and "dns_upsert ops d r s = (Inr u, s')"
    and "dns_query ops d (Some (dr_name r)) (Some (dr_rtype r)) s' = Inr rs"
  shows "set rs = insert r {q \<in> held s d (dr_name r) (dr_rtype r). dr_data q \<noteq> dr_data r}"
  using query_held [OF upsert_ok [OF assms(1,2)] assms(3)] upsert_held [OF assms(1,2)] by simp

end

text \<open>The name and the key were checked before the record was written.\<close>

lemma txt_register_Inr:
  assumes "txt_register J ops d dev m ttl s = (Inr u, s')"
  shows "dns_validate_device_id dev \<and> \<not> key_too_long m \<and> dns_upsert ops d (txt_record J dev m ttl) s = (Inr u, s')"
  using assms by (auto simp: txt_register_def validate_device_and_key_def split: if_splits)

text \<open>A metadata record that survives the JSON codec and carries a key of 32 bytes.\<close>

definition readable_meta :: "meta_codec \<Rightarrow> device_meta \<Rightarrow> bool" where
  "readable_meta J m \<longleftrightarrow> meta_from_txt J (meta_to_txt J m) = Some m \<and>
     (\<exists>k. raw_public_key m = Some k \<and> is_valid_ed25519_pubkey_b64 J k)"

lemma txt_parse_readable:
  "readable_meta J m \<Longrightarrow> \<not> key_too_long m \<Longrightarrow> txt_parse J (Plain (meta_to_txt J m)) = Inr m"
  by (auto simp: txt_parse_def readable_meta_def)

text \<open>
  C32. A device that publishes its key and address is found under its name. Take any service that answers a
  query with the records it holds, creates the record where a write finds none, possibly with a TTL of
  its own, and leaves other names and types alone; this is the documented part of the trait, and
  updates of a record that exists are not in it. Let the device have no TXT and no A record, let its
  key be one the query accepts (the registration does not check that), and let both registrations and
  the two queries succeed. Then a query for the device returns the registered key, and the device
  resolves to the registered IPv4 address.
\<close>
theorem published_is_found:
  assumes "dns_publisher ops held ok" and "ok s"
    and "txt_register J ops domain dev (meta_new k) ttl s = (Inr u, s1)" and "held s domain dev RtTXT = {}"
    and "readable_meta J (meta_new k)"
    and "addr_register ops domain dev (V4 a b c d) ttl s1 = (Inr v, s2)" and "held s domain dev RtA = {}"
    and "dns_query ops domain (Some dev) (Some RtTXT) s2 = Inr ts" and "dns_query ops domain (Some dev) (Some RtA) s2 = Inr addrs"
  shows "txt_query J ops domain dev s2 = Inr (meta_new k) \<and> get_ipv4 ops domain dev s2 = Inr (V4 a b c d)"
proof -
  note reg = txt_register_Inr [OF assms(3)]
  let ?t = "txt_record J dev (meta_new k) ttl" and ?a = "addr_record dev (V4 a b c d) ttl"
  have up1: "dns_upsert ops domain ?t s = (Inr u, s1)" using reg by blast
  have ok1: "ok s1" by (rule dns_publisher.upsert_well [OF assms(1,2) up1])
  have up: "dns_upsert ops domain ?a s1 = (Inr v, s2)"
    using assms(6) reg by (auto simp: addr_register_def)
  have ok2: "ok s2" by (rule dns_publisher.upsert_well [OF assms(1) ok1 up])
  have a1: "held s1 domain dev RtA = {}"
    using dns_publisher.upsert_elsewhere [OF assms(1,2) up1, of domain dev RtA] assms(7) by (simp add: txt_record_def)
  have t2: "held s2 domain dev RtTXT = held s1 domain dev RtTXT"
    using dns_publisher.upsert_elsewhere [OF assms(1) ok1 up, of domain dev RtTXT] by (simp add: addr_record_def ip_type_def)
  have names: "dr_name ?t = dev" "dr_rtype ?t = RtTXT" "dr_data ?t = Plain (meta_to_txt J (meta_new k))"
    "dr_name ?a = dev" "dr_rtype ?a = RtA" by (simp_all add: txt_record_def addr_record_def ip_type_def)
  have "ts \<noteq> [] \<and> (\<forall>q\<in>set ts. dr_data q = dr_data ?t)"
    using dns_publisher.created_answer [OF assms(1,2) up1 _ _ ok2, of ts] assms(4,8) t2 by (simp add: names)
  then obtain q ts' where "ts = q # ts'" "dr_data q = Plain (meta_to_txt J (meta_new k))" by (cases ts) (auto simp: names)
  then have found: "txt_query J ops domain dev s2 = Inr (meta_new k)"
    using reg assms(8) txt_parse_readable [OF assms(5)] by (simp add: txt_query_def)
  have addrs: "addrs \<noteq> [] \<and> (\<forall>q\<in>set addrs. dr_data q = dr_data ?a)"
    using dns_publisher.created_answer [OF assms(1) ok1 up _ refl ok2, of addrs] a1 assms(9) unfolding names by blast
  have "v4_parse_all xs = Inr (replicate (length xs) (V4 a b c d))" if "\<forall>q\<in>set xs. dr_data q = dr_data ?a" for xs
    using that by (induction xs) (auto simp: addr_record_def parse_show_v4)
  with addrs have "v4_parse_all addrs = Inr (replicate (length addrs) (V4 a b c d))" by blast
  with addrs have "v4_parse_all addrs = Inr (V4 a b c d # replicate (length addrs - 1) (V4 a b c d))"
    by (cases addrs) auto
  then have "get_ipv4 ops domain dev s2 = Inr (V4 a b c d)"
    using reg assms(9) by (simp add: get_ipv4_def a_query_def)
  with found show ?thesis ..
qed

text \<open>
  A rotated key does not replace the old one. After a device has published a second key on the in-memory
  service, both records stand, and when the old one comes first in the order of their texts a query still
  returns the old key; the published old address stays in the same way.
\<close>
theorem rotated_key_stale:
  assumes "mock_ok s" and "mock_held s domain dev RtTXT = {}"
    and "txt_register J mock_ops domain dev old ttl s = (Inr u, s1)" and "readable_meta J old"
    and "txt_register J mock_ops domain dev new ttl s1 = (Inr v, s2)"
    and "meta_to_txt J old < meta_to_txt J new"
  shows "txt_query J mock_ops domain dev s2 = Inr old"
proof -
  let ?o = "txt_record J dev old ttl" and ?n = "txt_record J dev new ttl"
  note r1 = txt_register_Inr [OF assms(3)] and r2 = txt_register_Inr [OF assms(5)]
  have e: "mock_list s domain RtTXT dev = []" using assms(2) by (simp add: mock_held_def)
  have u1: "mock_upsert domain ?o s = (Inr u, s1)" and u2: "mock_upsert domain ?n s1 = (Inr v, s2)"
    using r1 r2 by (simp_all add: mock_ops_def)
  have ok2: "mock_ok s2" using mock_ok_upsert [OF mock_ok_upsert [OF assms(1) u1] u2] .
  have l1: "mock_list s1 domain RtTXT dev = [?o]"
    using u1 e by (auto simp: mock_upsert_def txt_record_def mock_list_put split: if_splits)
  have "mock_list s2 domain RtTXT dev = [?o, ?n]"
    using u2 l1 assms(6) by (auto simp: mock_upsert_def txt_record_def mock_list_put split: if_splits)
  then have "mock_query domain (Some dev) (Some RtTXT) s2 = Inr [?o, ?n]"
    using assms(6) less_imp_le [OF assms(6)] by (simp add: mock_query_key [OF ok2] txt_record_def)
  then show ?thesis
    using r1 txt_parse_readable [OF assms(4)] by (simp add: txt_query_def mock_ops_def) (simp add: txt_record_def)
qed

section \<open>A device on the in-memory service\<close>

definition demo_codec :: meta_codec where
  "demo_codec = \<lparr>meta_to_txt = dm_key,
     meta_from_txt = (\<lambda>t. Some \<lparr>dm_key = t, dm_proto = ''ip6desk'', dm_ver = ''1'', dm_device_type = ''desktop''\<rparr>),
     meta_b64 = (\<lambda>_. Some (replicate 32 0))\<rparr>"

lemma demo_readable: "readable_meta demo_codec (meta_new k)"
  by (simp add: readable_meta_def demo_codec_def meta_new_def raw_public_key_def strip_prefix_def starts_with_def
      is_valid_ed25519_pubkey_b64_def)

definition demo_dns_key :: mock_state where
  "demo_dns_key = snd (txt_register demo_codec mock_ops ''a.b'' ''d'' (meta_new ''k'') 60 mock_new)"

definition demo_dns_addr :: mock_state where
  "demo_dns_addr = snd (addr_register mock_ops ''a.b'' ''d'' (V4 1 2 3 4) 60 demo_dns_key)"

lemma demo_dns_steps:
  "txt_register demo_codec mock_ops ''a.b'' ''d'' (meta_new ''k'') 60 mock_new = (Inr (), demo_dns_key)"
  "addr_register mock_ops ''a.b'' ''d'' (V4 1 2 3 4) 60 demo_dns_key = (Inr (), demo_dns_addr)"
  unfolding demo_dns_addr_def demo_dns_key_def by code_simp+

lemma mock_held_new: "mock_held mock_new d n t = {}"
  by (simp add: mock_held_def mock_list_def mock_new_def)

lemma mock_answers: "\<exists>rs. dns_query mock_ops d n t s = Inr rs"
  by (simp add: mock_ops_def mock_query_def Let_def)

theorem published_is_found_witness:
  "txt_query demo_codec mock_ops ''a.b'' ''d'' demo_dns_addr = Inr (meta_new ''k'') \<and>
   get_ipv4 mock_ops ''a.b'' ''d'' demo_dns_addr = Inr (V4 1 2 3 4)"
proof -
  obtain ts addrs where "dns_query mock_ops ''a.b'' (Some ''d'') (Some RtTXT) demo_dns_addr = Inr ts"
      "dns_query mock_ops ''a.b'' (Some ''d'') (Some RtA) demo_dns_addr = Inr addrs"
    using mock_answers by blast
  with published_is_found [OF mock.publisher.dns_publisher_axioms mock_ok_new demo_dns_steps(1) mock_held_new demo_readable
      demo_dns_steps(2) mock_held_new]
  show ?thesis by blast
qed

theorem rotated_key_stale_witness:
  "txt_query demo_codec mock_ops ''a.b'' ''d''
     (snd (txt_register demo_codec mock_ops ''a.b'' ''d'' (meta_new ''l'') 60 demo_dns_key)) = Inr (meta_new ''k'')"
proof -
  have second: "txt_register demo_codec mock_ops ''a.b'' ''d'' (meta_new ''l'') 60 demo_dns_key =
      (Inr (), snd (txt_register demo_codec mock_ops ''a.b'' ''d'' (meta_new ''l'') 60 demo_dns_key))"
    unfolding demo_dns_key_def by code_simp
  have "meta_to_txt demo_codec (meta_new ''k'') < meta_to_txt demo_codec (meta_new ''l'')" by code_simp
  from rotated_key_stale [OF mock_ok_new mock_held_new demo_dns_steps(1) demo_readable second this] show ?thesis .
qed

end
