(* ===== verification/Dns_Ddns.thy ===== *)
theory Dns_Ddns
  imports Dns_Records
begin

text \<open>
  The dynamic DNS service, \<^verbatim>\<open>dns/src/ddns.rs\<close>: one round of publishing, the check of the current record
  before an address is overwritten, the count of failures with its pause, and the steps of the worker task. The
  public address, the global IPv6 address, the resolver's answers and the clocks are those of a round's
  world. Error messages are values of \<open>ddns_issue\<close>; the counter of failures is a natural number.
\<close>

section \<open>State\<close>

datatype ddns_mode = AutoAddr | ManualAddr

record published_preview =
  pv_srv :: bool
  pv_srv_port :: "u16 option"
  pv_txt :: bool
  pv_txt_fingerprint :: "string option"
  pv_a :: bool
  pv_aaaa :: bool

datatype ddns_issue =
    BadNames
  | PublicIpIssue string
  | SrvIssue provider_error
  | TxtIssue provider_error
  | NoProvider dns_type
  | WriteIssue dns_type provider_error
  | ReverseConflict dns_type
  | ReverseFailed dns_type
  | ManualMissing dns_type

datatype ddns_error = DdnsPublish "ddns_issue list" | DdnsNotRunning

record ddns_engine =
  dg_domain :: string
  dg_device_id :: string
  dg_port :: u16
  dg_ttl :: u32
  dg_enabled :: bool
  dg_v4_mode :: ddns_mode
  dg_v4_manual :: "ip_addr option"
  dg_v6_mode :: ddns_mode
  dg_v6_manual :: "ip_addr option"
  dg_publish_srv :: bool
  dg_publish_txt :: bool
  dg_publish_a :: bool
  dg_publish_aaaa :: bool
  dg_last_v4 :: "ip_addr option"
  dg_last_v6 :: "ip_addr option"
  dg_written_v4 :: "ip_addr option"
  dg_written_v6 :: "ip_addr option"
  dg_last_srv_port :: "u16 option"
  dg_last_txt_pubkey :: "string option"
  dg_failures :: nat
  dg_paused_until :: "instant option"
  dg_last_error :: "ddns_issue list option"
  dg_last_update :: "nat option"
  dg_v4_at :: "nat option"
  dg_v6_at :: "nat option"
  dg_published :: published_preview

record ddns_world =
  dw_now :: nat
  dw_mono :: instant
  dw_public_ip :: "string + ip_addr"
  dw_global_v6 :: "ip_addr option"
  dw_resolve :: "string \<Rightarrow> dns_type \<Rightarrow> string + dns_record list"

definition engine_new :: "string \<Rightarrow> string \<Rightarrow> u16 \<Rightarrow> u32 \<Rightarrow> ddns_mode \<Rightarrow> ip_addr option \<Rightarrow> ddns_mode \<Rightarrow> ip_addr option \<Rightarrow>
    bool \<times> bool \<times> bool \<times> bool \<Rightarrow> ddns_engine" where
  "engine_new domain device_id port ttl v4_mode v4_manual v6_mode v6_manual = (\<lambda>(srv, txt, a, aaaa).
     \<lparr>dg_domain = domain, dg_device_id = device_id, dg_port = port, dg_ttl = ttl, dg_enabled = True,
      dg_v4_mode = v4_mode, dg_v4_manual = v4_manual, dg_v6_mode = v6_mode, dg_v6_manual = v6_manual,
      dg_publish_srv = srv, dg_publish_txt = txt, dg_publish_a = a, dg_publish_aaaa = aaaa,
      dg_last_v4 = None, dg_last_v6 = None, dg_written_v4 = None, dg_written_v6 = None, dg_last_srv_port = None,
      dg_last_txt_pubkey = None, dg_failures = 0, dg_paused_until = None, dg_last_error = None, dg_last_update = None,
      dg_v4_at = None, dg_v6_at = None,
      dg_published = \<lparr>pv_srv = False, pv_srv_port = None, pv_txt = False, pv_txt_fingerprint = None, pv_a = False,
        pv_aaaa = False\<rparr>\<rparr>)"

definition FAILURE_PAUSE_THRESHOLD :: nat where "FAILURE_PAUSE_THRESHOLD = 3"
definition FAILURE_PAUSE_DURATION :: duration where "FAILURE_PAUSE_DURATION = secs (30 * 60)"

text \<open>What a round has collected.\<close>

record ddns_round =
  rn_issues :: "ddns_issue list"
  rn_succeeded :: bool
  rn_hard :: bool

section \<open>The check before overwriting\<close>

definition plain_values :: "dns_record list \<Rightarrow> string list" where
  "plain_values rs = filter (\<lambda>v. v \<noteq> []) (map (\<lambda>r. case dr_data r of Plain v \<Rightarrow> v | _ \<Rightarrow> []) rs)"

definition reverse_check :: "ddns_world \<Rightarrow> string \<Rightarrow> dns_type \<Rightarrow> string \<Rightarrow> string option \<Rightarrow> string + bool" where
  "reverse_check w host rt new_value last_written =
     (case dw_resolve w host rt of
        Inl e \<Rightarrow> Inl e
      | Inr [] \<Rightarrow> Inr True
      | Inr rs \<Rightarrow>
          (let current = plain_values rs
           in if new_value \<in> set current then Inr True
              else case last_written of
                     Some prev \<Rightarrow> Inr (prev \<in> set current)
                   | None \<Rightarrow> Inr False))"

section \<open>A round\<close>

definition add_issue :: "ddns_issue \<Rightarrow> ddns_round \<Rightarrow> ddns_round" where
  "add_issue i r = r\<lparr>rn_issues := rn_issues r @ [i]\<rparr>"

definition succeeded :: "ddns_round \<Rightarrow> ddns_round" where
  "succeeded r = r\<lparr>rn_succeeded := True\<rparr>"

definition short_fingerprint :: "string \<Rightarrow> string" where
  "short_fingerprint pubkey =
     (let p = trim pubkey in if length p \<le> 16 then p else take 16 p @ map char_of [0xE2, 0x80, 0xA6 :: nat])"

definition v4_of :: "ddns_world \<Rightarrow> ddns_engine \<Rightarrow> ip_addr option" where
  "v4_of w e =
     (case dg_v4_mode e of
        ManualAddr \<Rightarrow> dg_v4_manual e
      | AutoAddr \<Rightarrow> (case dw_public_ip w of Inr ip \<Rightarrow> Some ip | Inl _ \<Rightarrow> dg_last_v4 e))"

definition v4_issues :: "ddns_world \<Rightarrow> ddns_engine \<Rightarrow> ddns_issue list" where
  "v4_issues w e =
     (case dg_v4_mode e of
        ManualAddr \<Rightarrow> []
      | AutoAddr \<Rightarrow> (case dw_public_ip w of Inr _ \<Rightarrow> [] | Inl m \<Rightarrow> [PublicIpIssue m]))"

definition v6_of :: "ddns_world \<Rightarrow> ddns_engine \<Rightarrow> ip_addr option" where
  "v6_of w e = (case dg_v6_mode e of ManualAddr \<Rightarrow> dg_v6_manual e | AutoAddr \<Rightarrow> dw_global_v6 w)"

definition publish_service :: "'s dns_ops option \<Rightarrow> ddns_engine \<times> ddns_round \<times> 's \<Rightarrow> ddns_engine \<times> ddns_round \<times> 's" where
  "publish_service P = (\<lambda>(e, r, s).
     if \<not> dg_publish_srv e then (e, r, s)
     else case P of
       None \<Rightarrow> (e, add_issue (NoProvider RtSRV) r, s)
     | Some ops \<Rightarrow>
         (case srv_register ops (dg_domain e) (dg_device_id e) (dg_port e)
                 (dg_device_id e @ ''.'' @ dg_domain e @ ''.'') (dg_ttl e) s of
            (Inr _, s) \<Rightarrow>
              (e\<lparr>dg_published := (dg_published e)\<lparr>pv_srv := True, pv_srv_port := Some (dg_port e)\<rparr>,
                 dg_last_srv_port := Some (dg_port e)\<rparr>, succeeded r, s)
          | (Inl x, s) \<Rightarrow> (e\<lparr>dg_published := (dg_published e)\<lparr>pv_srv := False\<rparr>\<rparr>, add_issue (SrvIssue x) r, s)))"

definition publish_metadata :: "meta_codec \<Rightarrow> 's dns_ops option \<Rightarrow> string \<Rightarrow> ddns_engine \<times> ddns_round \<times> 's \<Rightarrow>
    ddns_engine \<times> ddns_round \<times> 's" where
  "publish_metadata J P pubkey = (\<lambda>(e, r, s).
     if \<not> dg_publish_txt e then (e, r, s)
     else case P of
       None \<Rightarrow> (e, add_issue (NoProvider RtTXT) r, s)
     | Some ops \<Rightarrow>
         (case txt_register J ops (dg_domain e) (dg_device_id e) (meta_new pubkey) (dg_ttl e) s of
            (Inr _, s) \<Rightarrow>
              (e\<lparr>dg_published := (dg_published e)\<lparr>pv_txt := True, pv_txt_fingerprint := Some (short_fingerprint pubkey)\<rparr>,
                 dg_last_txt_pubkey := Some pubkey\<rparr>, succeeded r, s)
          | (Inl x, s) \<Rightarrow> (e\<lparr>dg_published := (dg_published e)\<lparr>pv_txt := False\<rparr>\<rparr>, add_issue (TxtIssue x) r, s)))"

text \<open>
  One attempt to write an address: the round and the service after it, and whether the address was written. The
  sections for A and AAAA differ in the fields they keep.
\<close>

definition write_address :: "'s dns_ops option \<Rightarrow> ddns_world \<Rightarrow> ddns_engine \<Rightarrow> ip_addr \<Rightarrow> ip_addr option \<Rightarrow> ddns_round \<Rightarrow> 's \<Rightarrow>
    bool option \<times> ddns_round \<times> 's" where
  "write_address P w e ip written r s =
     (case P of
        None \<Rightarrow> (None, add_issue (NoProvider (ip_type ip)) r, s)
      | Some ops \<Rightarrow>
          (case reverse_check w (dg_device_id e @ ''.'' @ dg_domain e) (ip_type ip) (show_ip ip) (map_option show_ip written) of
             Inr True \<Rightarrow>
               (case addr_register ops (dg_domain e) (dg_device_id e) ip (dg_ttl e) s of
                  (Inr _, s) \<Rightarrow> (Some True, succeeded r, s)
                | (Inl x, s) \<Rightarrow> (Some False, add_issue (WriteIssue (ip_type ip) x) r, s))
           | Inr False \<Rightarrow> (None, add_issue (ReverseConflict (ip_type ip)) r, s)
           | Inl _ \<Rightarrow> (None, add_issue (ReverseFailed (ip_type ip)) r, s)))"

definition publish_v4 :: "'s dns_ops option \<Rightarrow> ddns_world \<Rightarrow> ip_addr option \<Rightarrow> ddns_engine \<times> ddns_round \<times> 's \<Rightarrow>
    ddns_engine \<times> ddns_round \<times> 's" where
  "publish_v4 P w v4 = (\<lambda>(e, r, s).
     if \<not> dg_publish_a e then (e, r, s)
     else case v4 of
       Some ip \<Rightarrow>
         if dg_last_v4 e = Some ip then (e, r, s)
         else (case write_address P w e ip (dg_written_v4 e) r s of
                 (res, r, s) \<Rightarrow>
                   (let e = (case res of
                               Some True \<Rightarrow> e\<lparr>dg_written_v4 := Some ip, dg_published := (dg_published e)\<lparr>pv_a := True\<rparr>\<rparr>
                             | Some False \<Rightarrow> e\<lparr>dg_published := (dg_published e)\<lparr>pv_a := False\<rparr>\<rparr>
                             | None \<Rightarrow> e)
                    in (e\<lparr>dg_last_v4 := Some ip, dg_v4_at := Some (dw_now w)\<rparr>, r, s)))
     | None \<Rightarrow>
         if dg_last_v4 e = None \<and> dg_v4_mode e = ManualAddr
         then (e, (add_issue (ManualMissing RtA) r)\<lparr>rn_hard := True\<rparr>, s)
         else (e, r, s))"

definition publish_v6 :: "'s dns_ops option \<Rightarrow> ddns_world \<Rightarrow> ip_addr option \<Rightarrow> ddns_engine \<times> ddns_round \<times> 's \<Rightarrow>
    ddns_engine \<times> ddns_round \<times> 's" where
  "publish_v6 P w v6 = (\<lambda>(e, r, s).
     if \<not> dg_publish_aaaa e then (e, r, s)
     else case v6 of
       Some ip \<Rightarrow>
         if dg_last_v6 e = Some ip then (e, r, s)
         else (case write_address P w e ip (dg_written_v6 e) r s of
                 (res, r, s) \<Rightarrow>
                   (let e = (case res of
                               Some True \<Rightarrow> e\<lparr>dg_written_v6 := Some ip, dg_published := (dg_published e)\<lparr>pv_aaaa := True\<rparr>\<rparr>
                             | Some False \<Rightarrow> e\<lparr>dg_published := (dg_published e)\<lparr>pv_aaaa := False\<rparr>\<rparr>
                             | None \<Rightarrow> e)
                    in (e\<lparr>dg_last_v6 := Some ip, dg_v6_at := Some (dw_now w)\<rparr>, r, s)))
     | None \<Rightarrow>
         if dg_last_v6 e = None \<and> dg_v6_mode e = ManualAddr
         then (e, (add_issue (ManualMissing RtAAAA) r)\<lparr>rn_hard := True\<rparr>, s)
         else (e, r, s))"

definition account_round :: "ddns_world \<Rightarrow> ddns_engine \<Rightarrow> ddns_round \<Rightarrow> (ddns_error + unit) \<times> ddns_engine" where
  "account_round w e r =
     (let e = (if rn_issues r = [] then e\<lparr>dg_failures := 0, dg_last_error := None, dg_last_update := Some (dw_now w)\<rparr>
               else let e = e\<lparr>dg_failures := dg_failures e + 1, dg_last_error := Some (rn_issues r)\<rparr>
                    in if FAILURE_PAUSE_THRESHOLD \<le> dg_failures e
                       then e\<lparr>dg_paused_until := Some (dw_mono w + FAILURE_PAUSE_DURATION)\<rparr> else e)
      in if rn_issues r = [] \<or> rn_succeeded r \<and> \<not> rn_hard r then (Inr (), e)
         else (Inl (DdnsPublish (rn_issues r)), e))"

definition names_ok :: "ddns_engine \<Rightarrow> bool" where
  "names_ok e \<longleftrightarrow> dns_validate_device_id (dg_device_id e) \<and> validate_hostname (dg_domain e)"

definition publish_once :: "meta_codec \<Rightarrow> 's dns_ops option \<Rightarrow> ddns_world \<Rightarrow> string \<Rightarrow> ddns_engine \<Rightarrow> 's \<Rightarrow>
    (ddns_error + unit) \<times> ddns_engine \<times> 's" where
  "publish_once J P w pubkey e s =
     (if \<not> names_ok e then
        (Inl (DdnsPublish [BadNames]), e\<lparr>dg_last_error := Some [BadNames], dg_failures := dg_failures e + 1\<rparr>, s)
      else let v4 = v4_of w e; v6 = v6_of w e;
               r = \<lparr>rn_issues = v4_issues w e, rn_succeeded = False, rn_hard = False\<rparr>
           in case publish_v6 P w v6 (publish_v4 P w v4 (publish_metadata J P pubkey (publish_service P (e, r, s)))) of
                (e, r, s) \<Rightarrow> (case account_round w e r of (x, e) \<Rightarrow> (x, e, s)))"

section \<open>The worker\<close>

definition paused :: "ddns_world \<Rightarrow> ddns_engine \<Rightarrow> bool" where
  "paused w e \<longleftrightarrow> (case dg_paused_until e of Some p \<Rightarrow> dw_mono w < p | None \<Rightarrow> False)"

definition ddns_tick :: "meta_codec \<Rightarrow> 's dns_ops option \<Rightarrow> ddns_world \<Rightarrow> string \<Rightarrow> ddns_engine \<Rightarrow> 's \<Rightarrow> ddns_engine \<times> 's" where
  "ddns_tick J P w pubkey e s = (if paused w e then (e, s) else snd (publish_once J P w pubkey e s))"

definition update_now :: "meta_codec \<Rightarrow> 's dns_ops option \<Rightarrow> ddns_world \<Rightarrow> string \<Rightarrow> ddns_engine \<Rightarrow> 's \<Rightarrow>
    (ddns_error + unit) \<times> ddns_engine \<times> 's" where
  "update_now J P w pubkey e s = publish_once J P w pubkey (e\<lparr>dg_failures := 0, dg_paused_until := None\<rparr>) s"

datatype ddns_event = Tick ddns_world | UpdateNow ddns_world

fun ddns_step :: "meta_codec \<Rightarrow> 's dns_ops option \<Rightarrow> string \<Rightarrow> ddns_event \<Rightarrow> ddns_engine \<times> 's \<Rightarrow> ddns_engine \<times> 's" where
  "ddns_step J P pubkey (Tick w) (e, s) = ddns_tick J P w pubkey e s"
| "ddns_step J P pubkey (UpdateNow w) (e, s) = snd (update_now J P w pubkey e s)"

text \<open>The task publishes once when it starts and then handles its events in turn.\<close>

definition worker_loop :: "meta_codec \<Rightarrow> 's dns_ops option \<Rightarrow> string \<Rightarrow> ddns_world \<Rightarrow> ddns_event list \<Rightarrow> ddns_engine \<Rightarrow> 's \<Rightarrow>
    ddns_engine \<times> 's" where
  "worker_loop J P pubkey w0 evs e s =
     fold (ddns_step J P pubkey) evs (snd (publish_once J P w0 pubkey e s))"

section \<open>What a round writes\<close>

text \<open>
  The address fields of the two families hold addresses of their family, as the types of the code demand.
\<close>

definition addrs_typed :: "ddns_world \<Rightarrow> ddns_engine \<Rightarrow> bool" where
  "addrs_typed w e \<longleftrightarrow> pred_option (\<lambda>ip. ip_type ip = RtA) (v4_of w e) \<and>
     pred_option (\<lambda>ip. ip_type ip = RtAAAA) (v6_of w e)"

text \<open>The part of the engine the service and metadata sections do not touch.\<close>

definition addr_view :: "ddns_engine \<Rightarrow> (string \<times> string \<times> bool \<times> bool) \<times> (ddns_mode \<times> ip_addr option \<times> ddns_mode \<times> ip_addr option) \<times>
    (ip_addr option \<times> ip_addr option \<times> ip_addr option \<times> ip_addr option) \<times> nat \<times> instant option" where
  "addr_view e =
     ((dg_domain e, dg_device_id e, dg_publish_a e, dg_publish_aaaa e),
      (dg_v4_mode e, dg_v4_manual e, dg_v6_mode e, dg_v6_manual e),
      (dg_last_v4 e, dg_last_v6 e, dg_written_v4 e, dg_written_v6 e), dg_failures e, dg_paused_until e)"

lemma service_view: "publish_service P (e, r, s) = (e', r', s') \<Longrightarrow> addr_view e' = addr_view e"
  by (auto simp: publish_service_def addr_view_def split: if_splits option.splits sum.splits prod.splits)

lemma metadata_view: "publish_metadata J P k (e, r, s) = (e', r', s') \<Longrightarrow> addr_view e' = addr_view e"
  by (auto simp: publish_metadata_def addr_view_def split: if_splits option.splits sum.splits prod.splits)

lemma srv_register_upsert:
  "srv_register ops d dev port target ttl s = (x, s') \<Longrightarrow>
     s' = s \<or> dns_upsert ops d (srv_record dev port target ttl) s = (x, s')"
  by (auto simp: srv_register_def split: if_splits sum.splits)

lemma txt_register_upsert:
  "txt_register J ops d dev m ttl s = (x, s') \<Longrightarrow> s' = s \<or> dns_upsert ops d (txt_record J dev m ttl) s = (x, s')"
  by (auto simp: txt_register_def split: if_splits sum.splits)

lemma addr_register_upsert:
  "addr_register ops d dev ip ttl s = (x, s') \<Longrightarrow> s' = s \<or> dns_upsert ops d (addr_record dev ip ttl) s = (x, s')"
  by (auto simp: addr_register_def split: if_splits)

context dns_service
begin

text \<open>Writing a record of one type leaves the records of the other types alone.\<close>

definition keeps_type :: "dns_type \<Rightarrow> 's \<Rightarrow> 's \<Rightarrow> bool" where
  "keeps_type t s s' \<longleftrightarrow> service_ok s' \<and> (\<forall>d n. held s' d n t = held s d n t)"

lemma keeps_type_refl: "service_ok s \<Longrightarrow> keeps_type t s s"
  by (simp add: keeps_type_def)

lemma keeps_type_trans: "keeps_type t s s' \<Longrightarrow> keeps_type t s' s'' \<Longrightarrow> keeps_type t s s''"
  by (simp add: keeps_type_def)

lemma upsert_keeps_type:
  assumes "service_ok s" and "dns_upsert ops d r s = (x, s')" and "dr_rtype r \<noteq> t"
  shows "keeps_type t s s'"
  using upsert_ok [OF assms(1,2)] upsert_other [OF assms(1,2)] assms(3) by (simp add: keeps_type_def)

lemma service_keeps:
  assumes "service_ok s" and "publish_service (Some ops) (e, r, s) = (e', r', s')" and "t \<noteq> RtSRV"
  shows "keeps_type t s s'"
proof -
  have "\<exists>x. s' = s \<or> dns_upsert ops (dg_domain e) (srv_record (dg_device_id e) (dg_port e)
      (dg_device_id e @ ''.'' @ dg_domain e @ ''.'') (dg_ttl e)) s = (x, s')"
    using assms(2) by (auto simp: publish_service_def split: if_splits sum.splits prod.splits dest!: srv_register_upsert)
  then show ?thesis
    using assms(3) keeps_type_refl [OF assms(1)] upsert_keeps_type [OF assms(1)] by (auto simp: srv_record_def)
qed

lemma metadata_keeps:
  assumes "service_ok s" and "publish_metadata J (Some ops) k (e, r, s) = (e', r', s')" and "t \<noteq> RtTXT"
  shows "keeps_type t s s'"
proof -
  have "\<exists>x. s' = s \<or> dns_upsert ops (dg_domain e) (txt_record J (dg_device_id e) (meta_new k) (dg_ttl e)) s = (x, s')"
    using assms(2) by (auto simp: publish_metadata_def split: if_splits sum.splits prod.splits dest!: txt_register_upsert)
  then show ?thesis
    using assms(3) keeps_type_refl [OF assms(1)] upsert_keeps_type [OF assms(1)] by (auto simp: txt_record_def)
qed

text \<open>An address is written only with the agreement of the check.\<close>

lemma write_keeps:
  assumes "service_ok s" and "write_address (Some ops) w e ip written r s = (res, r', s')"
  shows "t \<noteq> ip_type ip \<Longrightarrow> keeps_type t s s'"
    and "reverse_check w (dg_device_id e @ ''.'' @ dg_domain e) (ip_type ip) (show_ip ip) (map_option show_ip written) \<noteq> Inr True \<Longrightarrow>
      s' = s"
    and "service_ok s'"
    and "held s' d n t' \<noteq> held s d n t' \<Longrightarrow> d = dg_domain e \<and> n = dg_device_id e"
proof -
  have *: "\<exists>x. s' = s \<or> dns_upsert ops (dg_domain e) (addr_record (dg_device_id e) ip (dg_ttl e)) s = (x, s')"
    using assms(2) by (auto simp: write_address_def split: sum.splits bool.splits prod.splits dest!: addr_register_upsert)
  then show "t \<noteq> ip_type ip \<Longrightarrow> keeps_type t s s'"
    using keeps_type_refl [OF assms(1)] upsert_keeps_type [OF assms(1)] by (auto simp: addr_record_def)
  show "service_ok s'" using * upsert_ok [OF assms(1)] assms(1) by blast
  show "held s' d n t' \<noteq> held s d n t' \<Longrightarrow> d = dg_domain e \<and> n = dg_device_id e"
    using * held_changed [OF assms(1)] by (metis addr_record_sels(1))
next
  assume "reverse_check w (dg_device_id e @ ''.'' @ dg_domain e) (ip_type ip) (show_ip ip) (map_option show_ip written) \<noteq> Inr True"
  with assms(2) show "s' = s" by (auto simp: write_address_def split: sum.splits bool.splits)
qed

lemma v4_section:
  assumes "service_ok s" and "publish_v4 (Some ops) w v4 (e, r, s) = (e', r', s')" and "pred_option (\<lambda>ip. ip_type ip = RtA) v4"
  shows "t \<noteq> RtA \<Longrightarrow> keeps_type t s s'" and "service_ok s'"
    and "held s' d n RtA \<noteq> held s d n RtA \<Longrightarrow>
      d = dg_domain e \<and> n = dg_device_id e \<and> (\<exists>ip. v4 = Some ip \<and> dg_last_v4 e \<noteq> Some ip \<and>
        reverse_check w (n @ ''.'' @ d) RtA (show_ip ip) (map_option show_ip (dg_written_v4 e)) = Inr True)"
proof -
  have *: "s' = s \<or> (\<exists>ip res r'. v4 = Some ip \<and> dg_last_v4 e \<noteq> Some ip \<and>
      write_address (Some ops) w e ip (dg_written_v4 e) r s = (res, r', s'))"
    using assms(2) by (auto simp: publish_v4_def Let_def split: if_splits option.splits prod.splits)
  then show "service_ok s'" using assms(1) write_keeps(3) [OF assms(1)] by blast
  show "t \<noteq> RtA \<Longrightarrow> keeps_type t s s'"
    using * assms(3) keeps_type_refl [OF assms(1)] write_keeps(1) [OF assms(1)] by auto
  assume "held s' d n RtA \<noteq> held s d n RtA"
  with * obtain ip res r' where w: "v4 = Some ip" "dg_last_v4 e \<noteq> Some ip"
      "write_address (Some ops) w e ip (dg_written_v4 e) r s = (res, r', s')" "held s' d n RtA \<noteq> held s d n RtA"
    by blast
  with assms(3) write_keeps(2,4) [OF assms(1) w(3)]
  show "d = dg_domain e \<and> n = dg_device_id e \<and> (\<exists>ip. v4 = Some ip \<and> dg_last_v4 e \<noteq> Some ip \<and>
        reverse_check w (n @ ''.'' @ d) RtA (show_ip ip) (map_option show_ip (dg_written_v4 e)) = Inr True)"
    by (metis option.pred_inject(2))
qed

lemma v6_section:
  assumes "service_ok s" and "publish_v6 (Some ops) w v6 (e, r, s) = (e', r', s')" and "pred_option (\<lambda>ip. ip_type ip = RtAAAA) v6"
  shows "t \<noteq> RtAAAA \<Longrightarrow> keeps_type t s s'" and "service_ok s'"
    and "held s' d n RtAAAA \<noteq> held s d n RtAAAA \<Longrightarrow>
      d = dg_domain e \<and> n = dg_device_id e \<and> (\<exists>ip. v6 = Some ip \<and> dg_last_v6 e \<noteq> Some ip \<and>
        reverse_check w (n @ ''.'' @ d) RtAAAA (show_ip ip) (map_option show_ip (dg_written_v6 e)) = Inr True)"
proof -
  have *: "s' = s \<or> (\<exists>ip res r'. v6 = Some ip \<and> dg_last_v6 e \<noteq> Some ip \<and>
      write_address (Some ops) w e ip (dg_written_v6 e) r s = (res, r', s'))"
    using assms(2) by (auto simp: publish_v6_def Let_def split: if_splits option.splits prod.splits)
  then show "service_ok s'" using assms(1) write_keeps(3) [OF assms(1)] by blast
  show "t \<noteq> RtAAAA \<Longrightarrow> keeps_type t s s'"
    using * assms(3) keeps_type_refl [OF assms(1)] write_keeps(1) [OF assms(1)] by auto
  assume "held s' d n RtAAAA \<noteq> held s d n RtAAAA"
  with * obtain ip res r' where w: "v6 = Some ip" "dg_last_v6 e \<noteq> Some ip"
      "write_address (Some ops) w e ip (dg_written_v6 e) r s = (res, r', s')" "held s' d n RtAAAA \<noteq> held s d n RtAAAA"
    by blast
  with assms(3) write_keeps(2,4) [OF assms(1) w(3)]
  show "d = dg_domain e \<and> n = dg_device_id e \<and> (\<exists>ip. v6 = Some ip \<and> dg_last_v6 e \<noteq> Some ip \<and>
        reverse_check w (n @ ''.'' @ d) RtAAAA (show_ip ip) (map_option show_ip (dg_written_v6 e)) = Inr True)"
    by (metis option.pred_inject(2))
qed

text \<open>A round changes the records of an address type only through its section.\<close>

lemma round_writes:
  assumes "service_ok s" and "publish_once J (Some ops) w k e s = (x, e', s')" and "addrs_typed w e"
  shows "service_ok s'"
    and "held s' d n RtA \<noteq> held s d n RtA \<Longrightarrow>
      d = dg_domain e \<and> n = dg_device_id e \<and> (\<exists>ip. v4_of w e = Some ip \<and> dg_last_v4 e \<noteq> Some ip \<and>
        reverse_check w (n @ ''.'' @ d) RtA (show_ip ip) (map_option show_ip (dg_written_v4 e)) = Inr True)"
    and "held s' d n RtAAAA \<noteq> held s d n RtAAAA \<Longrightarrow>
      d = dg_domain e \<and> n = dg_device_id e \<and> (\<exists>ip. v6_of w e = Some ip \<and> dg_last_v6 e \<noteq> Some ip \<and>
        reverse_check w (n @ ''.'' @ d) RtAAAA (show_ip ip) (map_option show_ip (dg_written_v6 e)) = Inr True)"
proof -
  let ?r = "\<lparr>rn_issues = v4_issues w e, rn_succeeded = False, rn_hard = False\<rparr>"
  obtain e1 r1 s1 where 1: "publish_service (Some ops) (e, ?r, s) = (e1, r1, s1)" by (metis prod_cases3)
  obtain e2 r2 s2 where 2: "publish_metadata J (Some ops) k (e1, r1, s1) = (e2, r2, s2)" by (metis prod_cases3)
  obtain e3 r3 s3 where 3: "publish_v4 (Some ops) w (v4_of w e) (e2, r2, s2) = (e3, r3, s3)" by (metis prod_cases3)
  obtain e4 r4 s4 where 4: "publish_v6 (Some ops) w (v6_of w e) (e3, r3, s3) = (e4, r4, s4)" by (metis prod_cases3)
  note view = service_view [OF 1] metadata_view [OF 2]
  have view3: "dg_domain e3 = dg_domain e2 \<and> dg_device_id e3 = dg_device_id e2 \<and> dg_last_v6 e3 = dg_last_v6 e2 \<and>
      dg_written_v6 e3 = dg_written_v6 e2"
    using 3 by (auto simp: publish_v4_def Let_def split: if_splits option.splits prod.splits bool.splits)
  have typed: "pred_option (\<lambda>ip. ip_type ip = RtA) (v4_of w e)" "pred_option (\<lambda>ip. ip_type ip = RtAAAA) (v6_of w e)"
    using assms(3) by (simp_all add: addrs_typed_def)
  have k1: "keeps_type t s s1" if "t \<noteq> RtSRV" for t by (rule service_keeps [OF assms(1) 1 that])
  then have o1: "service_ok s1" by (metis keeps_type_def dns_type.distinct(9))
  have k2: "keeps_type t s1 s2" if "t \<noteq> RtTXT" for t by (rule metadata_keeps [OF o1 2 that])
  then have o2: "service_ok s2" by (metis keeps_type_def dns_type.distinct(7))
  note v4 = v4_section [OF o2 3 typed(1)]
  note v6 = v6_section [OF v4(2) 4 typed(2)]
  have s': "s' = s4 \<or> s' = s"
    using assms(2) by (auto simp: publish_once_def 1 2 3 4 Let_def split: if_splits prod.splits)
  with v6(2) assms(1) show "service_ok s'" by blast
  have pre: "held s2 d n t = held s d n t" if "t = RtA \<or> t = RtAAAA" for d n t
    using k1 [of t] k2 [of t] that by (auto simp: keeps_type_def)
  have A: "held s4 d n RtA = held s3 d n RtA" using v6(1) [of RtA] by (simp add: keeps_type_def)
  have AAAA: "held s3 d n RtAAAA = held s2 d n RtAAAA" using v4(1) [of RtAAAA] by (simp add: keeps_type_def)
  show "d = dg_domain e \<and> n = dg_device_id e \<and> (\<exists>ip. v4_of w e = Some ip \<and> dg_last_v4 e \<noteq> Some ip \<and>
        reverse_check w (n @ ''.'' @ d) RtA (show_ip ip) (map_option show_ip (dg_written_v4 e)) = Inr True)"
    if "held s' d n RtA \<noteq> held s d n RtA"
  proof -
    have "held s3 d n RtA \<noteq> held s2 d n RtA" using that s' A pre by auto
    with v4(3) view show ?thesis by (simp add: addr_view_def)
  qed
  show "d = dg_domain e \<and> n = dg_device_id e \<and> (\<exists>ip. v6_of w e = Some ip \<and> dg_last_v6 e \<noteq> Some ip \<and>
        reverse_check w (n @ ''.'' @ d) RtAAAA (show_ip ip) (map_option show_ip (dg_written_v6 e)) = Inr True)"
    if "held s' d n RtAAAA \<noteq> held s d n RtAAAA"
  proof -
    have "held s4 d n RtAAAA \<noteq> held s3 d n RtAAAA" using that s' AAAA pre by auto
    with v6(3) view view3 show ?thesis by (simp add: addr_view_def)
  qed
qed

end

text \<open>What a round does to the engine.\<close>

lemma account_round_fields:
  assumes "account_round w e r = (x, e')"
  shows "dg_domain e' = dg_domain e \<and> dg_device_id e' = dg_device_id e \<and> dg_v4_mode e' = dg_v4_mode e \<and>
      dg_v6_mode e' = dg_v6_mode e \<and> dg_v4_manual e' = dg_v4_manual e \<and> dg_v6_manual e' = dg_v6_manual e \<and>
      dg_last_v4 e' = dg_last_v4 e \<and> dg_publish_a e' = dg_publish_a e"
    and "dg_failures e' = (if rn_issues r = [] then 0 else dg_failures e + 1)"
    and "dg_last_error e' = (if rn_issues r = [] then None else Some (rn_issues r))"
    and "dg_paused_until e' = (if rn_issues r \<noteq> [] \<and> FAILURE_PAUSE_THRESHOLD \<le> dg_failures e + 1
           then Some (dw_mono w + FAILURE_PAUSE_DURATION) else dg_paused_until e)"
  using assms by (auto simp: account_round_def Let_def split: if_splits)

lemma round_engine:
  assumes "publish_once J P w k e s = (x, e', s')" and "names_ok e"
  shows "names_ok e'" and "dg_v4_mode e' = dg_v4_mode e" and "dg_v6_mode e' = dg_v6_mode e"
    and "dg_v4_manual e' = dg_v4_manual e" and "dg_v6_manual e' = dg_v6_manual e"
    and "dg_domain e' = dg_domain e" and "dg_device_id e' = dg_device_id e"
    and "dg_publish_a e' = dg_publish_a e"
    and "dg_last_v4 e' = (if dg_publish_a e \<and> v4_of w e \<noteq> None then v4_of w e else dg_last_v4 e)"
    and "dg_failures e' = (if dg_last_error e' = None then 0 else dg_failures e + 1)"
    and "dg_paused_until e' = (if dg_last_error e' \<noteq> None \<and> FAILURE_PAUSE_THRESHOLD \<le> dg_failures e + 1
           then Some (dw_mono w + FAILURE_PAUSE_DURATION) else dg_paused_until e)"
proof -
  let ?r = "\<lparr>rn_issues = v4_issues w e, rn_succeeded = False, rn_hard = False\<rparr>"
  obtain e1 r1 s1 where 1: "publish_service P (e, ?r, s) = (e1, r1, s1)" by (metis prod_cases3)
  obtain e2 r2 s2 where 2: "publish_metadata J P k (e1, r1, s1) = (e2, r2, s2)" by (metis prod_cases3)
  obtain e3 r3 s3 where 3: "publish_v4 P w (v4_of w e) (e2, r2, s2) = (e3, r3, s3)" by (metis prod_cases3)
  obtain e4 r4 s4 where 4: "publish_v6 P w (v6_of w e) (e3, r3, s3) = (e4, r4, s4)" by (metis prod_cases3)
  obtain y e5 where 5: "account_round w e4 r4 = (y, e5)" by (metis prod.exhaust)
  have e': "e' = e5" using assms by (simp add: publish_once_def 1 2 3 4 5 Let_def)
  have view: "addr_view e2 = addr_view e" using service_view [OF 1] metadata_view [OF 2] by simp
  have v4: "addr_view (e3\<lparr>dg_last_v4 := dg_last_v4 e2, dg_written_v4 := dg_written_v4 e2\<rparr>) = addr_view e2 \<and>
      dg_last_v4 e3 = (if dg_publish_a e2 \<and> v4_of w e \<noteq> None then v4_of w e else dg_last_v4 e2)"
    using 3 by (auto simp: publish_v4_def addr_view_def Let_def split: if_splits option.splits prod.splits bool.splits)
  have v6: "addr_view (e4\<lparr>dg_last_v6 := dg_last_v6 e3, dg_written_v6 := dg_written_v6 e3\<rparr>) = addr_view e3"
    using 4 by (auto simp: publish_v6_def addr_view_def Let_def split: if_splits option.splits prod.splits bool.splits)
  note acc = account_round_fields [OF 5] and all = view v4 v6
  show "dg_v4_mode e' = dg_v4_mode e" "dg_v6_mode e' = dg_v6_mode e"
      "dg_v4_manual e' = dg_v4_manual e" "dg_v6_manual e' = dg_v6_manual e"
      "dg_domain e' = dg_domain e" "dg_device_id e' = dg_device_id e"
      "dg_publish_a e' = dg_publish_a e" "dg_last_v4 e' = (if dg_publish_a e \<and> v4_of w e \<noteq> None then v4_of w e else dg_last_v4 e)"
    using acc(1) all by (auto simp: addr_view_def e')
  then show "names_ok e'" using assms(2) by (simp add: names_ok_def)
  have "dg_failures e4 = dg_failures e" "dg_paused_until e4 = dg_paused_until e" using all by (simp_all add: addr_view_def)
  with acc(2-4) show "dg_failures e' = (if dg_last_error e' = None then 0 else dg_failures e + 1)"
      "dg_paused_until e' = (if dg_last_error e' \<noteq> None \<and> FAILURE_PAUSE_THRESHOLD \<le> dg_failures e + 1
           then Some (dw_mono w + FAILURE_PAUSE_DURATION) else dg_paused_until e)"
    by (simp_all add: e')
qed

section \<open>What the service promises\<close>

definition addr_for :: "dns_type \<Rightarrow> ddns_world \<Rightarrow> ddns_engine \<Rightarrow> ip_addr option" where
  "addr_for t w e = (if t = RtA then v4_of w e else v6_of w e)"

definition written_for :: "dns_type \<Rightarrow> ddns_engine \<Rightarrow> ip_addr option" where
  "written_for t e = (if t = RtA then dg_written_v4 e else dg_written_v6 e)"

lemma reverse_check_passes:
  assumes "reverse_check w host t v written = Inr True"
  shows "\<exists>rs. dw_resolve w host t = Inr rs \<and>
    (rs = [] \<or> v \<in> set (plain_values rs) \<or> (\<exists>prev. written = Some prev \<and> prev \<in> set (plain_values rs)))"
  using assms by (auto simp: reverse_check_def Let_def split: sum.splits list.splits if_splits option.splits)

text \<open>
  C29. The published addresses of others are not overwritten. When a round changes the address records of a
  name, it is the name of this device, and the resolver had just answered that the name has no such record,
  or that it holds the address to be written, or the address this service wrote last; without an answer
  nothing is written.
\<close>
theorem foreign_address_kept:
  assumes "dns_service ops held ok" and "ok s" and "publish_once J (Some ops) w k e s = (x, e', s')"
    and "addrs_typed w e" and "t = RtA \<or> t = RtAAAA" and "held s' d n t \<noteq> held s d n t"
  shows "d = dg_domain e \<and> n = dg_device_id e \<and> (\<exists>ip rs. addr_for t w e = Some ip \<and>
    dw_resolve w (n @ ''.'' @ d) t = Inr rs \<and>
    (rs = [] \<or> show_ip ip \<in> set (plain_values rs) \<or>
     (\<exists>prev. written_for t e = Some prev \<and> show_ip prev \<in> set (plain_values rs))))"
proof -
  note writes = dns_service.round_writes [OF assms(1-4)]
  have "d = dg_domain e \<and> n = dg_device_id e \<and> (\<exists>ip. addr_for t w e = Some ip \<and>
      reverse_check w (n @ ''.'' @ d) t (show_ip ip) (map_option show_ip (written_for t e)) = Inr True)"
    using assms(5)
  proof
    assume "t = RtA"
    with writes(2) [of d n] assms(6) show ?thesis by (metis addr_for_def written_for_def)
  next
    assume "t = RtAAAA"
    with writes(3) [of d n] assms(6) show ?thesis by (metis addr_for_def written_for_def dns_type.distinct(1))
  qed
  then show ?thesis by (fastforce dest: reverse_check_passes)
qed

definition world_of :: "ddns_event \<Rightarrow> ddns_world" where
  "world_of ev = (case ev of Tick w \<Rightarrow> w | UpdateNow w \<Rightarrow> w)"

definition sees_address :: "ip_addr \<Rightarrow> ddns_world \<Rightarrow> bool" where
  "sees_address ip w \<longleftrightarrow> dw_public_ip w = Inr ip \<and> pred_option (\<lambda>ip. ip_type ip = RtAAAA) (dw_global_v6 w)"

text \<open>The address is noted as handled, so rounds that see it again do not write it.\<close>

definition noted :: "ip_addr \<Rightarrow> ddns_engine \<Rightarrow> bool" where
  "noted ip e \<longleftrightarrow> names_ok e \<and> dg_v4_mode e = AutoAddr \<and> dg_v6_mode e = AutoAddr \<and> dg_publish_a e \<and>
     dg_last_v4 e = Some ip"

lemma noted_round:
  assumes "dns_service ops held ok" and "ok s" and "publish_once J (Some ops) w k e s = (x, e', s')"
    and "noted ip e" and "sees_address ip w" and "ip_type ip = RtA"
  shows "ok s' \<and> noted ip e' \<and> held s' d n RtA = held s d n RtA"
proof -
  have v4: "v4_of w e = Some ip" and v6: "v6_of w e = dw_global_v6 w"
    using assms(4,5) by (simp_all add: noted_def sees_address_def v4_of_def v6_of_def)
  then have typed: "addrs_typed w e" using assms(5,6) by (simp add: addrs_typed_def sees_address_def)
  have "names_ok e" using assms(4) by (simp add: noted_def)
  note eng = round_engine [OF assms(3) this] and writes = dns_service.round_writes [OF assms(1-3) typed]
  have "noted ip e'" using eng v4 assms(4) by (simp add: noted_def)
  moreover have "held s' d n RtA = held s d n RtA"
    using writes(2) [of d n] v4 assms(4) by (auto simp: noted_def)
  ultimately show ?thesis using writes(1) by simp
qed

lemma noted_steps:
  assumes "dns_service ops held ok" and "ip_type ip = RtA"
  shows "ok s \<Longrightarrow> noted ip e \<Longrightarrow> \<forall>ev \<in> set evs. sees_address ip (world_of ev) \<Longrightarrow>
    held (snd (fold (ddns_step J (Some ops) k) evs (e, s))) d n RtA = held s d n RtA"
proof (induction evs arbitrary: e s)
  case (Cons ev evs)
  obtain e' s' where st: "ddns_step J (Some ops) k ev (e, s) = (e', s')" by (metis prod.exhaust)
  have "ok s' \<and> noted ip e' \<and> held s' d n RtA = held s d n RtA"
  proof (cases ev)
    case (Tick w)
    then have see: "sees_address ip w" using Cons.prems(3) by (simp add: world_of_def)
    obtain x e1 s1 where p: "publish_once J (Some ops) w k e s = (x, e1, s1)" by (metis prod_cases3)
    show ?thesis
      using noted_round [OF assms(1) Cons.prems(1) p Cons.prems(2) see assms(2), of d n] st Tick p Cons.prems(1,2)
      by (auto simp: ddns_tick_def split: if_splits)
  next
    case (UpdateNow w)
    then have see: "sees_address ip w" using Cons.prems(3) by (simp add: world_of_def)
    have noted: "noted ip (e\<lparr>dg_failures := 0, dg_paused_until := None\<rparr>)"
      using Cons.prems(2) by (simp add: noted_def names_ok_def)
    obtain x e1 s1 where p: "publish_once J (Some ops) w k (e\<lparr>dg_failures := 0, dg_paused_until := None\<rparr>) s = (x, e1, s1)"
      by (metis prod_cases3)
    show ?thesis
      using noted_round [OF assms(1) Cons.prems(1) p noted see assms(2), of d n] st UpdateNow p
      by (simp add: update_now_def)
  qed
  with Cons.IH [of s' e'] Cons.prems(3) st show ?case by simp
qed simp

text \<open>
  C30. An address whose write was refused is never written later. When the resolver gives no answer in the
  round that starts the service, the address record is left alone, as it should be; but the address is noted
  as published, so as long as the public address stays the same no later tick and no update on demand writes
  it.
\<close>
theorem failed_write_not_retried:
  assumes "dns_service ops held ok" and "ok s" and "names_ok e" and "dg_v4_mode e = AutoAddr" and "dg_v6_mode e = AutoAddr"
    and "dg_publish_a e" and "ip_type ip = RtA" and "sees_address ip w0" and "\<forall>ev \<in> set evs. sees_address ip (world_of ev)"
    and "dw_resolve w0 (dg_device_id e @ ''.'' @ dg_domain e) RtA = Inl m"
  shows "held (snd (worker_loop J (Some ops) k w0 evs e s)) (dg_domain e) (dg_device_id e) RtA =
    held s (dg_domain e) (dg_device_id e) RtA"
proof -
  obtain x e1 s1 where p: "publish_once J (Some ops) w0 k e s = (x, e1, s1)" by (metis prod_cases3)
  have v4: "v4_of w0 e = Some ip" and v6: "v6_of w0 e = dw_global_v6 w0"
    using assms(4,5,8) by (simp_all add: sees_address_def v4_of_def v6_of_def)
  then have typed: "addrs_typed w0 e" using assms(7,8) by (simp add: addrs_typed_def sees_address_def)
  note eng = round_engine [OF p assms(3)] and writes = dns_service.round_writes [OF assms(1,2) p typed]
  have n: "noted ip e1" using eng v4 assms(4-6) by (simp add: noted_def)
  have "held s1 (dg_domain e) (dg_device_id e) RtA = held s (dg_domain e) (dg_device_id e) RtA"
    using writes(2) [of "dg_domain e" "dg_device_id e"] assms(10) by (auto simp: reverse_check_def)
  with noted_steps [OF assms(1,7) writes(1) n assms(9)] show ?thesis by (simp add: worker_loop_def p)
qed

text \<open>
  C31. Three rounds with an issue in a row suspend the automatic updates of a device whose identifier and
  domain are valid names, counted from no failures and no pause. Each round with an issue counts,
  whatever else it published; the third one sets a pause of thirty minutes in which a tick changes
  nothing. (With invalid names every round has an issue and none ever sets the pause.)
\<close>
theorem three_failures_pause:
  assumes "names_ok e" and "dg_failures e = 0" and "dg_paused_until e = None"
    and "publish_once J P w1 k e s = (x1, e1, s1)" and "dg_last_error e1 \<noteq> None"
    and "publish_once J P w2 k e1 s1 = (x2, e2, s2)" and "dg_last_error e2 \<noteq> None"
    and "publish_once J P w3 k e2 s2 = (x3, e3, s3)" and "dg_last_error e3 \<noteq> None"
  shows "\<not> paused w e1 \<and> \<not> paused w e2 \<and> dg_paused_until e3 = Some (dw_mono w3 + secs 1800) \<and>
    (dw_mono w < dw_mono w3 + secs 1800 \<longrightarrow> ddns_tick J P w k e3 s3 = (e3, s3))"
proof -
  note r1 = round_engine [OF assms(4,1)]
  note r2 = round_engine [OF assms(6) r1(1)]
  note r3 = round_engine [OF assms(8) r2(1)]
  have "dg_paused_until e1 = None" "dg_paused_until e2 = None" "dg_paused_until e3 = Some (dw_mono w3 + secs 1800)"
    using r1(10,11) r2(10,11) r3(10,11) assms(2,3,5,7,9)
    by (simp_all add: FAILURE_PAUSE_THRESHOLD_def FAILURE_PAUSE_DURATION_def)
  then show ?thesis by (simp add: paused_def ddns_tick_def)
qed

text \<open>
  A device with names that cannot be published is never paused. Every round stops before it calls the
  service and counts as a failure, but the count does not suspend the updates.
\<close>
theorem invalid_names_never_pause:
  assumes "\<not> names_ok e" and "dg_paused_until e = None"
  shows "case fold (ddns_step J P k) evs (e, s) of (e', s') \<Rightarrow> s' = s \<and> dg_paused_until e' = None \<and>
    (evs \<noteq> [] \<longrightarrow> 0 < dg_failures e' \<and> dg_last_error e' = Some [BadNames])"
proof -
  have step: "\<exists>e'. ddns_step J P k ev (e, s) = (e', s) \<and> \<not> names_ok e' \<and> dg_paused_until e' = None \<and>
      0 < dg_failures e' \<and> dg_last_error e' = Some [BadNames]"
    if "\<not> names_ok e" "dg_paused_until e = None" for ev e
    using that by (cases ev) (auto simp: ddns_tick_def update_now_def publish_once_def paused_def names_ok_def)
  have "\<exists>e'. fold (ddns_step J P k) evs (e, s) = (e', s) \<and> \<not> names_ok e' \<and> dg_paused_until e' = None \<and>
      (evs \<noteq> [] \<longrightarrow> 0 < dg_failures e' \<and> dg_last_error e' = Some [BadNames])"
  proof (induction evs rule: rev_induct)
    case (snoc ev evs)
    then obtain e' where "fold (ddns_step J P k) evs (e, s) = (e', s)" "\<not> names_ok e'" "dg_paused_until e' = None" by blast
    with step [of e' ev] show ?case by auto
  qed (simp add: assms)
  then show ?thesis by auto
qed

section \<open>A device with dynamic addresses\<close>

definition demo_engine :: "string \<Rightarrow> ddns_engine" where
  "demo_engine dev = engine_new ''a.b'' dev 7 60 AutoAddr None AutoAddr None (False, False, True, False)"

definition demo_dns_world :: "nat \<Rightarrow> (string + dns_record list) \<Rightarrow> ddns_world" where
  "demo_dns_world n answer = \<lparr>dw_now = n, dw_mono = n, dw_public_ip = Inr (V4 1 2 3 4), dw_global_v6 = None,
     dw_resolve = (\<lambda>_ _. answer)\<rparr>"

lemma demo_sees: "sees_address (V4 1 2 3 4) (demo_dns_world n a)"
  by (simp add: sees_address_def demo_dns_world_def)

lemma demo_engine_simps:
  "dg_v4_mode (demo_engine dev) = AutoAddr" "dg_v6_mode (demo_engine dev) = AutoAddr" "dg_publish_a (demo_engine dev)"
  "dg_failures (demo_engine dev) = 0" "dg_paused_until (demo_engine dev) = None"
  by (simp_all add: demo_engine_def engine_new_def)

theorem foreign_address_kept_witness:
  "\<exists>e' s'. publish_once demo_codec (Some mock_ops) (demo_dns_world 5 (Inr [])) ''k'' (demo_engine ''d'') mock_new =
     (Inr (), e', s') \<and> addr_for RtA (demo_dns_world 5 (Inr [])) (demo_engine ''d'') = Some (V4 1 2 3 4)"
proof -
  let ?w = "demo_dns_world 5 (Inr [])" and ?e = "demo_engine ''d''"
  obtain x e' s' where p: "publish_once demo_codec (Some mock_ops) ?w ''k'' ?e mock_new = (x, e', s')" by (metis prod_cases3)
  have x: "fst (publish_once demo_codec (Some mock_ops) ?w ''k'' ?e mock_new) = Inr ()" by code_simp
  have "mock_list (snd (snd (publish_once demo_codec (Some mock_ops) ?w ''k'' ?e mock_new))) ''a.b'' RtA ''d'' \<noteq> []"
    by code_simp
  then have "mock_held s' ''a.b'' ''d'' RtA \<noteq> mock_held mock_new ''a.b'' ''d'' RtA"
    by (simp add: p mock_held_new) (simp add: mock_held_def)
  moreover have "addrs_typed ?w ?e"
    by (simp add: addrs_typed_def v4_of_def v6_of_def demo_engine_simps demo_dns_world_def ip_type_def)
  ultimately have "\<exists>ip. addr_for RtA ?w ?e = Some ip"
    using foreign_address_kept [OF mock.dns_service_axioms mock_ok_new p] by blast
  then have "addr_for RtA ?w ?e = Some (V4 1 2 3 4)"
    by (simp add: addr_for_def v4_of_def demo_engine_simps demo_dns_world_def)
  with x p show ?thesis by auto
qed

theorem failed_write_not_retried_witness:
  "mock_held (snd (worker_loop demo_codec (Some mock_ops) ''k'' (demo_dns_world 0 (Inl ''timeout''))
     [Tick (demo_dns_world 5 (Inr [])), UpdateNow (demo_dns_world 6 (Inr []))] (demo_engine ''d'') mock_new)) ''a.b'' ''d'' RtA = {}"
proof -
  have "names_ok (demo_engine ''d'')" by code_simp
  moreover have "dg_domain (demo_engine ''d'') = ''a.b''" "dg_device_id (demo_engine ''d'') = ''d''"
    by (simp_all add: demo_engine_def engine_new_def)
  ultimately show ?thesis
    using failed_write_not_retried [OF mock.dns_service_axioms mock_ok_new, of "demo_engine ''d''" "V4 1 2 3 4"
        "demo_dns_world 0 (Inl ''timeout'')" "[Tick (demo_dns_world 5 (Inr [])), UpdateNow (demo_dns_world 6 (Inr []))]"
        "''timeout''" demo_codec "''k''"]
    by (simp add: demo_engine_simps demo_sees world_of_def mock_held_new ip_type_def) (simp add: demo_dns_world_def)
qed

text \<open>Without a provider every round has an issue.\<close>

definition demo_round :: "nat \<Rightarrow> ddns_engine \<Rightarrow> ddns_engine" where
  "demo_round n e = fst (snd (publish_once demo_codec None (demo_dns_world n (Inr [])) ''k'' e ()))"

lemma demo_round_eq:
  "publish_once demo_codec None (demo_dns_world n (Inr [])) ''k'' e () =
     (fst (publish_once demo_codec None (demo_dns_world n (Inr [])) ''k'' e ()), demo_round n e, ())"
  by (simp add: demo_round_def prod_eq_iff)

definition demo_srv_engine :: ddns_engine where
  "demo_srv_engine = engine_new ''a.b'' ''d'' 7 60 AutoAddr None AutoAddr None (True, False, False, False)"

lemma demo_round_issue:
  assumes "names_ok e" and "dg_publish_srv e \<and> \<not> dg_publish_txt e \<and> \<not> dg_publish_a e \<and> \<not> dg_publish_aaaa e"
  shows "dg_last_error (demo_round n e) \<noteq> None" and "names_ok (demo_round n e)"
    and "dg_publish_srv (demo_round n e) \<and> \<not> dg_publish_txt (demo_round n e) \<and> \<not> dg_publish_a (demo_round n e) \<and>
      \<not> dg_publish_aaaa (demo_round n e)"
  using assms by (simp_all add: demo_round_def publish_once_def publish_service_def publish_metadata_def publish_v4_def
      publish_v6_def account_round_def add_issue_def names_ok_def Let_def)

theorem three_failures_pause_witness:
  "dg_paused_until (demo_round 3 (demo_round 2 (demo_round 1 demo_srv_engine))) = Some (3 + secs 1800)"
proof -
  have n: "names_ok demo_srv_engine" by code_simp
  have e: "dg_publish_srv demo_srv_engine \<and> \<not> dg_publish_txt demo_srv_engine \<and> \<not> dg_publish_a demo_srv_engine \<and>
      \<not> dg_publish_aaaa demo_srv_engine" "dg_failures demo_srv_engine = 0" "dg_paused_until demo_srv_engine = None"
    by (simp_all add: demo_srv_engine_def engine_new_def)
  note r1 = demo_round_issue [OF n e(1)]
  note r2 = demo_round_issue [OF r1(2,3)]
  note r3 = demo_round_issue [OF r2(2,3)]
  from three_failures_pause [OF n e(2,3) demo_round_eq r1(1) demo_round_eq r2(1) demo_round_eq r3(1)]
  show ?thesis by (simp add: demo_dns_world_def)
qed

theorem invalid_names_never_pause_witness:
  "case fold (ddns_step demo_codec (Some mock_ops) ''k'')
     [Tick (demo_dns_world 5 (Inr [])), UpdateNow (demo_dns_world 6 (Inr []))] (demo_engine ''d.'', mock_new) of
     (e', s') \<Rightarrow> s' = mock_new \<and> dg_paused_until e' = None \<and> dg_last_error e' = Some [BadNames]"
proof -
  have "\<not> names_ok (demo_engine ''d.'')" by code_simp
  from invalid_names_never_pause [OF this, where J = demo_codec and P = "Some mock_ops" and k = "''k''" and s = mock_new and
      evs = "[Tick (demo_dns_world 5 (Inr [])), UpdateNow (demo_dns_world 6 (Inr []))]"]
  show ?thesis by (simp add: demo_engine_simps case_prod_beta del: fold_simps)
qed

end
