(* ===== verification/Server_Policy.thy ===== *)
theory Server_Policy
  imports Core_Handshake_Facts Device_Ids Dns_Records
begin

text \<open>
  The admission policy of the servers, \<^verbatim>\<open>ui/src/policy.rs\<close>: which key is expected of a client, who may go on
  to the check of the handshake, what a refused client is told, and when the temporary window is used up.
  It composes the handshake of the core with the trust store, the device's names and the metadata records.
  The codecs the machine can encode, the provider the configuration names and the identifier of the system
  are parameters.
\<close>

section \<open>The key expected of a client\<close>

datatype client_key_resolution = FromKnownHosts | FromDnsTxt | UnknownKey

text \<open>\<open>pc_provider\<close> is what \<^verbatim>\<open>default_provider\<close> makes of the configuration, if it can.\<close>

record 's policy_cfg =
  pc_enforce :: bool
  pc_dns_provider :: string
  pc_domain :: string
  pc_provider :: "'s dns_ops option"
  pc_tunnel_device_id :: "string option"
  pc_device_id :: string

definition resolve_expected_client_key :: "meta_codec \<Rightarrow> clients_store \<Rightarrow> 's policy_cfg \<Rightarrow> string \<Rightarrow> 's \<Rightarrow>
    string option \<times> client_key_resolution" where
  "resolve_expected_client_key J known cfg client_id s =
     (case kc_lookup known client_id of
        Some kc \<Rightarrow> (Some (kc_public_key kc), FromKnownHosts)
      | None \<Rightarrow>
          if pc_dns_provider cfg \<noteq> ''godaddy'' \<or> trim (pc_domain cfg) = [] then (None, UnknownKey)
          else case pc_provider cfg of
            None \<Rightarrow> (None, UnknownKey)
          | Some ops \<Rightarrow>
              (case txt_query J ops (trim (pc_domain cfg)) client_id s of
                 Inl _ \<Rightarrow> (None, UnknownKey)
               | Inr meta \<Rightarrow>
                   (case raw_public_key meta of
                      Some key \<Rightarrow> (Some key, FromDnsTxt)
                    | None \<Rightarrow> (None, UnknownKey))))"

text \<open>The manager of the window, if one can be had and is active.\<close>

definition temp_mode_window_manager :: "bool \<Rightarrow> clock \<Rightarrow> temp_sys option \<Rightarrow> temp_sys option" where
  "temp_mode_window_manager rm ck mgr =
     (case mgr of
        None \<Rightarrow> None
      | Some w \<Rightarrow> (case is_active rm ck w of (active, w) \<Rightarrow> if active then Some w else None))"

definition temp_mode_window_active :: "bool \<Rightarrow> clock \<Rightarrow> temp_sys option \<Rightarrow> bool" where
  "temp_mode_window_active rm ck mgr = (case mgr of None \<Rightarrow> False | Some w \<Rightarrow> fst (is_active rm ck w))"

definition response_signature_bind_id :: "string option \<Rightarrow> string \<Rightarrow> string option \<Rightarrow> string \<Rightarrow> string \<Rightarrow> string option" where
  "response_signature_bind_id system client_domain explicit_tunnel_device_id config_device_id nickname =
     (if client_domain = [] then registration_device_id system explicit_tunnel_device_id config_device_id
      else Some nickname)"

section \<open>Admission\<close>

definition GUI_CLIENT_DOMAIN_MAGIC :: string where "GUI_CLIENT_DOMAIN_MAGIC = ''gui-client.local''"

record policy_params =
  pp_identity :: bytes
  pp_server_id :: string
  pp_allowed_domains :: "string list"
  pp_allowed_ids :: "string list"
  pp_temp_mode :: bool
  pp_unattended :: bool
  pp_has_window :: bool
  pp_nickname :: "string option"
  pp_challenge :: "string option"

text \<open>
  What surrounds a connection: the crates, whether state files can be removed, the clocks when the round is
  decided on and when the answer is checked, the random bytes, the machine and the stores.
\<close>

record 's policy_env =
  pe_crypto :: crypto
  pe_codec :: hs_codec
  pe_net :: net
  pe_meta :: meta_codec
  pe_rm :: bool
  pe_ask_clock :: clock
  pe_check_clock :: clock
  pe_chal_nonce :: bytes
  pe_random :: bytes
  pe_system_id :: "string option"
  pe_os :: string
  pe_caps :: "string list"
  pe_known :: clients_store
  pe_cfg :: "'s policy_cfg"
  pe_dns :: 's

definition policy_whitelisted :: "policy_params \<Rightarrow> handshake_init \<Rightarrow> bool" where
  "policy_whitelisted p init \<longleftrightarrow>
     hi_client_domain init \<noteq> GUI_CLIENT_DOMAIN_MAGIC \<and>
       list_ex (domain_matches_whitelist (hi_client_domain init)) (pp_allowed_domains p) \<or>
     hi_client_domain init = [] \<and> list_ex (id_matches_whitelist (hi_client_id init)) (pp_allowed_ids p)"

text \<open>A refusal: the code and the detail sent, and the text of the decision.\<close>

definition policy_admission :: "'s policy_env \<Rightarrow> policy_params \<Rightarrow> handshake_init \<Rightarrow> (string \<times> string \<times> string) option" where
  "policy_admission E p init =
     (case id_whitelist_enforce_violation (pc_enforce (pe_cfg E)) (pp_temp_mode p \<or> pp_has_window p)
             (hi_client_domain init) (hi_client_id init) (pp_allowed_ids p) of
        Some denied_id \<Rightarrow> Some (REJECT_CODE_ID_WHITELIST, denied_id, denied_id)
      | None \<Rightarrow>
          if pp_unattended p then
            if \<not> policy_whitelisted p init \<and> kc_lookup (pe_known E) (hi_client_id init) = None
            then Some (REJECT_CODE_UNATTENDED_UNKNOWN, hi_client_id init,
                   ''unattended: client '' @ quoted (hi_client_id init) @
                   '' unknown (whitelist or known_clients required)'')
            else None
          else if \<not> pp_temp_mode p \<and> \<not> pp_has_window p \<and> \<not> policy_whitelisted p init
          then Some (REJECT_CODE_APPROVAL_DECLINED, hi_client_id init, whitelist_rejected_text init)
          else None)"

definition expected_key :: "'s policy_env \<Rightarrow> handshake_init \<Rightarrow> string option" where
  "expected_key E init = fst (resolve_expected_client_key (pe_meta E) (pe_known E) (pe_cfg E) (hi_client_id init) (pe_dns E))"

definition key_or_empty :: "string option \<Rightarrow> string" where
  "key_or_empty k = (case k of Some k \<Rightarrow> k | None \<Rightarrow> [])"

definition policy_credentials :: "'s policy_env \<Rightarrow> policy_params \<Rightarrow> handshake_init \<Rightarrow> (string \<times> string \<times> string) option" where
  "policy_credentials E p init =
     (if expected_key E init = None \<and> \<not> (case pp_challenge p of None \<Rightarrow> False | Some c \<Rightarrow> c \<noteq> []) \<and> \<not> pp_has_window p
      then Some (REJECT_CODE_CREDENTIALS_REQUIRED, hi_client_id init,
             ''no credentials: client '' @ quoted (hi_client_id init) @
             '' is unknown (no pinned key), and server has no challenge code and no temp window '' @
             map char_of [0xE2, 0x80, 0x94 :: nat] @ '' zero-credential connection rejected (F-1)'')
      else None)"

definition refuse :: "'s policy_env \<Rightarrow> string \<times> string \<times> string \<Rightarrow> verified_decision hs" where
  "refuse E = (\<lambda>(code, detail, text).
     hbind (send_handshake_reject (pe_codec E) (pe_net E) code detail) (\<lambda>_. hret (DecisionRejected text)))"

text \<open>An error of \<open>m\<close> is reported to the client when it has a code, and stands.\<close>

definition reporting :: "'s policy_env \<Rightarrow> string \<Rightarrow> (hs_error \<Rightarrow> string option) \<Rightarrow> 'a hs \<Rightarrow> 'a hs" where
  "reporting E detail code m = (\<lambda>io.
     case m io of
       (Inr x, io) \<Rightarrow> (Inr x, io)
     | (Inl e, io) \<Rightarrow>
         (case code e of
            None \<Rightarrow> (Inl e, io)
          | Some c \<Rightarrow> (Inl e, snd (send_handshake_reject (pe_codec E) (pe_net E) c detail io))))"

definition policy_challenge :: "'s policy_env \<Rightarrow> policy_params \<Rightarrow> handshake_init \<Rightarrow> challenge_answer option hs" where
  "policy_challenge E p init =
     reporting E (hi_client_id init) (\<lambda>_. Some REJECT_CODE_CHALLENGE_MISMATCH)
       (maybe_challenge (pe_codec E) (pe_net E) (pe_rm E) (pe_ask_clock E) (pe_chal_nonce E)
          (key_or_empty (expected_key E init)) (pp_challenge p) (pp_has_window p) init)"

definition policy_check :: "'s policy_env \<Rightarrow> policy_params \<Rightarrow> handshake_init \<Rightarrow> challenge_answer option \<Rightarrow> unit hs" where
  "policy_check E p init answer =
     reporting E (hi_client_id init) handshake_error_reject_code
       (check_init (pe_crypto E) (pe_rm E) (pe_check_clock E) init (key_or_empty (expected_key E init))
          (pp_nickname p) (pp_challenge p) (pp_has_window p) answer)"

definition policy_consume :: "'s policy_env \<Rightarrow> policy_params \<Rightarrow> unit hs" where
  "policy_consume E p = (\<lambda>io.
     (Inr (), if pp_challenge p = None \<and> pp_has_window p
              then io\<lparr>hio_window := map_option (\<lambda>w. snd (consume (pe_rm E) w)) (hio_window io)\<rparr> else io))"

definition policy_respond :: "'s policy_env \<Rightarrow> policy_params \<Rightarrow> handshake_init \<Rightarrow> verified_decision hs" where
  "policy_respond E p init =
     (let selected_codec = negotiate_codec_by_server_priority (pe_caps E) (hi_supported_codecs init)
      in case response_signature_bind_id (pe_system_id E) (hi_client_domain init)
                (pc_tunnel_device_id (pe_cfg E)) (pc_device_id (pe_cfg E)) (pp_server_id p) of
           None \<Rightarrow> hthrow HsNever
         | Some bind_id \<Rightarrow>
             hbind (server_respond (pe_crypto E) (pe_codec E) (pe_net E) (pp_identity p) bind_id (pe_os E) (pe_random E)
                      init selected_codec)
               (\<lambda>ch. hret (AcceptedEx ch (hi_proto_ver init))))"

definition server_accept_handshake_ex :: "'s policy_env \<Rightarrow> policy_params \<Rightarrow> verified_decision hs" where
  "server_accept_handshake_ex E p =
     hbind (server_read_init (pe_codec E)) (\<lambda>init.
     hbind (reject_if_client_too_new (pe_codec E) (pe_net E) init) (\<lambda>too_new.
     if too_new then hret (DecisionRejected (version_rejected_text init))
     else case policy_admission E p init of
       Some refusal \<Rightarrow> refuse E refusal
     | None \<Rightarrow>
         (case policy_credentials E p init of
            Some refusal \<Rightarrow> refuse E refusal
          | None \<Rightarrow>
              hbind (policy_challenge E p init) (\<lambda>answer.
              hbind (policy_check E p init answer) (\<lambda>_.
              hbind (policy_consume E p) (\<lambda>_.
              policy_respond E p init))))))"

definition server_accept_handshake :: "'s policy_env \<Rightarrow> policy_params \<Rightarrow> verified_decision hs" where
  "server_accept_handshake E p =
     hbind (server_accept_handshake_ex E p) (\<lambda>d.
     hret (case d of AcceptedEx ch _ \<Rightarrow> Accepted ch | other \<Rightarrow> other))"

text \<open>After a handshake the client's record is touched, and saved: \<open>None\<close> when there is nothing to save.\<close>

definition record_successful_handshake :: "nat \<Rightarrow> string \<Rightarrow> clients_store \<Rightarrow> clients_store option" where
  "record_successful_handshake now client_id known =
     (if kc_lookup known client_id \<noteq> None then Some (kc_touch now client_id known) else None)"

section \<open>Runs\<close>

lemma reporting_Inr [simp]: "reporting E d c m io = (Inr x, io') \<longleftrightarrow> m io = (Inr x, io')"
  by (auto simp: reporting_def split: prod.splits sum.splits option.splits)

lemma send_reject_eq:
  "send_handshake_reject B net code detail io = (Inr (), io') \<Longrightarrow>
     hio_reads io' = hio_reads io \<and> hio_window io' = hio_window io \<and>
     (hio_sent io' = hio_sent io \<or>
      (\<exists>m. ser_reject B \<lparr>hj_code = code, hj_detail = detail\<rparr> = Inr m \<and> hio_sent io' = hio_sent io @ [m]))"
  by (auto simp: send_handshake_reject_def hsend_def split: sum.splits option.splits)

lemma send_reject_run: "\<exists>io'. send_handshake_reject B net code detail io = (Inr (), io')"
  by (simp add: send_handshake_reject_def)

lemma too_new_Inr:
  "reject_if_client_too_new B net init io = (Inr b, io1) \<Longrightarrow>
     b = (hi_proto_ver init \<noteq> PROTOCOL_VERSION) \<and> hio_reads io1 = hio_reads io \<and> hio_window io1 = hio_window io \<and>
     (\<not> b \<longrightarrow> io1 = io)"
  by (auto simp: reject_if_client_too_new_def client_version_too_new_def server_version_gate_def hbind_Inr
      dest!: send_reject_eq split: if_splits)

text \<open>The run of a connection that is accepted.\<close>

lemma accepted_run:
  assumes "server_accept_handshake_ex E p io = (Inr (AcceptedEx ch ver), io')"
  shows "\<exists>d rs init bind_id ans io1 io2 io3.
    hio_reads io = Message d # rs \<and> parse_handshake_init (pe_codec E) d = Inr init \<and> ver = hi_proto_ver init \<and>
    hi_proto_ver init = PROTOCOL_VERSION \<and> policy_admission E p init = None \<and> policy_credentials E p init = None \<and>
    io1 = io\<lparr>hio_reads := rs\<rparr> \<and>
    maybe_challenge (pe_codec E) (pe_net E) (pe_rm E) (pe_ask_clock E) (pe_chal_nonce E)
      (key_or_empty (expected_key E init)) (pp_challenge p) (pp_has_window p) init io1 = (Inr ans, io2) \<and>
    check_init (pe_crypto E) (pe_rm E) (pe_check_clock E) init (key_or_empty (expected_key E init))
      (pp_nickname p) (pp_challenge p) (pp_has_window p) ans io2 = (Inr (), io3) \<and>
    response_signature_bind_id (pe_system_id E) (hi_client_domain init) (pc_tunnel_device_id (pe_cfg E))
      (pc_device_id (pe_cfg E)) (pp_server_id p) = Some bind_id \<and>
    server_respond (pe_crypto E) (pe_codec E) (pe_net E) (pp_identity p) bind_id (pe_os E) (pe_random E) init
      (negotiate_codec_by_server_priority (pe_caps E) (hi_supported_codecs init)) (snd (policy_consume E p io3)) = (Inr ch, io')"
proof -
  obtain init io1 b io2 where r: "server_read_init (pe_codec E) io = (Inr init, io1)"
      and t: "reject_if_client_too_new (pe_codec E) (pe_net E) init io1 = (Inr b, io2)"
      and run: "(if b then hret (DecisionRejected (version_rejected_text init))
       else case policy_admission E p init of
         Some refusal \<Rightarrow> refuse E refusal
       | None \<Rightarrow> (case policy_credentials E p init of
            Some refusal \<Rightarrow> refuse E refusal
          | None \<Rightarrow> hbind (policy_challenge E p init) (\<lambda>answer. hbind (policy_check E p init answer) (\<lambda>_.
              hbind (policy_consume E p) (\<lambda>_. policy_respond E p init))))) io2 = (Inr (AcceptedEx ch ver), io')"
    using assms unfolding server_accept_handshake_ex_def hbind_Inr by blast
  note t' = too_new_Inr [OF t]
  have nb: "\<not> b" using run by auto
  then have io2: "io2 = io1" and v: "hi_proto_ver init = PROTOCOL_VERSION" using t' by auto
  have refused: "refuse E x io2 \<noteq> (Inr (AcceptedEx ch ver), io')" for x
    by (auto simp: refuse_def hbind_Inr split: prod.splits)
  have a: "policy_admission E p init = None" using run nb refused by (auto split: option.splits)
  have c: "policy_credentials E p init = None" using run nb refused a by (auto split: option.splits)
  from r obtain d rs where d: "hio_reads io = Message d # rs" "parse_handshake_init (pe_codec E) d = Inr init"
      "io1 = io\<lparr>hio_reads := rs\<rparr>"
    by (auto simp: server_read_init_def hs_Inr)
  from run nb a c obtain ans io3 io4 where
      m: "maybe_challenge (pe_codec E) (pe_net E) (pe_rm E) (pe_ask_clock E) (pe_chal_nonce E)
        (key_or_empty (expected_key E init)) (pp_challenge p) (pp_has_window p) init io1 = (Inr ans, io3)"
      and k: "check_init (pe_crypto E) (pe_rm E) (pe_check_clock E) init (key_or_empty (expected_key E init))
        (pp_nickname p) (pp_challenge p) (pp_has_window p) ans io3 = (Inr (), io4)"
      and f: "policy_respond E p init (snd (policy_consume E p io4)) = (Inr (AcceptedEx ch ver), io')"
    by (auto simp: hbind_Inr policy_challenge_def policy_check_def policy_consume_def io2)
  from f obtain bind_id where "response_signature_bind_id (pe_system_id E) (hi_client_domain init)
        (pc_tunnel_device_id (pe_cfg E)) (pc_device_id (pe_cfg E)) (pp_server_id p) = Some bind_id"
      and "ver = hi_proto_ver init"
      and "server_respond (pe_crypto E) (pe_codec E) (pe_net E) (pp_identity p) bind_id (pe_os E) (pe_random E) init
        (negotiate_codec_by_server_priority (pe_caps E) (hi_supported_codecs init)) (snd (policy_consume E p io4)) = (Inr ch, io')"
    by (auto simp: policy_respond_def hbind_Inr Let_def split: option.splits)
  with d v a c m k show ?thesis by blast
qed

section \<open>Who is admitted\<close>

text \<open>The window when the answer to the challenge is checked.\<close>

definition window_at_check :: "'s policy_env \<Rightarrow> policy_params \<Rightarrow> handshake_init \<Rightarrow> hs_io \<Rightarrow> temp_sys option" where
  "window_at_check E p init io =
     (if pp_has_window p
      then snd (challenge_round_required (pe_rm E) (pe_ask_clock E) (key_or_empty (expected_key E init))
                  (hi_client_ed25519_pub_base64 init) (pp_challenge p) (hio_window io))
      else None)"

lemma maybe_challenge_window:
  assumes "maybe_challenge B net rm ck n key chal hw init io = (Inr ans, io1)"
  shows "hio_window io1 = (if hw then snd (challenge_round_required rm ck key (hi_client_ed25519_pub_base64 init) chal (hio_window io))
    else hio_window io)"
  using assms
  by (auto simp: maybe_challenge_def Let_def hbind_Inr split: prod.splits if_splits dest!: server_challenge_round_Inr)

lemma known_key: "kc_lookup (pe_known E) (hi_client_id init) = Some kc \<Longrightarrow> expected_key E init = Some (kc_public_key kc)"
  by (simp add: expected_key_def resolve_expected_client_key_def)

lemma admission_None:
  assumes "policy_admission E p init = None"
  shows "if pp_unattended p then policy_whitelisted p init \<or> kc_lookup (pe_known E) (hi_client_id init) \<noteq> None
      else pp_temp_mode p \<or> pp_has_window p \<or> policy_whitelisted p init"
    and "pc_enforce (pe_cfg E) \<Longrightarrow> \<not> pp_temp_mode p \<Longrightarrow> \<not> pp_has_window p \<Longrightarrow> hi_client_domain init = [] \<Longrightarrow>
      list_ex (id_matches_whitelist (hi_client_id init)) (pp_allowed_ids p)"
  using assms
  by (auto simp: policy_admission_def id_whitelist_enforce_violation_def id_whitelist_enforce_check_def
      split: option.splits if_splits sum.splits)

text \<open>
  C33. A server that applies the policy accepts only clients it may. The client speaks exactly this version
  and has signed its first message with the key it declares. Unattended, it is on a whitelist or known;
  attended, it is on a whitelist unless the temporary mode or window is on. A client that names no
  domain is on the enforced list of identifiers, if there is one and neither the temporary mode nor a
  window is on; the code does not hold a client that names a domain, whatever it is, to that list. A
  client whose key is known has used that key. One without a known or published key has answered this
  connection's challenge, over its own key and nonce, with the fixed code or that of the open window.
\<close>
theorem policy_admits:
  assumes "server_accept_handshake_ex E p io = (Inr (AcceptedEx ch ver), io')"
  shows "\<exists>d rs init k. hio_reads io = Message d # rs \<and> parse_handshake_init (pe_codec E) d = Inr init \<and>
    sc_peer_id ch = hi_client_id init \<and> ver = hi_proto_ver init \<and> ver = 4 \<and>
    parse_public_key (pe_crypto E) (hi_client_ed25519_pub_base64 init) = Inr k \<and>
    cy_verify (pe_crypto E) k (init_sig_payload init) (hi_signature init) \<and>
    (if pp_unattended p then policy_whitelisted p init \<or> kc_lookup (pe_known E) (hi_client_id init) \<noteq> None
     else pp_temp_mode p \<or> pp_has_window p \<or> policy_whitelisted p init) \<and>
    (pc_enforce (pe_cfg E) \<and> \<not> pp_temp_mode p \<and> \<not> pp_has_window p \<and> hi_client_domain init = [] \<longrightarrow>
       list_ex (id_matches_whitelist (hi_client_id init)) (pp_allowed_ids p)) \<and>
    (\<forall>kc. kc_lookup (pe_known E) (hi_client_id init) = Some kc \<and> kc_public_key kc \<noteq> [] \<longrightarrow>
       hi_client_ed25519_pub_base64 init = kc_public_key kc) \<and>
    (if key_or_empty (expected_key E init) \<noteq> []
     then hi_client_ed25519_pub_base64 init = key_or_empty (expected_key E init)
     else \<exists>d' rs' resp. rs = Message d' # rs' \<and> de_challenge_resp (pe_codec E) d' = Inr resp \<and>
       answered (pe_crypto E) (pe_rm E) (pe_check_clock E) init (pp_challenge p) (window_at_check E p init io)
         \<lparr>ca_nonce = pe_chal_nonce E, ca_response = hcr_response resp\<rparr>)"
proof -
  obtain d rs init bind_id ans io1 io2 io3 where
    d: "hio_reads io = Message d # rs" "parse_handshake_init (pe_codec E) d = Inr init" and ver: "ver = hi_proto_ver init"
      "hi_proto_ver init = PROTOCOL_VERSION" and adm: "policy_admission E p init = None" and
    io1: "io1 = io\<lparr>hio_reads := rs\<rparr>" and
    m: "maybe_challenge (pe_codec E) (pe_net E) (pe_rm E) (pe_ask_clock E) (pe_chal_nonce E)
      (key_or_empty (expected_key E init)) (pp_challenge p) (pp_has_window p) init io1 = (Inr ans, io2)" and
    c: "check_init (pe_crypto E) (pe_rm E) (pe_check_clock E) init (key_or_empty (expected_key E init))
      (pp_nickname p) (pp_challenge p) (pp_has_window p) ans io2 = (Inr (), io3)" and
    r: "server_respond (pe_crypto E) (pe_codec E) (pe_net E) (pp_identity p) bind_id (pe_os E) (pe_random E) init
      (negotiate_codec_by_server_priority (pe_caps E) (hi_supported_codecs init)) (snd (policy_consume E p io3)) = (Inr ch, io')"
    using accepted_run [OF assms] by metis
  have w: "(if pp_has_window p then hio_window io2 else None) = window_at_check E p init io"
    using maybe_challenge_window [OF m] by (simp add: window_at_check_def io1)
  from check_init_Inr [OF c] obtain w' where
    "verify_server_init_inner (pe_crypto E) (pe_rm E) (pe_check_clock E) init (key_or_empty (expected_key E init))
      (pp_nickname p) (pp_challenge p) (window_at_check E p init io) False ans = (Inr (), w')"
    by (auto simp: w)
  note v = verify_inner_Inr [OF this]
  obtain k where k: "parse_public_key (pe_crypto E) (hi_client_ed25519_pub_base64 init) = Inr k"
      "cy_verify (pe_crypto E) k (init_sig_payload init) (hi_signature init)"
    using v by (auto simp: verify_signature_Inr)
  have known: "hi_client_ed25519_pub_base64 init = kc_public_key kc"
    if "kc_lookup (pe_known E) (hi_client_id init) = Some kc" "kc_public_key kc \<noteq> []" for kc
    using v known_key [OF that(1)] that(2) by (simp add: key_or_empty_def)
  have chal: "\<exists>d' rs' resp. rs = Message d' # rs' \<and> de_challenge_resp (pe_codec E) d' = Inr resp \<and>
       answered (pe_crypto E) (pe_rm E) (pe_check_clock E) init (pp_challenge p) (window_at_check E p init io)
         \<lparr>ca_nonce = pe_chal_nonce E, ca_response = hcr_response resp\<rparr>"
    if "key_or_empty (expected_key E init) = []"
  proof -
    from v that obtain a where a: "ans = Some a"
      "answered (pe_crypto E) (pe_rm E) (pe_check_clock E) init (pp_challenge p) (window_at_check E p init io) a" by blast
    with maybe_challenge_Inr [OF m] have "challenge_taken (pe_codec E) (pe_chal_nonce E) a io1 io2" by simp
    with a(2) show ?thesis by (cases a) (auto simp: challenge_taken_def io1)
  qed
  have peer: "sc_peer_id ch = hi_client_id init" using server_respond_Inr [OF r] by auto
  show ?thesis
    using d ver k peer v known chal admission_None [OF adm]
    by (intro exI [of _ d] exI [of _ rs] exI [of _ init] exI [of _ k]) (auto simp: PROTOCOL_VERSION_def)
qed

text \<open>
  A client the policy refuses learns nothing but the refusal. The server has read one message and sent at
  most one, which is a refusal with one of five codes: no key of the server, no signature, no challenge. The
  temporary window is as it was.
\<close>
theorem policy_refusal_silent:
  assumes "server_accept_handshake_ex E p io = (Inr (DecisionRejected reason), io')"
  shows "hio_window io' = hio_window io \<and> (\<exists>d. hio_reads io = Message d # hio_reads io') \<and>
    (hio_sent io' = hio_sent io \<or>
     (\<exists>code detail m. ser_reject (pe_codec E) \<lparr>hj_code = code, hj_detail = detail\<rparr> = Inr m \<and> hio_sent io' = hio_sent io @ [m] \<and>
        code \<in> {REJECT_CODE_VERSION_MISMATCH, REJECT_CODE_ID_WHITELIST, REJECT_CODE_UNATTENDED_UNKNOWN,
          REJECT_CODE_APPROVAL_DECLINED, REJECT_CODE_CREDENTIALS_REQUIRED}))"
proof -
  obtain init io1 b io2 where r: "server_read_init (pe_codec E) io = (Inr init, io1)"
      and t: "reject_if_client_too_new (pe_codec E) (pe_net E) init io1 = (Inr b, io2)"
      and run: "(if b then hret (DecisionRejected (version_rejected_text init))
       else case policy_admission E p init of
         Some refusal \<Rightarrow> refuse E refusal
       | None \<Rightarrow> (case policy_credentials E p init of
            Some refusal \<Rightarrow> refuse E refusal
          | None \<Rightarrow> hbind (policy_challenge E p init) (\<lambda>answer. hbind (policy_check E p init answer) (\<lambda>_.
              hbind (policy_consume E p) (\<lambda>_. policy_respond E p init))))) io2 = (Inr (DecisionRejected reason), io')"
    using assms unfolding server_accept_handshake_ex_def hbind_Inr by blast
  let ?codes = "{REJECT_CODE_VERSION_MISMATCH, REJECT_CODE_ID_WHITELIST, REJECT_CODE_UNATTENDED_UNKNOWN,
          REJECT_CODE_APPROVAL_DECLINED, REJECT_CODE_CREDENTIALS_REQUIRED}"
  let ?told = "\<lambda>s s'. hio_reads s' = hio_reads s \<and> hio_window s' = hio_window s \<and> (hio_sent s' = hio_sent s \<or>
     (\<exists>code detail m. ser_reject (pe_codec E) \<lparr>hj_code = code, hj_detail = detail\<rparr> = Inr m \<and> hio_sent s' = hio_sent s @ [m] \<and>
        code \<in> ?codes))"
  have told: "?told io1 io'"
  proof (cases b)
    case True
    then have "io' = io2" using run by simp
    moreover have "?told io1 io2"
      using t by (auto simp: reject_if_client_too_new_def hbind_Inr dest!: send_reject_eq split: if_splits)
    ultimately show ?thesis by simp
  next
    case False
    then have io2: "io2 = io1" using too_new_Inr [OF t] by simp
    have no: "hbind (policy_challenge E p init) (\<lambda>answer. hbind (policy_check E p init answer) (\<lambda>_.
        hbind (policy_consume E p) (\<lambda>_. policy_respond E p init))) io2 \<noteq> (Inr (DecisionRejected reason), io')"
      by (auto simp: hbind_Inr policy_respond_def Let_def split: option.splits)
    obtain x where x: "policy_admission E p init = Some x \<or> policy_credentials E p init = Some x"
        and f: "refuse E x io2 = (Inr (DecisionRejected reason), io')"
      using run False no by (auto split: option.splits)
    have "fst x \<in> ?codes"
      using x by (auto simp: policy_admission_def policy_credentials_def split: option.splits if_splits)
    with f show ?thesis by (auto simp: refuse_def hbind_Inr io2 dest!: send_reject_eq split: prod.splits)
  qed
  from r have "\<exists>d. hio_reads io = Message d # hio_reads io1" "hio_window io1 = hio_window io" "hio_sent io1 = hio_sent io"
    by (auto simp: server_read_init_def hs_Inr)
  with told show ?thesis by simp
qed

lemma respond_window: "server_respond C B net sk sid os random init codec io = (Inr ch, io') \<Longrightarrow> hio_window io' = hio_window io"
  by (auto simp: server_respond_def hs_Inr Let_def split: sum.splits)

lemma check_init_window:
  "check_init C rm ck init key nick chal hw answer io = (r, io1) \<Longrightarrow> hio_window io \<noteq> None \<Longrightarrow> hio_window io1 \<noteq> None"
  by (auto simp: check_init_def verify_server_init_inner_def window_active_def window_answered_def Let_def
      split: prod.splits if_splits option.splits)

lemma round_required_window: "snd (challenge_round_required rm ck key pub chal (Some w)) \<noteq> None"
  by (auto simp: challenge_round_required_def split: prod.splits if_splits option.splits)

lemma removed_inactive: "ts_file w = NoFile \<Longrightarrow> \<not> fst (is_active rm ck w)"
  by (simp add: is_active_def reap_expired_def read_state_file_def Let_def)

text \<open>
  C34. A window ends with the client it lets in. When a server without a fixed code accepts a connection while
  it has a window, and the window's state file can be removed, the window is closed afterwards: at no
  clock is it active again and no later connection is offered it. This is so for every accepted client,
  also one that was let in by its known key and never gave the code. It is about connections one after
  the other; one that has passed its check before the window is consumed is let in as well. (The code
  ignores a removal that fails, and the window then stays.)
\<close>
theorem window_admits_once:
  assumes "server_accept_handshake_ex E p io = (Inr (AcceptedEx ch ver), io')"
    and "pp_challenge p = None" and "pp_has_window p" and "hio_window io = Some w" and "pe_rm E"
  shows "\<exists>w'. hio_window io' = Some w' \<and> (\<forall>rm ck. \<not> fst (is_active rm ck w') \<and>
    temp_mode_window_manager rm ck (Some w') = None)"
proof -
  obtain rs init bind_id ans io1 io2 io3 where
    io1: "io1 = io\<lparr>hio_reads := rs\<rparr>" and
    m: "maybe_challenge (pe_codec E) (pe_net E) (pe_rm E) (pe_ask_clock E) (pe_chal_nonce E)
      (key_or_empty (expected_key E init)) (pp_challenge p) (pp_has_window p) init io1 = (Inr ans, io2)" and
    c: "check_init (pe_crypto E) (pe_rm E) (pe_check_clock E) init (key_or_empty (expected_key E init))
      (pp_nickname p) (pp_challenge p) (pp_has_window p) ans io2 = (Inr (), io3)" and
    r: "server_respond (pe_crypto E) (pe_codec E) (pe_net E) (pp_identity p) bind_id (pe_os E) (pe_random E) init
      (negotiate_codec_by_server_priority (pe_caps E) (hi_supported_codecs init)) (snd (policy_consume E p io3)) = (Inr ch, io')"
    using accepted_run [OF assms(1)] by metis
  have "hio_window io2 \<noteq> None"
    using maybe_challenge_window [OF m] assms(3,4) round_required_window by (simp add: io1)
  then obtain w3 where "hio_window io3 = Some w3" using check_init_window [OF c] by blast
  then have w: "hio_window io' = Some (snd (consume True w3))"
    using respond_window [OF r] assms(2,3,5) by (simp add: policy_consume_def)
  have "ts_file (snd (consume True w3)) = NoFile" by (simp add: consume_def remove_ignoring_def)
  note off = removed_inactive [OF this]
  then have "temp_mode_window_manager rm ck (Some (snd (consume True w3))) = None" for rm ck
    by (simp add: temp_mode_window_manager_def split: prod.split) (metis fst_conv)
  with w off show ?thesis by blast
qed

text \<open>The run of a known client with an unattended server.\<close>

lemma known_client_run:
  assumes "hio_reads io = Message d # rs" and "parse_handshake_init (pe_codec E) d = Inr init"
    and "hi_proto_ver init = PROTOCOL_VERSION" and "pp_unattended p" and "\<not> pc_enforce (pe_cfg E)" 
    and "\<forall>n. pp_nickname p = Some n \<longrightarrow> n = [] \<or> n = hi_client_id init"
    and "kc_lookup (pe_known E) (hi_client_id init) = Some kc" and "kc_public_key kc = hi_client_ed25519_pub_base64 init"
    and "kc_public_key kc \<noteq> []" and "verify_signature (pe_crypto E) init = Inr ()"
    and "\<forall>sent. pe_net E sent = None" and "\<forall>r. \<exists>m. ser_response (pe_codec E) r = Inr m"
    and "parse_x25519_key (hi_client_x25519_pub init) = Inr (hi_client_x25519_pub init)"
    and "\<not> all_zero (cy_x25519 (pe_crypto E) (clamp (pe_random E)) (hi_client_x25519_pub init))"
    and "response_signature_bind_id (pe_system_id E) (hi_client_domain init) (pc_tunnel_device_id (pe_cfg E))
      (pc_device_id (pe_cfg E)) (pp_server_id p) = Some bind_id"
  shows "\<exists>ch io'. server_accept_handshake_ex E p io = (Inr (AcceptedEx ch 4), io') \<and> sc_peer_id ch = hi_client_id init \<and>
    hio_reads io' = rs \<and> length (hio_sent io') = length (hio_sent io) + 1"
proof -
  let ?key = "hi_client_ed25519_pub_base64 init"
  have key: "expected_key E init = Some ?key" "?key \<noteq> []" using known_key [OF assms(7)] assms(8,9) by simp_all
  have adm: "policy_admission E p init = None"
    using assms(4,5,7) by (simp add: policy_admission_def id_whitelist_enforce_violation_def)
  have cred: "policy_credentials E p init = None" by (simp add: policy_credentials_def key)
  define io1 where "io1 = io\<lparr>hio_reads := rs\<rparr>"
  obtain io2 where ch: "policy_challenge E p init io1 = (Inr None, io2)" and sent2: "hio_sent io2 = hio_sent io1" "hio_reads io2 = hio_reads io1"
    using key(2) by (auto simp: policy_challenge_def reporting_def maybe_challenge_def challenge_round_required_def
        key_or_empty_def key Let_def)
  obtain act w where "window_active (pe_rm E) (pe_check_clock E) (if pp_has_window p then hio_window io2 else None) = (act, w)"
    by (metis prod.exhaust)
  then have ck: "policy_check E p init None io2 = (Inr (), if pp_has_window p then io2\<lparr>hio_window := w\<rparr> else io2)"
    using key(2) assms(6,10)
    by (cases "pp_nickname p") (auto simp: policy_check_def reporting_def check_init_def verify_server_init_inner_def key_or_empty_def key Let_def)
  define io3 where "io3 = (if pp_has_window p then io2\<lparr>hio_window := w\<rparr> else io2)"
  note ck = ck [folded io3_def]
  have sent3: "hio_sent io3 = hio_sent io2" "hio_reads io3 = hio_reads io2" by (simp_all add: io3_def)
  obtain io4 where co: "policy_consume E p io3 = (Inr (), io4)" and sent4: "hio_sent io4 = hio_sent io3" "hio_reads io4 = hio_reads io3"
    by (auto simp: policy_consume_def)
  let ?codec = "negotiate_codec_by_server_priority (pe_caps E) (hi_supported_codecs init)"
  obtain m where m: "ser_response (pe_codec E) (server_response (pe_crypto E) (pp_identity p) bind_id (pe_os E)
      (ephemeral_new (pe_crypto E) (pe_random E)) init ?codec) = Inr m" using assms(12) by blast
  obtain ch where re: "policy_respond E p init io4 = (Inr (AcceptedEx ch PROTOCOL_VERSION), io4\<lparr>hio_sent := hio_sent io4 @ [m]\<rparr>)"
      and peer: "sc_peer_id ch = hi_client_id init"
    using assms(3,11,13,14,15) m
    by (auto simp: policy_respond_def server_respond_def hbind_def hserialize_def hlift_def hsend_def hret_def
        compute_session_key_def diffie_hellman_bytes_def ephemeral_new_def Let_def)
  have "server_read_init (pe_codec E) io = (Inr init, io1)"
    using assms(1,2) by (simp add: server_read_init_def hbind_def hreceive_def hlift_def io1_def)
  moreover have "reject_if_client_too_new (pe_codec E) (pe_net E) init io1 = (Inr False, io1)"
    using assms(3) by (simp add: reject_if_client_too_new_def client_version_too_new_def server_version_gate_def hret_def)
  ultimately have "server_accept_handshake_ex E p io =
      (Inr (AcceptedEx ch PROTOCOL_VERSION), io4\<lparr>hio_sent := hio_sent io4 @ [m]\<rparr>)"
    using adm cred ch ck co re by (simp add: server_accept_handshake_ex_def hbind_def)
  with peer sent2 sent3 sent4 show ?thesis by (auto simp: io1_def PROTOCOL_VERSION_def)
qed

text \<open>
  C35. An unattended server lets a known client in. The list of identifiers is not enforced, and the server has
  no nickname configured or it is the client's identifier. The client speaks this version, is in the
  trust store, and its first message, signed with its recorded key, has an ephemeral key that the code
  accepts and that gives a shared secret other than zero; the identifier the response is bound to can
  be derived, the response serializes and the network reports no error. Then the client is accepted
  without a challenge, whatever window is open, and the server sends exactly one message, its response.
\<close>
theorem known_client_admitted:
  assumes "hio_reads io = Message d # rs" and "parse_handshake_init (pe_codec E) d = Inr init"
    and "hi_proto_ver init = PROTOCOL_VERSION" and "pp_unattended p" and "\<not> pc_enforce (pe_cfg E)" 
    and "\<forall>n. pp_nickname p = Some n \<longrightarrow> n = [] \<or> n = hi_client_id init"
    and "kc_lookup (pe_known E) (hi_client_id init) = Some kc" and "kc_public_key kc = hi_client_ed25519_pub_base64 init"
    and "kc_public_key kc \<noteq> []" and "verify_signature (pe_crypto E) init = Inr ()"
    and "\<forall>sent. pe_net E sent = None" and "\<forall>r. \<exists>m. ser_response (pe_codec E) r = Inr m"
    and "parse_x25519_key (hi_client_x25519_pub init) = Inr (hi_client_x25519_pub init)"
    and "\<not> all_zero (cy_x25519 (pe_crypto E) (clamp (pe_random E)) (hi_client_x25519_pub init))"
    and "response_signature_bind_id (pe_system_id E) (hi_client_domain init) (pc_tunnel_device_id (pe_cfg E))
      (pc_device_id (pe_cfg E)) (pp_server_id p) = Some bind_id"
  shows "\<exists>ch io'. server_accept_handshake_ex E p io = (Inr (AcceptedEx ch 4), io') \<and> sc_peer_id ch = hi_client_id init \<and>
    length (hio_sent io') = length (hio_sent io) + 1"
  using known_client_run [OF assms] by blast

section \<open>A run of the policy\<close>

definition demo_cfg_policy :: "mock_state policy_cfg" where
  "demo_cfg_policy = \<lparr>pc_enforce = False, pc_dns_provider = [], pc_domain = [], pc_provider = None,
     pc_tunnel_device_id = Some ''s'', pc_device_id = []\<rparr>"

definition demo_env_policy :: "mock_state policy_env" where
  "demo_env_policy = \<lparr>pe_crypto = demo_cy, pe_codec = demo_bincode, pe_net = (\<lambda>_. None), pe_meta = demo_codec, pe_rm = True,
     pe_ask_clock = \<lparr>ck_wall = 1100, ck_mono = 0\<rparr>, pe_check_clock = \<lparr>ck_wall = 1100, ck_mono = 1\<rparr>,
     pe_chal_nonce = [6], pe_random = demo_rand, pe_system_id = None, pe_os = [], pe_caps = [''h264''],
     pe_known = [\<lparr>kc_device_id = ''c'', kc_public_key = public_key_base64 demo_cy [7], kc_fingerprint = [],
       kc_first_seen = 0, kc_last_seen = 0\<rparr>], pe_cfg = demo_cfg_policy, pe_dns = mock_new\<rparr>"

definition demo_params :: "bool \<Rightarrow> policy_params" where
  "demo_params unattended = \<lparr>pp_identity = [9], pp_server_id = ''n'', pp_allowed_domains = [], pp_allowed_ids = [],
     pp_temp_mode = False, pp_unattended = unattended, pp_has_window = True, pp_nickname = None, pp_challenge = None\<rparr>"

definition demo_conn :: hs_io where
  "demo_conn = \<lparr>hio_reads = [Message [1]], hio_sent = [], hio_window = Some demo_window\<rparr>"

lemma demo_first_fields:
  "parse_handshake_init demo_bincode [1] = Inr demo_first" "hi_client_id demo_first = ''c''" "hi_client_domain demo_first = []"
  "hi_client_ed25519_pub_base64 demo_first = public_key_base64 demo_cy [7]" "hi_client_x25519_pub demo_first = demo_pub"
  "hi_proto_ver demo_first = PROTOCOL_VERSION" "verify_signature demo_cy demo_first = Inr ()"
  by (simp_all add: parse_handshake_init_def demo_bincode_def demo_first_def client_init_def demo_ephemeral verify_signature_def
      init_sig_payload_def libs_agreeD [OF demo_libs]) (simp_all add: demo_cc_def)

lemma demo_env_simps [simp]:
  "pe_crypto demo_env_policy = demo_cy" "pe_codec demo_env_policy = demo_bincode" "pe_net demo_env_policy = (\<lambda>_. None)"
  "pe_rm demo_env_policy" "pe_random demo_env_policy = demo_rand" "pe_cfg demo_env_policy = demo_cfg_policy"
  "kc_lookup (pe_known demo_env_policy) ''c'' = Some \<lparr>kc_device_id = ''c'', kc_public_key = public_key_base64 demo_cy [7],
     kc_fingerprint = [], kc_first_seen = 0, kc_last_seen = 0\<rparr>"
  by (simp_all add: demo_env_policy_def kc_lookup_def)

lemma demo_params_simps [simp]:
  "pp_unattended (demo_params u) = u" "pp_nickname (demo_params u) = None" "pp_challenge (demo_params u) = None"
  "pp_has_window (demo_params u)"
  by (simp_all add: demo_params_def)

lemma demo_key_nonempty: "public_key_base64 demo_cy [7] \<noteq> []"
  by (simp add: public_key_base64_def demo_cy_def)

lemma demo_bind:
  "response_signature_bind_id x [] (pc_tunnel_device_id demo_cfg_policy) (pc_device_id demo_cfg_policy) y = Some ''s''"
  by (simp add: response_signature_bind_id_def demo_cfg_policy_def registration_device_id_def trim_def is_white_def)

lemma demo_conn_facts:
  "hio_reads demo_conn = Message [1] # []" "\<not> pc_enforce (pe_cfg demo_env_policy)" "hio_sent demo_conn = []"
  "hio_window demo_conn = Some demo_window" "\<forall>r. \<exists>m. ser_response demo_bincode r = Inr m"
  by (simp_all add: demo_conn_def demo_cfg_policy_def demo_bincode_def)

theorem known_client_admitted_witness:
  "\<exists>ch io'. server_accept_handshake_ex demo_env_policy (demo_params True) demo_conn = (Inr (AcceptedEx ch 4), io') \<and>
     sc_peer_id ch = ''c'' \<and> length (hio_sent io') = 1"
  using known_client_admitted [of demo_conn "[1]" "[]" demo_env_policy demo_first "demo_params True" _ "''s''"] demo_conn_facts
  by (simp add: demo_first_fields demo_key_nonempty demo_pub_ok demo_shared demo_bind)

lemma demo_admitted:
  "\<exists>ch io'. server_accept_handshake_ex demo_env_policy (demo_params True) demo_conn = (Inr (AcceptedEx ch 4), io')"
  using known_client_run [of demo_conn "[1]" "[]" demo_env_policy demo_first "demo_params True" _ "''s''"] demo_conn_facts
  by (auto simp: demo_first_fields demo_key_nonempty demo_pub_ok demo_shared demo_bind)

theorem policy_admits_witness:
  "\<exists>ch io' k. server_accept_handshake_ex demo_env_policy (demo_params True) demo_conn = (Inr (AcceptedEx ch 4), io') \<and>
     parse_public_key demo_cy (public_key_base64 demo_cy [7]) = Inr k \<and> sc_peer_id ch = ''c''"
proof -
  obtain ch io' where run: "server_accept_handshake_ex demo_env_policy (demo_params True) demo_conn = (Inr (AcceptedEx ch 4), io')"
    using demo_admitted by blast
  from policy_admits [OF run] demo_conn_facts(1) run show ?thesis by (auto simp: demo_first_fields)
qed

theorem window_admits_once_witness:
  "fst (is_active True \<lparr>ck_wall = 1100, ck_mono = 0\<rparr> demo_window) \<and>
   (\<exists>ch io' w'. server_accept_handshake_ex demo_env_policy (demo_params True) demo_conn = (Inr (AcceptedEx ch 4), io') \<and>
     hio_window io' = Some w' \<and> \<not> fst (is_active True \<lparr>ck_wall = 1100, ck_mono = 0\<rparr> w'))"
proof -
  obtain ch io' where run: "server_accept_handshake_ex demo_env_policy (demo_params True) demo_conn = (Inr (AcceptedEx ch 4), io')"
    using demo_admitted by blast
  from window_admits_once [OF run, where w = demo_window] demo_conn_facts run demo_window_active show ?thesis by force
qed

text \<open>The same client, known to nobody, at an unattended server.\<close>

theorem policy_refusal_silent_witness:
  "\<exists>reason io'. server_accept_handshake_ex (demo_env_policy\<lparr>pe_known := []\<rparr>) (demo_params True) demo_conn =
     (Inr (DecisionRejected reason), io') \<and> hio_window io' = Some demo_window"
proof -
  let ?E = "demo_env_policy\<lparr>pe_known := []\<rparr>"
  have "policy_admission ?E (demo_params True) demo_first \<noteq> None"
    by (simp add: policy_admission_def id_whitelist_enforce_violation_def demo_cfg_policy_def policy_whitelisted_def
        demo_params_def kc_lookup_def)
  then obtain x where "policy_admission ?E (demo_params True) demo_first = Some x" by blast
  moreover have "server_read_init demo_bincode demo_conn = (Inr demo_first, demo_conn\<lparr>hio_reads := []\<rparr>)"
    by (simp add: server_read_init_def hbind_def hreceive_def hlift_def demo_conn_def demo_first_fields)
  ultimately have "\<exists>reason io'. server_accept_handshake_ex ?E (demo_params True) demo_conn = (Inr (DecisionRejected reason), io')"
    by (simp add: server_accept_handshake_ex_def hbind_def reject_if_client_too_new_def client_version_too_new_def
        server_version_gate_def hret_def demo_first_fields refuse_def send_handshake_reject_def split: prod.split)
  then obtain reason io' where run: "server_accept_handshake_ex ?E (demo_params True) demo_conn = (Inr (DecisionRejected reason), io')"
    by blast
  from policy_refusal_silent [OF run] run demo_conn_facts show ?thesis by auto
qed

end
