(* ===== verification/Client_Retry.thy ===== *)
theory Client_Retry
  imports Core_RateLimit Core_Handshake Device_Ids
begin

unbundle bit_operations_syntax

text \<open>
  What the client does after a failed connection: the wait before the next attempt (\<^verbatim>\<open>connect_retry_backoff\<close> of
  \<^verbatim>\<open>ui/src/policy.rs\<close> with the table of \<^verbatim>\<open>ui/src/lib.rs\<close>), and the words it shows. The translation of texts
  and the display of an error are parameters. The waits are set against the limiter of the server.
\<close>

section \<open>The wait\<close>

definition CONNECT_RETRY_BACKOFF_BASE :: duration where "CONNECT_RETRY_BACKOFF_BASE = secs 10"
definition CONNECT_RETRY_BACKOFF_CAP :: duration where "CONNECT_RETRY_BACKOFF_CAP = secs 60"

definition JITTER_PCT :: nat where "JITTER_PCT = 20"

definition nominal_ms :: "u32 \<Rightarrow> nat" where
  "nominal_ms attempt =
     min (min (CONNECT_RETRY_BACKOFF_BASE div 1000000 * 2 ^ unat (min attempt 32)) (2 ^ 64 - 1))
         (CONNECT_RETRY_BACKOFF_CAP div 1000000)"

definition xorshift32 :: "u32 \<Rightarrow> u32" where
  "xorshift32 s =
     (let s = s XOR push_bit 13 s;
          s = s XOR drop_bit 17 s
      in s XOR push_bit 5 s)"

definition connect_retry_backoff :: "u32 \<Rightarrow> u32 \<Rightarrow> duration" where
  "connect_retry_backoff attempt seed =
     (let s = seed XOR (attempt * 0x9E3779B9);
          s = xorshift32 (if s = 0 then 0x853B9A93 else s);
          pct = unat s mod 41;
          signed = pct - JITTER_PCT
      in millis (nominal_ms attempt * (100 + signed) div 100))"

text \<open>The table: per target the failures and the instant from which the button is enabled again.\<close>

record connect_retry_state =
  rt_failures :: u32
  rt_next_allowed :: instant

type_synonym retry_table = "(string, connect_retry_state) hmap"

definition connect_retry_record_failure :: "instant \<Rightarrow> u32 \<Rightarrow> string \<Rightarrow> retry_table \<Rightarrow> duration \<times> retry_table" where
  "connect_retry_record_failure now seed target_key m =
     (let st = hm_or_insert \<lparr>rt_failures = 0, rt_next_allowed = now\<rparr> m target_key;
          failures = sat_add1_u32 (rt_failures st);
          d = connect_retry_backoff (failures - 1) seed
      in (d, hm_put target_key \<lparr>rt_failures = failures, rt_next_allowed = now + d\<rparr> m))"

definition connect_retry_clear :: "string \<Rightarrow> retry_table \<Rightarrow> retry_table" where
  "connect_retry_clear target_key m = hm_del target_key m"

definition connect_retry_remaining :: "instant \<Rightarrow> string \<Rightarrow> retry_table \<Rightarrow> duration option" where
  "connect_retry_remaining now target_key m =
     Option.bind (hm_get m target_key)
       (\<lambda>st. if now \<le> rt_next_allowed st then Some (rt_next_allowed st - now) else None)"

definition connect_retry_target_key :: "string \<Rightarrow> string" where
  "connect_retry_target_key server_id = normalize_device_id_input server_id"

section \<open>What the user reads\<close>

definition CODE_LIKE :: string where "CODE_LIKE = ''ABCDEFGHJKLMNPQRSTUVWXYZ23456789''"

definition connect_failure_challenge_hint :: "(string \<Rightarrow> string) \<Rightarrow> string \<Rightarrow> string option" where
  "connect_failure_challenge_hint tr challenge =
     (if challenge = [] then None
      else Some (tr (if length challenge = 10 \<and> list_all (\<lambda>c. c \<in> set CODE_LIKE) challenge
                     then ''policy.challenge_hint.temp'' else ''policy.challenge_hint.fixed'')))"

definition handshake_rejected_hint :: "(string \<Rightarrow> string) \<Rightarrow> hs_error \<Rightarrow> string option" where
  "handshake_rejected_hint tr err =
     (if (case err of HsServerTooNew _ _ \<Rightarrow> True | _ \<Rightarrow> False) then Some (tr ''connect.error.version_mismatch'')
      else case reject_code err of
        None \<Rightarrow> None
      | Some code \<Rightarrow>
          if code = REJECT_CODE_ID_WHITELIST then Some (tr ''connect.id.error_whitelist_denied'')
          else if code = REJECT_CODE_CHALLENGE_MISMATCH then Some (tr ''connect.error.challenge_mismatch'')
          else if code = REJECT_CODE_NICKNAME_MISMATCH then Some (tr ''connect.error.nickname_mismatch'')
          else if code = REJECT_CODE_CLIENT_KEY_MISMATCH then Some (tr ''connect.error.client_key_mismatch'')
          else if code = REJECT_CODE_CREDENTIALS_REQUIRED then Some (tr ''connect.error.credentials_required'')
          else if code = REJECT_CODE_APPROVAL_DECLINED then Some (tr ''connect.error.approval_declined'')
          else if code = REJECT_CODE_APPROVAL_TIMEOUT then Some (tr ''connect.error.approval_timeout'')
          else if code = REJECT_CODE_UNATTENDED_UNKNOWN then Some (tr ''connect.error.unattended_unknown'')
          else if code = REJECT_CODE_RATE_LIMITED then Some (tr ''connect.error.rate_limited'')
          else if code = REJECT_CODE_MUTUAL_CONTROL then Some (tr ''connect.error.mutual_control_denied'')
          else if code = REJECT_CODE_VERSION_MISMATCH then Some (tr ''connect.error.version_mismatch'')
          else None)"

definition handshake_offline_hint :: "(string \<Rightarrow> string) \<Rightarrow> hs_error \<Rightarrow> string option" where
  "handshake_offline_hint tr err =
     (if reject_code err \<noteq> None then None
      else if (case err of
                 HsTcp t \<Rightarrow>
                   (case t of
                      TcpIo k \<Rightarrow> k \<in> {UnexpectedEof, ConnectionAborted, ConnectionReset, BrokenPipe, TimedOut, NotConnected}
                    | TcpConnect \<Rightarrow> True
                    | TcpTimeout \<Rightarrow> True
                    | _ \<Rightarrow> False)
               | HsIo k \<Rightarrow> k \<in> {UnexpectedEof, ConnectionAborted, ConnectionReset, BrokenPipe, TimedOut}
               | HsTimeout \<Rightarrow> True
               | _ \<Rightarrow> False)
      then Some (tr ''connect.error.peer_offline'') else None)"

definition FAILED_CLASSIFIED :: string where "FAILED_CLASSIFIED = ''Handshake FAILED'' @ [CHR 0x0A]"

definition handshake_failure_status :: "(string \<Rightarrow> string) \<Rightarrow> (hs_error \<Rightarrow> string) \<Rightarrow> hs_error \<Rightarrow> string" where
  "handshake_failure_status tr show_err err =
     (case handshake_rejected_hint tr err of
        Some h \<Rightarrow> FAILED_CLASSIFIED @ h
      | None \<Rightarrow>
          (case handshake_offline_hint tr err of
             Some h \<Rightarrow> FAILED_CLASSIFIED @ h
           | None \<Rightarrow> ''Handshake FAILED: '' @ show_err err))"

text \<open>\<^verbatim>\<open>str::find\<close>: the first position at which the text goes on with the pattern.\<close>

fun find_str :: "string \<Rightarrow> string \<Rightarrow> nat option" where
  "find_str p [] = (if p = [] then Some 0 else None)"
| "find_str p (c # s) = (if starts_with (c # s) p then Some 0 else map_option Suc (find_str p s))"

definition dash :: string where "dash = map char_of [0xE2, 0x80, 0x94 :: nat]"

definition head_before :: "string \<Rightarrow> string \<Rightarrow> string option" where
  "head_before sep t =
     (case find_str sep t of
        None \<Rightarrow> None
      | Some i \<Rightarrow> let head = trim (take i t) in if head \<noteq> [] then Some head else None)"

definition first_sentence :: "string \<Rightarrow> string" where
  "first_sentence text =
     (let t = trim text
      in case head_before (dash @ dash) t of
           Some head \<Rightarrow> head
         | None \<Rightarrow> (case head_before ('' '' @ dash @ '' '') t of Some head \<Rightarrow> head | None \<Rightarrow> t))"

record handshake_failure_parts =
  hf_short :: string
  hf_detail :: "string option"

definition failure_parts :: "(string \<Rightarrow> string) \<Rightarrow> (hs_error \<Rightarrow> string) \<Rightarrow> hs_error \<Rightarrow> string \<Rightarrow> handshake_failure_parts" where
  "failure_parts tr show_err err challenge =
     (let hint = connect_failure_challenge_hint tr challenge;
          full = handshake_failure_status tr show_err err
      in case strip_prefix FAILED_CLASSIFIED full of
           Some h \<Rightarrow> \<lparr>hf_short = FAILED_CLASSIFIED @ first_sentence h,
                     hf_detail = Some (case hint of Some hc \<Rightarrow> h @ [CHR 0x0A] @ hc | None \<Rightarrow> h)\<rparr>
         | None \<Rightarrow> \<lparr>hf_short = full, hf_detail = hint\<rparr>)"

text \<open>
  The parts follow the classification: the prefix that tells a classified failure from a raw one is not a
  prefix of the raw text.
\<close>

lemma failure_parts_classified:
  "failure_parts tr show_err err challenge =
     (case (case handshake_rejected_hint tr err of Some h \<Rightarrow> Some h | None \<Rightarrow> handshake_offline_hint tr err) of
        Some h \<Rightarrow> \<lparr>hf_short = FAILED_CLASSIFIED @ first_sentence h,
                  hf_detail = Some (h @ (case connect_failure_challenge_hint tr challenge of
                                           Some hc \<Rightarrow> CHR 0x0A # hc | None \<Rightarrow> []))\<rparr>
      | None \<Rightarrow> \<lparr>hf_short = ''Handshake FAILED: '' @ show_err err,
                 hf_detail = connect_failure_challenge_hint tr challenge\<rparr>)"
  by (simp add: failure_parts_def handshake_failure_status_def FAILED_CLASSIFIED_def strip_prefix_def starts_with_def Let_def
      split: option.split)

section \<open>While the client waits\<close>

text \<open>The texts of the two languages come from the table \<open>tr_lang\<close>.\<close>

datatype lang = Zh | En

definition CONNECT_WAIT_HINT_DELAY :: duration where "CONNECT_WAIT_HINT_DELAY = millis 2500"

definition shell_stripped :: "string \<Rightarrow> string" where
  "shell_stripped status = (case strip_prefix ''[shell] '' status of Some s \<Rightarrow> s | None \<Rightarrow> status)"

definition is_waiting_approval_status :: "(lang \<Rightarrow> string \<Rightarrow> string) \<Rightarrow> string \<Rightarrow> bool" where
  "is_waiting_approval_status tr_lang status =
     (let s = shell_stripped status
      in starts_with s (tr_lang Zh ''connect.status.waiting_approval'') \<or>
         starts_with s (tr_lang En ''connect.status.waiting_approval''))"

definition is_connect_status_busy :: "(lang \<Rightarrow> string \<Rightarrow> string) \<Rightarrow> string \<Rightarrow> bool" where
  "is_connect_status_busy tr_lang status =
     (let s = shell_stripped status
      in starts_with s ''Discovering'' \<or> starts_with s ''Resolving'' \<or> starts_with s ''Connecting'' \<or>
         starts_with s ''Handshaking'' \<or> is_waiting_approval_status tr_lang status)"

record connect_wait =
  cw_controls_enabled :: bool
  cw_status_key :: "string option"
  cw_show_timer :: bool
  cw_hint_key :: "string option"

definition connect_wait_decision :: "bool \<Rightarrow> duration option \<Rightarrow> bool \<Rightarrow> bool \<Rightarrow> connect_wait" where
  "connect_wait_decision busy elapsed responded first_connect =
     (if \<not> busy then
        \<lparr>cw_controls_enabled = True, cw_status_key = None, cw_show_timer = False, cw_hint_key = None\<rparr>
      else if responded then
        \<lparr>cw_controls_enabled = False, cw_status_key = Some ''connect.status.verifying'',
         cw_show_timer = False, cw_hint_key = None\<rparr>
      else if (case elapsed of Some e \<Rightarrow> CONNECT_WAIT_HINT_DELAY \<le> e | None \<Rightarrow> False) then
        \<lparr>cw_controls_enabled = False, cw_status_key = Some ''connect.status.waiting_peer'', cw_show_timer = True,
         cw_hint_key = Some (if first_connect then ''connect.status.waiting_peer_hint_first''
                             else ''connect.status.waiting_peer_hint'')\<rparr>
      else
        \<lparr>cw_controls_enabled = False, cw_status_key = None, cw_show_timer = False, cw_hint_key = None\<rparr>)"

definition connect_episode_clock_tick :: "instant option \<Rightarrow> bool \<Rightarrow> instant \<Rightarrow> instant option" where
  "connect_episode_clock_tick prev busy now =
     (if busy then (case prev of Some t \<Rightarrow> Some t | None \<Rightarrow> Some now) else None)"

text \<open>
  The clock of an episode: over the statuses that are shown one after another it holds the instant of the
  first busy one since the last that was not, however often the text changed in between.
\<close>

definition clock_after :: "(lang \<Rightarrow> string \<Rightarrow> string) \<Rightarrow> (instant \<times> string) list \<Rightarrow> instant option" where
  "clock_after tr_lang ticks =
     fold (\<lambda>(now, status) prev. connect_episode_clock_tick prev (is_connect_status_busy tr_lang status) now) ticks None"

lemma clock_of_episode:
  "clock_after tr_lang ticks =
     (case takeWhile (\<lambda>(_, status). is_connect_status_busy tr_lang status) (rev ticks) of
        [] \<Rightarrow> None
      | episode \<Rightarrow> Some (fst (List.last episode)))"
proof (induction ticks rule: rev_induct)
  case Nil
  then show ?case by (simp add: clock_after_def)
next
  case (snoc x ticks)
  have "clock_after tr_lang (ticks @ [x]) =
      connect_episode_clock_tick (clock_after tr_lang ticks) (is_connect_status_busy tr_lang (snd x)) (fst x)"
    by (simp add: clock_after_def case_prod_unfold)
  then show ?case
    by (cases x) (auto simp: snoc connect_episode_clock_tick_def split: list.split)
qed

section \<open>The waits against the limiter\<close>

lemma jitter: "pct < 41 \<Longrightarrow> pct - JITTER_PCT \<le> 20"
  by (simp add: JITTER_PCT_def)

lemma backoff_bounds:
  "millis (nominal_ms attempt) \<le> connect_retry_backoff attempt seed \<and>
   connect_retry_backoff attempt seed \<le> millis (nominal_ms attempt * 120 div 100)"
proof -
  have "\<exists>j \<le> 20. connect_retry_backoff attempt seed = millis (nominal_ms attempt * (100 + j) div 100)"
    unfolding connect_retry_backoff_def Let_def by (rule exI conjI refl jitter mod_less_divisor | simp)+
  then obtain j where j: "j \<le> 20" "connect_retry_backoff attempt seed = millis (nominal_ms attempt * (100 + j) div 100)" by blast
  have "nominal_ms attempt * (100 + j) \<le> nominal_ms attempt * 120" using j(1) by simp
  then have up: "nominal_ms attempt * (100 + j) div 100 \<le> nominal_ms attempt * 120 div 100" by (rule div_le_mono)
  have "nominal_ms attempt * 100 \<le> nominal_ms attempt * (100 + j)" by simp
  then have "nominal_ms attempt * 100 div 100 \<le> nominal_ms attempt * (100 + j) div 100" by (rule div_le_mono)
  with up show ?thesis by (simp add: j(2) millis_def)
qed

text \<open>The wait that the attempt after \<open>n\<close> earlier ones keeps at least.\<close>

definition wait_after :: "nat \<Rightarrow> duration" where
  "wait_after n = millis (min (10000 * 2 ^ min n 3) 60000)"

lemma wait_ge: "k \<le> min n 3 \<Longrightarrow> millis (min (10000 * 2 ^ k) 60000) \<le> wait_after n"
proof -
  assume "k \<le> min n 3"
  then have "(2::nat) ^ k \<le> 2 ^ min n 3" by (simp add: power_increasing)
  then have "min (10000 * 2 ^ k) 60000 \<le> (min (10000 * 2 ^ min n 3) 60000 :: nat)" by linarith
  then show ?thesis by (simp add: wait_after_def millis_def)
qed

lemma wait_after_values:
  "secs 10 \<le> wait_after n" "secs 20 \<le> wait_after (Suc n)" "secs 40 \<le> wait_after (Suc (Suc n))"
  using wait_ge [of 0 n] wait_ge [of 1 "Suc n"] wait_ge [of 2 "Suc (Suc n)"] by (simp_all add: millis_def secs_def)

lemma nominal_after:
  assumes "min n 3 \<le> unat a"
  shows "wait_after n \<le> millis (nominal_ms a)"
proof -
  have "min n 3 \<le> unat (min a 32)" using assms by (auto simp: min_def word_le_nat_alt split: if_splits)
  then have "(2::nat) ^ min n 3 \<le> 2 ^ unat (min a 32)" by (simp add: power_increasing)
  then have "min (10000 * 2 ^ min n 3) 60000 \<le> (10000 * 2 ^ unat (min a 32) :: nat)"
      "min (10000 * 2 ^ min n 3) 60000 \<le> (18446744073709551615 :: nat)" by linarith+
  then have "min (10000 * 2 ^ min n 3) 60000 \<le> nominal_ms a"
    by (simp add: nominal_ms_def CONNECT_RETRY_BACKOFF_BASE_def CONNECT_RETRY_BACKOFF_CAP_def secs_def)
  then show ?thesis by (simp add: wait_after_def millis_def)
qed

text \<open>
  A user's clicks, each with the time its attempt takes to fail and the seed of the jitter. A click in
  the waiting time does nothing; the others are attempts.
\<close>

fun gated_attempts :: "string \<Rightarrow> retry_table \<Rightarrow> (instant \<times> duration \<times> u32) list \<Rightarrow> instant list" where
  "gated_attempts key m [] = []"
| "gated_attempts key m ((now, delay, seed) # cs) =
     (if connect_retry_remaining now key m \<noteq> None then gated_attempts key m cs
      else now # gated_attempts key (snd (connect_retry_record_failure (now + delay) seed key m)) cs)"

fun spaced :: "nat \<Rightarrow> instant list \<Rightarrow> bool" where
  "spaced n (x # y # xs) \<longleftrightarrow> x + wait_after n \<le> y \<and> spaced (Suc n) (y # xs)"
| "spaced n _ \<longleftrightarrow> True"

definition retried :: "nat \<Rightarrow> instant \<Rightarrow> string \<Rightarrow> retry_table \<Rightarrow> bool" where
  "retried n from key m \<longleftrightarrow> (\<exists>st. hm_get m key = Some st \<and> min n 3 \<le> unat (rt_failures st) \<and> from \<le> rt_next_allowed st)"

lemma sat_add1: "min (Suc n) 3 \<le> unat (sat_add1_u32 f)" "min n 3 \<le> unat (sat_add1_u32 f - 1)" if "min n 3 \<le> unat f"
proof -
  have top: "unat (- 1 :: u32) = 4294967295" by (simp add: unsigned_minus_1_eq_mask mask_eq_exp_minus_1)
  moreover have "unat (- 1 - 1 :: u32) = 4294967294" using unat_minus_one [of "- 1 :: u32"] top by simp
  moreover have "unat (f + 1) = Suc (unat f)" if "f \<noteq> - 1"
  proof (rule unat_add1)
    have "unat f \<noteq> 4294967295" using that top by (metis word_unat_eq_iff)
    then show "Suc (unat f) < 2 ^ LENGTH(32)" using unat_u32 [of f] by simp
  qed
  ultimately show "min (Suc n) 3 \<le> unat (sat_add1_u32 f)" "min n 3 \<le> unat (sat_add1_u32 f - 1)"
    using that by (auto simp: sat_add1_u32_def min_def split: if_splits)
qed

lemma retried_step:
  assumes "retried n t key m \<or> n = 0 \<and> hm_get m key = None"
  shows "retried (Suc n) (now + wait_after n) key (snd (connect_retry_record_failure (now + delay) seed key m))"
proof -
  define f where "f = rt_failures (hm_or_insert \<lparr>rt_failures = 0, rt_next_allowed = now + delay\<rparr> m key)"
  have f: "min n 3 \<le> unat f"
    using assms by (auto simp: retried_def f_def hm_or_insert_def)
  have "wait_after n \<le> connect_retry_backoff (sat_add1_u32 f - 1) seed"
    using nominal_after [OF sat_add1(2) [OF f]] backoff_bounds [of "sat_add1_u32 f - 1" seed] by linarith
  then show ?thesis
    using sat_add1(1) [OF f] by (simp add: retried_def connect_retry_record_failure_def Let_def f_def)
qed

lemma gated_spaced:
  assumes "retried n from key m \<or> n = 0 \<and> hm_get m key = None"
  shows "spaced n (gated_attempts key m cs) \<and>
    (retried n from key m \<longrightarrow> (\<forall>x xs. gated_attempts key m cs = x # xs \<longrightarrow> from \<le> x))"
  using assms
proof (induction cs arbitrary: n "from" m)
  case (Cons c cs)
  obtain now delay seed where c: "c = (now, delay, seed)" by (metis prod_cases3)
  show ?case
  proof (cases "connect_retry_remaining now key m \<noteq> None")
    case True
    with Cons.IH [OF Cons.prems] show ?thesis by (simp add: c)
  next
    case False
    let ?m = "snd (connect_retry_record_failure (now + delay) seed key m)"
    note IH = Cons.IH [OF disjI1 [OF retried_step [OF Cons.prems]], of now delay seed]
    have "from \<le> now" if "retried n from key m"
      using that False by (auto simp: retried_def connect_retry_remaining_def split: if_splits)
    moreover have "spaced n (now # gated_attempts key ?m cs)"
      using IH retried_step [OF Cons.prems, of now delay seed] by (cases "gated_attempts key ?m cs") auto
    ultimately show ?thesis using False by (simp add: c)
  qed
qed simp

text \<open>In spaced attempts at most two earlier ones are in the window of an attempt.\<close>

lemma spaced_append:
  "spaced n (xs @ [y, z]) \<longleftrightarrow> spaced n (xs @ [y]) \<and> y + wait_after (n + length xs) \<le> z"
  by (induction n xs rule: spaced.induct) auto

lemma spaced_prefix: "spaced n (xs @ ys) \<Longrightarrow> spaced n xs"
  by (induction n xs rule: spaced.induct) auto

lemma spaced_le: "spaced n (xs @ [y]) \<Longrightarrow> x \<in> set xs \<Longrightarrow> x \<le> y"
proof (induction xs arbitrary: y rule: rev_induct)
  case (snoc z xs)
  then have "spaced n (xs @ [z])" "z \<le> y" using spaced_append [of n xs z y] by simp_all
  with snoc show ?case by fastforce
qed simp

lemma window_holds_two:
  assumes "spaced 0 (H @ [t])"
  shows "length (dropWhile (\<lambda>s. secs 30 < t - s) (drop k H)) \<le> 2"
proof (cases "length H \<le> 2")
  case True
  then show ?thesis using length_dropWhile_le [of "\<lambda>s. secs 30 < t - s" "drop k H"] by simp
next
  case False
  then obtain H' x y where H: "H = H' @ [x, y]" "H' \<noteq> []"
    by (cases H rule: rev_cases; cases "butlast H" rule: rev_cases) (auto simp: butlast_append)
  then obtain H0 z where H': "H' = H0 @ [z]" by (cases H' rule: rev_cases) auto
  have s: "spaced 0 (H0 @ [z])" "z + wait_after (length H0) \<le> x" "x + wait_after (Suc (length H0)) \<le> y"
      "y + wait_after (Suc (Suc (length H0))) \<le> t"
    using assms spaced_append [of 0 "H0 @ [z, x]" y t] spaced_append [of 0 "H0 @ [z]" x y] spaced_append [of 0 H0 z x]
    by (simp_all add: H H')
  have "secs 30 < t - z"
    using s(2-4) wait_after_values [of "length H0"] by (simp add: secs_def)
  moreover have "s \<le> z" if "s \<in> set H'" for s
    using that spaced_le [OF s(1)] by (auto simp: H')
  ultimately have old: "secs 30 < t - s" if "s \<in> set H'" for s
    using that by (meson diff_le_mono2 less_le_trans)
  show ?thesis
  proof (cases "k \<le> length H'")
    case True
    then have "dropWhile (\<lambda>s. secs 30 < t - s) (drop k H) = dropWhile (\<lambda>s. secs 30 < t - s) [x, y]"
      using old by (simp add: H dropWhile_append2 in_set_dropD)
    then show ?thesis using length_dropWhile_le [of "\<lambda>s. secs 30 < t - s" "[x, y]"] by simp
  next
    case False
    then show ?thesis using length_dropWhile_le [of "\<lambda>s. secs 30 < t - s" "drop k H"] by (simp add: H)
  qed
qed

text \<open>The limiter that has seen the attempts \<open>H\<close> of one client, \<open>n\<close> of them recorded as failures.\<close>

definition seen :: "ip_addr \<Rightarrow> instant list \<Rightarrow> nat \<Rightarrow> limiter \<Rightarrow> bool" where
  "seen ip H n l \<longleftrightarrow> rl_cfg l = rl_config_default \<and>
     (H = [] \<and> n = 0 \<and> buckets l = [] \<or>
      (\<exists>b k. buckets l = [(bucket_key ip, b)] \<and> attempts b = drop k H \<and> banned_until b = None \<and>
         unat (handshake_failures b) = n \<and> ban_count b = 0))"

lemma seen_check:
  assumes "seen ip H n l" and "spaced 0 (H @ [t])"
  shows "\<exists>l'. check_connect t ip l = (Allowed, l') \<and> seen ip (H @ [t]) n l'"
proof -
  define b where "b = hm_or_insert (bucket_new t) (buckets l) (bucket_key ip)"
  obtain k where b: "attempts b = drop k H" "banned_until b = None" "unat (handshake_failures b) = n" "ban_count b = 0"
    using assms(1) unfolding seen_def b_def hm_or_insert_def bucket_new_def by fastforce
  have cfg: "attempt_window (rl_cfg l) = secs 30" "max_attempts (rl_cfg l) = 3"
    using assms(1) by (simp_all add: seen_def rl_config_default_def)
  obtain m where m: "dropWhile (\<lambda>s. secs 30 < t - s) (drop k H) = drop m (drop k H)"
    using dropWhile_as_drop [of "\<lambda>s. secs 30 < t - s" "drop k H"] by (elim exE conjE) (rule that)
  let ?b = "b\<lparr>last_seen := t, attempts := drop m (drop k H) @ [t]\<rparr>"
  have chk: "bucket_check (rl_cfg l) t b = (Allowed, ?b)"
    using window_holds_two [OF assms(2), of k] by (simp add: bucket_check_def Let_def b cfg m)
  have kept: "attempts ?b = drop (min (m + k) (length H)) (H @ [t])" by (simp add: min_def)
  have one: "hm_put (bucket_key ip) ?b (buckets l) = [(bucket_key ip, ?b)]"
    using assms(1) by (auto simp: seen_def)
  have "seen ip (H @ [t]) n (l\<lparr>buckets := [(bucket_key ip, ?b)]\<rparr>)"
    unfolding seen_def using assms(1) b kept
    by (intro conjI disjI2 exI [of _ ?b] exI [of _ "min (m + k) (length H)"]) (simp_all add: seen_def)
  with chk one show ?thesis
    by (simp add: check_connect_def b_def [symmetric] Let_def MAX_BUCKETS_def)
qed

lemma seen_failure:
  assumes "seen ip H n l" and "H \<noteq> []" and "n < 4"
  shows "seen ip H (Suc n) (record_handshake_failure t ip l)"
proof -
  obtain b k where b: "buckets l = [(bucket_key ip, b)]" "attempts b = drop k H" "banned_until b = None"
      "unat (handshake_failures b) = n" "ban_count b = 0"
    using assms(1,2) by (auto simp: seen_def)
  have thr: "unat (failure_threshold (rl_cfg l)) = 5" using assms(1) by (simp add: seen_def rl_config_default_def)
  have lt: "unat (handshake_failures b) + 1 < unat (failure_threshold (rl_cfg l))" using assms(3) by (simp add: b thr)
  have "unat (handshake_failures b + 1) = Suc n"
    using unat_add1_below [of "handshake_failures b" "failure_threshold (rl_cfg l)"] lt by (simp add: b)
  with failure_below [OF b(3) lt, of t] show ?thesis
    using assms(1) b by (auto simp: seen_def record_handshake_failure_def hm_or_insert_def Let_def)
qed

text \<open>
  What the server's limiter keeps of the attempts \<open>H\<close> of one client, whatever was recorded as a failure and
  whichever attempts a ban refused: a sorted part of them.
\<close>

definition tracked :: "ip_addr \<Rightarrow> instant list \<Rightarrow> limiter \<Rightarrow> bool" where
  "tracked ip H l \<longleftrightarrow> rl_cfg l = rl_config_default \<and>
     (buckets l = [] \<or> (\<exists>b. buckets l = [(bucket_key ip, b)] \<and> sorted (attempts b) \<and>
        (\<forall>P. length (filter P (attempts b)) \<le> length (filter P H))))"

lemma tracked_bucket:
  assumes "tracked ip H l"
  shows "sorted (attempts (hm_or_insert (bucket_new t) (buckets l) (bucket_key ip)))"
    and "length (filter P (attempts (hm_or_insert (bucket_new t) (buckets l) (bucket_key ip)))) \<le> length (filter P H)"
  using assms by (auto simp: tracked_def hm_or_insert_def bucket_new_def)

lemma tracked_put:
  assumes "tracked ip H l" and "sorted (attempts b)" and "\<And>P. length (filter P (attempts b)) \<le> length (filter P H')"
  shows "tracked ip H' (l\<lparr>buckets := hm_put (bucket_key ip) b (buckets l)\<rparr>)"
    and "length (hm_put (bucket_key ip) b (buckets l)) \<le> 1"
  using assms by (auto simp: tracked_def)

lemma dropWhile_sorted: "sorted xs \<Longrightarrow> dropWhile (\<lambda>s. d < t - s) xs = filter (\<lambda>s. \<not> d < t - s) (xs :: nat list)"
proof (induction xs)
  case (Cons x xs)
  show ?case
  proof (cases "d < t - x")
    case True
    with Cons show ?thesis by simp
  next
    case False
    have "\<not> d < t - s" if "s \<in> set xs" for s
    proof -
      have "x \<le> s" using Cons.prems that by simp
      then show ?thesis using False by linarith
    qed
    then have "filter (\<lambda>s. \<not> d < t - s) xs = xs" by (simp add: filter_id_conv)
    with False show ?thesis by simp
  qed
qed simp

lemma spaced_sorted: "spaced n xs \<Longrightarrow> sorted xs"
proof (induction xs rule: rev_induct)
  case (snoc y xs)
  then show ?case using spaced_prefix [of n xs "[y]"] spaced_le [of n xs y] by (simp add: sorted_append)
qed simp

lemma bucket_check_attempts:
  assumes "bucket_check cfg t b = (d, b')"
  defines "kept \<equiv> dropWhile (\<lambda>s. attempt_window cfg < t - s) (attempts b)"
  shows "attempts b' = kept \<or> attempts b' = kept @ [t]" and "d = TooManyAttempts \<Longrightarrow> max_attempts cfg \<le> length kept"
  using assms(1) by (auto simp: bucket_check_def kept_def Let_def split: if_splits option.splits)

lemma tracked_check:
  assumes "tracked ip H l" and "spaced 0 (H @ [t])" and "check_connect t ip l = (d, l')"
  shows "d \<noteq> TooManyAttempts \<and> tracked ip (H @ [t]) l'"
proof -
  define b where "b = hm_or_insert (bucket_new t) (buckets l) (bucket_key ip)"
  obtain d1 b1 where chk: "bucket_check (rl_cfg l) t b = (d1, b1)" by (metis prod.exhaust)
  have cfg: "attempt_window (rl_cfg l) = secs 30" "max_attempts (rl_cfg l) = 3"
    using assms(1) by (simp_all add: tracked_def rl_config_default_def)
  define kept where "kept = filter (\<lambda>s. \<not> secs 30 < t - s) (attempts b)"
  have so: "sorted (attempts b)" and sub: "length (filter P (attempts b)) \<le> length (filter P H)" for P
    using tracked_bucket [OF assms(1), where t = t] by (simp_all add: b_def)
  have kept: "dropWhile (\<lambda>s. attempt_window (rl_cfg l) < t - s) (attempts b) = kept"
    using dropWhile_sorted [OF so] by (simp add: cfg kept_def)
  have "sorted H" using spaced_sorted [OF spaced_prefix [OF assms(2)]] .
  then have "length (filter (\<lambda>s. \<not> secs 30 < t - s) H) \<le> 2"
    using window_holds_two [OF assms(2), of 0] dropWhile_sorted by simp
  then have two: "length kept \<le> 2" using sub [of "\<lambda>s. \<not> secs 30 < t - s"] by (simp add: kept_def)
  note att = bucket_check_attempts [OF chk, unfolded kept]
  have "\<forall>s\<in>set kept. s \<le> t"
  proof
    fix s assume "s \<in> set kept"
    then have "0 < length (filter ((=) s) (attempts b))" by (auto simp: kept_def filter_empty_conv)
    then have "filter ((=) s) H \<noteq> []" using sub [of "(=) s"] by fastforce
    then have "s \<in> set H" by (auto simp: filter_empty_conv)
    then show "s \<le> t" using spaced_le [OF assms(2)] by simp
  qed
  then have so1: "sorted (attempts b1)"
    using att(1) sorted_wrt_filter [OF so, of "\<lambda>s. \<not> secs 30 < t - s"] by (auto simp: kept_def sorted_append)
  have sub1: "length (filter P (attempts b1)) \<le> length (filter P (H @ [t]))" for P
  proof -
    have "length (filter P kept) \<le> length (filter P (attempts b))"
      using length_filter_le [of "\<lambda>s. \<not> secs 30 < t - s" "filter P (attempts b)"]
      by (simp add: kept_def conj_commute)
    with att(1) sub [of P] show ?thesis by auto
  qed
  note put = tracked_put [OF assms(1) so1 sub1]
  have "l' = l\<lparr>buckets := hm_put (bucket_key ip) b1 (buckets l)\<rparr>" "d = d1"
    using assms(3) put(2) by (auto simp: check_connect_def b_def [symmetric] chk maybe_prune_def MAX_BUCKETS_def Let_def split: if_splits)
  with put(1) att(2) two show ?thesis by (auto simp: cfg)
qed

lemma tracked_failure: "tracked ip H l \<Longrightarrow> tracked ip H (record_handshake_failure t ip l)"
  unfolding record_handshake_failure_def Let_def
  by (rule tracked_put(1)) (simp_all add: tracked_bucket)

text \<open>
  What the server does for attempts of one client: it checks each, and may record failures for it, each at a
  moment of its own, or none.
\<close>

definition attempt_calls :: "ip_addr \<Rightarrow> (instant \<times> instant list) list \<Rightarrow> (instant \<times> rl_call) list" where
  "attempt_calls ip rounds = concat (map (\<lambda>(t, fs). (t, CallCheck ip) # map (\<lambda>u. (u, CallFailure ip)) fs) rounds)"

lemma failures_tracked:
  assumes "tracked ip H l"
  shows "\<exists>l'. tracked ip H l' \<and> (\<forall>cs. relay_calls l (map (\<lambda>u. (u, CallFailure ip)) fs @ cs) =
    replicate (length fs) AnsUnit @ relay_calls l' cs)"
  using assms
proof (induction fs arbitrary: l)
  case (Cons u fs)
  from Cons.IH [OF tracked_failure [OF Cons.prems, of u]] show ?case by auto
qed auto

lemma rounds_tracked:
  "tracked ip H l \<Longrightarrow> spaced 0 (H @ map fst rounds) \<Longrightarrow>
     AnsDecision CTooManyAttempts \<notin> set (relay_calls l (attempt_calls ip rounds))"
proof (induction rounds arbitrary: H l)
  case (Cons r rounds)
  obtain t fs where r: "r = (t, fs)" by (cases r)
  have sp: "spaced 0 (H @ [t])" "spaced 0 ((H @ [t]) @ map fst rounds)"
    using Cons.prems(2) spaced_prefix [of 0 "H @ [t]" "map fst rounds"] by (simp_all add: r)
  obtain d l1 where chk: "check_connect t ip l = (d, l1)" by (metis prod.exhaust)
  note 1 = tracked_check [OF Cons.prems(1) sp(1) chk]
  then obtain l2 where 2: "tracked ip (H @ [t]) l2"
      "relay_calls l1 (map (\<lambda>u. (u, CallFailure ip)) fs @ attempt_calls ip rounds) =
         replicate (length fs) AnsUnit @ relay_calls l2 (attempt_calls ip rounds)"
    using failures_tracked [of ip "H @ [t]" l1 fs] by blast
  have "core_of_decision d \<noteq> CTooManyAttempts" using 1 by (cases d) auto
  moreover have "attempt_calls ip (r # rounds) = (t, CallCheck ip) # map (\<lambda>u. (u, CallFailure ip)) fs @ attempt_calls ip rounds"
    by (simp add: attempt_calls_def r)
  ultimately show ?case using Cons.IH [OF 2(1) sp(2)] 2(2) by (auto simp: chk)
qed (simp add: attempt_calls_def)

text \<open>
  C36. A user who retries is not refused for trying too often. Take any clicks, times the attempts take and
  jitter, and a server that may record failures for each attempt, whenever it does. No attempt that the
  client's waiting time lets through is answered with too many attempts: the window of three attempts
  in thirty seconds always has room. (A client that goes on failing is refused by the ban for failures
  instead. The client is alone in its network, whose limit it would share.)
\<close>
theorem retries_within_limit:
  assumes "map fst rounds = gated_attempts key [] clicks"
  shows "AnsDecision CTooManyAttempts \<notin> set (core_calls (core_with_config core_rl_config_default) (attempt_calls ip rounds))"
proof -
  have "spaced 0 (map fst rounds)" using gated_spaced [of 0 0 key "[]" clicks] by (simp add: assms)
  moreover have "tracked ip [] (with_config rl_config_default)" by (simp add: tracked_def with_config_def)
  ultimately have "AnsDecision CTooManyAttempts \<notin> set (relay_calls (with_config rl_config_default) (attempt_calls ip rounds))"
    using rounds_tracked [of ip "[]"] by simp
  moreover have "core_rl_config_default = core_of_config rl_config_default"
    by (simp add: core_rl_config_default_def core_of_config_def rl_config_default_def MAX_BUCKETS_def)
  ultimately show ?thesis
    using calls_in_step [of "with_config rl_config_default" "attempt_calls ip rounds"]
    by (simp add: core_of_def core_with_config_def with_config_def)
qed

text \<open>Rounds of an attempt and its recorded failure.\<close>

definition failing_rounds :: "ip_addr \<Rightarrow> instant list \<Rightarrow> (instant \<times> rl_call) list" where
  "failing_rounds ip ts = concat (map (\<lambda>t. [(t, CallCheck ip), (t, CallFailure ip)]) ts)"

lemma rounds_seen:
  "seen ip H n l \<Longrightarrow> spaced 0 (H @ ts) \<Longrightarrow> n + length ts \<le> 4 \<Longrightarrow>
     \<exists>l'. seen ip (H @ ts) (n + length ts) l' \<and>
       (\<forall>cs. relay_calls l (failing_rounds ip ts @ cs) =
          concat (replicate (length ts) [AnsDecision CAllowed, AnsUnit]) @ relay_calls l' cs)"
proof (induction ts arbitrary: H n l)
  case Nil
  then show ?case by (auto simp: failing_rounds_def)
next
  case (Cons t ts)
  have "spaced 0 (H @ [t])" using Cons.prems(2) spaced_prefix [of 0 "H @ [t]" ts] by simp
  with seen_check [OF Cons.prems(1)] obtain l1 where
    1: "check_connect t ip l = (Allowed, l1)" "seen ip (H @ [t]) n l1" by blast
  have 2: "seen ip (H @ [t]) (Suc n) (record_handshake_failure t ip l1)"
    using seen_failure [OF 1(2)] Cons.prems(3) by simp
  from Cons.IH [OF 2] Cons.prems(2,3) obtain l' where
    "seen ip (H @ t # ts) (n + length (t # ts)) l'"
    "\<forall>cs. relay_calls (record_handshake_failure t ip l1) (failing_rounds ip ts @ cs) =
       concat (replicate (length ts) [AnsDecision CAllowed, AnsUnit]) @ relay_calls l' cs" by auto
  with 1(1) show ?case by (auto simp: failing_rounds_def)
qed

text \<open>
  C37. A user who retries and fails is banned all the same. The failures count whatever lies between the
  attempts, so the sixth attempt is refused when it comes within a quarter of an hour of the fifth, as
  the waits of at most 72 seconds have it.
\<close>
theorem sixth_retry_banned:
  assumes "gated_attempts key [] clicks = ts @ [t5, t6]" and "length ts = 4" and "t6 < t5 + secs 900"
  shows "core_calls (core_with_config core_rl_config_default) (failing_rounds ip (ts @ [t5]) @ [(t6, CallCheck ip)]) =
    concat (replicate 5 [AnsDecision CAllowed, AnsUnit]) @ [AnsDecision CBanned]"
proof -
  have sp: "spaced 0 (ts @ [t5, t6])" using gated_spaced [of 0 0 key "[]" clicks] by (simp add: assms(1))
  then have sp4: "spaced 0 ([] @ ts)" and sp5: "spaced 0 (ts @ [t5])"
    using spaced_prefix [of 0 ts "[t5, t6]"] spaced_prefix [of 0 "ts @ [t5]" "[t6]"] by simp_all
  have start: "seen ip [] 0 (with_config rl_config_default)" by (simp add: seen_def with_config_def)
  obtain l4 where l4: "seen ip ts 4 l4"
      "\<forall>cs. relay_calls (with_config rl_config_default) (failing_rounds ip ts @ cs) =
         concat (replicate 4 [AnsDecision CAllowed, AnsUnit]) @ relay_calls l4 cs"
    using rounds_seen [OF start sp4] assms(2) by auto
  obtain l5 where l5: "check_connect t5 ip l4 = (Allowed, l5)" "seen ip (ts @ [t5]) 4 l5"
    using seen_check [OF l4(1) sp5] by blast
  obtain b where b: "buckets l5 = [(bucket_key ip, b)]" "banned_until b = None" "unat (handshake_failures b) = 4" "ban_count b = 0"
      and cfg: "rl_cfg l5 = rl_config_default"
    using l5(2) by (auto simp: seen_def)
  have "banned_until (bucket_fail rl_config_default t5 b) = Some (t5 + secs 900)"
    using failure_at_threshold [of b rl_config_default t5] b
    by (simp add: rl_config_default_def escalate_cases saturating_mul_def duration_max_def secs_def)
  then have "fst (check_connect t6 ip (record_handshake_failure t5 ip l5)) = Banned"
    using assms(3) b cfg
    by (simp add: check_connect_decision bucket_check_banned record_handshake_failure_def bucket_of_def hm_or_insert_def Let_def)
  then have "relay_calls l5 [(t5, CallFailure ip), (t6, CallCheck ip)] = [AnsUnit, AnsDecision CBanned]"
    by (simp split: prod.split) (metis fst_conv core_of_decision.simps(3))
  moreover have "failing_rounds ip (ts @ [t5]) @ [(t6, CallCheck ip)] =
      failing_rounds ip ts @ [(t5, CallCheck ip), (t5, CallFailure ip), (t6, CallCheck ip)]"
    by (simp add: failing_rounds_def)
  ultimately have "relay_calls (with_config rl_config_default) (failing_rounds ip (ts @ [t5]) @ [(t6, CallCheck ip)]) =
      concat (replicate 5 [AnsDecision CAllowed, AnsUnit]) @ [AnsDecision CBanned]"
    using l4(2) l5(1) by (simp add: numeral_eq_Suc)
  moreover have "core_rl_config_default = core_of_config rl_config_default"
    by (simp add: core_rl_config_default_def core_of_config_def rl_config_default_def MAX_BUCKETS_def)
  ultimately show ?thesis
    using calls_in_step [of "with_config rl_config_default" "failing_rounds ip (ts @ [t5]) @ [(t6, CallCheck ip)]"]
    by (simp add: core_of_def core_with_config_def with_config_def)
qed

text \<open>Clicks more than 72 seconds apart are all attempts; six of them, a hundred seconds apart.\<close>

fun far_apart :: "instant \<Rightarrow> (instant \<times> duration \<times> u32) list \<Rightarrow> bool" where
  "far_apart t [] \<longleftrightarrow> True"
| "far_apart t ((now, delay, seed) # cs) \<longleftrightarrow> t + secs 72 < now \<and> far_apart (now + delay) cs"

lemma backoff_below: "connect_retry_backoff a s \<le> secs 72"
proof -
  have "nominal_ms a \<le> 60000" by (simp add: nominal_ms_def CONNECT_RETRY_BACKOFF_CAP_def secs_def)
  then have "nominal_ms a * 120 div 100 \<le> 72000" by linarith
  with backoff_bounds [of a s] show ?thesis by (simp add: millis_def secs_def)
qed

lemma far_attempts:
  "far_apart t cs \<Longrightarrow> \<forall>st. hm_get m key = Some st \<longrightarrow> rt_next_allowed st \<le> t + secs 72 \<Longrightarrow>
     gated_attempts key m cs = map fst cs"
proof (induction cs arbitrary: t m)
  case (Cons c cs)
  obtain now delay seed where c: "c = (now, delay, seed)" by (metis prod_cases3)
  let ?m = "snd (connect_retry_record_failure (now + delay) seed key m)"
  have "connect_retry_remaining now key m = None"
    using Cons.prems by (auto simp: connect_retry_remaining_def c split: bind_splits)
  moreover have "gated_attempts key ?m cs = map fst cs"
    by (rule Cons.IH [of "now + delay"])
       (use Cons.prems(1) backoff_below in \<open>auto simp: c connect_retry_record_failure_def Let_def\<close>)
  ultimately show ?case by (simp add: c)
qed simp

definition demo_clicks :: "(instant \<times> duration \<times> u32) list" where
  "demo_clicks = [(secs 100, 0, 0), (secs 200, 0, 0), (secs 300, 0, 0), (secs 400, 0, 0), (secs 500, 0, 0), (secs 600, 0, 0)]"

text \<open>The same clicks with a failure recorded a second after each attempt.\<close>

theorem retries_within_limit_witness:
  "AnsDecision CTooManyAttempts \<notin> set (core_calls (core_with_config core_rl_config_default)
     (attempt_calls (V4 1 2 3 4) (map (\<lambda>(t, _). (t, [t + secs 1])) demo_clicks)))"
proof -
  have "gated_attempts ''s'' [] demo_clicks = map fst demo_clicks"
    using far_attempts [of 0 demo_clicks "[]" "''s''"] by (simp add: demo_clicks_def secs_def)
  then show ?thesis
    by (intro retries_within_limit [where key = "''s''" and clicks = demo_clicks]) (simp add: comp_def split_def)
qed

theorem sixth_retry_banned_witness:
  "last (core_calls (core_with_config core_rl_config_default)
     (failing_rounds (V4 1 2 3 4) ([secs 100, secs 200, secs 300, secs 400] @ [secs 500]) @ [(secs 600, CallCheck (V4 1 2 3 4))])) =
   AnsDecision CBanned"
proof -
  have "gated_attempts ''s'' [] demo_clicks = [secs 100, secs 200, secs 300, secs 400] @ [secs 500, secs 600]"
    using far_attempts [of 0 demo_clicks "[]" "''s''"] by (simp add: demo_clicks_def secs_def)
  from sixth_retry_banned [OF this, of "V4 1 2 3 4"] show ?thesis by (simp add: secs_def)
qed

end
