(* ===== verification/Whitelists.thy ===== *)
theory Whitelists
  imports Core_Handshake
begin

text \<open>
  The two whitelists of a device, \<^verbatim>\<open>utils/src/config.rs\<close>: domain patterns and device identifiers, each a list of
  permanent entries and a list of entries with an optional end. Saving the configuration, and printing and
  reading a date, are parameters. A date is a natural number.
\<close>

section \<open>Entries\<close>

text \<open>\<^verbatim>\<open>WhitelistEntry\<close> and \<^verbatim>\<open>IdWhitelistEntry\<close> have the same shape.\<close>

record wl_entry =
  we_key :: string
  we_expiry :: "nat option"

definition entry_new :: "string \<Rightarrow> nat option \<Rightarrow> wl_entry" where
  "entry_new key expiry = \<lparr>we_key = trim key, we_expiry = expiry\<rparr>"

definition entry_active :: "nat \<Rightarrow> wl_entry \<Rightarrow> bool" where
  "entry_active now e = (case we_expiry e of Some exp \<Rightarrow> now < exp | None \<Rightarrow> True)"

record wl_cfg =
  wc_allowed_domains :: "string list"
  wc_whitelist :: "wl_entry list"
  wc_allowed_ids :: "string list"
  wc_id_whitelist :: "wl_entry list"
  wc_enforce :: bool

definition whitelist_matches :: "string \<Rightarrow> string \<Rightarrow> bool" where
  "whitelist_matches domain pattern0 =
     (let pattern = trim pattern0
      in if pattern = [] then False
         else case strip_prefix ''*.'' pattern of
                Some rest \<Rightarrow> domain = rest \<or> ends_with domain (''.'' @ rest)
              | None \<Rightarrow> domain = pattern)"

fun push_active :: "nat \<Rightarrow> wl_entry list \<Rightarrow> string list \<Rightarrow> string list" where
  "push_active now [] acc = acc"
| "push_active now (e # es) acc =
     push_active now es (if entry_active now e \<and> we_key e \<notin> set acc then acc @ [we_key e] else acc)"

section \<open>Domains\<close>

definition whitelist_active_patterns :: "nat \<Rightarrow> wl_cfg \<Rightarrow> string list" where
  "whitelist_active_patterns now c = push_active now (wc_whitelist c) (wc_allowed_domains c)"

definition whitelist_check :: "nat \<Rightarrow> string \<Rightarrow> wl_cfg \<Rightarrow> bool" where
  "whitelist_check now domain c =
     (if list_ex (\<lambda>a. domain = a \<or> ends_with domain (''.'' @ a)) (wc_allowed_domains c) then True
      else list_ex (\<lambda>e. entry_active now e \<and> whitelist_matches domain (we_key e)) (wc_whitelist c))"

text \<open>
  Saving takes the state and may fail; the state in memory has changed all the same. The first entry of the
  key, if there is one, gets the new end.
\<close>

type_synonym saver = "wl_cfg \<Rightarrow> string option"

definition saved :: "saver \<Rightarrow> bool \<Rightarrow> wl_cfg \<Rightarrow> (string + bool) \<times> wl_cfg" where
  "saved save b c = (case save c of Some e \<Rightarrow> (Inl e, c) | None \<Rightarrow> (Inr b, c))"

fun set_expiry :: "string \<Rightarrow> nat option \<Rightarrow> wl_entry list \<Rightarrow> wl_entry list" where
  "set_expiry key expiry [] = []"
| "set_expiry key expiry (e # es) =
     (if we_key e = key then e\<lparr>we_expiry := expiry\<rparr> # es else e # set_expiry key expiry es)"

definition whitelist_add :: "saver \<Rightarrow> string \<Rightarrow> nat option \<Rightarrow> wl_cfg \<Rightarrow> (string + bool) \<times> wl_cfg" where
  "whitelist_add save pattern0 expiry c =
     (let pattern = trim pattern0
      in if pattern = [] then (Inr False, c)
         else if list_ex (\<lambda>e. we_key e = pattern) (wc_whitelist c) then
           saved save False (c\<lparr>wc_whitelist := set_expiry pattern expiry (wc_whitelist c)\<rparr>)
         else saved save True (c\<lparr>wc_whitelist := wc_whitelist c @ [entry_new pattern expiry]\<rparr>))"

definition whitelist_remove :: "saver \<Rightarrow> string \<Rightarrow> wl_cfg \<Rightarrow> (string + bool) \<times> wl_cfg" where
  "whitelist_remove save pattern c =
     (let c' = c\<lparr>wc_whitelist := filter (\<lambda>e. we_key e \<noteq> pattern) (wc_whitelist c),
                 wc_allowed_domains := filter (\<lambda>d. d \<noteq> pattern) (wc_allowed_domains c)\<rparr>
      in if length (wc_whitelist c') \<noteq> length (wc_whitelist c) \<or>
            length (wc_allowed_domains c') \<noteq> length (wc_allowed_domains c)
         then saved save True c' else (Inr False, c'))"

definition whitelist_prune_expired :: "nat \<Rightarrow> wl_cfg \<Rightarrow> nat \<times> wl_cfg" where
  "whitelist_prune_expired now c =
     (let kept = filter (entry_active now) (wc_whitelist c)
      in (length (wc_whitelist c) - length kept, c\<lparr>wc_whitelist := kept\<rparr>))"

section \<open>Device identifiers\<close>

definition set_id_whitelist_enforce :: "bool \<Rightarrow> wl_cfg \<Rightarrow> wl_cfg" where
  "set_id_whitelist_enforce enforce c = c\<lparr>wc_enforce := enforce\<rparr>"

definition id_whitelist_active_ids :: "nat \<Rightarrow> wl_cfg \<Rightarrow> string list" where
  "id_whitelist_active_ids now c = push_active now (wc_id_whitelist c) (wc_allowed_ids c)"

definition id_whitelist_check :: "nat \<Rightarrow> string \<Rightarrow> wl_cfg \<Rightarrow> bool" where
  "id_whitelist_check now device_id0 c =
     (let device_id = trim device_id0
      in device_id \<in> set (wc_allowed_ids c) \<or>
         list_ex (\<lambda>e. we_key e = device_id \<and> entry_active now e) (wc_id_whitelist c))"

definition id_whitelist_add :: "saver \<Rightarrow> string \<Rightarrow> nat option \<Rightarrow> wl_cfg \<Rightarrow> (string + bool) \<times> wl_cfg" where
  "id_whitelist_add save device_id0 expiry c =
     (let device_id = trim device_id0
      in if device_id = [] then (Inr False, c)
         else if list_ex (\<lambda>e. we_key e = device_id) (wc_id_whitelist c) then
           saved save False (c\<lparr>wc_id_whitelist := set_expiry device_id expiry (wc_id_whitelist c)\<rparr>)
         else if expiry = None \<and> device_id \<in> set (wc_allowed_ids c) then (Inr False, c)
         else saved save True (c\<lparr>wc_id_whitelist := wc_id_whitelist c @ [entry_new device_id expiry]\<rparr>))"

definition id_whitelist_remove :: "saver \<Rightarrow> string \<Rightarrow> wl_cfg \<Rightarrow> (string + bool) \<times> wl_cfg" where
  "id_whitelist_remove save device_id c =
     (let c' = c\<lparr>wc_id_whitelist := filter (\<lambda>e. we_key e \<noteq> device_id) (wc_id_whitelist c),
                 wc_allowed_ids := filter (\<lambda>d. d \<noteq> device_id) (wc_allowed_ids c)\<rparr>
      in if length (wc_id_whitelist c') \<noteq> length (wc_id_whitelist c) \<or>
            length (wc_allowed_ids c') \<noteq> length (wc_allowed_ids c)
         then saved save True c' else (Inr False, c'))"

definition id_whitelist_prune_expired :: "nat \<Rightarrow> wl_cfg \<Rightarrow> nat \<times> wl_cfg" where
  "id_whitelist_prune_expired now c =
     (let kept = filter (entry_active now) (wc_id_whitelist c)
      in (length (wc_id_whitelist c) - length kept, c\<lparr>wc_id_whitelist := kept\<rparr>))"

section \<open>Lists in files\<close>

text \<open>
  The text of a file is cut at line ends; the carriage return that \<^verbatim>\<open>lines\<close> would drop goes with the trimming of
  the line. \<open>None\<close> for the date is a line to skip.
\<close>

definition newline :: char where "newline = CHR 0x0A"

definition parse_csv_expiry :: "(string \<Rightarrow> nat option) \<Rightarrow> string \<Rightarrow> nat option option" where
  "parse_csv_expiry parse s = (if s = [] then Some None else map_option Some (parse s))"

text \<open>The first piece and the second, if there is one, each trimmed.\<close>

definition csv_parts :: "string \<Rightarrow> string \<times> string" where
  "csv_parts s =
     (case split_on CHR '','' s of
        [] \<Rightarrow> ([], [])
      | [a] \<Rightarrow> (trim a, [])
      | a # b # _ \<Rightarrow> (trim a, trim b))"

fun id_import_lines :: "(string \<Rightarrow> nat option) \<Rightarrow> saver \<Rightarrow> string list \<Rightarrow> nat \<Rightarrow> wl_cfg \<Rightarrow> (string + nat) \<times> wl_cfg" where
  "id_import_lines parse save [] imported c = (Inr imported, c)"
| "id_import_lines parse save (l # ls) imported c =
     (let line = trim l
      in if line = [] \<or> starts_with line ''#'' then id_import_lines parse save ls imported c
         else case strip_prefix ''id:'' line of
           None \<Rightarrow> id_import_lines parse save ls imported c
         | Some rest \<Rightarrow>
             (case csv_parts rest of (device_id, expiry_str) \<Rightarrow>
                if device_id = [] then id_import_lines parse save ls imported c
                else case parse_csv_expiry parse expiry_str of
                  None \<Rightarrow> id_import_lines parse save ls imported c
                | Some expiry \<Rightarrow>
                    (case id_whitelist_add save device_id expiry c of
                       (Inl e, c) \<Rightarrow> (Inl e, c)
                     | (Inr _, c) \<Rightarrow> id_import_lines parse save ls (imported + 1) c)))"

definition id_whitelist_import_csv :: "(string \<Rightarrow> nat option) \<Rightarrow> saver \<Rightarrow> string + string \<Rightarrow> wl_cfg \<Rightarrow> (string + nat) \<times> wl_cfg" where
  "id_whitelist_import_csv parse save content c =
     (case content of
        Inl e \<Rightarrow> (Inl e, c)
      | Inr t \<Rightarrow> id_import_lines parse save (split_on newline t) 0 c)"

fun import_lines :: "(string \<Rightarrow> nat option) \<Rightarrow> saver \<Rightarrow> string list \<Rightarrow> nat \<Rightarrow> wl_cfg \<Rightarrow> (string + nat) \<times> wl_cfg" where
  "import_lines parse save [] imported c = (Inr imported, c)"
| "import_lines parse save (l # ls) imported c =
     (let line = trim l
      in if line = [] \<or> starts_with line ''#'' then import_lines parse save ls imported c
         else let (add, rest) = (case strip_prefix ''id:'' line of
                      Some rest \<Rightarrow> (id_whitelist_add, rest)
                    | None \<Rightarrow> (whitelist_add, line))
              in case csv_parts rest of (key, expiry_str) \<Rightarrow>
                if key = [] then import_lines parse save ls imported c
                else case parse_csv_expiry parse expiry_str of
                  None \<Rightarrow> import_lines parse save ls imported c
                | Some expiry \<Rightarrow>
                    (case add save key expiry c of
                       (Inl e, c) \<Rightarrow> (Inl e, c)
                     | (Inr _, c) \<Rightarrow> import_lines parse save ls (imported + 1) c))"

definition whitelist_import_csv :: "(string \<Rightarrow> nat option) \<Rightarrow> saver \<Rightarrow> string + string \<Rightarrow> wl_cfg \<Rightarrow> (string + nat) \<times> wl_cfg" where
  "whitelist_import_csv parse save content c =
     (case content of
        Inl e \<Rightarrow> (Inl e, c)
      | Inr t \<Rightarrow> import_lines parse save (split_on newline t) 0 c)"

definition expiry_text :: "(nat \<Rightarrow> string) \<Rightarrow> string \<Rightarrow> wl_entry list \<Rightarrow> string" where
  "expiry_text fmt key es =
     (case Option.bind (find (\<lambda>e. we_key e = key) es) we_expiry of Some t \<Rightarrow> fmt t | None \<Rightarrow> [])"

definition ID_HEADER :: string where "ID_HEADER = ''# id:<device-id>,expiry (RFC3339, empty = permanent)'' @ [newline]"

definition id_line :: "(nat \<Rightarrow> string) \<Rightarrow> wl_cfg \<Rightarrow> string \<Rightarrow> string" where
  "id_line fmt c device_id = ''id:'' @ device_id @ '','' @ expiry_text fmt device_id (wc_id_whitelist c) @ [newline]"

definition id_whitelist_export_csv :: "(nat \<Rightarrow> string) \<Rightarrow> nat \<Rightarrow> wl_cfg \<Rightarrow> string" where
  "id_whitelist_export_csv fmt now c = ID_HEADER @ concat (map (id_line fmt c) (id_whitelist_active_ids now c))"

definition WL_HEADER :: string where
  "WL_HEADER = ''# pattern,expiry (RFC3339, empty = permanent); id:<device-id>[,expiry]'' @ [newline]"

definition whitelist_export_csv :: "(nat \<Rightarrow> string) \<Rightarrow> nat \<Rightarrow> wl_cfg \<Rightarrow> string" where
  "whitelist_export_csv fmt now c =
     WL_HEADER @
     concat (map (\<lambda>p. p @ '','' @ expiry_text fmt p (wc_whitelist c) @ [newline]) (whitelist_active_patterns now c)) @
     concat (map (id_line fmt c) (id_whitelist_active_ids now c))"

section \<open>What the lists allow\<close>

lemma set_push_active: "set (push_active now es acc) = set acc \<union> we_key ` {e \<in> set es. entry_active now e}"
  by (induction now es acc rule: push_active.induct) auto

lemma active_ids_iff:
  "x \<in> set (id_whitelist_active_ids now c) \<longleftrightarrow>
     x \<in> set (wc_allowed_ids c) \<or> (\<exists>e \<in> set (wc_id_whitelist c). we_key e = x \<and> entry_active now e)"
  by (auto simp: id_whitelist_active_ids_def set_push_active)

lemma id_check_active: "id_whitelist_check now d c \<longleftrightarrow> trim d \<in> set (id_whitelist_active_ids now c)"
  by (auto simp: id_whitelist_check_def active_ids_iff list_ex_iff Let_def)

text \<open>Each identifier has one entry at most.\<close>

definition wl_ok :: "wl_cfg \<Rightarrow> bool" where
  "wl_ok c \<longleftrightarrow> distinct (map we_key (wc_id_whitelist c)) \<and> distinct (map we_key (wc_whitelist c))"

lemma set_expiry_keys [simp]: "map we_key (set_expiry key expiry es) = map we_key es"
  by (induction key expiry es rule: set_expiry.induct) auto

lemma saved_cfg [simp]: "snd (saved save b c) = c"
  by (simp add: saved_def split: option.split)

lemma wl_ok_add: "wl_ok c \<Longrightarrow> wl_ok (snd (id_whitelist_add save d x c))" "wl_ok c \<Longrightarrow> wl_ok (snd (whitelist_add save d x c))"
  by (auto simp: wl_ok_def id_whitelist_add_def whitelist_add_def entry_new_def Let_def list_ex_iff)

lemma wl_ok_remove: "wl_ok c \<Longrightarrow> wl_ok (snd (id_whitelist_remove save d c))" "wl_ok c \<Longrightarrow> wl_ok (snd (whitelist_remove save d c))"
  by (auto simp: wl_ok_def id_whitelist_remove_def whitelist_remove_def Let_def distinct_map_filter)

lemma set_expiry_set:
  "distinct (map we_key es) \<Longrightarrow> key \<in> we_key ` set es \<Longrightarrow>
     set (set_expiry key expiry es) = insert \<lparr>we_key = key, we_expiry = expiry\<rparr> {e \<in> set es. we_key e \<noteq> key}"
proof (induction key expiry es rule: set_expiry.induct)
  case (2 key expiry e es)
  show ?case
  proof (cases "we_key e = key")
    case True
    with 2(2) have "key \<notin> we_key ` set es" by auto
    then have "\<forall>x \<in> set es. we_key x \<noteq> key" by (metis image_eqI)
    moreover have "e\<lparr>we_expiry := expiry\<rparr> = \<lparr>we_key = key, we_expiry = expiry\<rparr>" using True by simp
    ultimately show ?thesis using True by auto
  next
    case False
    with 2 show ?thesis by auto
  qed
qed simp

definition lasts :: "nat \<Rightarrow> nat option \<Rightarrow> bool" where
  "lasts now expiry = (case expiry of None \<Rightarrow> True | Some t \<Rightarrow> now < t)"

lemma entry_active_lasts: "entry_active now e = lasts now (we_expiry e)"
  by (simp add: entry_active_def lasts_def)

text \<open>An addition gives the identifier its new end and leaves the others.\<close>

lemma id_add_entries:
  assumes "wl_ok c" and "trim d \<noteq> []" and "expiry \<noteq> None \<or> trim d \<notin> set (wc_allowed_ids c)"
  shows "set (wc_id_whitelist (snd (id_whitelist_add save d expiry c))) =
    insert \<lparr>we_key = trim d, we_expiry = expiry\<rparr> {e \<in> set (wc_id_whitelist c). we_key e \<noteq> trim d}"
proof (cases "list_ex (\<lambda>e. we_key e = trim d) (wc_id_whitelist c)")
  case True
  then obtain e where e: "e \<in> set (wc_id_whitelist c)" "we_key e = trim d" by (auto simp: list_ex_iff)
  have "trim d \<in> we_key ` set (wc_id_whitelist c)" using imageI [OF e(1), of we_key] e(2) by simp
  then show ?thesis
    using set_expiry_set [of "wc_id_whitelist c" "trim d" expiry] assms(1,2) True
    by (simp add: id_whitelist_add_def wl_ok_def Let_def)
next
  case False
  then have "{e \<in> set (wc_id_whitelist c). we_key e \<noteq> trim d} = set (wc_id_whitelist c)" by (auto simp: list_ex_iff)
  with False assms(2,3) show ?thesis by (auto simp: id_whitelist_add_def entry_new_def Let_def)
qed

lemma id_add_allowed [simp]: "wc_allowed_ids (snd (id_whitelist_add save d expiry c)) = wc_allowed_ids c"
  by (simp add: id_whitelist_add_def Let_def)

text \<open>
  C38. Adding and removing an identifier does what it says to that identifier and nothing to any other. An
  identifier that is not on the permanent list is allowed after it was added exactly until its end, and a
  removed one is not allowed; also when saving fails.
\<close>
theorem id_whitelist_updates:
  assumes "wl_ok c" and "trim d \<noteq> []" and "trim d \<notin> set (wc_allowed_ids c)"
  shows "(x \<in> set (id_whitelist_active_ids now (snd (id_whitelist_add save d expiry c))) \<longleftrightarrow>
      (if x = trim d then lasts now expiry else x \<in> set (id_whitelist_active_ids now c))) \<and>
    (x \<in> set (id_whitelist_active_ids now (snd (id_whitelist_remove save d c))) \<longleftrightarrow>
      x \<noteq> d \<and> x \<in> set (id_whitelist_active_ids now c))"
proof (rule conjI)
  show "x \<in> set (id_whitelist_active_ids now (snd (id_whitelist_add save d expiry c))) \<longleftrightarrow>
      (if x = trim d then lasts now expiry else x \<in> set (id_whitelist_active_ids now c))"
    using id_add_entries [OF assms(1,2), of expiry save] assms(3) by (auto simp: active_ids_iff entry_active_lasts)
next
  show "x \<in> set (id_whitelist_active_ids now (snd (id_whitelist_remove save d c))) \<longleftrightarrow>
      x \<noteq> d \<and> x \<in> set (id_whitelist_active_ids now c)"
    by (auto simp: active_ids_iff id_whitelist_remove_def Let_def)
qed

text \<open>
  C39. A stored identifier that ends in a star opens the list. The connection handler stores the identifier a
  client reports for itself when the user approves the connection, and the handshake reads the stored text as
  a pattern: once \<open>p*\<close> is stored, every identifier that starts with \<open>p\<close> is on the list for good.
\<close>
theorem stored_star_opens:
  assumes "wl_ok c" and "trim d = p @ ''*''" and "p \<noteq> []" and "starts_with (trim x) p"
  shows "list_ex (id_matches_whitelist x) (id_whitelist_active_ids now (snd (id_whitelist_add save d None c)))"
proof -
  have d: "trim d \<noteq> []" using assms(2) by simp
  have "trim d \<in> set (id_whitelist_active_ids now (snd (id_whitelist_add save d None c)))"
    using id_add_entries [OF assms(1) d, of None save]
    by (cases "trim d \<in> set (wc_allowed_ids c)") (auto simp: active_ids_iff entry_active_lasts lasts_def)
  moreover have "id_matches_whitelist x (trim d)"
    using assms(2-4) trim_idem [of d] by (simp add: id_matches_whitelist_def Let_def)
  ultimately show ?thesis by (auto simp: list_ex_iff)
qed

text \<open>
  A limit on a permanent identifier has no effect: it stays allowed at every time.
\<close>

lemma limit_ignored:
  "d \<in> set (wc_allowed_ids c) \<Longrightarrow> d \<in> set (id_whitelist_active_ids now (snd (id_whitelist_add save d (Some t) c)))"
  by (simp add: active_ids_iff)

text \<open>
  The handshake and the configuration read a domain pattern differently. They agree on a pattern with a
  wildcard; a plain domain, which the configuration documents to match itself only, also lets in every
  subdomain when a client connects.
\<close>
theorem pattern_reading_differs:
  "domain_matches_whitelist d p \<longleftrightarrow> whitelist_matches d p \<or>
     (trim p \<noteq> [] \<and> \<not> starts_with (trim p) ''*.'' \<and> ends_with d (''.'' @ trim p))"
  by (auto simp: domain_matches_whitelist_def whitelist_matches_def strip_prefix_def Let_def)

section \<open>Lists that are written and read again\<close>

definition plain_field :: "string \<Rightarrow> bool" where
  "plain_field d \<longleftrightarrow> d \<noteq> [] \<and> trim d = d \<and> CHR '','' \<notin> set d \<and> newline \<notin> set d"

lemma trim_ends: "s \<noteq> [] \<Longrightarrow> \<not> is_white (hd s) \<Longrightarrow> \<not> is_white (last s) \<Longrightarrow> trim s = s"
proof -
  assume s: "s \<noteq> []" "\<not> is_white (hd s)" "\<not> is_white (last s)"
  have "dropWhile is_white s = s" using s(1,2) by (cases s) simp_all
  moreover have "dropWhile is_white (rev s) = rev s"
    using s(1,3) by (cases s rule: rev_cases) simp_all
  ultimately show ?thesis by (simp add: trim_def)
qed

lemma trim_fixed_ends:
  assumes "trim s = s" and "s \<noteq> []"
  shows "\<not> is_white (last s)"
proof -
  have "s = rev (dropWhile is_white (rev (dropWhile is_white s)))" using assms(1) by (simp add: trim_def)
  then have r: "rev s = dropWhile is_white (rev (dropWhile is_white s))" by (metis rev_rev_ident)
  then have "\<not> is_white (hd (rev s))" using assms(2) by (metis hd_dropWhile rev_is_Nil_conv)
  with assms(2) show ?thesis by (simp add: hd_rev)
qed

lemma split_lines:
  "\<forall>l \<in> set ls. c \<notin> set l \<Longrightarrow> split_on c (concat (map (\<lambda>l. l @ [c]) ls)) = ls @ [[]]"
  by (induction ls) (simp_all add: split_on_append)

text \<open>The line of an identifier adds it with its end.\<close>

definition id_text :: "(nat \<Rightarrow> string) \<Rightarrow> (string \<Rightarrow> nat option) \<Rightarrow> string \<Rightarrow> string" where
  "id_text fmt f d = ''id:'' @ d @ '','' @ (case f d of Some t \<Rightarrow> fmt t | None \<Rightarrow> [])"

definition dates_ok :: "(string \<Rightarrow> nat option) \<Rightarrow> (nat \<Rightarrow> string) \<Rightarrow> nat option \<Rightarrow> bool" where
  "dates_ok parse fmt x \<longleftrightarrow> (case x of None \<Rightarrow> True | Some t \<Rightarrow> parse (fmt t) = Some t \<and> plain_field (fmt t))"

lemma import_id_text:
  assumes "plain_field d" and "dates_ok parse fmt (f d)"
  shows "id_import_lines parse save (id_text fmt f d # ls) n c =
    (case id_whitelist_add save d (f d) c of
       (Inl e, c) \<Rightarrow> (Inl e, c)
     | (Inr _, c) \<Rightarrow> id_import_lines parse save ls (n + 1) c)"
proof -
  let ?x = "case f d of Some t \<Rightarrow> fmt t | None \<Rightarrow> []"
  have x: "trim ?x = ?x" "CHR '','' \<notin> set ?x" "?x \<noteq> [] \<Longrightarrow> \<not> is_white (last ?x)"
    using assms(2) trim_fixed_ends [of ?x] by (auto simp: dates_ok_def plain_field_def trim_plain split: option.splits)
  have "trim (id_text fmt f d) = id_text fmt f d"
    by (rule trim_ends) (use x(3) in \<open>auto simp: id_text_def is_white_def\<close>)
  moreover have "strip_prefix ''id:'' (id_text fmt f d) = Some (d @ '','' @ ?x)"
    by (simp add: id_text_def strip_prefix_def starts_with_def)
  moreover have "csv_parts (d @ '','' @ ?x) = (d, ?x)"
    using assms(1) x by (simp add: csv_parts_def split_on_append split_on_piece plain_field_def)
  moreover have "parse_csv_expiry parse ?x = Some (f d)"
    using assms(2) by (auto simp: parse_csv_expiry_def dates_ok_def plain_field_def split: option.split)
  ultimately show ?thesis
    using assms(1) by (simp add: Let_def plain_field_def) (simp add: id_text_def starts_with_def)
qed

text \<open>Reading a list of such lines adds the identifiers one after another.\<close>

abbreviation never_fails :: saver where "never_fails \<equiv> \<lambda>_. None"

definition add_all :: "(string \<Rightarrow> nat option) \<Rightarrow> string list \<Rightarrow> wl_cfg \<Rightarrow> wl_cfg" where
  "add_all f ds c = fold (\<lambda>d c. snd (id_whitelist_add never_fails d (f d) c)) ds c"

lemma add_saved: "\<not> isl (fst (id_whitelist_add never_fails d x c))"
  by (simp add: id_whitelist_add_def saved_def Let_def)

lemma import_added:
  assumes "plain_field d" and "dates_ok parse fmt (f d)"
  shows "id_import_lines parse never_fails (id_text fmt f d # ls) n c =
    id_import_lines parse never_fails ls (n + 1) (snd (id_whitelist_add never_fails d (f d) c))"
  unfolding import_id_text [of d parse fmt f, OF assms]
  using add_saved [of d "f d" c]
  by (cases "id_whitelist_add never_fails d (f d) c") (auto split: sum.split)

lemma comment_skipped:
  "trim h = h \<Longrightarrow> starts_with h ''#'' \<Longrightarrow> id_import_lines parse save (h # ls) n c = id_import_lines parse save ls n c"
  by simp

lemma import_texts:
  "\<forall>d \<in> set ds. plain_field d \<and> dates_ok parse fmt (f d) \<Longrightarrow>
     id_import_lines parse never_fails (map (id_text fmt f) ds @ ls) n c =
     id_import_lines parse never_fails ls (n + length ds) (add_all f ds c)"
proof (induction ds arbitrary: n c)
  case Nil
  then show ?case by (simp add: add_all_def)
next
  case (Cons d ds)
  have "id_import_lines parse never_fails (id_text fmt f d # map (id_text fmt f) ds @ ls) n c =
    id_import_lines parse never_fails (map (id_text fmt f) ds @ ls) (n + 1) (snd (id_whitelist_add never_fails d (f d) c))"
    using Cons.prems by (intro import_added) simp_all
  then show ?case using Cons.IH [of "n + 1" "snd (id_whitelist_add never_fails d (f d) c)"] Cons.prems
    by (simp add: add_all_def)
qed

lemma add_all_entries:
  "wl_ok c \<Longrightarrow> wc_allowed_ids c = [] \<Longrightarrow> \<forall>d \<in> set ds. plain_field d \<Longrightarrow>
     wc_allowed_ids (add_all f ds c) = [] \<and>
     set (wc_id_whitelist (add_all f ds c)) =
       (\<lambda>d. \<lparr>we_key = d, we_expiry = f d\<rparr>) ` set ds \<union> {e \<in> set (wc_id_whitelist c). we_key e \<notin> set ds}"
proof (induction ds arbitrary: c)
  case Nil
  then show ?case by (simp add: add_all_def)
next
  case (Cons d ds)
  let ?c = "snd (id_whitelist_add never_fails d (f d) c)"
  have d: "trim d = d" "d \<noteq> []" using Cons.prems(3) by (auto simp: plain_field_def)
  have "set (wc_id_whitelist ?c) = insert \<lparr>we_key = d, we_expiry = f d\<rparr> {e \<in> set (wc_id_whitelist c). we_key e \<noteq> d}"
    using id_add_entries [of c d "f d" never_fails] Cons.prems d by simp
  moreover have "add_all f (d # ds) c = add_all f ds ?c" by (simp add: add_all_def)
  ultimately show ?case using Cons.IH [of ?c] Cons.prems wl_ok_add(1) [of c never_fails d "f d"] by auto
qed

lemma find_entry: "distinct (map we_key es) \<Longrightarrow> e \<in> set es \<Longrightarrow> find (\<lambda>x. we_key x = we_key e) es = Some e"
  by (induction es) (auto simp: rev_image_eqI)

definition id_end :: "wl_cfg \<Rightarrow> string \<Rightarrow> nat option" where
  "id_end c d = Option.bind (find (\<lambda>e. we_key e = d) (wc_id_whitelist c)) we_expiry"

lemma exported_lines:
  "id_whitelist_export_csv fmt now c =
     concat (map (\<lambda>l. l @ [newline])
       (''# id:<device-id>,expiry (RFC3339, empty = permanent)'' # map (id_text fmt (id_end c)) (id_whitelist_active_ids now c)))"
  by (simp add: id_whitelist_export_csv_def ID_HEADER_def id_line_def [abs_def] id_text_def expiry_text_def id_end_def comp_def)

lemma id_end_entry: "wl_ok c \<Longrightarrow> e \<in> set (wc_id_whitelist c) \<Longrightarrow> id_end c (we_key e) = we_expiry e"
  by (simp add: id_end_def wl_ok_def find_entry)

lemma id_end_permanent: "d \<notin> we_key ` set (wc_id_whitelist c) \<Longrightarrow> id_end c d = None"
proof -
  assume "d \<notin> we_key ` set (wc_id_whitelist c)"
  then have "find (\<lambda>e. we_key e = d) (wc_id_whitelist c) = None" by (auto simp: find_None_iff)
  then show ?thesis by (simp add: id_end_def)
qed

lemma import_export_run:
  assumes "\<forall>d \<in> set (id_whitelist_active_ids now c). plain_field d \<and> dates_ok parse fmt (id_end c d)"
    and "\<forall>d. newline \<notin> set (id_text fmt (id_end c) d) \<or> d \<notin> set (id_whitelist_active_ids now c)"
  shows "id_whitelist_import_csv parse never_fails (Inr (id_whitelist_export_csv fmt now c)) c0 =
    (Inr (length (id_whitelist_active_ids now c)), add_all (id_end c) (id_whitelist_active_ids now c) c0)"
proof -
  let ?hdr = "''# id:<device-id>,expiry (RFC3339, empty = permanent)''"
  let ?texts = "map (id_text fmt (id_end c)) (id_whitelist_active_ids now c)"
  have h: "newline \<notin> set ?hdr" "trim ?hdr = ?hdr" "starts_with ?hdr ''#''"
    by (simp add: newline_def, rule trim_ends) (simp_all add: is_white_def starts_with_def)
  have "split_on newline (id_whitelist_export_csv fmt now c) = (?hdr # ?texts) @ [[]]"
    unfolding exported_lines by (rule split_lines) (use assms(2) h(1) in auto)
  then have "id_whitelist_import_csv parse never_fails (Inr (id_whitelist_export_csv fmt now c)) c0 =
      id_import_lines parse never_fails (?hdr # ?texts @ [[]]) 0 c0"
    by (simp add: id_whitelist_import_csv_def)
  also have "\<dots> = id_import_lines parse never_fails (?texts @ [[]]) 0 c0"
    by (rule comment_skipped [OF h(2,3)])
  also have "\<dots> = id_import_lines parse never_fails [[]] (0 + length (id_whitelist_active_ids now c))
      (add_all (id_end c) (id_whitelist_active_ids now c) c0)"
    by (rule import_texts) (rule assms(1))
  finally show ?thesis by (simp add: trim_def Let_def)
qed

lemma id_text_line: "plain_field d \<Longrightarrow> dates_ok parse fmt (f d) \<Longrightarrow> newline \<notin> set (id_text fmt f d)"
  by (auto simp: id_text_def plain_field_def dates_ok_def newline_def split: option.splits)

definition empty_wl :: "bool \<Rightarrow> wl_cfg" where
  "empty_wl enforce =
     \<lparr>wc_allowed_domains = [], wc_whitelist = [], wc_allowed_ids = [], wc_id_whitelist = [], wc_enforce = enforce\<rparr>"

lemma empty_wl_ok [simp]: "wl_ok (empty_wl b)" "wc_allowed_ids (empty_wl b) = []" "wc_id_whitelist (empty_wl b) = []"
  by (simp_all add: empty_wl_def wl_ok_def)

text \<open>The identifiers that are active at a time and stay so until a later one are those that were exported and last.\<close>

lemma active_later:
  assumes "wl_ok c" and "now \<le> t" and "\<forall>d \<in> set (wc_allowed_ids c). d \<notin> we_key ` set (wc_id_whitelist c)"
  shows "x \<in> set (id_whitelist_active_ids t c) \<longleftrightarrow> x \<in> set (id_whitelist_active_ids now c) \<and> lasts t (id_end c x)"
proof (cases "x \<in> set (wc_allowed_ids c)")
  case True
  then have "id_end c x = None" using assms(3) id_end_permanent by simp
  with True show ?thesis by (simp add: active_ids_iff lasts_def)
next
  case False
  have "lasts now y" if "lasts t y" for y using that assms(2) by (auto simp: lasts_def split: option.splits)
  with False show ?thesis
    using id_end_entry [OF assms(1)] by (auto simp: active_ids_iff entry_active_lasts)
qed

text \<open>
  C40. A list of identifiers that is exported and imported into an empty configuration allows the same
  identifiers at every later time, and each exported line is counted: for identifiers without commas and line
  ends, dates that are printed so that they can be read again, and no end stored for a permanent identifier.
\<close>
theorem id_csv_roundtrip:
  assumes "wl_ok c" and "now \<le> t"
    and "\<forall>d \<in> set (id_whitelist_active_ids now c). plain_field d \<and> dates_ok parse fmt (id_end c d)"
    and "\<forall>d \<in> set (wc_allowed_ids c). d \<notin> we_key ` set (wc_id_whitelist c)"
  shows "case id_whitelist_import_csv parse never_fails (Inr (id_whitelist_export_csv fmt now c)) (empty_wl b) of
    (r, c') \<Rightarrow> r = Inr (length (id_whitelist_active_ids now c)) \<and>
      set (id_whitelist_active_ids t c') = set (id_whitelist_active_ids t c)"
proof -
  let ?ids = "id_whitelist_active_ids now c"
  let ?c = "add_all (id_end c) ?ids (empty_wl b)"
  have run: "id_whitelist_import_csv parse never_fails (Inr (id_whitelist_export_csv fmt now c)) (empty_wl b) =
      (Inr (length ?ids), ?c)"
    using assms(3) id_text_line by (intro import_export_run) blast+
  have "wc_allowed_ids ?c = []" "set (wc_id_whitelist ?c) = (\<lambda>d. \<lparr>we_key = d, we_expiry = id_end c d\<rparr>) ` set ?ids"
    using add_all_entries [of "empty_wl b" ?ids "id_end c"] assms(3) by simp_all
  then have "x \<in> set (id_whitelist_active_ids t ?c) \<longleftrightarrow> x \<in> set (id_whitelist_active_ids t c)" for x
    using active_later [OF assms(1,2,4), of x] by (auto simp: active_ids_iff entry_active_lasts)
  then show ?thesis unfolding run by auto
qed

section \<open>The properties on a concrete list\<close>

text \<open>One permanent identifier and one that ends at the time 100.\<close>

definition desk_list :: wl_cfg where
  "desk_list = \<lparr>wc_allowed_domains = [], wc_whitelist = [], wc_allowed_ids = [''desk''],
     wc_id_whitelist = [\<lparr>we_key = ''guest'', we_expiry = Some 100\<rparr>], wc_enforce = True\<rparr>"

definition tally :: "nat \<Rightarrow> string" where "tally n = replicate n CHR ''1''"

definition read_tally :: "string \<Rightarrow> nat option" where
  "read_tally s = (if list_all (\<lambda>c. c = CHR ''1'') s then Some (length s) else None)"

lemma desk_list_ok: "wl_ok desk_list"
  by (simp add: wl_ok_def desk_list_def)

lemma desk_list_active: "id_whitelist_active_ids 5 desk_list = [''desk'', ''guest'']"
  by (simp add: id_whitelist_active_ids_def desk_list_def entry_active_def)

lemma desk_list_ends: "id_end desk_list ''desk'' = None" "id_end desk_list ''guest'' = Some 100"
  by (simp_all add: id_end_def desk_list_def)

lemma tally_ok: "0 < n \<Longrightarrow> dates_ok read_tally tally (Some n)"
proof -
  assume "0 < n"
  moreover have "trim (tally n) = tally n" by (rule trim_plain) (simp add: tally_def is_white_def list_all_iff)
  ultimately show ?thesis by (simp add: dates_ok_def plain_field_def tally_def read_tally_def newline_def list_all_iff)
qed

theorem id_whitelist_updates_witness:
  "''guest'' \<notin> set (id_whitelist_active_ids 9 (snd (id_whitelist_add never_fails ''guest'' (Some 7) desk_list)))"
proof -
  have t: "trim ''guest'' = ''guest''" by (simp add: trim_def is_white_def)
  show ?thesis
    using id_whitelist_updates [of desk_list "''guest''" "''guest''" 9 never_fails "Some 7"] desk_list_ok
    unfolding t by (simp add: desk_list_def lasts_def)
qed

theorem stored_star_opens_witness:
  "list_ex (id_matches_whitelist ''peter'') (id_whitelist_active_ids 9 (snd (id_whitelist_add never_fails ''p*'' None desk_list)))"
  by (rule stored_star_opens [of _ _ "''p''"])
    (simp_all add: desk_list_ok trim_def is_white_def starts_with_def)

theorem id_csv_roundtrip_witness:
  "case id_whitelist_import_csv read_tally never_fails (Inr (id_whitelist_export_csv tally 5 desk_list)) (empty_wl True) of
    (r, c') \<Rightarrow> r = Inr 2 \<and> set (id_whitelist_active_ids 50 c') = {''desk'', ''guest''}"
proof -
  have p: "plain_field ''desk''" "plain_field ''guest''"
    by (simp_all add: plain_field_def newline_def trim_def is_white_def)
  have "set (id_whitelist_active_ids 50 desk_list) = {''desk'', ''guest''}"
    by (simp add: id_whitelist_active_ids_def desk_list_def entry_active_def)
  moreover have "length (id_whitelist_active_ids 5 desk_list) = 2" by (simp add: desk_list_active)
  moreover have "\<forall>d \<in> set (id_whitelist_active_ids 5 desk_list). plain_field d \<and> dates_ok read_tally tally (id_end desk_list d)"
    using p tally_ok by (simp add: desk_list_active desk_list_ends dates_ok_def [of _ _ None])
  moreover have "\<forall>d \<in> set (wc_allowed_ids desk_list). d \<notin> we_key ` set (wc_id_whitelist desk_list)"
    by (simp add: desk_list_def)
  ultimately show ?thesis
    using id_csv_roundtrip [OF desk_list_ok, of 5 50 read_tally tally True] by simp
qed

end
