(* ===== verification/Spec2Isabelle.thy ===== *)
theory Spec2Isabelle
  imports Core_RateLimit Core_Multiplex Relay_Rendezvous Relay_Login Relay_Server_Facts Media_Datagram Media_Quality
    Core_Handshake_Facts Core_Channel Device_Ids Dns_Ddns Server_Policy Client_Retry Whitelists
begin

text \<open>
  KirinDesk is a remote-desktop system. A device that shares its screen and a controller find each other by
  DNS records or through a relay, open an encrypted channel after a handshake with signed keys, and send
  input, video and files over it. This library models the parts of the Rust code that decide who is let
  in, what is delivered to whom, and what is kept in the tables, and proves what makes them correct.

  \<^bold>\<open>The parts and how they interact.\<close> A device logs in at the relay server: the client's half is in
  \<^verbatim>\<open>relay/src/auth.rs\<close>, the server's in \<^verbatim>\<open>relay/src/server.rs\<close>, both over the frames of \<^verbatim>\<open>relay/src/protocol.rs\<close>.
  The server's session registers the device in the registry (\<^verbatim>\<open>registry.rs\<close>) with a proof of its key, keeps it
  alive by heartbeats, resolves other devices for it, pairs tunnels, publishes ports through proxies, and
  forwards candidates for hole punching (\<^verbatim>\<open>rendezvous.rs\<close>). Without the relay a device publishes its key
  and addresses by DNS (\<^verbatim>\<open>dns/src\<close>). The channel between controller and device is opened by the handshake of
  \<^verbatim>\<open>core/src/crypto/handshake.rs\<close>. The server behind it decides by the policy of \<^verbatim>\<open>ui/src/policy.rs\<close>, with the
  whitelists of \<^verbatim>\<open>utils/src/config.rs\<close>, the known clients of \<^verbatim>\<open>utils/src/known_hosts.rs\<close>, the temporary window of
  \<^verbatim>\<open>core/src/connection/temp_mode.rs\<close> and the rate limiter of \<^verbatim>\<open>core/src/network/rate_limit.rs\<close>. Over the channel
  run the multiplexer (\<^verbatim>\<open>core/src/connection/multiplex.rs\<close>) and, beside it, media datagrams (\<^verbatim>\<open>media/src\<close>).

  \<^bold>\<open>Theories and code.\<close>
  \<^item> \<^verbatim>\<open>Prelude\<close>, \<^verbatim>\<open>Strings\<close>, \<^verbatim>\<open>NetAddr\<close>, \<^verbatim>\<open>Framing\<close>, \<^verbatim>\<open>Channels\<close>: integers, instants, hash maps, eviction, the
    sliding window; Rust's text; \<^verbatim>\<open>std::net\<close> addresses; length-prefixed frames; unbounded channels
    with their queues and the audit events of \<^verbatim>\<open>relay/src/audit.rs\<close>.
  \<^item> \<^verbatim>\<open>Relay_RateLimit\<close>, \<^verbatim>\<open>Core_RateLimit\<close>: the two limiters. A limiter is a record of its configuration and a table
    of buckets; the time of each call is a parameter.
  \<^item> \<^verbatim>\<open>Relay_Protocol\<close>, \<^verbatim>\<open>Relay_Auth\<close>, \<^verbatim>\<open>Relay_Session\<close>, \<^verbatim>\<open>Relay_Login\<close>: frames, messages and login. An await of the
    code that lets other tasks run ends a stretch; a stretch is one function on the server's state, and a
    login is in a phase between stretches.
  \<^item> \<^verbatim>\<open>Relay_Registry\<close>, \<^verbatim>\<open>Relay_Rendezvous\<close>, \<^verbatim>\<open>Relay_Proxy\<close>, \<^verbatim>\<open>Relay_Proxy_Run\<close>, \<^verbatim>\<open>Relay_Server\<close>, \<^verbatim>\<open>Relay_Server_Facts\<close>:
    the rest of the relay server. The tables behind locks are fields of a state record; the systems of
    interleaved tasks are \<open>inductive\<close> step relations on it with a history of events.
  \<^item> \<^verbatim>\<open>Core_Keys\<close>, \<^verbatim>\<open>Core_TempMode\<close>, \<^verbatim>\<open>Core_Handshake\<close>, \<^verbatim>\<open>Core_Exchange\<close>, \<^verbatim>\<open>Core_Handshake_Facts\<close>, \<^verbatim>\<open>Core_Channel\<close>,
    \<^verbatim>\<open>Core_Multiplex\<close>: keys and ciphers, the window, messages and checks of the handshake, its two sides
    over a message stream, what they guarantee, the encrypted channel, the multiplexer.
  \<^item> \<^verbatim>\<open>Server_Policy\<close>, \<^verbatim>\<open>Known_Hosts\<close>, \<^verbatim>\<open>Whitelists\<close>, \<^verbatim>\<open>Device_Ids\<close>, \<^verbatim>\<open>Client_Retry\<close>: the admission policy and what it
    reads; identifiers and the short codes a user types; the client's waits between attempts.
  \<^item> \<^verbatim>\<open>Dns_Provider\<close>, \<^verbatim>\<open>Dns_Records\<close>, \<^verbatim>\<open>Dns_Ddns\<close>: the interface to a DNS service, the records of a device, the
    worker that keeps them up to date.
  \<^item> \<^verbatim>\<open>Media_Datagram\<close>, \<^verbatim>\<open>Media_Quality\<close>: fragments and reassembly; loss detection, priorities and the adaptive
    quality of a media session.

  \<^bold>\<open>How the code is read.\<close> A struct is a record, an enum a datatype, a fixed-width integer a word; a
  \<^verbatim>\<open>Result\<close> is a sum with the error on the left. A function that mutates its receiver returns the new
  state. Nonces, keys drawn, clocks, random indices and outcomes of the network and the file system are
  arguments. The crypto crates, bincode, base64, JSON and the DNS vendors are not in the repository: they
  are records of functions (\<open>crypto\<close>, \<open>hs_codec\<close>, \<open>crypto_lib\<close>, \<open>meta_codec\<close>), and what a theorem needs of them
  is one of its hypotheses. Log lines are left out.

  \<^bold>\<open>Interfaces.\<close> Locales state what several components share: \<open>sliding_window\<close> (the four rate tables), \<open>frame_codec\<close>
  (the relay's frames and the multiplexer's), \<open>trust_store\<close> (known clients and known hosts), \<open>dns_publisher\<close>
  and the stronger \<open>dns_service\<close> (the in-memory provider). Each is interpreted on the code's model.

  \<^bold>\<open>What the lemmas show.\<close>
  \<^item> Handshake: a server that opens a channel has authenticated its client, a client its server, two honest
    sides meet with one key; the signed payload binds its fields while no text holds the separating bar.
  \<^item> Policy: what an accepted client has shown, a refused client learns nothing but the refusal, a window ends
    with the client it lets in, a known client gets in; whitelist changes, their export and import.
  \<^item> Channel: what is sent is received in order, however the bytes are cut and the reader dropped; the same
    for the multiplexer's four channels, the relay's frames and fragments that arrive in any order.
  \<^item> Relay: no session without the password, no online device without a verified proof, no takeover of an
    identifier, each pair handed out once, work connections joined to the users they were asked for, frames
    forwarded and never altered, table bounds in every reachable state, a session acts only for its device.
  \<^item> Limits: exact conditions for bans, the two limiters in step, what a retrying client meets.
  \<^item> DNS: what is published is found, foreign addresses are kept, when rounds pause.
  \<^item> Where the code falls short of what it documents, a theorem states what it does: among others
    \<open>rotated_key_stale\<close>, \<open>proxy_update_leaks\<close>, \<open>early_return_lost\<close>, \<open>stale_cleanup\<close>, \<open>tunnel_limit_race\<close>, \<open>loss_blind\<close>.

  \<^bold>\<open>Bounds and fuel.\<close> Loops of the code are structural recursion or terminate by a measure: the bytes or chunks
  still to read (\<open>reader_receive\<close>, \<open>demux_loop\<close>, \<open>read_chunks\<close>), the entries over the cap (\<open>evict_to\<close>), the salts
  still to try (\<open>derive_from\<close>). \<open>read_frames\<close> reads a whole stream with fuel; one more than the number of bytes
  is always enough (\<open>read_frames_ends\<close>), and one more than the number of frames is for a stream of frames.
  \<open>wait_for_pair\<close> polls over a list of rounds, each with its time and what other tasks do to the table; that it
  returns is proved from the deadline or the completed pair. \<open>conversation\<close> runs a login for a number of
  turns; three are enough, after which a further turn adds nothing. Hash maps are association lists; see
  \<^verbatim>\<open>Prelude\<close> for what their order stands for.

  \<^bold>\<open>Not modelled.\<close> Graphical and command-line front ends, capture, codecs and GPU code, input injection, the HTTP
  clients of the DNS vendors, the DoH and DoT resolvers, the updater, the mobile bindings, socket set-up and
  the relay's directory database: they are input and output around the logic above or depend on
  services outside the repository. Of the core's connections, file transfer, reconnection and path
  management are not covered.
\<close>

end
